(* ===== verification/Prelude.thy ===== *)
theory Prelude
  imports Main "HOL-Library.AList" "HOL-Library.List_Lexorder" "HOL-Library.Char_ord"
begin

text \<open>
  Shared vocabulary of the development.

  \<^item> Go's built-in maps are association lists: the order of the list stands for the order in
    which a \<^verbatim>\<open>range\<close> loop visits the map, which Go leaves open, so a theorem about all lists
    is a theorem about all iteration orders.  A map that the code only looks up is a HOL map.
  \<^item> \<open>time\<close> is a Go \<^verbatim>\<open>time.Time\<close>: nanoseconds since Go's zero time, so that \<open>0\<close> is the zero
    value for which \<^verbatim>\<open>IsZero\<close> holds; a \<^verbatim>\<open>time.Duration\<close> is a number of nanoseconds.
  \<^item> the parts of Go's \<^verbatim>\<open>strings\<close>, \<^verbatim>\<open>strconv\<close> and \<^verbatim>\<open>slices\<close> packages that the code calls;
  \<^item> the lemma collections \<open>gomap_simps\<close> (lookups and domains of Go maps) and
    \<open>wf_intros\<close> (preservation of well-formedness).
\<close>

named_theorems gomap_simps \<open>lookup, domain and distinctness laws of Go maps\<close>
named_theorems wf_intros \<open>operations preserve their component's well-formedness\<close>

type_synonym time = int
type_synonym duration = int
type_synonym strmap = "string \<rightharpoonup> string"

abbreviation (input) zeroTime :: time where
  "zeroTime \<equiv> 0"

subsection \<open>Go maps\<close>

type_synonym ('k, 'v) gomap = "('k \<times> 'v) list"

abbreviation mget :: "('k, 'v) gomap \<Rightarrow> 'k \<Rightarrow> 'v option" where
  "mget m k \<equiv> map_of m k"

abbreviation mput :: "'k \<Rightarrow> 'v \<Rightarrow> ('k, 'v) gomap \<Rightarrow> ('k, 'v) gomap" where
  "mput k v m \<equiv> AList.update k v m"

abbreviation mdel :: "'k \<Rightarrow> ('k, 'v) gomap \<Rightarrow> ('k, 'v) gomap" where
  "mdel k m \<equiv> AList.delete k m"

abbreviation mkeys :: "('k, 'v) gomap \<Rightarrow> 'k list" where
  "mkeys m \<equiv> map fst m"

definition mok :: "('k, 'v) gomap \<Rightarrow> bool" where
  "mok m \<longleftrightarrow> distinct (mkeys m)"

text \<open>The Go expression \<^verbatim>\<open>m[k]\<close> for a map to numbers: the zero value when the key is absent.\<close>

definition mget0 :: "('k, 'v::zero) gomap \<Rightarrow> 'k \<Rightarrow> 'v" where
  "mget0 m k = (case mget m k of None \<Rightarrow> 0 | Some v \<Rightarrow> v)"

lemma mok_Nil [simp]: "mok []"
  by (simp add: mok_def)

lemma mok_Cons: "mok ((k, v) # m) \<longleftrightarrow> k \<notin> fst ` set m \<and> mok m"
  by (simp add: mok_def)

lemma mget_mput [gomap_simps]: "mget (mput k v m) j = (if j = k then Some v else mget m j)"
  by (simp add: update_conv')

lemma mget_mdel [gomap_simps]: "mget (mdel k m) j = (if j = k then None else mget m j)"
  by (simp add: AList.delete_conv')

lemma mok_mput [wf_intros]: "mok m \<Longrightarrow> mok (mput k v m)"
  by (simp add: mok_def distinct_update)

lemma mok_mdel [wf_intros]: "mok m \<Longrightarrow> mok (mdel k m)"
  by (simp add: mok_def AList.distinct_delete)

lemma mget_Some_iff: "mok m \<Longrightarrow> mget m k = Some v \<longleftrightarrow> (k, v) \<in> set m"
  by (simp add: mok_def)

lemma mget_None_iff: "mget m k = None \<longleftrightarrow> k \<notin> fst ` set m"
  by (simp add: map_of_eq_None_iff)

lemma mput_not_Nil [simp]: "mput k v m \<noteq> []"
  by (cases m) (auto split: if_splits)

lemma mget_Nil_iff: "(\<forall>k. mget m k = None) \<longleftrightarrow> m = []"
proof
  assume none: "\<forall>k. mget m k = None"
  show "m = []"
  proof (cases m)
    case (Cons p rest)
    obtain k v where "p = (k, v)" by (cases p)
    with Cons have "mget m k = Some v" by simp
    with none show ?thesis by simp
  qed simp
qed simp

lemma mget0_mput [gomap_simps]: "mget0 (mput k v m) j = (if j = k then v else mget0 m j)"
  by (simp add: mget0_def mget_mput)

lemma set_mkeys_mput [gomap_simps]: "fst ` set (mput k v m) = insert k (fst ` set m)"
  using dom_update [of k v m] by (simp add: dom_map_of_conv_image_fst)

lemma in_set_mput: "x \<in> set (mput k v m) \<Longrightarrow> x = (k, v) \<or> x \<in> set m"
  by (induction m) (auto split: if_splits)

lemma set_mkeys_mdel [gomap_simps]: "fst ` set (mdel k m) = fst ` set m - {k}"
  by (auto simp: AList.delete_eq)

subsection \<open>Numbers at Go's widths\<close>

text \<open>An arithmetic result stored in an \<^verbatim>\<open>int64\<close>: two's complement wrap-around.\<close>

definition wrap64 :: "int \<Rightarrow> int" where
  "wrap64 x = (x + 2 ^ 63) mod 2 ^ 64 - 2 ^ 63"

lemma wrap64_id: "- (2 ^ 63) \<le> x \<Longrightarrow> x < 2 ^ 63 \<Longrightarrow> wrap64 x = x"
  by (simp add: wrap64_def)

subsection \<open>Strings\<close>

text \<open>\<^verbatim>\<open>strings.Compare\<close>: byte-wise lexicographic order.\<close>

definition strings_Compare :: "string \<Rightarrow> string \<Rightarrow> int" where
  "strings_Compare a b = (if a < b then -1 else if b < a then 1 else 0)"

lemma strings_Compare_neg [simp]: "strings_Compare a b < 0 \<longleftrightarrow> a < b"
  by (auto simp: strings_Compare_def)

lemma strings_Compare_zero [simp]: "strings_Compare a b = 0 \<longleftrightarrow> a = b"
  by (auto simp: strings_Compare_def)

lemma strings_Compare_le [simp]: "strings_Compare a b \<le> 0 \<longleftrightarrow> a \<le> b"
  by (auto simp: strings_Compare_def)

text \<open>\<^verbatim>\<open>strings.Split(s, sep)\<close> for a one-byte separator.\<close>

fun strings_Split :: "char \<Rightarrow> string \<Rightarrow> string list" where
  "strings_Split sep [] = [[]]"
| "strings_Split sep (c # cs) =
     (if c = sep then [] # strings_Split sep cs
      else (case strings_Split sep cs of
              [] \<Rightarrow> [[c]]
            | p # ps \<Rightarrow> (c # p) # ps))"

lemma strings_Split_not_Nil [simp]: "strings_Split sep s \<noteq> []"
  by (induction s) (auto split: list.splits)

lemma strings_Split_none: "sep \<notin> set s \<Longrightarrow> strings_Split sep s = [s]"
  by (induction s) auto

lemma strings_Split_append:
  "sep \<notin> set s \<Longrightarrow> strings_Split sep (s @ sep # t) = s # strings_Split sep t"
  by (induction s) auto

lemma length_strings_Split: "length (strings_Split sep s) = Suc (length (filter ((=) sep) s))"
proof (induction s)
  case (Cons c cs)
  then show ?case
    by (cases "strings_Split sep cs") auto
qed simp

text \<open>\<^verbatim>\<open>strings.Join\<close>.\<close>

fun strings_Join :: "string list \<Rightarrow> string \<Rightarrow> string" where
  "strings_Join [] sep = []"
| "strings_Join [x] sep = x"
| "strings_Join (x # y # ys) sep = x @ sep @ strings_Join (y # ys) sep"

text \<open>\<^verbatim>\<open>strings.TrimSpace\<close> and \<^verbatim>\<open>strings.Trim(s, " ")\<close>.\<close>

definition isSpace :: "char \<Rightarrow> bool" where
  "isSpace c \<longleftrightarrow> c \<in> {CHR '' '', CHR 0x09, CHR 0x0A, CHR 0x0B, CHR 0x0C, CHR 0x0D}"

definition trimWith :: "(char \<Rightarrow> bool) \<Rightarrow> string \<Rightarrow> string" where
  "trimWith p s = rev (dropWhile p (rev (dropWhile p s)))"

definition strings_TrimSpace :: "string \<Rightarrow> string" where
  "strings_TrimSpace s = trimWith isSpace s"

definition hasPrefix :: "string \<Rightarrow> string \<Rightarrow> bool" where
  "hasPrefix s p \<longleftrightarrow> take (length p) s = p"

lemma hasPrefix_append [simp]: "hasPrefix (p @ s) p"
  by (simp add: hasPrefix_def)

text \<open>\<^verbatim>\<open>%q\<close> of a printable string.\<close>

definition strconv_Quote :: "string \<Rightarrow> string" where
  "strconv_Quote s =
     CHR 0x22 # concat (map (\<lambda>c. if c = CHR 0x22 \<or> c = CHR 0x5C then [CHR 0x5C, c] else [c]) s) @ [CHR 0x22]"

subsection \<open>Decimal numbers\<close>

definition digitChar :: "nat \<Rightarrow> char" where
  "digitChar d = char_of (48 + d)"

definition isDigit :: "char \<Rightarrow> bool" where
  "isDigit c \<longleftrightarrow> 48 \<le> (of_char c :: nat) \<and> (of_char c :: nat) \<le> 57"

definition digitVal :: "char \<Rightarrow> nat" where
  "digitVal c = of_char c - 48"

text \<open>\<^verbatim>\<open>strconv.Itoa\<close> / \<^verbatim>\<open>strconv.FormatInt(_, 10)\<close>.\<close>

fun showNat :: "nat \<Rightarrow> string" where
  "showNat n = (if n < 10 then [digitChar n] else showNat (n div 10) @ [digitChar (n mod 10)])"

declare showNat.simps [simp del]

definition strconv_Itoa :: "int \<Rightarrow> string" where
  "strconv_Itoa i = (if i < 0 then CHR ''-'' # showNat (nat (- i)) else showNat (nat i))"

definition readNat :: "string \<Rightarrow> nat" where
  "readNat s = foldl (\<lambda>n c. 10 * n + digitVal c) 0 s"

text \<open>
  \<^verbatim>\<open>strconv.ParseInt(s, 10, bits)\<close>: an optional sign, then at least one decimal digit and nothing
  else; out-of-range values are errors.
\<close>

definition strconv_ParseInt :: "nat \<Rightarrow> string \<Rightarrow> int option" where
  "strconv_ParseInt bits s =
     (let neg = (s \<noteq> [] \<and> hd s = CHR ''-'');
          body = (if s \<noteq> [] \<and> (hd s = CHR ''-'' \<or> hd s = CHR ''+'') then tl s else s);
          v = (if neg then - int (readNat body) else int (readNat body))
      in if body = [] \<or> \<not> list_all isDigit body then None
         else if - (2 ^ (bits - 1)) \<le> v \<and> v < 2 ^ (bits - 1) then Some v else None)"

lemma of_char_digitChar: "d < 10 \<Longrightarrow> (of_char (digitChar d) :: nat) = 48 + d"
  by (simp add: digitChar_def)

lemma digitVal_digitChar [simp]: "d < 10 \<Longrightarrow> digitVal (digitChar d) = d"
  by (simp add: digitVal_def of_char_digitChar)

lemma isDigit_digitChar [simp]: "d < 10 \<Longrightarrow> isDigit (digitChar d)"
  by (simp add: isDigit_def of_char_digitChar)

lemma showNat_not_Nil [simp]: "showNat n \<noteq> []"
  by (subst showNat.simps) simp

lemma showNat_digits: "list_all isDigit (showNat n)"
proof (induction n rule: showNat.induct)
  case (1 n)
  then show ?case by (subst showNat.simps) auto
qed

lemma readNat_snoc: "readNat (s @ [c]) = 10 * readNat s + digitVal c"
  by (simp add: readNat_def)

lemma readNat_showNat [simp]: "readNat (showNat n) = n"
proof (induction n rule: showNat.induct)
  case (1 n)
  show ?case
  proof (cases "n < 10")
    case True
    then show ?thesis
      by (subst showNat.simps) (simp add: readNat_def)
  next
    case False
    with 1 have "readNat (showNat (n div 10)) = n div 10" by simp
    with False show ?thesis
      by (subst showNat.simps) (simp add: readNat_snoc)
  qed
qed

lemma hd_showNat_not_sign: "hd (showNat n) \<noteq> CHR ''-''" "hd (showNat n) \<noteq> CHR ''+''"
proof -
  have "isDigit (hd (showNat n))"
    using showNat_digits [of n] by (cases "showNat n") auto
  then show "hd (showNat n) \<noteq> CHR ''-''" "hd (showNat n) \<noteq> CHR ''+''"
    by (auto simp: isDigit_def)
qed

text \<open>Printing and parsing a number of the given width round-trips.\<close>

lemma ParseInt_Itoa:
  assumes "- (2 ^ (bits - 1)) \<le> i" and "i < 2 ^ (bits - 1)"
  shows "strconv_ParseInt bits (strconv_Itoa i) = Some i"
proof (cases "i < 0")
  case True
  with assms show ?thesis
    by (simp add: strconv_ParseInt_def strconv_Itoa_def Let_def showNat_digits)
next
  case False
  with assms show ?thesis
    by (simp add: strconv_ParseInt_def strconv_Itoa_def Let_def showNat_digits
        hd_showNat_not_sign)
qed

subsection \<open>Sorting\<close>

text \<open>
  \<^verbatim>\<open>slices.SortFunc\<close> and \<^verbatim>\<open>slices.SortStableFunc\<close> with a three-way comparison: insertion that
  puts an element behind the equal ones already there, that is, a stable sort.
\<close>

fun insertBy :: "('a \<Rightarrow> 'a \<Rightarrow> int) \<Rightarrow> 'a \<Rightarrow> 'a list \<Rightarrow> 'a list" where
  "insertBy cmp x [] = [x]"
| "insertBy cmp x (y # ys) = (if cmp x y \<le> 0 then x # y # ys else y # insertBy cmp x ys)"

fun slices_SortFunc :: "('a \<Rightarrow> 'a \<Rightarrow> int) \<Rightarrow> 'a list \<Rightarrow> 'a list" where
  "slices_SortFunc cmp [] = []"
| "slices_SortFunc cmp (x # xs) = insertBy cmp x (slices_SortFunc cmp xs)"

lemma set_insertBy [simp]: "set (insertBy cmp x ys) = insert x (set ys)"
  by (induction ys) auto

lemma length_insertBy [simp]: "length (insertBy cmp x ys) = Suc (length ys)"
  by (induction ys) auto

lemma set_SortFunc [simp]: "set (slices_SortFunc cmp xs) = set xs"
  by (induction xs) auto

lemma length_SortFunc [simp]: "length (slices_SortFunc cmp xs) = length xs"
  by (induction xs) auto

lemma distinct_insertBy [simp]: "distinct (insertBy cmp x ys) \<longleftrightarrow> x \<notin> set ys \<and> distinct ys"
  by (induction ys) auto

lemma distinct_SortFunc [simp]: "distinct (slices_SortFunc cmp xs) \<longleftrightarrow> distinct xs"
  by (induction xs) auto

lemma sorted_insertBy:
  assumes tot: "\<And>a b. \<not> cmp a b \<le> 0 \<Longrightarrow> cmp b a \<le> 0"
    and tr: "\<And>a b c. cmp a b \<le> 0 \<Longrightarrow> cmp b c \<le> 0 \<Longrightarrow> cmp a c \<le> 0"
    and "sorted_wrt (\<lambda>a b. cmp a b \<le> 0) ys"
  shows "sorted_wrt (\<lambda>a b. cmp a b \<le> (0::int)) (insertBy cmp x ys)"
  using assms(3) by (induction ys) (auto intro: tot dest: tr)

lemma sorted_SortFunc:
  assumes "\<And>a b. \<not> cmp a b \<le> 0 \<Longrightarrow> cmp b a \<le> 0"
    and "\<And>a b c. cmp a b \<le> 0 \<Longrightarrow> cmp b c \<le> 0 \<Longrightarrow> cmp a c \<le> 0"
  shows "sorted_wrt (\<lambda>a b. cmp a b \<le> (0::int)) (slices_SortFunc cmp xs)"
  by (induction xs) (auto intro: sorted_insertBy assms)

end
