(* ===== verification/Generics.thy ===== *)
theory Generics
  imports Prelude
begin

text \<open>
  The generic slice and map helpers of \<^verbatim>\<open>pkg/controller/utils/generics.go\<close>.

  Slices are lists.  The one helper whose callers can observe a write to a shared backing array,
  \<^verbatim>\<open>SliceRemoveOnce\<close>, returns in addition what the caller's own slice holds afterwards: Go's
  \<^verbatim>\<open>slices.Delete\<close> shifts the tail left in place and clears the last element.
\<close>

fun SliceIndexFeature_from :: "int \<Rightarrow> 'e list \<Rightarrow> ('e \<Rightarrow> 'f) \<Rightarrow> 'f \<Rightarrow> int" where
  "SliceIndexFeature_from idx [] extract seek = -1"
| "SliceIndexFeature_from idx (x # xs) extract seek =
     (if extract x = seek then idx else SliceIndexFeature_from (idx + 1) xs extract seek)"

definition SliceIndexFeature :: "'e list \<Rightarrow> ('e \<Rightarrow> 'f) \<Rightarrow> 'f \<Rightarrow> int" where
  "SliceIndexFeature slice extract seek = SliceIndexFeature_from 0 slice extract seek"

definition SliceGetByFeature :: "'e list \<Rightarrow> ('e \<Rightarrow> 'f) \<Rightarrow> 'f \<Rightarrow> 'e option" where
  "SliceGetByFeature slice extract seek =
     (let idx = SliceIndexFeature slice extract seek
      in if idx \<ge> 0 then Some (slice ! nat idx) else None)"

fun SliceMap :: "'d list \<Rightarrow> ('d \<Rightarrow> 'err + 'r) \<Rightarrow> 'r list \<times> 'err list" where
  "SliceMap [] mapFn = ([], [])"
| "SliceMap (d # ds) mapFn =
     (let (mapped, errors) = SliceMap ds mapFn
      in (case mapFn d of Inr r \<Rightarrow> (r # mapped, errors) | Inl e \<Rightarrow> (mapped, e # errors)))"

fun SliceFilter :: "'e list \<Rightarrow> ('e \<Rightarrow> bool) \<Rightarrow> 'e list" where
  "SliceFilter [] keep = []"
| "SliceFilter (x # xs) keep = (if keep x then x # SliceFilter xs keep else SliceFilter xs keep)"

definition Not1 :: "('a \<Rightarrow> bool) \<Rightarrow> 'a \<Rightarrow> bool" where
  "Not1 predicate arg = (\<not> predicate arg)"

fun slices_Index :: "'e list \<Rightarrow> 'e \<Rightarrow> int" where
  "slices_Index [] goner = -1"
| "slices_Index (x # xs) goner =
     (if x = goner then 0 else (let i = slices_Index xs goner in if i < 0 then -1 else i + 1))"

text \<open>
  \<^verbatim>\<open>slices.Delete(s, i, i+1)\<close>: the result, and what \<open>s\<close> itself holds afterwards (\<open>zero\<close> is the
  zero value of the element type).
\<close>

definition slices_Delete1 :: "'e \<Rightarrow> 'e list \<Rightarrow> nat \<Rightarrow> 'e list \<times> 'e list" where
  "slices_Delete1 zero s i = (let r = take i s @ drop (Suc i) s in (r, r @ [zero]))"

definition SliceRemoveOnce :: "'e \<Rightarrow> 'e list \<Rightarrow> 'e \<Rightarrow> 'e list \<times> bool \<times> 'e list" where
  "SliceRemoveOnce zero slice goner =
     (let idx = slices_Index slice goner
      in if idx < 0 then (slice, False, slice)
         else (let (r, after) = slices_Delete1 zero slice (nat idx) in (r, True, after)))"

definition MapSet :: "('k \<rightharpoonup> 'v) \<Rightarrow> 'k \<Rightarrow> 'v \<Rightarrow> ('k \<rightharpoonup> 'v)" where
  "MapSet urMap key val = urMap(key \<mapsto> val)"

fun MapIsSubset :: "('k, 'v) gomap \<Rightarrow> ('k \<rightharpoonup> 'v) \<Rightarrow> bool" where
  "MapIsSubset [] super = True"
| "MapIsSubset ((k, v) # sub) super =
     (case super k of
        None \<Rightarrow> False
      | Some sv \<Rightarrow> if sv \<noteq> v then False else MapIsSubset sub super)"

subsection \<open>Lookup by feature\<close>

lemma SliceIndexFeature_from_eq:
  "SliceIndexFeature_from i xs f v =
     (if \<exists>x \<in> set xs. f x = v then i + int (length (takeWhile (\<lambda>x. f x \<noteq> v) xs)) else -1)"
  by (induction xs arbitrary: i) auto

lemma SliceIndexFeature_eq:
  "SliceIndexFeature xs f v =
     (if \<exists>x \<in> set xs. f x = v then int (length (takeWhile (\<lambda>x. f x \<noteq> v) xs)) else -1)"
  by (simp add: SliceIndexFeature_def SliceIndexFeature_from_eq)

lemma SliceIndexFeature_neg_iff: "SliceIndexFeature xs f v < 0 \<longleftrightarrow> (\<forall>x \<in> set xs. f x \<noteq> v)"
  by (auto simp: SliceIndexFeature_eq)

lemma takeWhile_hit: "\<exists>x \<in> set xs. f x = v \<Longrightarrow>
   length (takeWhile (\<lambda>x. f x \<noteq> v) xs) < length xs \<and> f (xs ! length (takeWhile (\<lambda>x. f x \<noteq> v) xs)) = v"
  by (induction xs) auto

lemma SliceIndexFeature_hit:
  assumes "0 \<le> SliceIndexFeature xs f v"
  shows "nat (SliceIndexFeature xs f v) < length xs"
    and "f (xs ! nat (SliceIndexFeature xs f v)) = v"
  using assms takeWhile_hit [of xs f v] by (auto simp: SliceIndexFeature_eq split: if_splits)

text \<open>\<^verbatim>\<open>SliceGetByFeature\<close> is the library's \<open>find\<close>.\<close>

lemma find_takeWhile: "\<exists>x \<in> set xs. f x = v \<Longrightarrow>
   find (\<lambda>x. f x = v) xs = Some (xs ! length (takeWhile (\<lambda>x. f x \<noteq> v) xs))"
  by (induction xs) auto

lemma SliceGetByFeature_find: "SliceGetByFeature xs f v = find (\<lambda>x. f x = v) xs"
  using find_takeWhile [of xs f v]
  by (auto simp: SliceGetByFeature_def SliceIndexFeature_eq find_None_iff2 Let_def)

lemma SliceGetByFeature_Some:
  "SliceGetByFeature xs f v = Some x \<Longrightarrow> x \<in> set xs \<and> f x = v"
  by (auto simp: SliceGetByFeature_find find_Some_iff in_set_conv_nth)

subsection \<open>Map, filter, remove\<close>

lemma SliceFilter_filter [simp]: "SliceFilter xs keep = filter keep xs"
  by (induction xs) auto

lemma fst_SliceMap_Inr: "fst (SliceMap xs (\<lambda>x. Inr (f x))) = map f xs"
  by (induction xs) (auto simp: Let_def split: prod.splits)

lemma SliceMap_errors_Nil:
  "snd (SliceMap xs g) = [] \<longleftrightarrow> (\<forall>x \<in> set xs. \<exists>r. g x = Inr r)"
  by (induction xs) (auto simp: Let_def split: prod.splits sum.splits)

lemma SliceMap_no_errors:
  "snd (SliceMap xs g) = [] \<Longrightarrow> list_all2 (\<lambda>x r. g x = Inr r) xs (fst (SliceMap xs g))"
  by (induction xs) (auto simp: Let_def split: prod.splits sum.splits)

lemma fst_SliceMap_filter:
  "fst (SliceMap xs (\<lambda>x. if p x then Inl e else Inr x)) = filter (\<lambda>x. \<not> p x) xs"
  by (induction xs) (auto simp: Let_def split: prod.splits)

lemma slices_Index_neg_iff: "slices_Index xs g < 0 \<longleftrightarrow> g \<notin> set xs"
  by (induction xs) (auto simp: Let_def)

lemma take_drop_Index: "g \<in> set xs \<Longrightarrow>
   take (nat (slices_Index xs g)) xs @ drop (Suc (nat (slices_Index xs g))) xs = remove1 g xs"
proof (induction xs)
  case (Cons x xs)
  show ?case
  proof (cases "x = g")
    case False
    with Cons have g: "g \<in> set xs" by simp
    then have "0 \<le> slices_Index xs g" using slices_Index_neg_iff [of xs g] by simp
    with False Cons.IH [OF g] show ?thesis
      by (simp add: Let_def nat_add_distrib)
  qed simp
qed simp

lemma SliceRemoveOnce_eq:
  "SliceRemoveOnce zero xs g =
     (if g \<in> set xs then (remove1 g xs, True, remove1 g xs @ [zero]) else (xs, False, xs))"
  using slices_Index_neg_iff [of xs g] take_drop_Index [of g xs]
  by (auto simp: SliceRemoveOnce_def slices_Delete1_def Let_def)

lemma MapIsSubset_iff: "MapIsSubset sub super \<longleftrightarrow> (\<forall>(k, v) \<in> set sub. super k = Some v)"
  by (induction sub super rule: MapIsSubset.induct) (auto split: option.splits)

end
