(* ===== verification/Kube.thy ===== *)
theory Kube
  imports Generics "HOL-Library.Word"
begin

text \<open>
  The API objects the controllers read and write, with the fields the code uses, and the shared
  names of \<^verbatim>\<open>pkg/api/interface.go\<close> and \<^verbatim>\<open>pkg/controller/common/interface.go\<close>.

  Go embeds \<^verbatim>\<open>ObjectMeta\<close> in every object; the records extend \<open>objectMeta\<close> the same way, so that
  \<open>Labels pod\<close> reads like \<^verbatim>\<open>pod.Labels\<close>.  A Go map that is only looked up and assigned (labels,
  annotations, resource lists) is a HOL map, a nil map being the empty one.
\<close>

subsection \<open>Shared names\<close>

definition ServerPatchAnnotationName :: string where
  "ServerPatchAnnotationName = ''dual-pods.llm-d.ai/server-patch''"
definition InferenceServerConfigAnnotationName :: string where
  "InferenceServerConfigAnnotationName = ''dual-pods.llm-d.ai/inference-server-config''"
definition StatusAnnotationName :: string where
  "StatusAnnotationName = ''dual-pods.llm-d.ai/status''"
definition InferenceServerContainerName :: string where
  "InferenceServerContainerName = ''inference-server''"
definition AcceleratorsAnnotationName :: string where
  "AcceleratorsAnnotationName = ''dual-pods.llm-d.ai/accelerators''"
definition DualLabelName :: string where
  "DualLabelName = ''dual-pods.llm-d.ai/dual''"
definition InstanceLabelName :: string where
  "InstanceLabelName = ''dual-pods.llm-d.ai/instance''"
definition SleepingLabelName :: string where
  "SleepingLabelName = ''dual-pods.llm-d.ai/sleeping''"

definition RequesterAnnotationKey :: string where
  "RequesterAnnotationKey = ''dual-pods.llm-d.ai/requester''"
definition ComponentLabelKey :: string where
  "ComponentLabelKey = ''app.kubernetes.io/component''"
definition LauncherComponentLabelValue :: string where
  "LauncherComponentLabelValue = ''launcher''"
definition LauncherConfigNameLabelKey :: string where
  "LauncherConfigNameLabelKey = ''dual-pods.llm-d.ai/launcher-config-name''"
definition NodeNameLabelKey :: string where
  "NodeNameLabelKey = ''dual-pods.llm-d.ai/node-name''"
definition LauncherConfigHashAnnotationKey :: string where
  "LauncherConfigHashAnnotationKey = ''dual-pods.llm-d.ai/launcher-config-hash''"
definition LauncherTemplateHashAnnotationKey :: string where
  "LauncherTemplateHashAnnotationKey = ''dual-pods.llm-d.ai/launcher-populator-template-hash''"
definition LauncherStuckLabelKey :: string where
  "LauncherStuckLabelKey = ''dual-pods.llm-d.ai/launcher-stuck''"
definition LauncherServicePort :: int where
  "LauncherServicePort = 8001"

lemmas shared_name_defs =
  ServerPatchAnnotationName_def InferenceServerConfigAnnotationName_def StatusAnnotationName_def
  InferenceServerContainerName_def AcceleratorsAnnotationName_def DualLabelName_def
  InstanceLabelName_def SleepingLabelName_def RequesterAnnotationKey_def ComponentLabelKey_def
  LauncherComponentLabelValue_def LauncherConfigNameLabelKey_def NodeNameLabelKey_def
  LauncherConfigHashAnnotationKey_def LauncherTemplateHashAnnotationKey_def
  LauncherStuckLabelKey_def

text \<open>The label keys of a launcher Pod differ, and so do the annotation keys.\<close>

lemma label_keys_distinct [simp]:
  "ComponentLabelKey \<noteq> LauncherConfigNameLabelKey" "LauncherConfigNameLabelKey \<noteq> ComponentLabelKey"
  "ComponentLabelKey \<noteq> NodeNameLabelKey" "NodeNameLabelKey \<noteq> ComponentLabelKey"
  "LauncherConfigNameLabelKey \<noteq> NodeNameLabelKey" "NodeNameLabelKey \<noteq> LauncherConfigNameLabelKey"
  "SleepingLabelName \<noteq> ComponentLabelKey" "ComponentLabelKey \<noteq> SleepingLabelName"
  "SleepingLabelName \<noteq> LauncherConfigNameLabelKey" "LauncherConfigNameLabelKey \<noteq> SleepingLabelName"
  "SleepingLabelName \<noteq> NodeNameLabelKey" "NodeNameLabelKey \<noteq> SleepingLabelName"
  "DualLabelName \<noteq> LauncherConfigNameLabelKey" "LauncherConfigNameLabelKey \<noteq> DualLabelName"
  "DualLabelName \<noteq> SleepingLabelName" "SleepingLabelName \<noteq> DualLabelName"
  "DualLabelName \<noteq> InstanceLabelName" "InstanceLabelName \<noteq> DualLabelName"
  by (simp_all add: shared_name_defs)

lemma annotation_keys_distinct [simp]:
  "LauncherTemplateHashAnnotationKey \<noteq> LauncherConfigHashAnnotationKey"
  "LauncherConfigHashAnnotationKey \<noteq> LauncherTemplateHashAnnotationKey"
  "RequesterAnnotationKey \<noteq> LauncherTemplateHashAnnotationKey"
  "LauncherTemplateHashAnnotationKey \<noteq> RequesterAnnotationKey"
  "RequesterAnnotationKey \<noteq> LauncherConfigHashAnnotationKey"
  "LauncherConfigHashAnnotationKey \<noteq> RequesterAnnotationKey"
  "RequesterAnnotationKey \<noteq> StatusAnnotationName" "StatusAnnotationName \<noteq> RequesterAnnotationKey"
  "StatusAnnotationName \<noteq> AcceleratorsAnnotationName"
  "AcceleratorsAnnotationName \<noteq> StatusAnnotationName"
  by (simp_all add: shared_name_defs)

subsection \<open>Errors of API calls\<close>

text \<open>
  The errors the code tells apart with \<^verbatim>\<open>apierrors.IsNotFound\<close>, \<^verbatim>\<open>IsGone\<close> and \<^verbatim>\<open>IsConflict\<close>; every
  other one carries its message.
\<close>

datatype apiError = ErrNotFound | ErrGone | ErrConflict | ErrOther string

definition isNotFound :: "apiError \<Rightarrow> bool" where
  "isNotFound e \<longleftrightarrow> e = ErrNotFound"
definition isGone :: "apiError \<Rightarrow> bool" where
  "isGone e \<longleftrightarrow> e = ErrGone"
definition isConflict :: "apiError \<Rightarrow> bool" where
  "isConflict e \<longleftrightarrow> e = ErrConflict"

lemmas apiError_defs = isNotFound_def isGone_def isConflict_def

text \<open>
  Errors as the code builds them: a fresh message, an error of an API call, or a message in front of
  another error (\<^verbatim>\<open>fmt.Errorf("...: %w", err)\<close>), what a launcher answered with its status code
  (\<^verbatim>\<open>launcherError\<close>), or several errors together (\<^verbatim>\<open>errors.Join\<close>);
  \<open>GoPanic\<close> stands for a run-time panic in a place that returns an error otherwise.  A work function returns to its queue an optional
  error and whether to try again; \<open>Panics\<close> is a Go run-time panic, here the use of a nil pointer.
\<close>

datatype goError =
  ErrorText string
| ApiErr apiError
| Wrapped string goError
| LauncherError nat "goError option"
| Joined "goError list"
| GoPanic string

type_synonym workResult = "goError option \<times> bool"

datatype outcome = Returns workResult | Panics

subsection \<open>Objects\<close>

record managedFieldsEntry =
  Manager :: string
  mfTime :: "time option"

record ownerReference =
  orAPIVersion :: string
  orKind :: string
  orName :: string
  orUID :: string
  orController :: bool
  orBlockOwnerDeletion :: bool

record objectMeta =
  Name :: string
  Namespace :: string
  GenerateName :: string
  UID :: string
  ResourceVersion :: string
  Generation :: int
  Labels :: strmap
  Annotations :: strmap
  Finalizers :: "string list"
  OwnerReferences :: "ownerReference list"
  CreationTimestamp :: time
  DeletionTimestamp :: "time option"
  ManagedFields :: "managedFieldsEntry list"

text \<open>A probe or container port is an \<^verbatim>\<open>intstr.IntOrString\<close>; its type tag may be neither.\<close>

datatype intOrString = PortInt int | PortString string | PortOther

record httpGetAction =
  probePath :: string
  probePort :: intOrString
  probeScheme :: string

record probe =
  HTTPGet :: "httpGetAction option"
  InitialDelaySeconds :: int
  PeriodSeconds :: int
  TimeoutSeconds :: int
  SuccessThreshold :: int
  FailureThreshold :: int

record envVar =
  evName :: string
  evValue :: string
  evFieldRef :: "string option"

text \<open>
  The fields that no code of the repository looks at are kept together in an opaque rest
  (\<open>volSource\<close>, \<open>vmRest\<close>, \<open>cpRest\<close>, \<open>efSource\<close>, \<open>tolRest\<close>), so that two values that differ only there
  still differ.
\<close>

record volume =
  volName :: string
  volSource :: string

record volumeMount =
  vmName :: string
  vmMountPath :: string
  vmRest :: string

record containerPort =
  cpName :: string
  cpPort :: int
  cpProtocol :: string
  cpRest :: string

record envFromSource =
  efPrefix :: string
  efSource :: string

type_synonym resourceList = "string \<rightharpoonup> int"

text \<open>Resource quantities are counted in thousandths, so that \<^verbatim>\<open>10m\<close> is 10.\<close>

record container =
  ctrName :: string
  Image :: string
  ImagePullPolicy :: string
  Command :: "string list"
  Env :: "envVar list"
  EnvFrom :: "envFromSource list"
  VolumeMounts :: "volumeMount list"
  Ports :: "containerPort list"
  Limits :: "resourceList option"
  Requests :: "resourceList option"
  LivenessProbe :: "probe option"
  ReadinessProbe :: "probe option"

record toleration =
  tolKey :: string
  tolOperator :: string
  tolValue :: string
  tolEffect :: string
  tolRest :: string

record podSpec =
  NodeName :: string
  NodeSelector :: strmap
  Containers :: "container list"
  InitContainers :: "container list"
  EphemeralContainers :: "container list"
  Volumes :: "volume list"
  Tolerations :: "toleration list"
  ImagePullSecrets :: "string list"
  Overhead :: "resourceList option"

datatype podPhase = PodPending | PodRunning | PodSucceeded | PodFailed | PodUnknown

datatype conditionType = PodScheduled | PodReady | OtherCondition string
datatype conditionStatus = ConditionTrue | ConditionFalse | ConditionUnknown

record podCondition =
  condType :: conditionType
  condStatus :: conditionStatus
  LastTransitionTime :: time

text \<open>\<open>csRunning\<close> is the start time of a running container, absent in the other states.\<close>

record containerStatus =
  csName :: string
  csReady :: bool
  csRunning :: "time option"
  RestartCount :: "32 word"

record podStatus =
  Phase :: podPhase
  PodIP :: string
  Conditions :: "podCondition list"
  ContainerStatuses :: "containerStatus list"

record pod = objectMeta +
  Spec :: podSpec
  Status :: podStatus

record node = objectMeta +
  Allocatable :: resourceList
  Unschedulable :: bool

text \<open>Reading a missing annotation or label gives the empty string in Go.\<close>

definition annot :: "'a objectMeta_scheme \<Rightarrow> string \<Rightarrow> string" where
  "annot m k = (case Annotations m k of None \<Rightarrow> [] | Some v \<Rightarrow> v)"

definition lbl :: "'a objectMeta_scheme \<Rightarrow> string \<Rightarrow> string" where
  "lbl m k = (case Labels m k of None \<Rightarrow> [] | Some v \<Rightarrow> v)"

subsection \<open>The repository's own API types\<close>

record embeddedPodTemplateSpec =
  tmplLabels :: strmap
  tmplAnnotations :: strmap
  tmplSpec :: podSpec

record launcherConfig = objectMeta +
  PodTemplate :: embeddedPodTemplateSpec
  MaxInstances :: int
  lcObservedGeneration :: int
  lcErrors :: "string list"

record modelServerConfig =
  mscPort :: int
  mscOptions :: string
  mscEnvVars :: "(string, string) gomap"
  mscLabels :: "(string, string) gomap"
  mscAnnotations :: "(string, string) gomap"

record inferenceServerConfig = objectMeta +
  ModelServerConfig :: modelServerConfig
  LauncherConfigName :: string

record resourceRange =
  rrMin :: "int option"
  rrMax :: "int option"

text \<open>A \<^verbatim>\<open>metav1.LabelSelector\<close> is opaque here: its meaning is code of the Kubernetes libraries.\<close>

record countForLauncher =
  cflLauncherConfigName :: string
  cflLauncherCount :: int

record 'sel launcherPopulationPolicy = objectMeta +
  lppLabelSelector :: 'sel
  lppAllocatableResources :: "(string, resourceRange) gomap"
  lppCountForLauncher :: "countForLauncher list"
  lppObservedGeneration :: int
  lppErrors :: "string list"

subsection \<open>Blank objects, for concrete examples\<close>

definition blankPodSpec :: podSpec where
  "blankPodSpec = \<lparr>NodeName = '''', NodeSelector = Map.empty, Containers = [], InitContainers = [],
     EphemeralContainers = [], Volumes = [], Tolerations = [], ImagePullSecrets = [],
     Overhead = None\<rparr>"

definition blankPodStatus :: podStatus where
  "blankPodStatus = \<lparr>Phase = PodPending, PodIP = '''', Conditions = [], ContainerStatuses = []\<rparr>"

definition blankPod :: pod where
  "blankPod = \<lparr>Name = '''', Namespace = ''ns'', GenerateName = '''', UID = '''',
     ResourceVersion = ''1'', Generation = 1, Labels = Map.empty, Annotations = Map.empty,
     Finalizers = [], OwnerReferences = [], CreationTimestamp = 0, DeletionTimestamp = None,
     ManagedFields = [], Spec = blankPodSpec, Status = blankPodStatus\<rparr>"

definition blankNode :: node where
  "blankNode = \<lparr>Name = '''', Namespace = '''', GenerateName = '''', UID = '''',
     ResourceVersion = ''1'', Generation = 1, Labels = Map.empty, Annotations = Map.empty,
     Finalizers = [], OwnerReferences = [], CreationTimestamp = 0, DeletionTimestamp = None,
     ManagedFields = [], Allocatable = Map.empty, Unschedulable = False\<rparr>"

definition blankLC :: launcherConfig where
  "blankLC = \<lparr>Name = '''', Namespace = ''ns'', GenerateName = '''', UID = '''',
     ResourceVersion = ''1'', Generation = 1, Labels = Map.empty, Annotations = Map.empty,
     Finalizers = [], OwnerReferences = [], CreationTimestamp = 0, DeletionTimestamp = None,
     ManagedFields = [],
     PodTemplate = \<lparr>tmplLabels = Map.empty, tmplAnnotations = Map.empty, tmplSpec = blankPodSpec\<rparr>,
     MaxInstances = 1, lcObservedGeneration = 0, lcErrors = []\<rparr>"

definition blankContainer :: container where
  "blankContainer = \<lparr>ctrName = '''', Image = '''', ImagePullPolicy = '''', Command = [], Env = [],
     EnvFrom = [], VolumeMounts = [], Ports = [], Limits = None, Requests = None,
     LivenessProbe = None, ReadinessProbe = None\<rparr>"

lemmas blank_defs = blankPodSpec_def blankPodStatus_def blankPod_def blankNode_def blankLC_def
  blankContainer_def

end
