(* ===== verification/Pod_Helper.thy ===== *)
theory Pod_Helper
  imports Kube "HOL-Library.Product_Lexorder" "HOL-Library.Multiset"
begin

text \<open>
  \<^verbatim>\<open>pkg/controller/utils/pod-helper.go\<close>: reading Pods (readiness, trouble, the inference server's
  container and port) and building launcher Pod templates.

  \<^verbatim>\<open>json.Marshal\<close> of a Pod and the base64 form of SHA-256 are parameters of the definitions that
  use them (\<open>marshalJSON\<close>, which may fail, and \<open>sha256b64\<close>).
\<close>

subsection \<open>Reading a Pod\<close>

definition GetPodCondition :: "pod \<Rightarrow> conditionType \<Rightarrow> podCondition option" where
  "GetPodCondition p ct = SliceGetByFeature (Conditions (Status p)) condType ct"

definition IsPodReady :: "pod \<Rightarrow> bool" where
  "IsPodReady p =
     (case GetPodCondition p PodReady of
        Some cond \<Rightarrow> condStatus cond = ConditionTrue
      | None \<Rightarrow> False)"

text \<open>The restart counts are summed in an \<^verbatim>\<open>int32\<close>, which wraps around.\<close>

fun sumRestarts :: "containerStatus list \<Rightarrow> 32 word \<Rightarrow> 32 word" where
  "sumRestarts [] acc = acc"
| "sumRestarts (cs # rest) acc = sumRestarts rest (acc + RestartCount cs)"

definition PodIsInTrouble :: "pod \<Rightarrow> bool" where
  "PodIsInTrouble p =
     (if sumRestarts (ContainerStatuses (Status p)) 0 = 0 then False else \<not> IsPodReady p)"

definition GetInferenceServerContainerIndex :: "pod \<Rightarrow> string + int" where
  "GetInferenceServerContainerIndex p =
     (let cIdx = SliceIndexFeature (Containers (Spec p)) ctrName InferenceServerContainerName
      in if cIdx = -1 then Inl (''container not found: '' @ InferenceServerContainerName)
         else Inr cIdx)"

definition GetInferenceServerContainerIndexAndPort :: "pod \<Rightarrow> string + int \<times> int" where
  "GetInferenceServerContainerIndexAndPort p =
     (case GetInferenceServerContainerIndex p of
        Inl err \<Rightarrow> Inl err
      | Inr cIdx \<Rightarrow>
          (let isCtr = Containers (Spec p) ! nat cIdx
           in (case ReadinessProbe isCtr of
                 None \<Rightarrow> Inl ''the inference server container has no readinessProbe''
               | Some rp \<Rightarrow>
                   (case HTTPGet rp of
                      None \<Rightarrow> Inl ''the readinessProbe is not an HTTPGet''
                    | Some get \<Rightarrow>
                        (case probePort get of
                           PortInt n \<Rightarrow> Inr (cIdx, n)
                         | PortString s \<Rightarrow>
                             if s = ''http'' \<or> s = ''HTTP'' then Inr (cIdx, 80)
                             else Inl (''unsupported readinessProbe port '' @ s)
                         | PortOther \<Rightarrow> Inl ''the readinessProbe port has unexpected type'')))))"

subsection \<open>Removing what belongs to an individual Pod\<close>

text \<open>The regular expression \<^verbatim>\<open>^kube-api-access-[a-z0-9]+$\<close>.\<close>

definition isLowerAlnum :: "char \<Rightarrow> bool" where
  "isLowerAlnum c \<longleftrightarrow> isDigit c \<or> (97 \<le> (of_char c :: nat) \<and> (of_char c :: nat) \<le> 122)"

definition apiAccessRE_MatchString :: "string \<Rightarrow> bool" where
  "apiAccessRE_MatchString s =
     (hasPrefix s ''kube-api-access-'' \<and>
      (let rest = drop (length ''kube-api-access-'') s in rest \<noteq> [] \<and> list_all isLowerAlnum rest))"

definition VolumeMountName :: "volumeMount \<Rightarrow> string" where
  "VolumeMountName vmnt = vmName vmnt"

definition removeVolumeMount :: "container \<Rightarrow> string \<Rightarrow> container" where
  "removeVolumeMount ctr volumeName =
     (let mntIdx = SliceIndexFeature (VolumeMounts ctr) VolumeMountName volumeName
      in if mntIdx \<ge> 0
         then ctr\<lparr>VolumeMounts := take (nat mntIdx) (VolumeMounts ctr) @
                                  drop (Suc (nat mntIdx)) (VolumeMounts ctr)\<rparr>
         else ctr)"

definition DeIndividualize :: "podSpec \<Rightarrow> podSpec" where
  "DeIndividualize ps0 =
     (let ps = ps0\<lparr>EphemeralContainers := []\<rparr>;
          volIdx = SliceIndexFeature (Volumes ps) (\<lambda>vol. apiAccessRE_MatchString (volName vol)) True
      in if volIdx \<ge> 0
         then (let nm = volName (Volumes ps ! nat volIdx)
               in ps\<lparr>Volumes := take (nat volIdx) (Volumes ps) @ drop (Suc (nat volIdx)) (Volumes ps),
                     Containers := map (\<lambda>c. removeVolumeMount c nm) (Containers ps),
                     InitContainers := map (\<lambda>c. removeVolumeMount c nm) (InitContainers ps)\<rparr>)
         else ps)"

subsection \<open>Canonical order of the order-independent parts of a template\<close>

definition cmpVolumeMount :: "volumeMount \<Rightarrow> volumeMount \<Rightarrow> int" where
  "cmpVolumeMount a b =
     (let cmp = strings_Compare (vmName a) (vmName b)
      in if cmp \<noteq> 0 then cmp else strings_Compare (vmMountPath a) (vmMountPath b))"

definition cmpPort :: "containerPort \<Rightarrow> containerPort \<Rightarrow> int" where
  "cmpPort a b =
     (let cmp = strings_Compare (cpName a) (cpName b)
      in if cmp \<noteq> 0 then cmp
         else if cpPort a \<noteq> cpPort b then (if cpPort a < cpPort b then -1 else 1)
         else strings_Compare (cpProtocol a) (cpProtocol b))"

definition cmpEnvFrom :: "envFromSource \<Rightarrow> envFromSource \<Rightarrow> int" where
  "cmpEnvFrom a b = strings_Compare (efPrefix a) (efPrefix b)"

definition canonicalizeContainer :: "container \<Rightarrow> container" where
  "canonicalizeContainer c =
     c\<lparr>VolumeMounts := slices_SortFunc cmpVolumeMount (VolumeMounts c),
       Ports := slices_SortFunc cmpPort (Ports c),
       EnvFrom := slices_SortFunc cmpEnvFrom (EnvFrom c)\<rparr>"

definition cmpVolume :: "volume \<Rightarrow> volume \<Rightarrow> int" where
  "cmpVolume a b = strings_Compare (volName a) (volName b)"

definition cmpToleration :: "toleration \<Rightarrow> toleration \<Rightarrow> int" where
  "cmpToleration a b =
     (let c1 = strings_Compare (tolKey a) (tolKey b);
          c2 = strings_Compare (tolOperator a) (tolOperator b);
          c3 = strings_Compare (tolValue a) (tolValue b)
      in if c1 \<noteq> 0 then c1 else if c2 \<noteq> 0 then c2 else if c3 \<noteq> 0 then c3
         else strings_Compare (tolEffect a) (tolEffect b))"

definition canonicalizeTemplateForHash :: "embeddedPodTemplateSpec \<Rightarrow> embeddedPodTemplateSpec" where
  "canonicalizeTemplateForHash template =
     (let spec0 = DeIndividualize (tmplSpec template);
          spec1 = spec0\<lparr>Containers := map canonicalizeContainer (Containers spec0),
                        InitContainers := map canonicalizeContainer (InitContainers spec0)\<rparr>;
          spec2 = spec1\<lparr>Volumes := slices_SortFunc cmpVolume (Volumes spec1),
                        Tolerations := slices_SortFunc cmpToleration (Tolerations spec1),
                        ImagePullSecrets := slices_SortFunc strings_Compare (ImagePullSecrets spec1)\<rparr>
      in template\<lparr>tmplSpec := spec2\<rparr>)"

subsection \<open>Building launcher templates\<close>

definition EnvVarName :: "envVar \<Rightarrow> string" where
  "EnvVarName ev = evName ev"

definition ContainerName :: "container \<Rightarrow> string" where
  "ContainerName ctr = ctrName ctr"

definition mkEnv :: "string \<Rightarrow> string \<Rightarrow> envVar" where
  "mkEnv n v = \<lparr>evName = n, evValue = v, evFieldRef = None\<rparr>"

definition requiredEnvVars :: "envVar list" where
  "requiredEnvVars =
     [mkEnv ''PYTHONPATH'' ''/app'',
      mkEnv ''NVIDIA_VISIBLE_DEVICES'' ''all'',
      mkEnv ''NVIDIA_DRIVER_CAPABILITIES'' ''compute,utility'',
      mkEnv ''VLLM_SERVER_DEV_MODE'' ''1'']"

definition setEnvVar :: "envVar \<Rightarrow> envVar list \<Rightarrow> envVar list" where
  "setEnvVar r env =
     (let i = SliceIndexFeature env EnvVarName (evName r)
      in if i \<ge> 0 then env[nat i := r] else env @ [r])"

definition configureRequiredEnvVars :: "container \<Rightarrow> container" where
  "configureRequiredEnvVars c = c\<lparr>Env := fold setEnvVar requiredEnvVars (Env c)\<rparr>"

definition gpuResource :: string where
  "gpuResource = ''nvidia.com/gpu''"

definition removeGPUResourceLimits :: "container \<Rightarrow> container" where
  "removeGPUResourceLimits c =
     c\<lparr>Limits := map_option (\<lambda>m. m(gpuResource \<mapsto> 0)) (Limits c),
       Requests := map_option (\<lambda>m. m(gpuResource \<mapsto> 0)) (Requests c)\<rparr>"

definition sidecarName :: string where
  "sidecarName = ''state-change-reflector''"

definition notifierContainer :: "string \<Rightarrow> string \<Rightarrow> container" where
  "notifierContainer launcherImage pullPolicy =
     \<lparr>ctrName = sidecarName, Image = launcherImage, ImagePullPolicy = pullPolicy,
      Command = [''python3'', ''/app/launcher_pod_notifier.py''],
      Env = [mkEnv ''LAUNCHER_BASE_URL'' (''http://127.0.0.1:'' @ strconv_Itoa LauncherServicePort),
             \<lparr>evName = ''POD_NAME'', evValue = [], evFieldRef = Some ''metadata.name''\<rparr>,
             \<lparr>evName = ''NAMESPACE'', evValue = [], evFieldRef = Some ''metadata.namespace''\<rparr>],
      EnvFrom = [], VolumeMounts = [], Ports = [],
      Limits = Some [''cpu'' \<mapsto> 100, ''memory'' \<mapsto> 134217728000],
      Requests = Some [''cpu'' \<mapsto> 10, ''memory'' \<mapsto> 67108864000],
      LivenessProbe = None, ReadinessProbe = None\<rparr>"

definition addLauncherNotifierSidecar :: "pod \<Rightarrow> string \<Rightarrow> string \<Rightarrow> pod" where
  "addLauncherNotifierSidecar p launcherImage pullPolicy =
     (let notifier = notifierContainer launcherImage pullPolicy;
          ctrs = Containers (Spec p);
          idx = SliceIndexFeature ctrs ContainerName sidecarName
      in p\<lparr>Spec := (Spec p)\<lparr>Containers :=
             if idx \<ge> 0 then ctrs[nat idx := notifier] else ctrs @ [notifier]\<rparr>\<rparr>)"

definition launcherProbe :: "string \<Rightarrow> int \<Rightarrow> int \<Rightarrow> int \<Rightarrow> probe" where
  "launcherProbe path initialDelay period timeout =
     \<lparr>HTTPGet = Some \<lparr>probePath = path, probePort = PortInt LauncherServicePort, probeScheme = ''HTTP''\<rparr>,
      InitialDelaySeconds = initialDelay, PeriodSeconds = period, TimeoutSeconds = timeout,
      SuccessThreshold = 1, FailureThreshold = 3\<rparr>"

text \<open>The inference server container of a launcher Pod.\<close>

definition launcherContainer :: "container \<Rightarrow> container" where
  "launcherContainer c =
     removeGPUResourceLimits
       ((configureRequiredEnvVars c)
          \<lparr>LivenessProbe := Some (launcherProbe ''/health'' 10 20 1),
           ReadinessProbe := Some (launcherProbe ''/v2/vllm/instances'' 2 5 2)\<rparr>)"

text \<open>The Pod as far as it enters the template hash.\<close>

definition launcherHashInput :: "launcherConfig \<Rightarrow> pod" where
  "launcherHashInput lc =
     (let template = canonicalizeTemplateForHash (PodTemplate lc)
      in \<lparr>Name = [], Namespace = Namespace lc, GenerateName = ''launcher-'' @ Name lc @ ''-'', UID = [],
          ResourceVersion = [], Generation = 0,
          Labels = (tmplLabels template)
             (ComponentLabelKey \<mapsto> LauncherComponentLabelValue,
              LauncherConfigNameLabelKey \<mapsto> Name lc,
              SleepingLabelName \<mapsto> ''true''),
          Annotations = tmplAnnotations template,
          Finalizers = [],
          OwnerReferences =
            [\<lparr>orAPIVersion = ''fma.llm-d.ai/v1alpha1'', orKind = ''LauncherConfig'', orName = Name lc,
              orUID = UID lc, orController = False, orBlockOwnerDeletion = False\<rparr>],
          CreationTimestamp = 0, DeletionTimestamp = None, ManagedFields = [],
          Spec = tmplSpec template, Status = blankPodStatus\<rparr>)"

definition BuildNodeIndependentLauncherTemplate ::
  "(pod \<Rightarrow> string + string) \<Rightarrow> (string \<Rightarrow> string) \<Rightarrow> launcherConfig \<Rightarrow> string + pod \<times> string" where
  "BuildNodeIndependentLauncherTemplate marshalJSON sha256b64 lc =
     (let p0 = launcherHashInput lc
      in (case marshalJSON p0 of
            Inl err \<Rightarrow> Inl (''failed to marshal template for hashing: '' @ err)
          | Inr js \<Rightarrow>
              (let templateHash = sha256b64 js;
                   p1 = p0\<lparr>Annotations := (Annotations p0)(LauncherTemplateHashAnnotationKey \<mapsto> templateHash)\<rparr>
               in (case GetInferenceServerContainerIndex p1 of
                     Inl err \<Rightarrow> Inl err
                   | Inr cIdx \<Rightarrow>
                       (let c = launcherContainer (Containers (Spec p1) ! nat cIdx);
                            p2 = p1\<lparr>Spec := (Spec p1)
                                     \<lparr>Containers := (Containers (Spec p1))[nat cIdx := c],
                                      Overhead := map_option (\<lambda>m. m(gpuResource := None)) (Overhead (Spec p1))\<rparr>\<rparr>
                        in Inr (addLauncherNotifierSidecar p2 (Image c) (ImagePullPolicy c),
                                templateHash))))))"

definition hostnameLabel :: string where
  "hostnameLabel = ''kubernetes.io/hostname''"

definition SpecializeLauncherTemplateToNode :: "(string \<Rightarrow> string) \<Rightarrow> pod \<Rightarrow> string \<Rightarrow> pod" where
  "SpecializeLauncherTemplateToNode sha256b64 nodeIndependent nodeName =
     (let nominalHash = sha256b64 (annot nodeIndependent LauncherTemplateHashAnnotationKey @
                                   '';node='' @ nodeName)
      in nodeIndependent
           \<lparr>Labels := (Labels nodeIndependent)(NodeNameLabelKey \<mapsto> nodeName),
            Spec := (Spec nodeIndependent)
              \<lparr>NodeSelector := (NodeSelector (Spec nodeIndependent))(hostnameLabel \<mapsto> nodeName)\<rparr>,
            Annotations := (Annotations nodeIndependent)(LauncherConfigHashAnnotationKey \<mapsto> nominalHash)\<rparr>)"

subsection \<open>Properties of the readers\<close>

lemma IsPodReady_iff:
  "IsPodReady p \<longleftrightarrow>
     (\<exists>c. find (\<lambda>c. condType c = PodReady) (Conditions (Status p)) = Some c \<and>
          condStatus c = ConditionTrue)"
  by (auto simp: IsPodReady_def GetPodCondition_def SliceGetByFeature_find split: option.splits)

lemma sumRestarts_sum: "sumRestarts css acc = acc + (\<Sum>cs \<leftarrow> css. RestartCount cs)"
  by (induction css acc rule: sumRestarts.induct) (simp_all add: add.assoc)

lemma unat_sumRestarts:
  "(\<Sum>cs \<leftarrow> css. unat (RestartCount cs)) < 2 ^ 32 \<Longrightarrow>
   unat (\<Sum>cs \<leftarrow> css. RestartCount cs) = (\<Sum>cs \<leftarrow> css. unat (RestartCount cs))"
proof (induction css)
  case (Cons cs css)
  then have "unat (\<Sum>c \<leftarrow> css. RestartCount c) = (\<Sum>c \<leftarrow> css. unat (RestartCount c))" by simp
  with Cons.prems show ?case by (simp add: unat_word_ariths)
qed simp

lemma GetInferenceServerContainerIndex_Inr:
  assumes "GetInferenceServerContainerIndex p = Inr i"
  shows "0 \<le> i" and "nat i < length (Containers (Spec p))"
    and "ctrName (Containers (Spec p) ! nat i) = InferenceServerContainerName"
proof -
  have i: "i = SliceIndexFeature (Containers (Spec p)) ctrName InferenceServerContainerName"
    and "i \<noteq> -1"
    using assms by (auto simp: GetInferenceServerContainerIndex_def Let_def split: if_splits)
  then have ge: "0 \<le> SliceIndexFeature (Containers (Spec p)) ctrName InferenceServerContainerName"
    by (auto simp: SliceIndexFeature_eq split: if_splits)
  with i show "0 \<le> i" by simp
  from SliceIndexFeature_hit [OF ge] i
  show "nat i < length (Containers (Spec p))"
    and "ctrName (Containers (Spec p) ! nat i) = InferenceServerContainerName" by simp_all
qed

lemma GetInferenceServerContainerIndex_ok_iff:
  "(\<exists>i. GetInferenceServerContainerIndex p = Inr i) \<longleftrightarrow>
   InferenceServerContainerName \<in> ctrName ` set (Containers (Spec p))"
  by (auto simp: GetInferenceServerContainerIndex_def SliceIndexFeature_eq Let_def
      intro: rev_image_eqI)

subsection \<open>Canonical order\<close>

lemma SortFunc_sort_key:
  assumes "\<And>a b. cmp a b \<le> 0 \<longleftrightarrow> key a \<le> key b"
  shows "slices_SortFunc cmp xs = sort_key (key :: 'a \<Rightarrow> 'k::linorder) xs"
proof (induction xs)
  case (Cons x xs)
  have "insertBy cmp x ys = insort_key key x ys" for ys
    by (induction ys) (auto simp: assms)
  with Cons show ?case by simp
qed simp

lemma SortFunc_perm_eq:
  assumes "\<And>a b. cmp a b \<le> 0 \<longleftrightarrow> key a \<le> key b"
    and "mset xs = mset ys" and "inj_on (key :: 'a \<Rightarrow> 'k::linorder) (set xs)"
  shows "slices_SortFunc cmp xs = slices_SortFunc cmp ys"
proof -
  have "sort_key key xs = sort_key key ys"
    by (rule sort_key_inj_key_eq) (use assms in \<open>simp_all\<close>)
  then show ?thesis by (simp add: SortFunc_sort_key [of cmp key, OF assms(1)])
qed

definition volumeMountKey :: "volumeMount \<Rightarrow> string \<times> string" where
  "volumeMountKey m = (vmName m, vmMountPath m)"
definition portKey :: "containerPort \<Rightarrow> string \<times> int \<times> string" where
  "portKey p = (cpName p, cpPort p, cpProtocol p)"
definition tolerationKey :: "toleration \<Rightarrow> string \<times> string \<times> string \<times> string" where
  "tolerationKey t = (tolKey t, tolOperator t, tolValue t, tolEffect t)"

lemma cmp_le_key [simp]:
  "cmpVolumeMount a b \<le> 0 \<longleftrightarrow> volumeMountKey a \<le> volumeMountKey b"
  "cmpPort c d \<le> 0 \<longleftrightarrow> portKey c \<le> portKey d"
  "cmpEnvFrom e f \<le> 0 \<longleftrightarrow> efPrefix e \<le> efPrefix f"
  "cmpVolume v w \<le> 0 \<longleftrightarrow> volName v \<le> volName w"
  by (auto simp: cmpVolumeMount_def volumeMountKey_def cmpPort_def portKey_def cmpEnvFrom_def
      cmpVolume_def Let_def strings_Compare_def less_eq_prod_def)

lemma cmpToleration_le_key [simp]: "cmpToleration a b \<le> 0 \<longleftrightarrow> tolerationKey a \<le> tolerationKey b"
  by (auto simp: cmpToleration_def tolerationKey_def Let_def strings_Compare_def less_eq_prod_def)

text \<open>
  Two containers, or two templates, that differ only in the order of the slices that are sorted before hashing.
\<close>

definition containerReordered :: "container \<Rightarrow> container \<Rightarrow> bool" where
  "containerReordered c d \<longleftrightarrow>
     d = c\<lparr>VolumeMounts := VolumeMounts d, Ports := Ports d, EnvFrom := EnvFrom d\<rparr> \<and>
     mset (VolumeMounts c) = mset (VolumeMounts d) \<and> mset (Ports c) = mset (Ports d) \<and> mset (EnvFrom c) = mset (EnvFrom d)"

definition specReordered :: "podSpec \<Rightarrow> podSpec \<Rightarrow> bool" where
  "specReordered s t \<longleftrightarrow>
     t = s\<lparr>Containers := Containers t, InitContainers := InitContainers t, Volumes := Volumes t,
           Tolerations := Tolerations t, ImagePullSecrets := ImagePullSecrets t\<rparr> \<and>
     list_all2 containerReordered (Containers s) (Containers t) \<and>
     list_all2 containerReordered (InitContainers s) (InitContainers t) \<and>
     mset (Volumes s) = mset (Volumes t) \<and> mset (Tolerations s) = mset (Tolerations t) \<and>
     mset (ImagePullSecrets s) = mset (ImagePullSecrets t)"

definition templateReordered :: "embeddedPodTemplateSpec \<Rightarrow> embeddedPodTemplateSpec \<Rightarrow> bool" where
  "templateReordered t u \<longleftrightarrow> u = t\<lparr>tmplSpec := tmplSpec u\<rparr> \<and> specReordered (tmplSpec t) (tmplSpec u)"

text \<open>
  No two elements of a sorted slice of a container are equal to the comparison unless they are equal: then only is the
  order after sorting determined.
\<close>

definition containerKeysTell :: "container \<Rightarrow> bool" where
  "containerKeysTell c \<longleftrightarrow> inj_on volumeMountKey (set (VolumeMounts c)) \<and> inj_on portKey (set (Ports c)) \<and> inj_on efPrefix (set (EnvFrom c))"

lemma canonicalizeContainer_reordered:
  assumes "containerReordered c d" "containerKeysTell c"
  shows "canonicalizeContainer c = canonicalizeContainer d"
proof -
  have d: "d = c\<lparr>VolumeMounts := VolumeMounts d, Ports := Ports d, EnvFrom := EnvFrom d\<rparr>"
    using assms by (simp add: containerReordered_def)
  have vm: "slices_SortFunc cmpVolumeMount (VolumeMounts c) = slices_SortFunc cmpVolumeMount (VolumeMounts d)"
    by (rule SortFunc_perm_eq [where key = volumeMountKey])
      (use assms in \<open>auto simp: containerReordered_def containerKeysTell_def\<close>)
  have po: "slices_SortFunc cmpPort (Ports c) = slices_SortFunc cmpPort (Ports d)"
    by (rule SortFunc_perm_eq [where key = portKey])
      (use assms in \<open>auto simp: containerReordered_def containerKeysTell_def\<close>)
  have ef: "slices_SortFunc cmpEnvFrom (EnvFrom c) = slices_SortFunc cmpEnvFrom (EnvFrom d)"
    by (rule SortFunc_perm_eq [where key = efPrefix])
      (use assms in \<open>auto simp: containerReordered_def containerKeysTell_def\<close>)
  show ?thesis
    unfolding canonicalizeContainer_def vm po ef by (subst (2) d) simp
qed

lemma map_canonicalize_reordered:
  "list_all2 containerReordered cs ds \<Longrightarrow> \<forall>c \<in> set cs. containerKeysTell c \<Longrightarrow>
   map canonicalizeContainer cs = map canonicalizeContainer ds"
  by (induction rule: list_all2_induct) (auto dest: canonicalizeContainer_reordered)

lemma DeIndividualize_no_access:
  assumes "\<forall>v \<in> set (Volumes s). \<not> apiAccessRE_MatchString (volName v)"
  shows "DeIndividualize s = s\<lparr>EphemeralContainers := []\<rparr>"
  using assms by (simp add: DeIndividualize_def SliceIndexFeature_eq Let_def)

lemma canonicalize_reordered:
  assumes "templateReordered t u"
    and na: "\<forall>v \<in> set (Volumes (tmplSpec t)). \<not> apiAccessRE_MatchString (volName v)"
    and keys: "inj_on volName (set (Volumes (tmplSpec t)))" "inj_on tolerationKey (set (Tolerations (tmplSpec t)))"
      "\<forall>c \<in> set (Containers (tmplSpec t)) \<union> set (InitContainers (tmplSpec t)). containerKeysTell c"
  shows "canonicalizeTemplateForHash t = canonicalizeTemplateForHash u"
proof -
  let ?s = "tmplSpec t" and ?r = "tmplSpec u"
  have u: "u = t\<lparr>tmplSpec := ?r\<rparr>" and sr: "specReordered ?s ?r"
    using assms(1) by (simp_all add: templateReordered_def)
  have "set (Volumes ?r) = set (Volumes ?s)"
    using sr by (metis specReordered_def set_mset_mset)
  with na have na': "\<forall>v \<in> set (Volumes ?r). \<not> apiAccessRE_MatchString (volName v)" by simp
  have r: "?r = ?s\<lparr>Containers := Containers ?r, InitContainers := InitContainers ?r,
      Volumes := Volumes ?r, Tolerations := Tolerations ?r, ImagePullSecrets := ImagePullSecrets ?r\<rparr>"
    using sr by (simp add: specReordered_def)
  have cs: "map canonicalizeContainer (Containers ?s) = map canonicalizeContainer (Containers ?r)"
    "map canonicalizeContainer (InitContainers ?s) = map canonicalizeContainer (InitContainers ?r)"
    using sr keys(3) by (auto simp: specReordered_def intro: map_canonicalize_reordered)
  have vs: "slices_SortFunc cmpVolume (Volumes ?s) = slices_SortFunc cmpVolume (Volumes ?r)"
    by (rule SortFunc_perm_eq [where key = volName]) (use sr keys in \<open>auto simp: specReordered_def\<close>)
  have ts: "slices_SortFunc cmpToleration (Tolerations ?s) = slices_SortFunc cmpToleration (Tolerations ?r)"
    by (rule SortFunc_perm_eq [where key = tolerationKey]) (use sr keys in \<open>auto simp: specReordered_def\<close>)
  have ps: "slices_SortFunc strings_Compare (ImagePullSecrets ?s) =
      slices_SortFunc strings_Compare (ImagePullSecrets ?r)"
    by (rule SortFunc_perm_eq [where key = id]) (use sr keys in \<open>auto simp: specReordered_def\<close>)
  have "canonicalizeTemplateForHash t = t\<lparr>tmplSpec := ?s\<lparr>EphemeralContainers := [],
      Containers := map canonicalizeContainer (Containers ?r),
      InitContainers := map canonicalizeContainer (InitContainers ?r),
      Volumes := slices_SortFunc cmpVolume (Volumes ?r),
      Tolerations := slices_SortFunc cmpToleration (Tolerations ?r),
      ImagePullSecrets := slices_SortFunc strings_Compare (ImagePullSecrets ?r)\<rparr>\<rparr>"
    by (simp add: canonicalizeTemplateForHash_def DeIndividualize_no_access [OF na] Let_def cs vs ts ps)
  moreover have "canonicalizeTemplateForHash u = t\<lparr>tmplSpec := ?s\<lparr>EphemeralContainers := [],
      Containers := map canonicalizeContainer (Containers ?r),
      InitContainers := map canonicalizeContainer (InitContainers ?r),
      Volumes := slices_SortFunc cmpVolume (Volumes ?r),
      Tolerations := slices_SortFunc cmpToleration (Tolerations ?r),
      ImagePullSecrets := slices_SortFunc strings_Compare (ImagePullSecrets ?r)\<rparr>\<rparr>"
    unfolding canonicalizeTemplateForHash_def DeIndividualize_no_access [OF na'] Let_def
    by (subst u, subst (1) r) simp
  ultimately show ?thesis by simp
qed

subsection \<open>Launcher templates\<close>

lemma ctrName_removeVolumeMount [simp]: "ctrName (removeVolumeMount c n) = ctrName c"
  by (simp add: removeVolumeMount_def Let_def)

lemma ctrNames_canonical:
  "map ctrName (Containers (tmplSpec (canonicalizeTemplateForHash t))) = map ctrName (Containers (tmplSpec t))"
  by (simp add: canonicalizeTemplateForHash_def canonicalizeContainer_def DeIndividualize_def Let_def)

lemma ctrName_launcherContainer [simp]: "ctrName (launcherContainer c) = ctrName c"
  by (simp add: launcherContainer_def removeGPUResourceLimits_def configureRequiredEnvVars_def)

lemma setEnvVar_has: "r \<in> set (setEnvVar r env)"
  using SliceIndexFeature_hit(1) [of env EnvVarName "evName r"]
  by (auto simp: setEnvVar_def Let_def intro: set_update_memI)

lemma setEnvVar_other: "e \<in> set env \<Longrightarrow> evName e \<noteq> evName r \<Longrightarrow> e \<in> set (setEnvVar r env)"
proof -
  assume e: "e \<in> set env" and ne: "evName e \<noteq> evName r"
  show ?thesis
  proof (cases "0 \<le> SliceIndexFeature env EnvVarName (evName r)")
    case True
    let ?i = "nat (SliceIndexFeature env EnvVarName (evName r))"
    from e obtain j where j: "j < length env" "env ! j = e" by (auto simp: in_set_conv_nth)
    with ne SliceIndexFeature_hit(2) [OF True] have "j \<noteq> ?i" by (auto simp: EnvVarName_def)
    with j have "env[?i := r] ! j = e" by simp
    with True j show ?thesis
      by (auto simp: setEnvVar_def Let_def in_set_conv_nth intro!: exI [of _ j])
  qed (use e in \<open>simp add: setEnvVar_def\<close>)
qed

lemma fold_setEnvVar_other:
  "e \<in> set env \<Longrightarrow> evName e \<notin> evName ` set rs \<Longrightarrow> e \<in> set (fold setEnvVar rs env)"
  by (induction rs arbitrary: env) (auto intro: setEnvVar_other)

lemma fold_setEnvVar_has:
  "distinct (map evName rs) \<Longrightarrow> set rs \<subseteq> set (fold setEnvVar rs env)"
  by (induction rs arbitrary: env) (auto intro: setEnvVar_has fold_setEnvVar_other)

lemma requiredEnvVars_set: "set requiredEnvVars \<subseteq> set (Env (configureRequiredEnvVars c))"
  unfolding configureRequiredEnvVars_def
  by (simp, rule fold_setEnvVar_has) (simp add: requiredEnvVars_def mkEnv_def)

lemma ContainerIndex_Annotations [simp]:
  "GetInferenceServerContainerIndex (p\<lparr>Annotations := a\<rparr>) = GetInferenceServerContainerIndex p"
  by (simp add: GetInferenceServerContainerIndex_def)

lemma Build_Inr:
  assumes "BuildNodeIndependentLauncherTemplate mj sha lc = Inr (p, h)"
  obtains js i c p1 where
    "mj (launcherHashInput lc) = Inr js" and "h = sha js"
    and "p1 = (launcherHashInput lc)\<lparr>Annotations :=
           (Annotations (launcherHashInput lc))(LauncherTemplateHashAnnotationKey \<mapsto> h)\<rparr>"
    and "GetInferenceServerContainerIndex p1 = Inr i"
    and "c = launcherContainer (Containers (Spec p1) ! nat i)"
    and "p = addLauncherNotifierSidecar
           (p1\<lparr>Spec := (Spec p1)\<lparr>Containers := (Containers (Spec p1))[nat i := c],
               Overhead := map_option (\<lambda>m. m(gpuResource := None)) (Overhead (Spec p1))\<rparr>\<rparr>)
           (Image c) (ImagePullPolicy c)"
  using assms
  by (auto simp: BuildNodeIndependentLauncherTemplate_def Let_def split: sum.splits)

lemma Spec_launcherHashInput:
  "Spec (launcherHashInput lc) = tmplSpec (canonicalizeTemplateForHash (PodTemplate lc))"
  by (simp add: launcherHashInput_def Let_def)

lemma Labels_addSidecar [simp]:
  "Labels (addLauncherNotifierSidecar p i q) = Labels p"
  "Annotations (addLauncherNotifierSidecar p i q) = Annotations p"
  by (simp_all add: addLauncherNotifierSidecar_def Let_def)

lemma addSidecar_has: "notifierContainer i q \<in> set (Containers (Spec (addLauncherNotifierSidecar p i q)))"
  using SliceIndexFeature_hit(1) [of "Containers (Spec p)" ContainerName sidecarName]
  by (auto simp: addLauncherNotifierSidecar_def Let_def intro: set_update_memI)

lemma addSidecar_keeps:
  assumes "j < length (Containers (Spec p))" and "ctrName (Containers (Spec p) ! j) \<noteq> sidecarName"
  shows "Containers (Spec (addLauncherNotifierSidecar p i q)) ! j = Containers (Spec p) ! j"
proof (cases "0 \<le> SliceIndexFeature (Containers (Spec p)) ContainerName sidecarName")
  case True
  from SliceIndexFeature_hit(2) [OF True] assms(2)
  have "nat (SliceIndexFeature (Containers (Spec p)) ContainerName sidecarName) \<noteq> j"
    by (auto simp: ContainerName_def)
  with True show ?thesis by (simp add: addLauncherNotifierSidecar_def Let_def)
next
  case False
  with assms(1) show ?thesis by (simp add: addLauncherNotifierSidecar_def Let_def nth_append)
qed

lemma length_addSidecar:
  "length (Containers (Spec p)) \<le> length (Containers (Spec (addLauncherNotifierSidecar p i q)))"
  by (simp add: addLauncherNotifierSidecar_def Let_def)

lemma Build_ok_iff:
  "(\<exists>r. BuildNodeIndependentLauncherTemplate mj sha lc = Inr r) \<longleftrightarrow>
     (\<exists>js. mj (launcherHashInput lc) = Inr js) \<and>
     InferenceServerContainerName \<in> ctrName ` set (Containers (tmplSpec (PodTemplate lc)))"
proof -
  have names: "ctrName ` set (Containers (Spec (launcherHashInput lc))) =
      ctrName ` set (Containers (tmplSpec (PodTemplate lc)))"
    using ctrNames_canonical [of "PodTemplate lc"]
    by (metis Spec_launcherHashInput image_set)
  show ?thesis
    using GetInferenceServerContainerIndex_ok_iff [of "launcherHashInput lc"]
    by (auto simp: BuildNodeIndependentLauncherTemplate_def Let_def names split: sum.splits)
qed

lemma Build_metadata:
  assumes "BuildNodeIndependentLauncherTemplate mj sha lc = Inr (p, h)"
  shows "Labels p ComponentLabelKey = Some LauncherComponentLabelValue"
    and "Labels p LauncherConfigNameLabelKey = Some (Name lc)"
    and "Labels p SleepingLabelName = Some ''true''"
    and "annot p LauncherTemplateHashAnnotationKey = h"
  using assms
  by (auto elim!: Build_Inr simp: launcherHashInput_def Let_def annot_def)

lemma Build_container:
  assumes "BuildNodeIndependentLauncherTemplate mj sha lc = Inr (p, h)"
  obtains c d where "c \<in> set (Containers (Spec p))" and "c = launcherContainer d"
    and "ctrName d = InferenceServerContainerName"
    and "notifierContainer (Image c) (ImagePullPolicy c) \<in> set (Containers (Spec p))"
proof -
  from assms obtain js i c p1 where
    i: "GetInferenceServerContainerIndex p1 = Inr i"
    and c: "c = launcherContainer (Containers (Spec p1) ! nat i)"
    and p: "p = addLauncherNotifierSidecar
           (p1\<lparr>Spec := (Spec p1)\<lparr>Containers := (Containers (Spec p1))[nat i := c],
               Overhead := map_option (\<lambda>m. m(gpuResource := None)) (Overhead (Spec p1))\<rparr>\<rparr>)
           (Image c) (ImagePullPolicy c)"
    by (rule Build_Inr)
  note idx = GetInferenceServerContainerIndex_Inr [OF i]
  have ne: "ctrName c \<noteq> sidecarName"
    using idx(3) c by (simp add: InferenceServerContainerName_def sidecarName_def)
  let ?q = "p1\<lparr>Spec := (Spec p1)\<lparr>Containers := (Containers (Spec p1))[nat i := c],
      Overhead := map_option (\<lambda>m. m(gpuResource := None)) (Overhead (Spec p1))\<rparr>\<rparr>"
  have "Containers (Spec p) ! nat i = c"
    using addSidecar_keeps [of "nat i" ?q] idx(2) ne p by simp
  moreover have "nat i < length (Containers (Spec p))"
    using length_addSidecar [of ?q "Image c" "ImagePullPolicy c"] idx(2) p by simp
  ultimately have "c \<in> set (Containers (Spec p))" by (metis nth_mem)
  with that c idx(3) addSidecar_has p show ?thesis by metis
qed

lemma launcherContainer_props:
  "set requiredEnvVars \<subseteq> set (Env (launcherContainer d))"
  "ReadinessProbe (launcherContainer d) = Some (launcherProbe ''/v2/vllm/instances'' 2 5 2)"
  "Limits (launcherContainer d) = Some m \<Longrightarrow> m gpuResource = Some 0"
  using requiredEnvVars_set [of d]
  by (auto simp: launcherContainer_def removeGPUResourceLimits_def configureRequiredEnvVars_def)

text \<open>The text hashed for the node-aware hash determines the template hash and the node.\<close>

lemma node_hash_input_inj:
  assumes "h @ '';node='' @ n = h' @ '';node='' @ n'"
    and "CHR '';'' \<notin> set h" and "CHR '';'' \<notin> set h'"
  shows "h = h' \<and> n = n'"
proof -
  have hd_h: "hd (strings_Split CHR '';'' (k @ '';node='' @ m)) = k" if "CHR '';'' \<notin> set k" for k m
    using strings_Split_append [OF that, of "''node='' @ m"] by simp
  have "h = h'" using hd_h [of h n] hd_h [of h' n'] assms by metis
  with assms(1) show ?thesis by simp
qed

subsection \<open>Properties\<close>

text \<open>
  C20: when a LauncherConfig yields a template, the template carries the labels that make it a
  launcher of that LauncherConfig, is marked as sleeping, records its own hash in the annotation that
  drift detection compares, and has an inference server container with the required environment
  variables, the launcher's readiness probe and a zero GPU limit, next to the notifier sidecar.
\<close>

theorem build_template_contract:
  assumes "BuildNodeIndependentLauncherTemplate marshalJSON sha256b64 lc = Inr (p, h)"
  shows "Labels p ComponentLabelKey = Some LauncherComponentLabelValue \<and>
    Labels p LauncherConfigNameLabelKey = Some (Name lc) \<and>
    Labels p SleepingLabelName = Some ''true'' \<and>
    annot p LauncherTemplateHashAnnotationKey = h \<and>
    (\<exists>c \<in> set (Containers (Spec p)).
       ctrName c = InferenceServerContainerName \<and>
       set requiredEnvVars \<subseteq> set (Env c) \<and>
       ReadinessProbe c = Some (launcherProbe ''/v2/vllm/instances'' 2 5 2) \<and>
       (case Limits c of None \<Rightarrow> True | Some m \<Rightarrow> m gpuResource = Some 0) \<and>
       notifierContainer (Image c) (ImagePullPolicy c) \<in> set (Containers (Spec p)))"
proof -
  from assms obtain c d where "c \<in> set (Containers (Spec p))" and c: "c = launcherContainer d"
    and "ctrName d = InferenceServerContainerName"
    and "notifierContainer (Image c) (ImagePullPolicy c) \<in> set (Containers (Spec p))"
    by (rule Build_container)
  moreover from c have "set requiredEnvVars \<subseteq> set (Env c)"
    and "ReadinessProbe c = Some (launcherProbe ''/v2/vllm/instances'' 2 5 2)"
    and "case Limits c of None \<Rightarrow> True | Some m \<Rightarrow> m gpuResource = Some 0"
    using launcherContainer_props [of d] by (auto split: option.splits)
  moreover from calculation c have "ctrName c = InferenceServerContainerName" by simp
  ultimately show ?thesis using Build_metadata [OF assms] by blast
qed

definition exampleLC :: launcherConfig where
  "exampleLC = blankLC\<lparr>Name := ''lc1'', UID := ''u1'',
     PodTemplate := (PodTemplate blankLC)\<lparr>tmplSpec := blankPodSpec\<lparr>Containers :=
       [blankContainer\<lparr>ctrName := InferenceServerContainerName, Image := ''img'',
          Limits := Some [gpuResource \<mapsto> 1000],
          Env := [mkEnv ''NVIDIA_VISIBLE_DEVICES'' ''0'']\<rparr>]\<rparr>\<rparr>\<rparr>"

theorem build_template_contract_witness:
  "\<exists>p. BuildNodeIndependentLauncherTemplate (\<lambda>_. Inr ''json'') (\<lambda>s. ''sha-'' @ s) exampleLC = Inr (p, ''sha-json'') \<and>
       Labels p LauncherConfigNameLabelKey = Some ''lc1'' \<and>
       annot p LauncherTemplateHashAnnotationKey = ''sha-json''"
proof -
  have "\<exists>r. BuildNodeIndependentLauncherTemplate (\<lambda>_. Inr ''json'') (\<lambda>s. ''sha-'' @ s) exampleLC = Inr r"
    unfolding Build_ok_iff by (simp add: exampleLC_def blank_defs)
  then obtain p h where
    b: "BuildNodeIndependentLauncherTemplate (\<lambda>_. Inr ''json'') (\<lambda>s. ''sha-'' @ s) exampleLC = Inr (p, h)"
    by auto
  then have "h = ''sha-json''" by (auto elim!: Build_Inr)
  with b build_template_contract [OF b] show ?thesis
    by (auto simp: exampleLC_def blank_defs)
qed

text \<open>
  C21: two LauncherConfigs that differ only in the order of volumes, mounts, ports, tolerations, pull
  secrets and \<^verbatim>\<open>envFrom\<close> entries produce the very same template and the same hash, so that reordering
  them does not make existing launchers look stale.  Different elements of a sorted slice must differ in what the code
  compares: volumes in the name, mounts in name or path, ports in name, number or protocol, tolerations in key,
  operator, value or effect, and \<^verbatim>\<open>envFrom\<close> entries in the prefix; and there must be no volume that looks like the
  one with the credentials of an individual Pod, of which only the first is removed.
\<close>

theorem template_hash_order_independent:
  assumes "templateReordered (PodTemplate lc) t"
    and "\<forall>v \<in> set (Volumes (tmplSpec (PodTemplate lc))). \<not> apiAccessRE_MatchString (volName v)"
    and "inj_on volName (set (Volumes (tmplSpec (PodTemplate lc))))"
    and "inj_on tolerationKey (set (Tolerations (tmplSpec (PodTemplate lc))))"
    and "\<forall>c \<in> set (Containers (tmplSpec (PodTemplate lc))) \<union> set (InitContainers (tmplSpec (PodTemplate lc))).
      inj_on volumeMountKey (set (VolumeMounts c)) \<and> inj_on portKey (set (Ports c)) \<and> inj_on efPrefix (set (EnvFrom c))"
  shows "BuildNodeIndependentLauncherTemplate marshalJSON sha256b64 (lc\<lparr>PodTemplate := t\<rparr>) =
    BuildNodeIndependentLauncherTemplate marshalJSON sha256b64 lc"
proof -
  have "launcherHashInput (lc\<lparr>PodTemplate := t\<rparr>) = launcherHashInput lc"
    using canonicalize_reordered [OF assms(1-4)] assms(5) by (simp add: launcherHashInput_def containerKeysTell_def)
  then show ?thesis by (simp add: BuildNodeIndependentLauncherTemplate_def)
qed

text \<open>A template of an inference server with two volumes and two mounts, in one order or the other.\<close>

definition exampleTemplate :: "volume list \<Rightarrow> volumeMount list \<Rightarrow> envFromSource list \<Rightarrow> embeddedPodTemplateSpec" where
  "exampleTemplate vs ms es = \<lparr>tmplLabels = Map.empty, tmplAnnotations = Map.empty, tmplSpec = blankPodSpec\<lparr>Volumes := vs, Containers :=
     [blankContainer\<lparr>ctrName := InferenceServerContainerName, Image := ''img'', VolumeMounts := ms, EnvFrom := es\<rparr>]\<rparr>\<rparr>"

definition exampleVolumes :: "volume list" where
  "exampleVolumes = [\<lparr>volName = ''a'', volSource = ''x''\<rparr>, \<lparr>volName = ''b'', volSource = ''y''\<rparr>]"

definition exampleMounts :: "volumeMount list" where
  "exampleMounts = [\<lparr>vmName = ''a'', vmMountPath = ''/a'', vmRest = []\<rparr>, \<lparr>vmName = ''a'', vmMountPath = ''/b'', vmRest = []\<rparr>]"

theorem template_hash_order_independent_witness:
  "\<exists>p. BuildNodeIndependentLauncherTemplate (\<lambda>_. Inr ''j'') id
     (exampleLC\<lparr>PodTemplate := exampleTemplate (rev exampleVolumes) (rev exampleMounts) []\<rparr>) = Inr (p, ''j'') \<and>
   BuildNodeIndependentLauncherTemplate (\<lambda>_. Inr ''j'') id
     (exampleLC\<lparr>PodTemplate := exampleTemplate exampleVolumes exampleMounts []\<rparr>) = Inr (p, ''j'')"
proof -
  let ?lc = "exampleLC\<lparr>PodTemplate := exampleTemplate exampleVolumes exampleMounts []\<rparr>"
  have "\<exists>r. BuildNodeIndependentLauncherTemplate (\<lambda>_. Inr ''j'') id ?lc = Inr r"
    unfolding Build_ok_iff by (simp add: exampleTemplate_def)
  then obtain p h where b: "BuildNodeIndependentLauncherTemplate (\<lambda>_. Inr ''j'') id ?lc = Inr (p, h)" by auto
  then have "h = ''j''" by (auto elim!: Build_Inr)
  moreover have "templateReordered (PodTemplate ?lc) (exampleTemplate (rev exampleVolumes) (rev exampleMounts) [])"
    by (simp add: templateReordered_def specReordered_def containerReordered_def exampleTemplate_def exampleVolumes_def exampleMounts_def blank_defs)
  moreover have "BuildNodeIndependentLauncherTemplate (\<lambda>_. Inr ''j'') id (?lc\<lparr>PodTemplate := exampleTemplate (rev exampleVolumes) (rev exampleMounts) []\<rparr>) =
      BuildNodeIndependentLauncherTemplate (\<lambda>_. Inr ''j'') id ?lc"
    by (rule template_hash_order_independent [OF calculation(2)])
      (simp_all add: exampleTemplate_def exampleVolumes_def exampleMounts_def blank_defs apiAccessRE_MatchString_def hasPrefix_def volumeMountKey_def)
  ultimately show ?thesis using b by simp
qed

text \<open>
  The condition on the prefixes is needed: \<^verbatim>\<open>envFrom\<close> entries with the same prefix, mostly none, stay in the order in
  which they are written, and exchanging two of them changes what is hashed.
\<close>

lemma envFrom_order_is_hashed:
  "let es = [\<lparr>efPrefix = [], efSource = ''secret''\<rparr>, \<lparr>efPrefix = [], efSource = ''configMap''\<rparr>];
       t = exampleTemplate [] [] es; u = exampleTemplate [] [] (rev es)
   in templateReordered t u \<and> launcherHashInput (exampleLC\<lparr>PodTemplate := t\<rparr>) \<noteq> launcherHashInput (exampleLC\<lparr>PodTemplate := u\<rparr>)"
proof -
  let ?es = "[\<lparr>efPrefix = [], efSource = ''secret''\<rparr>, \<lparr>efPrefix = [], efSource = ''configMap''\<rparr>]"
  have "map EnvFrom (Containers (Spec (launcherHashInput (exampleLC\<lparr>PodTemplate := exampleTemplate [] [] es\<rparr>)))) =
      [slices_SortFunc cmpEnvFrom es]" for es
    by (simp add: Spec_launcherHashInput canonicalizeTemplateForHash_def DeIndividualize_no_access exampleTemplate_def canonicalizeContainer_def
        blank_defs Let_def)
  from this [of ?es] this [of "rev ?es"]
  have "launcherHashInput (exampleLC\<lparr>PodTemplate := exampleTemplate [] [] ?es\<rparr>) \<noteq> launcherHashInput (exampleLC\<lparr>PodTemplate := exampleTemplate [] [] (rev ?es)\<rparr>)"
    by (auto simp: cmpEnvFrom_def strings_Compare_def dest: arg_cong [where f = "\<lambda>p. map EnvFrom (Containers (Spec p))"])
  then show ?thesis
    by (simp add: templateReordered_def specReordered_def containerReordered_def exampleTemplate_def blank_defs)
qed

text \<open>
  Two Pods made from templates for Nodes have the same config hash only when the template hashes and the Nodes are the
  same, or two different texts have the same hash.
\<close>

lemma config_hash_shared:
  assumes "CHR '';'' \<notin> set (annot t LauncherTemplateHashAnnotationKey)" "CHR '';'' \<notin> set (annot u LauncherTemplateHashAnnotationKey)"
    and "annot (SpecializeLauncherTemplateToNode sha256b64 t n) LauncherConfigHashAnnotationKey =
       annot (SpecializeLauncherTemplateToNode sha256b64 u m) LauncherConfigHashAnnotationKey"
  shows "annot t LauncherTemplateHashAnnotationKey = annot u LauncherTemplateHashAnnotationKey \<and> n = m \<or>
    (\<exists>x y. x \<noteq> y \<and> sha256b64 x = sha256b64 y)"
proof -
  have "sha256b64 (annot t LauncherTemplateHashAnnotationKey @ '';node='' @ n) = sha256b64 (annot u LauncherTemplateHashAnnotationKey @ '';node='' @ m)"
    using assms(3) by (simp add: SpecializeLauncherTemplateToNode_def Let_def annot_def)
  then show ?thesis using node_hash_input_inj [OF _ assms(1,2), of n m] by metis
qed

text \<open>
  as long as the restart counts of a Pod's containers do not overflow an \<^verbatim>\<open>int32\<close>, a Pod is in
  trouble exactly when some container has restarted and the Pod is not ready.
\<close>

theorem pod_in_trouble_iff:
  assumes "(\<Sum>cs \<leftarrow> ContainerStatuses (Status p). unat (RestartCount cs)) < 2 ^ 32"
  shows "PodIsInTrouble p \<longleftrightarrow>
    (\<exists>cs \<in> set (ContainerStatuses (Status p)). RestartCount cs \<noteq> 0) \<and> \<not> IsPodReady p"
proof -
  let ?s = "\<Sum>cs \<leftarrow> ContainerStatuses (Status p). RestartCount cs"
  have "?s = 0 \<longleftrightarrow> unat ?s = 0" by (metis unat_0 word_unat_eq_iff)
  also have "\<dots> \<longleftrightarrow> (\<forall>cs \<in> set (ContainerStatuses (Status p)). RestartCount cs = 0)"
    using unat_sumRestarts [OF assms] by (auto simp: unat_eq_0)
  finally show ?thesis
    by (auto simp: PodIsInTrouble_def sumRestarts_sum)
qed

theorem pod_in_trouble_iff_witness:
  "PodIsInTrouble (blankPod\<lparr>Status := blankPodStatus\<lparr>ContainerStatuses :=
     [\<lparr>csName = ''a'', csReady = False, csRunning = None, RestartCount = 3\<rparr>]\<rparr>\<rparr>)"
  by (subst pod_in_trouble_iff)
    (simp_all add: blank_defs IsPodReady_def GetPodCondition_def SliceGetByFeature_find)

end
