(* ===== verification/Dual_State.thy ===== *)
theory Dual_State
  imports Pod_Helper
begin

text \<open>
  The data of the dual-pods controller: the state it keeps (\<^verbatim>\<open>controller\<close>, \<^verbatim>\<open>nodeData\<close>, \<^verbatim>\<open>serverData\<close>,
  \<^verbatim>\<open>launcherData\<close> of \<^verbatim>\<open>controller.go\<close>), the calls it makes, and what answers them.

  The record \<open>dpEnv\<close> holds everything outside the repository that the controller asks: the informer
  caches, the apiserver, HTTP servers, JSON and YAML codecs, SHA-256, the validation rules of Kubernetes,
  the rate limiter, the clock and the growth of slices.  An answer of the outside world may depend on the calls made so far,
  which are recorded with their answers, in order, in \<open>dcalls\<close>.

  Go's \<^verbatim>\<open>*nodeData\<close>, \<^verbatim>\<open>*serverData\<close> and \<^verbatim>\<open>*launcherData\<close> are reached through the maps that hold them, by
  the Node's name and the requester's UID or the launcher's name.
\<close>

subsection \<open>Launcher instances\<close>

record vllmConfig =
  vcOptions :: string
  vcGpuUUIDs :: "string list"
  vcEnvVars :: "(string, string) gomap"
  vcAnnotations :: strmap

record instanceState =
  instID :: string
  instStatus :: string
  instConfig :: vllmConfig

record allInstancesState =
  TotalInstances :: int
  RunningInstances :: int
  Instances :: "instanceState list"

record instanceActionResult =
  arStatus :: string
  arInstanceID :: string

definition VllmConfigISCNameAnnotationKey :: string where
  "VllmConfigISCNameAnnotationKey = ''isc-name''"
definition VllmConfigInferencePortAnnotationKey :: string where
  "VllmConfigInferencePortAnnotationKey = ''inference-port''"
definition InstanceStatusStopped :: string where
  "InstanceStatusStopped = ''stopped''"

definition instAnnot :: "instanceState \<Rightarrow> string \<Rightarrow> string" where
  "instAnnot inst k = (case vcAnnotations (instConfig inst) k of None \<Rightarrow> [] | Some v \<Rightarrow> v)"

record iscRoutingMetadata =
  rmLabels :: "(string, string) gomap"
  rmAnnotations :: "(string, string) gomap"

record vllmInstanceState =
  visCfg :: vllmConfig
  visInstanceID :: string
  visServerPort :: int
  visIscLabels :: "(string, string) gomap"
  visIscAnnotations :: "(string, string) gomap"

subsection \<open>Controller state\<close>

datatype itemOnNode =
  InfSvrItem (isiUID: string) (isiRequesterName: string)
| UnboundLauncherPodItem (ulLauncherPodName: string) (ulNodeName: string)
| InstanceGCItem (gcISCName: string)

datatype queueItem = CmItem string string | NodeItem string

record scheduledItem =
  addTime :: time
  processAfter :: time

record serverData =
  RequestingPodName :: string
  NominalProvidingPod :: "pod option"
  NominalProvidingPodHash :: string
  ServerPort :: int
  GPUIDs :: "string list"
  GPUIDsStr :: "string option"
  GPUIndices :: "string list"
  GPUIndicesStr :: "string option"
  NeededNewLauncher :: bool
  NeededNewInstance :: bool
  ProvidingPodName :: string
  InstanceID :: string
  InstanceConfig :: "vllmConfig option"
  InstanceISCLabels :: "(string, string) gomap"
  InstanceISCAnnotations :: "(string, string) gomap"
  InstanceKnownToExist :: bool
  LabelsApplied :: bool
  DualityMetricAsserted :: bool
  InstancesDeleted :: "string set"
  ReadinessRelayed :: "bool option"
  Sleeping :: "bool option"
  FirstReadyRelayed :: bool
  RequesterDeleteRequested :: bool

record launcherData =
  LastUsed :: "(string, time) gomap"
  Accurate :: bool

record nodeData =
  ndNodeName :: string
  InferenceServers :: "(string, serverData) gomap"
  Launchers :: "(string, launcherData) gomap"
  LocalQueue :: "(itemOnNode, scheduledItem) gomap"

record GpuLocation =
  glNode :: string
  glIndex :: nat

text \<open>
  What \<^verbatim>\<open>process\<close> of an item on a Node returns; \<open>retryAfter = 0\<close> asks for exponential backoff.
\<close>

record processResult =
  prErr :: "goError option"
  prRetry :: bool
  prRetryAfter :: duration

definition prDone :: processResult where
  "prDone = \<lparr>prErr = None, prRetry = False, prRetryAfter = 0\<rparr>"

definition prRetryErr :: "goError \<Rightarrow> processResult" where
  "prRetryErr e = \<lparr>prErr = Some e, prRetry = True, prRetryAfter = 0\<rparr>"

record httpRequest =
  hrPurpose :: string
  hrMethod :: string
  hrURL :: string
  hrBody :: "string option"

text \<open>
  The calls of the controller, with what they were answered.  A deletion carries its preconditions
  on UID and resource version.  \<open>RateWhen\<close> and \<open>RateForget\<close> are calls of the rate limiter of a Node.
\<close>

datatype dpCall =
  UpdatePod pod "apiError + pod"
| DeletePodD string "string option" "string option" "apiError option"
| CreatePodD pod "apiError + pod"
| GetConfigMap string string
| Http httpRequest "string + nat \<times> string"
| RateWhen itemOnNode duration
| RateForget itemOnNode

datatype queueOp = QAdd queueItem | QAddAfter queueItem duration

type_synonym dualityLabels = "string list"

record dpState =
  gpuMap :: "(string, GpuLocation) gomap option"
  nodeNameToData :: "(string, nodeData) gomap"
  dqueue :: "queueOp list"
  dcalls :: "dpCall list"
  dualityGauge :: "dualityLabels \<rightharpoonup> int"
  requesterCount :: "string \<Rightarrow> int"
  iscCount :: "string \<Rightarrow> int"
  devents :: "(pod \<times> string) list"

record dpEnv =
  nsName :: string
  sleeperLimit :: int
  debugAccelMemory :: bool
  accelMemoryLimitMiB :: int
  podCache :: "pod list"
  podGet :: "string \<Rightarrow> apiError + pod"
  nodeGetD :: "string \<Rightarrow> apiError + node"
  iscGet :: "string \<Rightarrow> apiError + inferenceServerConfig"
  lcGetD :: "string \<Rightarrow> apiError + launcherConfig"
  configMapGet :: "dpCall list \<Rightarrow> string \<Rightarrow> string \<Rightarrow> apiError + (string, string) gomap"
  podUpdateD :: "dpCall list \<Rightarrow> pod \<Rightarrow> apiError + pod"
  podDeleteD :: "dpCall list \<Rightarrow> string \<Rightarrow> string option \<Rightarrow> string option \<Rightarrow> apiError option"
  podCreateD :: "dpCall list \<Rightarrow> pod \<Rightarrow> apiError + pod"
  httpDo :: "dpCall list \<Rightarrow> httpRequest \<Rightarrow> string + nat \<times> string"
  rateWhen :: "dpCall list \<Rightarrow> itemOnNode \<Rightarrow> duration"
  timeNow :: "dpCall list \<Rightarrow> time"
  urlParse :: "string \<Rightarrow> string option"
  apiErrText :: "apiError \<Rightarrow> string"
  parseGpuIndices :: "string \<Rightarrow> string + (string, nat) gomap"
  decodeUUIDs :: "string \<Rightarrow> string + string list"
  decodeSleepState :: "string \<Rightarrow> string + bool"
  decodeUsageMap :: "string \<Rightarrow> string + (string, int) gomap"
  decodeAllInstances :: "string \<Rightarrow> string + allInstancesState"
  decodeInstanceIDs :: "string \<Rightarrow> string + string list"
  decodeJSONObject :: "string \<Rightarrow> string + string"
  decodeInstanceState :: "string \<Rightarrow> string + instanceState"
  decodeActionResult :: "string \<Rightarrow> string + instanceActionResult"
  encodeVllmConfig :: "vllmConfig \<Rightarrow> string + string"
  decodeVllmConfig :: "string \<Rightarrow> string + vllmConfig"
  encodeRouting :: "iscRoutingMetadata \<Rightarrow> string + string"
  decodeRouting :: "string \<Rightarrow> string + iscRoutingMetadata"
  encodeStatus :: "string list \<Rightarrow> string"
  yamlModelServerConfig :: "modelServerConfig \<Rightarrow> string + string"
  marshalPod :: "pod \<Rightarrow> string + string"
  sha256std :: "string \<Rightarrow> string"
  sha256url :: "string \<Rightarrow> string"
  IsQualifiedName :: "string \<Rightarrow> string list"
  IsValidLabelValue :: "string \<Rightarrow> string list"
  templateParse :: "string \<Rightarrow> string option"
  templateExecute :: "string \<Rightarrow> string \<Rightarrow> string + string"
  yamlToJSON :: "string \<Rightarrow> string + string"
  strategicMerge :: "string \<Rightarrow> string \<Rightarrow> string + string"
  decodePod :: "string \<Rightarrow> string + pod"
  spareCap :: "nat \<Rightarrow> nat"

text \<open>
  The capacity of a slice of length \<open>n\<close> that was built with \<^verbatim>\<open>append\<close> from nil: Go leaves open how much room it
  has beyond its length (\<open>spareCap\<close>), but a nil slice has none.
\<close>

definition sliceCap :: "dpEnv \<Rightarrow> nat \<Rightarrow> nat" where
  "sliceCap env n = (if n = 0 then 0 else n + spareCap env n)"

text \<open>The clock is read between calls: a reading depends on the calls made so far.\<close>

definition nowD :: "dpEnv \<Rightarrow> dpState \<Rightarrow> time" where
  "nowD env st = timeNow env (dcalls st)"

fun errText :: "dpEnv \<Rightarrow> goError \<Rightarrow> string" where
  "errText env (ErrorText s) = s"
| "errText env (ApiErr e) = apiErrText env e"
| "errText env (Wrapped s e) = s @ '': '' @ errText env e"
| "errText env (LauncherError n e) =
     ''launcher error '' @ showNat n @ '': '' @ (case e of None \<Rightarrow> ''<nil>'' | Some x \<Rightarrow> errText env x)"
| "errText env (Joined es) = strings_Join (map (errText env) es) [CHR 0x0A]"
| "errText env (GoPanic s) = s"

text \<open>A run-time panic ends the process.\<close>

definition panicked :: "processResult \<Rightarrow> bool" where
  "panicked out \<longleftrightarrow> (\<exists>s. prErr out = Some (GoPanic s))"

end
