(* ===== verification/Node_Queue.thy ===== *)
theory Node_Queue
  imports Dual_State
begin

text \<open>
  The queues of the dual-pods controller and what fills them: the local queue of a Node
  (\<^verbatim>\<open>nodeData.add\<close>, \<^verbatim>\<open>addAfter\<close>, \<^verbatim>\<open>takeReadyItems\<close>, \<^verbatim>\<open>earliestPending\<close>) and the loop over it
  (\<^verbatim>\<open>nodeItem.process\<close>), the informers' notifications (\<^verbatim>\<open>OnAdd\<close>, \<^verbatim>\<open>OnUpdate\<close>, \<^verbatim>\<open>OnDelete\<close>), the indexes of
  the Pod cache, and the GPU map (\<^verbatim>\<open>cmItem.process\<close>).
\<close>

subsection \<open>The local queue of a Node\<close>

definition newNodeData :: "string \<Rightarrow> nodeData" where
  "newNodeData nn = \<lparr>ndNodeName = nn, InferenceServers = [], Launchers = [], LocalQueue = []\<rparr>"

definition nodeOf :: "dpState \<Rightarrow> string \<Rightarrow> nodeData" where
  "nodeOf st nn = (case mget (nodeNameToData st) nn of None \<Rightarrow> newNodeData nn | Some nd \<Rightarrow> nd)"

definition modNode :: "string \<Rightarrow> (nodeData \<Rightarrow> nodeData) \<Rightarrow> dpState \<Rightarrow> dpState" where
  "modNode nn f st = st\<lparr>nodeNameToData := mput nn (f (nodeOf st nn)) (nodeNameToData st)\<rparr>"

definition getNodeData :: "dpState \<Rightarrow> string \<Rightarrow> dpState" where
  "getNodeData st nn =
     (case mget (nodeNameToData st) nn of
        None \<Rightarrow> st\<lparr>nodeNameToData := mput nn (newNodeData nn) (nodeNameToData st)\<rparr>
      | Some _ \<Rightarrow> st)"

definition addAfter :: "time \<Rightarrow> nodeData \<Rightarrow> itemOnNode \<Rightarrow> time \<Rightarrow> nodeData" where
  "addAfter now nd item after =
     (case mget (LocalQueue nd) item of
        Some cur \<Rightarrow>
          if after < processAfter cur
          then nd\<lparr>LocalQueue := mput item (cur\<lparr>processAfter := after\<rparr>) (LocalQueue nd)\<rparr>
          else nd
      | None \<Rightarrow> nd\<lparr>LocalQueue := mput item \<lparr>addTime = now, processAfter = after\<rparr> (LocalQueue nd)\<rparr>)"

definition add :: "time \<Rightarrow> nodeData \<Rightarrow> itemOnNode \<Rightarrow> nodeData" where
  "add now nd item = addAfter now nd item now"

definition takeReadyItems :: "time \<Rightarrow> nodeData \<Rightarrow> nodeData \<times> (itemOnNode, scheduledItem) gomap" where
  "takeReadyItems now nd =
     (nd\<lparr>LocalQueue := filter (\<lambda>(_, si). processAfter si > now) (LocalQueue nd)\<rparr>,
      filter (\<lambda>(_, si). \<not> processAfter si > now) (LocalQueue nd))"

definition earliestPending :: "nodeData \<Rightarrow> time" where
  "earliestPending nd =
     fold (\<lambda>(_, si) earliest.
             if earliest = zeroTime \<or> processAfter si < earliest then processAfter si else earliest)
       (LocalQueue nd) zeroTime"

definition newServerData :: "string \<Rightarrow> serverData" where
  "newServerData reqName =
     \<lparr>RequestingPodName = reqName, NominalProvidingPod = None, NominalProvidingPodHash = [],
      ServerPort = 0, GPUIDs = [], GPUIDsStr = None, GPUIndices = [], GPUIndicesStr = None,
      NeededNewLauncher = False, NeededNewInstance = False, ProvidingPodName = [],
      InstanceID = [], InstanceConfig = None, InstanceISCLabels = [], InstanceISCAnnotations = [],
      InstanceKnownToExist = False, LabelsApplied = False, DualityMetricAsserted = False,
      InstancesDeleted = {}, ReadinessRelayed = None, Sleeping = None, FirstReadyRelayed = False,
      RequesterDeleteRequested = False\<rparr>"

definition getServerData :: "dpState \<Rightarrow> string \<Rightarrow> string \<Rightarrow> string \<Rightarrow> dpState" where
  "getServerData st nn reqName reqUID =
     (case mget (InferenceServers (nodeOf st nn)) reqUID of
        Some _ \<Rightarrow> st
      | None \<Rightarrow> modNode nn (\<lambda>nd. nd\<lparr>InferenceServers := mput reqUID (newServerData reqName) (InferenceServers nd)\<rparr>) st)"

definition serverOf :: "dpState \<Rightarrow> string \<Rightarrow> string \<Rightarrow> serverData" where
  "serverOf st nn uid =
     (case mget (InferenceServers (nodeOf st nn)) uid of None \<Rightarrow> newServerData [] | Some sd \<Rightarrow> sd)"

definition modServer :: "string \<Rightarrow> string \<Rightarrow> (serverData \<Rightarrow> serverData) \<Rightarrow> dpState \<Rightarrow> dpState" where
  "modServer nn uid f st =
     modNode nn (\<lambda>nd. nd\<lparr>InferenceServers := mput uid (f (serverOf st nn uid)) (InferenceServers nd)\<rparr>) st"

definition getLauncherData :: "dpState \<Rightarrow> string \<Rightarrow> string \<Rightarrow> dpState" where
  "getLauncherData st nn launcherPodName =
     (case mget (Launchers (nodeOf st nn)) launcherPodName of
        Some _ \<Rightarrow> st
      | None \<Rightarrow> modNode nn (\<lambda>nd. nd\<lparr>Launchers := mput launcherPodName
          \<lparr>LastUsed = [], Accurate = False\<rparr> (Launchers nd)\<rparr>) st)"

definition lastUsedOf :: "dpState \<Rightarrow> string \<Rightarrow> string \<Rightarrow> (string, time) gomap" where
  "lastUsedOf st nn launcherPodName =
     (case mget (Launchers (nodeOf st nn)) launcherPodName of None \<Rightarrow> [] | Some ld \<Rightarrow> LastUsed ld)"

definition modLauncher :: "string \<Rightarrow> string \<Rightarrow> (launcherData \<Rightarrow> launcherData) \<Rightarrow> dpState \<Rightarrow> dpState" where
  "modLauncher nn launcherPodName f st =
     (case mget (Launchers (nodeOf st nn)) launcherPodName of
        None \<Rightarrow> st
      | Some ld \<Rightarrow> modNode nn (\<lambda>nd. nd\<lparr>Launchers := mput launcherPodName (f ld) (Launchers nd)\<rparr>) st)"

definition clearLauncherData :: "dpState \<Rightarrow> string \<Rightarrow> string \<Rightarrow> dpState" where
  "clearLauncherData st nn launcherPodName =
     modNode nn (\<lambda>nd. nd\<lparr>Launchers := mdel launcherPodName (Launchers nd)\<rparr>) st"

definition clearServerData :: "dpState \<Rightarrow> string \<Rightarrow> string \<Rightarrow> dpState" where
  "clearServerData st nn uid =
     modNode nn (\<lambda>nd. nd\<lparr>InferenceServers := mdel uid (InferenceServers nd)\<rparr>) st"

subsection \<open>Classifying and indexing Pods\<close>

definition nominalHashAnnotationKey :: string where
  "nominalHashAnnotationKey = ''dual-pods.llm-d.ai/nominal''"

datatype infSvrItemType =
  infSvrItemRequester | infSvrItemBoundProvider | infSvrItemUnboundLauncherBasedProvider | infSvrItemDontCare

definition careAbout :: "pod \<Rightarrow> itemOnNode \<times> infSvrItemType" where
  "careAbout p =
     (if annot p ServerPatchAnnotationName \<noteq> [] \<or> annot p InferenceServerConfigAnnotationName \<noteq> []
      then (InfSvrItem (UID p) (Name p), infSvrItemRequester)
      else (case strings_Split CHR '' '' (annot p RequesterAnnotationKey) of
              [u, n] \<Rightarrow> (InfSvrItem u n, infSvrItemBoundProvider)
            | _ \<Rightarrow>
                if Labels p LauncherConfigNameLabelKey \<noteq> None
                then (InfSvrItem [] [], infSvrItemUnboundLauncherBasedProvider)
                else (InfSvrItem [] [], infSvrItemDontCare)))"

definition GPUIndexFunc :: "pod \<Rightarrow> string list" where
  "GPUIndexFunc p =
     (if annot p nominalHashAnnotationKey = [] \<or> NodeName (Spec p) = [] then []
      else (case GetInferenceServerContainerIndex p of
              Inl _ \<Rightarrow> []
            | Inr isIdx \<Rightarrow>
                (case SliceGetByFeature (Env (Containers (Spec p) ! nat isIdx)) EnvVarName ''CUDA_VISIBLE_DEVICES'' of
                   None \<Rightarrow> []
                 | Some ev \<Rightarrow>
                     if evValue ev = [] then []
                     else map (\<lambda>gpu. NodeName (Spec p) @ '' '' @ trimWith (\<lambda>c. c = CHR '' '') gpu)
                            (strings_Split CHR '','' (evValue ev)))))"

definition nominalHashIndexFunc :: "pod \<Rightarrow> string list" where
  "nominalHashIndexFunc p =
     (let nominalHash = annot p nominalHashAnnotationKey in if nominalHash = [] then [] else [nominalHash])"

definition inferenceServerConfigIndexFunc :: "pod \<Rightarrow> string list" where
  "inferenceServerConfigIndexFunc p =
     (let n = annot p InferenceServerConfigAnnotationName in if n = [] then [] else [n])"

definition launcherConfigHashIndexFunc :: "pod \<Rightarrow> string list" where
  "launcherConfigHashIndexFunc p =
     (let h = annot p LauncherConfigHashAnnotationKey in if h = [] then [] else [h])"

definition requesterIndexFunc :: "pod \<Rightarrow> string list" where
  "requesterIndexFunc p =
     (let (item, it) = careAbout p in if it = infSvrItemBoundProvider then [isiUID item] else [])"

definition nodeNameIndexFunc :: "pod \<Rightarrow> string list" where
  "nodeNameIndexFunc p = (if NodeName (Spec p) = [] then [] else [NodeName (Spec p)])"

definition byIndex :: "dpEnv \<Rightarrow> (pod \<Rightarrow> string list) \<Rightarrow> string \<Rightarrow> pod list" where
  "byIndex env idx key = filter (\<lambda>p. key \<in> set (idx p)) (podCache env)"

definition getProviderNodeName :: "pod \<Rightarrow> string + string" where
  "getProviderNodeName p =
     (case NodeSelector (Spec p) hostnameLabel of
        Some nn \<Rightarrow> if nn \<noteq> [] then Inr nn else Inl ''no kubernetes.io/hostname test in nodeSelector''
      | None \<Rightarrow> Inl ''no kubernetes.io/hostname test in nodeSelector'')"

subsection \<open>Filling the queues\<close>

definition addItem :: "dpEnv \<Rightarrow> string \<Rightarrow> itemOnNode \<Rightarrow> dpState \<Rightarrow> dpState" where
  "addItem env nodeName item st = modNode nodeName (\<lambda>nd. add (nowD env st) nd item) (getNodeData st nodeName)"

definition enqueueOnNode :: "dpEnv \<Rightarrow> string \<Rightarrow> itemOnNode \<Rightarrow> dpState \<Rightarrow> dpState" where
  "enqueueOnNode env nodeName item st =
     (let st1 = addItem env nodeName item st in st1\<lparr>dqueue := dqueue st1 @ [QAdd (NodeItem nodeName)]\<rparr>)"

definition enqueueInstanceGCItemsForISC :: "dpEnv \<Rightarrow> string \<Rightarrow> dpState \<Rightarrow> dpState" where
  "enqueueInstanceGCItemsForISC env iscName st =
     fold (\<lambda>nodeName. enqueueOnNode env nodeName (InstanceGCItem iscName)) (mkeys (nodeNameToData st)) st"

definition enqueueRequesters :: "dpEnv \<Rightarrow> dpState \<Rightarrow> dpState" where
  "enqueueRequesters env st =
     fold (\<lambda>(nodeName, nodeDat) st.
             (let st1 = fold (\<lambda>(infSvrUID, serverDat). addItem env nodeName (InfSvrItem infSvrUID (RequestingPodName serverDat)))
                          (InferenceServers nodeDat) st
              in if InferenceServers nodeDat \<noteq> [] then st1\<lparr>dqueue := dqueue st1 @ [QAdd (NodeItem nodeName)]\<rparr> else st1))
       (nodeNameToData st) st"

fun enqueueEachOfISC :: "dpEnv \<Rightarrow> pod list \<Rightarrow> dpState \<Rightarrow> string list \<Rightarrow> dpState \<times> string list" where
  "enqueueEachOfISC env [] st nodeNames = (st, nodeNames)"
| "enqueueEachOfISC env (p # requesters) st nodeNames =
     (let (item, it) = careAbout p;
          nodeName = NodeName (Spec p)
      in if it \<noteq> infSvrItemRequester \<or> nodeName = [] then enqueueEachOfISC env requesters st nodeNames
         else enqueueEachOfISC env requesters (addItem env nodeName item st) (List.insert nodeName nodeNames))"

definition enqueueInfSvrItemsByISC :: "dpEnv \<Rightarrow> inferenceServerConfig \<Rightarrow> dpState \<Rightarrow> dpState" where
  "enqueueInfSvrItemsByISC env isc st =
     (let requesters = byIndex env inferenceServerConfigIndexFunc (Name isc);
          (st1, nodeNames) = enqueueEachOfISC env requesters st []
      in st1\<lparr>dqueue := dqueue st1 @ map (\<lambda>nn. QAdd (NodeItem nn)) nodeNames\<rparr>)"

text \<open>
  The loop of \<^verbatim>\<open>enqueueUnboundInfSvrItemsOnNode\<close>; looking at a requester's data creates it when there
  is none yet.
\<close>

fun enqueueUnboundEach :: "dpEnv \<Rightarrow> string \<Rightarrow> pod list \<Rightarrow> dpState \<Rightarrow> nat \<Rightarrow> dpState \<times> nat" where
  "enqueueUnboundEach env nodeName [] st itemCount = (st, itemCount)"
| "enqueueUnboundEach env nodeName (p # pods) st itemCount =
     (let (item, it) = careAbout p
      in if it \<noteq> infSvrItemRequester then enqueueUnboundEach env nodeName pods st itemCount
         else (let st1 = getServerData st nodeName (Name p) (UID p)
               in (case mget (InferenceServers (nodeOf st1 nodeName)) (UID p) of
                     None \<Rightarrow> enqueueUnboundEach env nodeName pods st1 itemCount
                   | Some serverDat \<Rightarrow>
                       if ProvidingPodName serverDat \<noteq> [] then enqueueUnboundEach env nodeName pods st1 itemCount
                       else enqueueUnboundEach env nodeName pods (addItem env nodeName item st1) (itemCount + 1))))"

definition enqueueUnboundInfSvrItemsOnNode :: "dpEnv \<Rightarrow> string \<Rightarrow> dpState \<Rightarrow> dpState" where
  "enqueueUnboundInfSvrItemsOnNode env nodeName st =
     (let (st1, itemCount) = enqueueUnboundEach env nodeName (byIndex env nodeNameIndexFunc nodeName)
                               (getNodeData st nodeName) 0
      in if itemCount = 0 then st1 else st1\<lparr>dqueue := dqueue st1 @ [QAdd (NodeItem nodeName)]\<rparr>)"

subsection \<open>Notifications\<close>

definition GPUMapName :: string where
  "GPUMapName = ''gpu-map''"

datatype dpObject = DPod pod | DISC inferenceServerConfig | DConfigMap string string | DOther

datatype dpDeleted = DPlain dpObject | DFinalStateUnknown dpObject

text \<open>
  What \<^verbatim>\<open>OnAdd\<close>, \<^verbatim>\<open>OnUpdate\<close> and \<^verbatim>\<open>OnDelete\<close> have in common for a Pod: they enqueue its item on its Node, a
  provider's Node being the one its \<^verbatim>\<open>nodeSelector\<close> names.
\<close>

definition notifyPod :: "dpEnv \<Rightarrow> pod \<Rightarrow> dpState \<Rightarrow> dpState" where
  "notifyPod env p st =
     (let (item, it) = careAbout p
      in (case it of
            infSvrItemDontCare \<Rightarrow> st
          | infSvrItemUnboundLauncherBasedProvider \<Rightarrow>
              (case getProviderNodeName p of
                 Inl _ \<Rightarrow> st
               | Inr nodeName \<Rightarrow> enqueueOnNode env nodeName (UnboundLauncherPodItem (Name p) nodeName) st)
          | infSvrItemBoundProvider \<Rightarrow>
              (case getProviderNodeName p of
                 Inl _ \<Rightarrow> st
               | Inr nodeName \<Rightarrow> enqueueOnNode env nodeName item st)
          | infSvrItemRequester \<Rightarrow>
              (if NodeName (Spec p) = [] then st else enqueueOnNode env (NodeName (Spec p)) item st)))"

definition countRequester :: "int \<Rightarrow> pod \<Rightarrow> dpState \<Rightarrow> dpState" where
  "countRequester delta p st =
     (let iscName = annot p InferenceServerConfigAnnotationName
      in if snd (careAbout p) = infSvrItemRequester \<and> iscName \<noteq> []
         then st\<lparr>requesterCount := (requesterCount st)(iscName := requesterCount st iscName + delta)\<rparr> else st)"

definition countISC :: "int \<Rightarrow> string \<Rightarrow> dpState \<Rightarrow> dpState" where
  "countISC delta lcfgName st = st\<lparr>iscCount := (iscCount st)(lcfgName := iscCount st lcfgName + delta)\<rparr>"

definition notifyConfigMap :: "string \<Rightarrow> string \<Rightarrow> dpState \<Rightarrow> dpState" where
  "notifyConfigMap ns nm st =
     (if nm \<noteq> GPUMapName then st else st\<lparr>dqueue := dqueue st @ [QAdd (CmItem ns nm)]\<rparr>)"

definition OnAdd :: "dpEnv \<Rightarrow> dpState \<Rightarrow> dpObject \<Rightarrow> dpState" where
  "OnAdd env st obj =
     (case obj of
        DPod p \<Rightarrow> notifyPod env p (countRequester 1 p st)
      | DISC isc \<Rightarrow>
          enqueueInfSvrItemsByISC env isc
            (if LauncherConfigName isc \<noteq> [] then countISC 1 (LauncherConfigName isc) st else st)
      | DConfigMap ns nm \<Rightarrow> notifyConfigMap ns nm st
      | DOther \<Rightarrow> st)"

definition sameISCSpec :: "inferenceServerConfig \<Rightarrow> inferenceServerConfig \<Rightarrow> bool" where
  "sameISCSpec a b \<longleftrightarrow> ModelServerConfig a = ModelServerConfig b \<and> LauncherConfigName a = LauncherConfigName b"

definition OnUpdate :: "dpEnv \<Rightarrow> dpState \<Rightarrow> dpObject \<Rightarrow> dpObject \<Rightarrow> dpState" where
  "OnUpdate env st prev obj =
     (case obj of
        DPod p \<Rightarrow> notifyPod env p st
      | DISC isc \<Rightarrow>
          (let lcfgName = LauncherConfigName isc;
               st1 = (case prev of
                        DISC prevTyped \<Rightarrow>
                          if lcfgName \<noteq> [] \<and> LauncherConfigName prevTyped \<noteq> lcfgName
                          then countISC 1 lcfgName (countISC (-1) (LauncherConfigName prevTyped) st) else st
                      | _ \<Rightarrow> st);
               st2 = (case prev of
                        DISC prevTyped \<Rightarrow>
                          if \<not> sameISCSpec prevTyped isc then enqueueInstanceGCItemsForISC env (Name isc) st1 else st1
                      | _ \<Rightarrow> st1)
           in enqueueInfSvrItemsByISC env isc st2)
      | DConfigMap ns nm \<Rightarrow> notifyConfigMap ns nm st
      | DOther \<Rightarrow> st)"

definition OnDelete :: "dpEnv \<Rightarrow> dpState \<Rightarrow> dpDeleted \<Rightarrow> dpState" where
  "OnDelete env st del =
     (case (case del of DPlain obj \<Rightarrow> obj | DFinalStateUnknown obj \<Rightarrow> obj) of
        DPod p \<Rightarrow> notifyPod env p (countRequester (-1) p st)
      | DISC isc \<Rightarrow>
          enqueueInfSvrItemsByISC env isc
            (if LauncherConfigName isc \<noteq> [] then countISC (-1) (LauncherConfigName isc) st else st)
      | DConfigMap ns nm \<Rightarrow> notifyConfigMap ns nm st
      | DOther \<Rightarrow> st)"

text \<open>\<^verbatim>\<open>getLastWrite\<close>, which the handlers log.\<close>

definition getLastWrite :: "'a objectMeta_scheme \<Rightarrow> string \<times> time option" where
  "getLastWrite om =
     (case fold (\<lambda>(index, entry) (lastIndex, lastTime).
              if lastIndex < (0::int) \<or> (\<exists>t. mfTime entry = Some t \<and> t > lastTime)
              then (index, case mfTime entry of Some t \<Rightarrow> t | None \<Rightarrow> lastTime) else (lastIndex, lastTime))
            (zip (map int [0 ..< length (ManagedFields om)]) (ManagedFields om)) (-1, CreationTimestamp om) of
        (lastIndex, lastTime) \<Rightarrow>
          if lastIndex < 0 then (''<creator>'', Some (CreationTimestamp om))
          else (let entry = ManagedFields om ! nat lastIndex in (Manager entry, mfTime entry)))"

subsection \<open>The GPU map\<close>

fun addNodeGPUs :: "(string, GpuLocation) gomap option \<Rightarrow> string \<Rightarrow> (string, nat) gomap \<Rightarrow>
    (string, GpuLocation) gomap \<Rightarrow> nat \<Rightarrow> (string, GpuLocation) gomap \<times> nat" where
  "addNodeGPUs oldMap nodeName [] newMap additions = (newMap, additions)"
| "addNodeGPUs oldMap nodeName ((uuid, index) # rest) newMap additions =
     (let newLoc = \<lparr>glNode = nodeName, glIndex = index\<rparr>;
          known = (case oldMap of
                     None \<Rightarrow> False
                   | Some m \<Rightarrow> (case mget m uuid of None \<Rightarrow> \<lparr>glNode = [], glIndex = 0\<rparr> | Some loc \<Rightarrow> loc) = newLoc)
      in addNodeGPUs oldMap nodeName rest (mput uuid newLoc newMap) (if known then additions else additions + 1))"

fun parseGPUMap :: "dpEnv \<Rightarrow> (string, GpuLocation) gomap option \<Rightarrow> (string, string) gomap \<Rightarrow>
    (string, GpuLocation) gomap \<Rightarrow> nat \<Rightarrow> (string, GpuLocation) gomap \<times> nat" where
  "parseGPUMap env oldMap [] newMap additions = (newMap, additions)"
| "parseGPUMap env oldMap ((nodeName, mapStr) # dat) newMap additions =
     (case parseGpuIndices env mapStr of
        Inl _ \<Rightarrow> parseGPUMap env oldMap dat newMap additions
      | Inr newNodesMap \<Rightarrow>
          (let (newMap', additions') = addNodeGPUs oldMap nodeName newNodesMap newMap additions
           in parseGPUMap env oldMap dat newMap' additions'))"

definition cmItem_process :: "dpEnv \<Rightarrow> dpState \<Rightarrow> string \<Rightarrow> string \<Rightarrow> dpState \<times> workResult" where
  "cmItem_process env st ns nm =
     (let st1 = st\<lparr>dcalls := dcalls st @ [GetConfigMap ns nm]\<rparr>
      in (case configMapGet env (dcalls st) ns nm of
            Inl err \<Rightarrow>
              if isNotFound err then (st1\<lparr>gpuMap := None\<rparr>, (Some (ApiErr err), False))
              else (st1, (Some (ApiErr err), True))
          | Inr dat \<Rightarrow>
              (let (newMap, additions) = parseGPUMap env (gpuMap st1) dat [] 0;
                   st2 = st1\<lparr>gpuMap := Some newMap\<rparr>
               in (if additions > 0 then enqueueRequesters env st2 else st2, (None, False)))))"

definition mapToGPUIndices :: "dpState \<Rightarrow> string \<Rightarrow> string list \<Rightarrow> string list \<times> goError option" where
  "mapToGPUIndices st nodeName gpuUUIDs =
     (case gpuMap st of
        None \<Rightarrow> ([], Some (ErrorText (''GPU map ConfigMap '' @ GPUMapName @ '' is not available'')))
      | Some m \<Rightarrow>
          (let (indices, errs) = SliceMap gpuUUIDs
                 (\<lambda>uuid. case mget m uuid of
                           None \<Rightarrow> Inl (ErrorText (''UUID '' @ uuid @ '' is not known''))
                         | Some loc \<Rightarrow>
                             if glNode loc \<noteq> nodeName
                             then Inl (ErrorText (''UUID '' @ uuid @ '' is on Node '' @ glNode loc @ '', not '' @ nodeName))
                             else Inr (showNat (glIndex loc)))
           in (indices, if errs = [] then None else Some (Joined errs))))"

subsection \<open>Processing the items of a Node\<close>

text \<open>
  \<^verbatim>\<open>nodeItem.process\<close>, over what the items' own \<^verbatim>\<open>process\<close> does (\<open>proc\<close>), which may add items to the
  queue.  The ready items are visited in the order of the map.  A panic ends everything.
\<close>

definition afterItem :: "dpEnv \<Rightarrow> string \<Rightarrow> itemOnNode \<Rightarrow> processResult \<Rightarrow> dpState \<Rightarrow> dpState" where
  "afterItem env nn item out st =
     (if prRetry out
      then if prRetryAfter out > 0
           then (let st1 = modNode nn (\<lambda>nd. addAfter (nowD env st) nd item (nowD env st + prRetryAfter out)) st
                 in st1\<lparr>dcalls := dcalls st1 @ [RateForget item]\<rparr>)
           else (let backoff = rateWhen env (dcalls st) item;
                     st1 = st\<lparr>dcalls := dcalls st @ [RateWhen item backoff]\<rparr>
                 in modNode nn (\<lambda>nd. addAfter (nowD env st1) nd item (nowD env st1 + backoff)) st1)
      else st\<lparr>dcalls := dcalls st @ [RateForget item]\<rparr>)"

fun processItems :: "dpEnv \<Rightarrow> (dpState \<Rightarrow> string \<Rightarrow> itemOnNode \<Rightarrow> dpState \<times> processResult) \<Rightarrow> string \<Rightarrow>
    itemOnNode list \<Rightarrow> dpState \<Rightarrow> dpState \<times> goError option" where
  "processItems env proc nn [] st = (st, None)"
| "processItems env proc nn (item # items) st =
     (let (st1, out) = proc st nn item
      in if panicked out then (st1, prErr out)
         else processItems env proc nn items (afterItem env nn item out st1))"

definition nodeItem_process ::
  "dpEnv \<Rightarrow> (dpState \<Rightarrow> string \<Rightarrow> itemOnNode \<Rightarrow> dpState \<times> processResult) \<Rightarrow> dpState \<Rightarrow> string \<Rightarrow> dpState \<times> workResult" where
  "nodeItem_process env proc st nn =
     (let st1 = getNodeData st nn;
          (nd, ready) = takeReadyItems (nowD env st1) (nodeOf st1 nn);
          (st2, panic) = processItems env proc nn (mkeys ready) (modNode nn (\<lambda>_. nd) st1);
          earliest = earliestPending (nodeOf st2 nn)
      in if panic \<noteq> None then (st2, (panic, False))
         else (if earliest \<noteq> zeroTime
               then st2\<lparr>dqueue := dqueue st2 @ [QAddAfter (NodeItem nn) (max (earliest - nowD env st2) 0)]\<rparr> else st2,
               (None, False)))"

subsection \<open>The interface of a timed queue\<close>

text \<open>
  \<open>due q i\<close> is the time from which item \<open>i\<close> may be taken from the queue, if it is in the queue.
\<close>

locale timed_queue =
  fixes due :: "'q \<Rightarrow> 'i \<Rightarrow> time option"
    and push :: "time \<Rightarrow> 'q \<Rightarrow> 'i \<Rightarrow> time \<Rightarrow> 'q"
    and pull :: "time \<Rightarrow> 'q \<Rightarrow> 'q \<times> 'i list"
    and ok :: "'q \<Rightarrow> bool"
  assumes due_push: "due (push now q i t) j =
      (if j = i then Some (case due q i of None \<Rightarrow> t | Some t' \<Rightarrow> min t t') else due q j)"
    and due_pull: "ok q \<Longrightarrow> due (fst (pull now q)) j =
      (case due q j of None \<Rightarrow> None | Some t \<Rightarrow> if t > now then Some t else None)"
    and pulled: "ok q \<Longrightarrow> j \<in> set (snd (pull now q)) \<longleftrightarrow> (\<exists>t \<le> now. due q j = Some t)"
    and ok_push: "ok q \<Longrightarrow> ok (push now q i t)"
    and ok_pull: "ok q \<Longrightarrow> ok (fst (pull now q))"
begin

lemma push_never_postpones: "due q j = Some t \<Longrightarrow> \<exists>t' \<le> t. due (push now q i u) j = Some t'"
  by (auto simp: due_push)

lemma pushed_is_due: "\<exists>t' \<le> t. due (push now q i t) i = Some t'"
  by (auto simp: due_push split: option.split)

lemma pushed_now_is_pulled: "ok q \<Longrightarrow> now \<le> later \<Longrightarrow> i \<in> set (snd (pull later (push now q i now)))"
  using pushed_is_due [where t = now and now = now and q = q and i = i] by (auto simp: pulled ok_push intro: order_trans)

lemma pull_loses_nothing:
  assumes "ok q" and "due q j \<noteq> None"
  shows "(j \<in> set (snd (pull now q))) \<noteq> (due (fst (pull now q)) j = due q j)"
  using assms by (cases "due q j") (auto simp: pulled due_pull not_le)

end

definition dueOn :: "nodeData \<Rightarrow> itemOnNode \<Rightarrow> time option" where
  "dueOn nd i = map_option processAfter (mget (LocalQueue nd) i)"

definition pullReady :: "time \<Rightarrow> nodeData \<Rightarrow> nodeData \<times> itemOnNode list" where
  "pullReady now nd = (case takeReadyItems now nd of (nd', ready) \<Rightarrow> (nd', mkeys ready))"

lemma mget_filter:
  "mok m \<Longrightarrow> mget (filter (\<lambda>(k, v). P v) m) k = (case mget m k of None \<Rightarrow> None | Some v \<Rightarrow> if P v then Some v else None)"
proof (induction m)
  case (Cons kv m)
  obtain k' v' where kv: "kv = (k', v')" by (cases kv)
  have "k' \<notin> fst ` set m" using Cons.prems kv by (simp add: mok_def)
  then have "mget m k' = None" by (simp add: mget_None_iff)
  then show ?case using Cons kv by (auto simp: mok_def split: option.splits)
qed simp

lemma mok_filter: "mok m \<Longrightarrow> mok (filter P m)"
  by (induction m) (auto simp: mok_def)

interpretation nq: timed_queue dueOn addAfter pullReady "\<lambda>nd. mok (LocalQueue nd)"
proof (unfold_locales, goal_cases)
  case (1 now q i t j)
  then show ?case
    by (cases "mget (LocalQueue q) i") (auto simp: dueOn_def addAfter_def gomap_simps)
next
  case (2 q now j)
  then show ?case
    by (simp add: dueOn_def pullReady_def takeReadyItems_def mget_filter split: option.split)
next
  case (3 q j now)
  have "j \<in> set (snd (pullReady now q)) \<longleftrightarrow> (\<exists>si. (j, si) \<in> set (LocalQueue q) \<and> processAfter si \<le> now)"
    by (force simp: pullReady_def takeReadyItems_def not_less)
  with 3 show ?case by (auto simp: dueOn_def mget_Some_iff)
next
  case (4 q now i t)
  then show ?case
    by (auto simp: addAfter_def intro: mok_mput split: option.split)
next
  case (5 q now)
  then show ?case
    by (simp add: pullReady_def takeReadyItems_def mok_filter)
qed

subsection \<open>Nodes in the state\<close>

lemma nodeOf_modNode [simp]: "nodeOf (modNode nn f st) mm = (if mm = nn then f (nodeOf st nn) else nodeOf st mm)"
  by (simp add: nodeOf_def modNode_def gomap_simps)

lemma nodeOf_getNodeData [simp]: "nodeOf (getNodeData st nn) mm = nodeOf st mm"
  by (auto simp: nodeOf_def getNodeData_def gomap_simps split: option.split)

lemma modNode_keeps [simp]:
  "dqueue (modNode nn f st) = dqueue st" "dcalls (modNode nn f st) = dcalls st" "gpuMap (modNode nn f st) = gpuMap st"
  "dqueue (getNodeData st nn) = dqueue st" "dcalls (getNodeData st nn) = dcalls st"
  "gpuMap (getNodeData st nn) = gpuMap st"
  by (simp_all add: modNode_def getNodeData_def split: option.split)

lemma nodeOf_upd [simp]:
  "nodeOf (st\<lparr>dqueue := q\<rparr>) nn = nodeOf st nn" "nodeOf (st\<lparr>dcalls := cs\<rparr>) nn = nodeOf st nn"
  "nodeOf (st\<lparr>requesterCount := rc\<rparr>) nn = nodeOf st nn" "nodeOf (st\<lparr>iscCount := ic\<rparr>) nn = nodeOf st nn"
  "nodeOf (st\<lparr>gpuMap := gm\<rparr>) nn = nodeOf st nn"
  by (simp_all add: nodeOf_def)

lemma nowD_keeps [simp]: "nowD env (modNode nn f st) = nowD env st" "nowD env (getNodeData st nn) = nowD env st"
  "nowD env (st\<lparr>dqueue := q\<rparr>) = nowD env st" "nowD env (st\<lparr>requesterCount := rc\<rparr>) = nowD env st"
  by (simp_all add: nowD_def)

subsection \<open>Notifications reach the queue\<close>

text \<open>The Node and the item a Pod's notification is about, when there are such.\<close>

definition notifyTarget :: "pod \<Rightarrow> (string \<times> itemOnNode) option" where
  "notifyTarget p =
     (case careAbout p of
        (item, infSvrItemRequester) \<Rightarrow> if NodeName (Spec p) = [] then None else Some (NodeName (Spec p), item)
      | (item, infSvrItemBoundProvider) \<Rightarrow>
          (case getProviderNodeName p of Inl _ \<Rightarrow> None | Inr nn \<Rightarrow> Some (nn, item))
      | (item, infSvrItemUnboundLauncherBasedProvider) \<Rightarrow>
          (case getProviderNodeName p of Inl _ \<Rightarrow> None | Inr nn \<Rightarrow> Some (nn, UnboundLauncherPodItem (Name p) nn))
      | (item, infSvrItemDontCare) \<Rightarrow> None)"

lemma notifyPod_target:
  "notifyPod env p st = (case notifyTarget p of None \<Rightarrow> st | Some (nn, item) \<Rightarrow> enqueueOnNode env nn item st)"
  by (auto simp: notifyPod_def notifyTarget_def Let_def split_beta split: infSvrItemType.split sum.split prod.split)

lemma enqueueOnNode_due:
  "\<exists>t \<le> nowD env st. dueOn (nodeOf (enqueueOnNode env nn item st) nn) item = Some t"
  "dueOn (nodeOf st mm) j = Some t \<Longrightarrow> \<exists>t' \<le> t. dueOn (nodeOf (enqueueOnNode env nn item st) mm) j = Some t'"
  "dqueue (enqueueOnNode env nn item st) = dqueue st @ [QAdd (NodeItem nn)]"
  using nq.pushed_is_due nq.push_never_postpones by (auto simp: enqueueOnNode_def addItem_def add_def Let_def)

lemma countRequester_keeps [simp]:
  "nodeOf (countRequester d p st) nn = nodeOf st nn" "dqueue (countRequester d p st) = dqueue st"
  "nowD env (countRequester d p st) = nowD env st"
  by (simp_all add: countRequester_def Let_def)

text \<open>
  Whichever way an informer tells of a Pod the controller cares about, the Pod's item is in the local
  queue of its Node afterwards, ready to be processed, the Node is in the work queue, and no item that was
  waiting already is lost or postponed; a notification about any other Pod changes no queue.
\<close>

theorem notification_enqueues:
  assumes "st' \<in> {OnAdd env st (DPod p), OnUpdate env st prev (DPod p), OnDelete env st (DPlain (DPod p)),
    OnDelete env st (DFinalStateUnknown (DPod p))}"
  shows "(case notifyTarget p of
      None \<Rightarrow> (\<forall>nn. nodeOf st' nn = nodeOf st nn) \<and> dqueue st' = dqueue st
    | Some (nn, item) \<Rightarrow>
        (\<exists>t \<le> nowD env st. dueOn (nodeOf st' nn) item = Some t) \<and> dqueue st' = dqueue st @ [QAdd (NodeItem nn)]) \<and>
    (\<forall>mm j t. dueOn (nodeOf st mm) j = Some t \<longrightarrow> (\<exists>t' \<le> t. dueOn (nodeOf st' mm) j = Some t'))"
proof -
  obtain st0 where st0: "st' = notifyPod env p st0" "\<And>nn. nodeOf st0 nn = nodeOf st nn" "dqueue st0 = dqueue st"
    "nowD env st0 = nowD env st"
    using assms by (auto simp: OnAdd_def OnUpdate_def OnDelete_def)
  show ?thesis
    using enqueueOnNode_due [where env = env and st = st0]
    by (auto simp: st0 notifyPod_target split: option.split)
qed


subsection \<open>Retries are not lost\<close>

definition queuePos :: "dpState \<Rightarrow> string \<Rightarrow> bool" where
  "queuePos st nn \<longleftrightarrow> (\<forall>x \<in> set (LocalQueue (nodeOf st nn)). 0 < processAfter (snd x))"

text \<open>What the loop over the items of a Node relies on: processing an item removes none from the queue.\<close>

definition keepsQueue :: "(dpState \<Rightarrow> string \<Rightarrow> itemOnNode \<Rightarrow> dpState \<times> processResult) \<Rightarrow> string \<Rightarrow> bool" where
  "keepsQueue proc nn \<longleftrightarrow> (\<forall>st i.
     (queuePos st nn \<longrightarrow> queuePos (fst (proc st nn i)) nn) \<and>
     (\<forall>j. dueOn (nodeOf st nn) j \<noteq> None \<longrightarrow> dueOn (nodeOf (fst (proc st nn i)) nn) j \<noteq> None))"

definition clockOk :: "dpEnv \<Rightarrow> bool" where
  "clockOk env \<longleftrightarrow> (\<forall>h. 0 < timeNow env h) \<and> (\<forall>h i. 0 \<le> rateWhen env h i)"

lemma earliest_fold:
  assumes "\<forall>x \<in> set q. 0 < processAfter (snd x)" and "0 \<le> e"
  defines "r \<equiv> fold (\<lambda>(_, si) e. if e = 0 \<or> processAfter si < e then processAfter si else e) q e"
  shows "(0 < e \<longrightarrow> 0 < r \<and> r \<le> e) \<and> (\<forall>x \<in> set q. 0 < r \<and> r \<le> processAfter (snd x))"
  using assms(1,2) unfolding r_def
proof (induction q arbitrary: e)
  case (Cons x q)
  let ?r = "\<lambda>e q. fold (\<lambda>(_, si) e. if e = 0 \<or> processAfter si < e then processAfter si else e) q e"
  define e' where "e' = (if e = 0 \<or> processAfter (snd x) < e then processAfter (snd x) else e)"
  define r' where "r' = ?r e' q"
  have e: "0 < e'" "e' \<le> processAfter (snd x)" "0 < e \<longrightarrow> e' \<le> e" using Cons.prems by (auto simp: e'_def)
  have IH: "(0 < e' \<longrightarrow> 0 < r' \<and> r' \<le> e') \<and> (\<forall>x \<in> set q. 0 < r' \<and> r' \<le> processAfter (snd x))"
    unfolding r'_def using Cons.prems e(1) by (intro Cons.IH) auto
  have "?r e (x # q) = r'" by (simp add: split_beta r'_def e'_def)
  with IH e show ?case by (simp only: list.set ball_simps) auto
qed simp

lemma earliest_le:
  assumes "queuePos st nn" and "dueOn (nodeOf st nn) i = Some t"
  shows "0 < earliestPending (nodeOf st nn) \<and> earliestPending (nodeOf st nn) \<le> t"
proof -
  obtain si where "(i, si) \<in> set (LocalQueue (nodeOf st nn))" "processAfter si = t"
    using assms(2) map_of_SomeD by (fastforce simp: dueOn_def)
  then show ?thesis
    using earliest_fold [of "LocalQueue (nodeOf st nn)" 0] assms(1)
    by (force simp: queuePos_def earliestPending_def)
qed

lemma queuePos_add:
  assumes "queuePos st nn" and "0 < t"
  shows "queuePos (modNode nn (\<lambda>nd. addAfter now nd i t) st) nn"
  using assms
  by (auto simp: queuePos_def addAfter_def dest!: in_set_mput split: option.splits)

lemma queuePos_upd [simp]: "queuePos (st\<lparr>dcalls := cs\<rparr>) nn = queuePos st nn" "queuePos (st\<lparr>dqueue := q\<rparr>) nn = queuePos st nn"
  by (simp_all add: queuePos_def)

lemma nowD_pos: "clockOk env \<Longrightarrow> 0 < nowD env st"
  by (simp add: clockOk_def nowD_def)

lemma afterItem_pos:
  assumes "clockOk env" and "queuePos st nn"
  shows "queuePos (afterItem env nn i out st) nn"
proof -
  have "0 < nowD env s + d" if "0 \<le> d" for s d using nowD_pos [OF assms(1), of s] that by simp
  moreover have "0 \<le> rateWhen env h i" for h using assms(1) by (simp add: clockOk_def)
  ultimately show ?thesis using assms(2) by (auto simp: afterItem_def Let_def intro!: queuePos_add)
qed

lemma afterItem_due:
  "dueOn (nodeOf st nn) j \<noteq> None \<or> j = i \<and> prRetry out \<Longrightarrow> dueOn (nodeOf (afterItem env nn i out st) nn) j \<noteq> None"
  by (auto simp: afterItem_def Let_def nq.due_push)

lemma processItems_pos:
  assumes "clockOk env" and "keepsQueue proc nn" and "queuePos st nn"
  shows "queuePos (fst (processItems env proc nn items st)) nn"
  using assms(3)
proof (induction items arbitrary: st)
  case (Cons i items)
  then show ?case using assms(1,2) by (auto simp: split_beta keepsQueue_def intro: afterItem_pos)
qed simp

text \<open>The item has its turn in a pass over the given items, and its processing asks for a retry.\<close>

definition retries :: "dpEnv \<Rightarrow> (dpState \<Rightarrow> string \<Rightarrow> itemOnNode \<Rightarrow> dpState \<times> processResult) \<Rightarrow> string \<Rightarrow> itemOnNode list \<Rightarrow> dpState \<Rightarrow> itemOnNode \<Rightarrow> bool" where
  "retries env proc nn items st j \<longleftrightarrow>
     (\<exists>pre post. items = pre @ j # post \<and> prRetry (snd (proc (fst (processItems env proc nn pre st)) nn j)))"

lemma processItems_due:
  assumes kq: "keepsQueue proc nn" and "snd (processItems env proc nn items st) = None"
    and "dueOn (nodeOf st nn) j \<noteq> None \<or> retries env proc nn items st j"
  shows "dueOn (nodeOf (fst (processItems env proc nn items st)) nn) j \<noteq> None"
  using assms(2,3)
proof (induction items arbitrary: st)
  case (Cons i items)
  obtain st1 out where p: "proc st nn i = (st1, out)" by (cases "proc st nn i")
  have np: "\<not> panicked out" using Cons.prems(1) p by (auto simp: panicked_def split: option.splits)
  have "dueOn (nodeOf st nn) j \<noteq> None \<Longrightarrow> dueOn (nodeOf st1 nn) j \<noteq> None"
    using kq p by (metis keepsQueue_def fst_conv)
  moreover have "j = i \<and> prRetry out \<or> retries env proc nn items (afterItem env nn i out st1) j"
    if ret: "retries env proc nn (i # items) st j"
  proof -
    from ret obtain pre post where pre: "i # items = pre @ j # post" "prRetry (snd (proc (fst (processItems env proc nn pre st)) nn j))"
      by (auto simp: retries_def)
    show ?thesis using pre p np by (cases pre) (auto simp: retries_def)
  qed
  ultimately have "dueOn (nodeOf (afterItem env nn i out st1) nn) j \<noteq> None \<or> retries env proc nn items (afterItem env nn i out st1) j"
    using Cons.prems(2) afterItem_due [of st1 nn j i out env] by blast
  then show ?case using Cons.IH Cons.prems(1) np by (simp add: p)
qed (simp add: retries_def)

lemma node_pass_split:
  fixes st :: dpState
  assumes "fst (snd (nodeItem_process env proc st nn)) = None"
  obtains items st1 st2 where "fst (nodeItem_process env proc st nn) =
      (if earliestPending (nodeOf st2 nn) \<noteq> 0
       then st2\<lparr>dqueue := dqueue st2 @ [QAddAfter (NodeItem nn) (max (earliestPending (nodeOf st2 nn) - nowD env st2) 0)]\<rparr> else st2)"
    and "st1 = modNode nn (\<lambda>_. fst (pullReady (nowD env st) (nodeOf st nn))) (getNodeData st nn)"
    and "processItems env proc nn items st1 = (st2, None)"
    and "items = snd (pullReady (nowD env st) (nodeOf st nn))"
  using assms
  by (cases "processItems env proc nn (snd (pullReady (nowD env st) (nodeOf st nn)))
        (modNode nn (\<lambda>_. fst (pullReady (nowD env st) (nodeOf st nn))) (getNodeData st nn))")
    (auto intro!: that simp: nodeItem_process_def pullReady_def takeReadyItems_def Let_def split_beta split: if_splits)

lemma pull_pos: "queuePos st nn \<Longrightarrow> queuePos (modNode nn (\<lambda>_. fst (pullReady now (nodeOf st nn))) (getNodeData st nn)) nn"
  by (auto simp: queuePos_def pullReady_def takeReadyItems_def)

lemma retry_kept:
  assumes clk: "clockOk env" and kq: "keepsQueue proc nn" and pos: "queuePos st nn"
    and ok: "mok (LocalQueue (nodeOf st nn))" and queued: "dueOn (nodeOf st nn) i \<noteq> None"
    and pass: "nodeItem_process env proc st nn = (st', None, again)"
    and retry: "i \<in> set (snd (pullReady (nowD env st) (nodeOf st nn))) \<Longrightarrow>
      retries env proc nn (snd (pullReady (nowD env st) (nodeOf st nn))) (modNode nn (\<lambda>_. fst (pullReady (nowD env st) (nodeOf st nn))) (getNodeData st nn)) i"
  shows "\<exists>t d. dueOn (nodeOf st' nn) i = Some t \<and> QAddAfter (NodeItem nn) d \<in> set (dqueue st') \<and>
    nowD env st' + d \<le> max t (nowD env st')"
proof -
  obtain items st1 st2 where st': "st' = (if earliestPending (nodeOf st2 nn) \<noteq> 0
       then st2\<lparr>dqueue := dqueue st2 @ [QAddAfter (NodeItem nn) (max (earliestPending (nodeOf st2 nn) - nowD env st2) 0)]\<rparr> else st2)"
    and st1: "st1 = modNode nn (\<lambda>_. fst (pullReady (nowD env st) (nodeOf st nn))) (getNodeData st nn)"
    and st2: "processItems env proc nn items st1 = (st2, None)" and items: "items = snd (pullReady (nowD env st) (nodeOf st nn))"
    using node_pass_split [of env proc st nn] pass by (metis fst_conv snd_conv)
  have pos2: "queuePos st2 nn"
    using processItems_pos [OF clk kq, of st1 items] pull_pos [OF pos, of "nowD env st"] st2 by (simp add: st1)
  have "i \<in> set items \<or> dueOn (nodeOf st1 nn) i \<noteq> None"
    using nq.pull_loses_nothing [OF ok queued, of "nowD env st"] queued items by (auto simp: st1)
  then have "dueOn (nodeOf st2 nn) i \<noteq> None"
    using processItems_due [OF kq, of env items st1 i] retry st2 items st1 by auto
  then obtain t where t: "dueOn (nodeOf st2 nn) i = Some t" by auto
  from earliest_le [OF pos2 t] t show ?thesis by (auto simp: st')
qed

subsection \<open>The GPU map\<close>

lemma addNodeGPUs_map:
  "mok nm \<Longrightarrow> mget (fst (addNodeGPUs old nn nm m k)) u =
     (case mget nm u of Some i \<Rightarrow> Some \<lparr>glNode = nn, glIndex = i\<rparr> | None \<Rightarrow> mget m u)"
proof (induction nm arbitrary: m k)
  case (Cons ui nm)
  obtain v i where vi: "ui = (v, i)" by (cases ui)
  then have "mok nm" "mget nm v = None" using Cons.prems by (auto simp: mok_def mget_None_iff)
  with Cons.IH vi show ?case by (auto simp: Let_def gomap_simps split: option.split)
qed simp

definition gpuAt :: "dpEnv \<Rightarrow> (string, string) gomap \<Rightarrow> string \<Rightarrow> string \<Rightarrow> nat \<Rightarrow> bool" where
  "gpuAt env dat u nn i \<longleftrightarrow> (\<exists>s nm. (nn, s) \<in> set dat \<and> parseGpuIndices env s = Inr nm \<and> mget nm u = Some i)"

lemma gpuAt_Cons: "gpuAt env ((nn', s) # dat) u nn i \<longleftrightarrow>
    nn = nn' \<and> (\<exists>nm. parseGpuIndices env s = Inr nm \<and> mget nm u = Some i) \<or> gpuAt env dat u nn i"
  by (auto simp: gpuAt_def)

lemma parseGPUMap_map:
  assumes "\<forall>s nm. parseGpuIndices env s = Inr nm \<longrightarrow> mok nm"
    and "\<forall>nn i nn' i'. gpuAt env dat u nn i \<longrightarrow> gpuAt env dat u nn' i' \<longrightarrow> nn = nn' \<and> i = i'"
  shows "mget (fst (parseGPUMap env old dat m k)) u = Some loc \<longleftrightarrow>
    gpuAt env dat u (glNode loc) (glIndex loc) \<or> (\<nexists>nn i. gpuAt env dat u nn i) \<and> mget m u = Some loc"
  using assms(2)
proof (induction dat arbitrary: m k)
  case Nil
  then show ?case by (simp add: gpuAt_def)
next
  case (Cons d dat)
  obtain nn s where d: "d = (nn, s)" by (cases d)
  show ?case
  proof (cases "parseGpuIndices env s")
    case (Inl e)
    then have "gpuAt env (d # dat) u nn' i \<longleftrightarrow> gpuAt env dat u nn' i" for nn' i by (simp add: d gpuAt_Cons)
    with Cons Inl show ?thesis by (simp add: d)
  next
    case (Inr nm)
    have g: "gpuAt env (d # dat) u nn' i \<longleftrightarrow> nn' = nn \<and> mget nm u = Some i \<or> gpuAt env dat u nn' i" for nn' i
      using Inr by (auto simp: d gpuAt_Cons)
    obtain m' k' where mk: "addNodeGPUs old nn nm m k = (m', k')" by (cases "addNodeGPUs old nn nm m k")
    have m': "mget m' u = (case mget nm u of Some i \<Rightarrow> Some \<lparr>glNode = nn, glIndex = i\<rparr> | None \<Rightarrow> mget m u)"
      using addNodeGPUs_map [of nm old nn m k u] assms(1) Inr mk by auto
    note uniq = Cons.prems [rule_format]
    have IH: "mget (fst (parseGPUMap env old dat m' k')) u = Some loc \<longleftrightarrow>
        gpuAt env dat u (glNode loc) (glIndex loc) \<or> (\<nexists>nn i. gpuAt env dat u nn i) \<and> mget m' u = Some loc"
    proof (rule Cons.IH, intro allI impI)
      show "nn1 = nn2 \<and> i1 = i2" if "gpuAt env dat u nn1 i1" "gpuAt env dat u nn2 i2" for nn1 i1 nn2 i2
        by (rule uniq) (simp_all only: g that simp_thms)
    qed
    have step: "fst (parseGPUMap env old (d # dat) m k) = fst (parseGPUMap env old dat m' k')" by (simp add: d Inr mk)
    show ?thesis
    proof (cases "mget nm u")
      case None
      then have "gpuAt env (d # dat) u nn' i' \<longleftrightarrow> gpuAt env dat u nn' i'" for nn' i' unfolding g by simp
      moreover have "mget m' u = mget m u" using m' None by simp
      ultimately show ?thesis using IH by (simp only: step)
    next
      case (Some i)
      then have "gpuAt env dat u nn' i' \<Longrightarrow> nn' = nn \<and> i' = i" for nn' i'
        by (intro uniq) (simp_all only: g simp_thms)
      moreover have "Some \<lparr>glNode = nn, glIndex = i\<rparr> = Some loc \<longleftrightarrow> glNode loc = nn \<and> glIndex loc = i"
        by (cases loc) auto
      moreover have "gpuAt env (d # dat) u nn' i' \<longleftrightarrow> nn' = nn \<and> i' = i \<or> gpuAt env dat u nn' i'" for nn' i'
        unfolding g using Some by auto
      moreover have "mget m' u = Some \<lparr>glNode = nn, glIndex = i\<rparr>" using m' Some by simp
      ultimately show ?thesis using IH unfolding step by metis
    qed
  qed
qed

lemma SliceMap_ok_iff: "SliceMap xs g = (ys, []) \<longleftrightarrow> list_all2 (\<lambda>x y. g x = Inr y) xs ys"
proof (induction xs arbitrary: ys)
  case (Cons x xs)
  obtain rs es where r: "SliceMap xs g = (rs, es)" by (cases "SliceMap xs g")
  show ?case
  proof (cases "g x")
    case (Inr y)
    then have "SliceMap (x # xs) g = (ys, []) \<longleftrightarrow> ys = y # rs \<and> es = []" using r by (auto simp: Let_def)
    with Cons.IH [of rs] Cons.IH r Inr show ?thesis
      by (cases ys) (auto simp: list_all2_Cons1)
  qed (use r in \<open>auto simp: Let_def list_all2_Cons1\<close>)
qed auto

text \<open>Nothing waiting is lost or postponed, and no call is made.\<close>

definition keepsDue :: "dpState \<Rightarrow> dpState \<Rightarrow> bool" where
  "keepsDue st st' \<longleftrightarrow> dcalls st' = dcalls st \<and> gpuMap st' = gpuMap st \<and>
     (\<forall>mm j t. dueOn (nodeOf st mm) j = Some t \<longrightarrow> (\<exists>t' \<le> t. dueOn (nodeOf st' mm) j = Some t'))"

lemma keepsDue_refl [simp]: "keepsDue st st"
  by (auto simp: keepsDue_def)

lemma keepsDue_trans: "keepsDue st st1 \<Longrightarrow> keepsDue st1 st2 \<Longrightarrow> keepsDue st st2"
  unfolding keepsDue_def by (metis order_trans)

lemma keepsDue_queue [simp]: "keepsDue st (st'\<lparr>dqueue := q\<rparr>) = keepsDue st st'"
  by (simp add: keepsDue_def)

lemma addItem_due:
  "keepsDue st (addItem env nn i st)" "\<exists>t \<le> nowD env st. dueOn (nodeOf (addItem env nn i st) nn) i = Some t"
  using nq.pushed_is_due nq.push_never_postpones by (auto simp: keepsDue_def addItem_def add_def)

lemma fold_keepsDue: "(\<And>x st. keepsDue st (f x st)) \<Longrightarrow> keepsDue st (fold f xs st)"
proof (induction xs arbitrary: st)
  case (Cons x xs)
  then show ?case using keepsDue_trans [of st "f x st"] by simp
qed simp

text \<open>A fold of steps that keep what is waiting leaves ready what any one of its steps makes ready.\<close>

lemma fold_makes_due:
  assumes keeps: "\<And>x st. keepsDue st (f x st)" and mem: "x \<in> set xs"
    and due: "\<And>st. \<exists>t \<le> nowD env st. dueOn (nodeOf (f x st) nn) i = Some t"
  shows "\<exists>t \<le> nowD env st. dueOn (nodeOf (fold f xs st) nn) i = Some t"
proof -
  obtain ys zs where xs: "xs = ys @ x # zs" using mem by (auto dest: split_list)
  let ?s = "fold f ys st"
  have now: "nowD env ?s = nowD env st" using fold_keepsDue [of f st ys, OF keeps] by (simp add: keepsDue_def nowD_def)
  obtain t where "t \<le> nowD env ?s" "dueOn (nodeOf (f x ?s) nn) i = Some t" using due by blast
  moreover have "keepsDue (f x ?s) (fold f zs (f x ?s))" by (rule fold_keepsDue [OF keeps])
  ultimately show ?thesis using now unfolding keepsDue_def by (fastforce simp: xs)
qed

lemma enqueueRequesters_keeps: "keepsDue st (enqueueRequesters env st)"
proof -
  have "keepsDue s (fold (\<lambda>(u, sd). addItem env nn (InfSvrItem u (RequestingPodName sd))) svrs s)" for s nn svrs
    by (rule fold_keepsDue) (auto intro: addItem_due)
  then show ?thesis unfolding enqueueRequesters_def
    by (intro fold_keepsDue) (auto simp: Let_def split_beta)
qed

lemma enqueueRequesters_due:
  assumes "mok (nodeNameToData st)" and "mget (InferenceServers (nodeOf st nn)) u = Some sd"
  shows "\<exists>t \<le> nowD env st. dueOn (nodeOf (enqueueRequesters env st) nn) (InfSvrItem u (RequestingPodName sd)) = Some t"
proof -
  let ?add = "\<lambda>(u, sd). addItem env nn (InfSvrItem u (RequestingPodName sd))"
  obtain nd where nd: "(nn, nd) \<in> set (nodeNameToData st)" "(u, sd) \<in> set (InferenceServers nd)"
    using assms by (auto simp: nodeOf_def newNodeData_def mget_Some_iff split: option.splits dest: map_of_SomeD)
  have "\<exists>t \<le> nowD env s. dueOn (nodeOf (fold ?add (InferenceServers nd) s) nn) (InfSvrItem u (RequestingPodName sd)) = Some t" for s
    by (rule fold_makes_due [OF _ nd(2)]) (auto intro: addItem_due)
  moreover have "keepsDue s (fold (\<lambda>(u, sd). addItem env nn (InfSvrItem u (RequestingPodName sd))) svrs s)" for s nn svrs
    by (rule fold_keepsDue) (auto intro: addItem_due)
  ultimately show ?thesis unfolding enqueueRequesters_def
    by (intro fold_makes_due [OF _ nd(1)]) (auto simp: Let_def split_beta)
qed

lemma addNodeGPUs_counts:
  "k \<le> snd (addNodeGPUs old nn nm m k)"
  "(u, i) \<in> set nm \<Longrightarrow> (case old of None \<Rightarrow> True | Some om \<Rightarrow> mget om u \<noteq> Some \<lparr>glNode = nn, glIndex = i\<rparr>) \<Longrightarrow> nn \<noteq> [] \<Longrightarrow>
     k < snd (addNodeGPUs old nn nm m k)"
proof (induction nm arbitrary: m k)
  case (Cons vi nm)
  {
    case 1
    show ?case using Cons.IH(1) by (cases vi) (auto simp: Let_def intro: order_trans [of _ "Suc k"])
  next
    case 2
    obtain v j where vj: "vi = (v, j)" by (cases vi)
    show ?case
    proof (cases "(u, i) = (v, j)")
      case True
      with 2 vj show ?thesis
        using Cons.IH(1) [of "Suc k" "mput u \<lparr>glNode = nn, glIndex = i\<rparr> m"]
        by (auto simp: Let_def Suc_le_eq split: option.splits)
    next
      case False
      with 2 vj have "(u, i) \<in> set nm" by auto
      with 2 Cons.IH(2) show ?thesis by (auto simp: vj Let_def intro: order.strict_trans [of _ "Suc k"])
    qed
  }
qed auto

lemma parseGPUMap_counts:
  "k \<le> snd (parseGPUMap env old dat m k)"
  "(nn, s) \<in> set dat \<Longrightarrow> parseGpuIndices env s = Inr nm \<Longrightarrow> (u, i) \<in> set nm \<Longrightarrow> nn \<noteq> [] \<Longrightarrow>
     (case old of None \<Rightarrow> True | Some om \<Rightarrow> mget om u \<noteq> Some \<lparr>glNode = nn, glIndex = i\<rparr>) \<Longrightarrow>
     k < snd (parseGPUMap env old dat m k)"
proof (induction dat arbitrary: m k)
  case (Cons d dat)
  obtain n' s' where d: "d = (n', s')" by (cases d)
  {
    case 1
    show ?case using Cons.IH(1) order_trans [OF addNodeGPUs_counts(1) Cons.IH(1)]
      by (auto simp: d split_beta split: sum.split)
  next
    case 2
    show ?case
    proof (cases "(nn, s) = d")
      case True
      with 2 have "k < snd (addNodeGPUs old nn nm m k)" by (intro addNodeGPUs_counts(2)) auto
      with Cons.IH(1) 2 True show ?thesis by (auto simp: split_beta intro: order.strict_trans2)
    next
      case False
      with 2 have "(nn, s) \<in> set dat" by auto
      with 2 have IH: "k' < snd (parseGPUMap env old dat m' k')" for m' k' by (intro Cons.IH(2)) auto
      show ?thesis using IH order.strict_trans1 [OF addNodeGPUs_counts(1) IH]
        by (auto simp: d split_beta split: sum.split)
    qed
  }
qed auto

lemma indices_iff:
  assumes at: "\<And>u loc. mget m u = Some loc \<longleftrightarrow> gpuAt env dat u (glNode loc) (glIndex loc)" and m: "gpuMap st = Some m"
  shows "mapToGPUIndices st nn us = (ixs, None) \<longleftrightarrow>
    list_all2 (\<lambda>u ix. \<exists>i. gpuAt env dat u nn i \<and> ix = showNat i) us ixs"
proof -
  let ?g = "\<lambda>u. case mget m u of None \<Rightarrow> Inl (ErrorText (''UUID '' @ u @ '' is not known''))
    | Some loc \<Rightarrow> if glNode loc \<noteq> nn then Inl (ErrorText (''UUID '' @ u @ '' is on Node '' @ glNode loc @ '', not '' @ nn))
        else Inr (showNat (glIndex loc))"
  have "?g u = Inr ix \<longleftrightarrow> (\<exists>i. gpuAt env dat u nn i \<and> ix = showNat i)" for u ix
  proof -
    have at': "gpuAt env dat u nn i \<longleftrightarrow> mget m u = Some \<lparr>glNode = nn, glIndex = i\<rparr>" for i by (simp add: at)
    show ?thesis
    proof (cases "mget m u")
      case (Some loc)
      then show ?thesis by (cases loc) (auto simp: at')
    qed (simp add: at')
  qed
  moreover have "mapToGPUIndices st nn us = (ixs, None) \<longleftrightarrow> SliceMap us ?g = (ixs, [])"
    by (auto simp: mapToGPUIndices_def m split_beta prod_eq_iff)
  ultimately show ?thesis unfolding SliceMap_ok_iff by simp
qed

text \<open>
  C38: after the GPU map has been read, the UUIDs of a Node's GPUs are translated to indices exactly when
  the map places each of them on that Node, and to the indices it gives; and if it places any GPU where the
  map read before did not, every inference server the controller knows of is ready to be processed again.
\<close>

theorem gpu_map_read:
  assumes get: "configMapGet env (dcalls st) ns nm = Inr dat"
    and parse: "\<forall>s m. parseGpuIndices env s = Inr m \<longrightarrow> mok m"
    and uniq: "\<forall>u nn i nn' i'. gpuAt env dat u nn i \<longrightarrow> gpuAt env dat u nn' i' \<longrightarrow> nn = nn' \<and> i = i'"
    and nodes: "mok (nodeNameToData st)"
  defines "st' \<equiv> fst (cmItem_process env st ns nm)"
  shows "(mapToGPUIndices st' nn us = (ixs, None) \<longleftrightarrow>
      list_all2 (\<lambda>u ix. \<exists>i. gpuAt env dat u nn i \<and> ix = showNat i) us ixs) \<and>
    (gpuAt env dat u mm i \<longrightarrow> mm \<noteq> [] \<longrightarrow>
       (case gpuMap st of None \<Rightarrow> True | Some om \<Rightarrow> mget om u \<noteq> Some \<lparr>glNode = mm, glIndex = i\<rparr>) \<longrightarrow>
       mget (InferenceServers (nodeOf st kk)) v = Some sd \<longrightarrow>
       (\<exists>t \<le> nowD env st'. dueOn (nodeOf st' kk) (InfSvrItem v (RequestingPodName sd)) = Some t))"
proof -
  let ?st1 = "st\<lparr>dcalls := dcalls st @ [GetConfigMap ns nm]\<rparr>"
  obtain m k where mk: "parseGPUMap env (gpuMap st) dat [] 0 = (m, k)" by (cases "parseGPUMap env (gpuMap st) dat [] 0")
  let ?st2 = "?st1\<lparr>gpuMap := Some m\<rparr>"
  have st': "st' = (if 0 < k then enqueueRequesters env ?st2 else ?st2)"
    by (simp add: st'_def cmItem_process_def get mk Let_def)
  have keep: "keepsDue ?st2 st'" unfolding st' by (simp add: enqueueRequesters_keeps)
  have "mget m u = Some loc \<longleftrightarrow> gpuAt env dat u (glNode loc) (glIndex loc)" for u loc
    using parseGPUMap_map [of env dat u "gpuMap st" "[]" 0 loc] parse uniq mk by simp
  moreover have "gpuMap st' = Some m" using keep by (simp add: keepsDue_def)
  ultimately have "mapToGPUIndices st' nn us = (ixs, None) \<longleftrightarrow>
      list_all2 (\<lambda>u ix. \<exists>i. gpuAt env dat u nn i \<and> ix = showNat i) us ixs"
    by (rule indices_iff)
  moreover have "\<exists>t \<le> nowD env st'. dueOn (nodeOf st' kk) (InfSvrItem v (RequestingPodName sd)) = Some t"
    if "gpuAt env dat u mm i" "mm \<noteq> []" 
       "case gpuMap st of None \<Rightarrow> True | Some om \<Rightarrow> mget om u \<noteq> Some \<lparr>glNode = mm, glIndex = i\<rparr>"
       "mget (InferenceServers (nodeOf st kk)) v = Some sd"
  proof -
    from that(1) obtain s nm where "(mm, s) \<in> set dat" "parseGpuIndices env s = Inr nm" "(u, i) \<in> set nm"
      unfolding gpuAt_def by (auto dest: map_of_SomeD)
    from parseGPUMap_counts(2) [OF this that(2,3), of 0 "[]"] have "0 < k" using mk by simp
    moreover have "nowD env st' = nowD env ?st2" using keep by (simp add: keepsDue_def nowD_def)
    ultimately show ?thesis
      using enqueueRequesters_due [of ?st2 kk v sd env] that(4) nodes by (simp add: st')
  qed
  ultimately show ?thesis by blast
qed

text \<open>
  The count of InferenceServerConfigs per LauncherConfig goes astray when an InferenceServerConfig's
  LauncherConfig name is emptied: the count of the name it had stays one too high.
\<close>

lemma countISC_keeps [simp]:
  "iscCount (addItem env nn i st) = iscCount st" "iscCount (st\<lparr>dqueue := q\<rparr>) = iscCount st"
  by (simp_all add: addItem_def modNode_def getNodeData_def split: option.split)

lemma enqueueEachOfISC_count: "iscCount (fst (enqueueEachOfISC env ps st ns)) = iscCount st"
  by (induction ps arbitrary: st ns) (simp_all add: Let_def split_beta)

lemma enqueueByISC_count [simp]: "iscCount (enqueueInfSvrItemsByISC env isc st) = iscCount st"
  using enqueueEachOfISC_count by (simp add: enqueueInfSvrItemsByISC_def Let_def split_beta)

lemma enqueueGC_count [simp]: "iscCount (enqueueInstanceGCItemsForISC env n st) = iscCount st"
proof -
  have "iscCount (fold (\<lambda>nn. enqueueOnNode env nn i) ns st) = iscCount st" for ns i st
    by (induction ns arbitrary: st) (simp_all add: enqueueOnNode_def Let_def)
  then show ?thesis by (simp add: enqueueInstanceGCItemsForISC_def)
qed

lemma isc_count_astray:
  assumes "LauncherConfigName isc = a" and "a \<noteq> []"
  defines "isc' \<equiv> isc\<lparr>LauncherConfigName := []\<rparr>"
  shows "iscCount (OnDelete env (OnUpdate env (OnAdd env st (DISC isc)) (DISC isc) (DISC isc')) (DPlain (DISC isc'))) a =
    iscCount st a + 1"
  using assms by (simp add: OnAdd_def OnUpdate_def OnDelete_def countISC_def Let_def)

subsection \<open>Examples\<close>

definition dpExampleEnv :: "pod list \<Rightarrow> dpEnv" where
  "dpExampleEnv pods = \<lparr>nsName = ''ns'', sleeperLimit = 1, debugAccelMemory = False, accelMemoryLimitMiB = 0,
     podCache = pods,
     podGet = (\<lambda>n. case find (\<lambda>p. Name p = n) pods of None \<Rightarrow> Inl ErrNotFound | Some p \<Rightarrow> Inr p),
     nodeGetD = (\<lambda>n. Inr (blankNode\<lparr>Name := n\<rparr>)), iscGet = (\<lambda>_. Inl ErrNotFound), lcGetD = (\<lambda>_. Inl ErrNotFound),
     configMapGet = (\<lambda>_ _ _. Inr [(''n1'', ''g0'')]), podUpdateD = (\<lambda>_ p. Inr p), podDeleteD = (\<lambda>_ _ _ _. None),
     podCreateD = (\<lambda>_ p. Inr p), httpDo = (\<lambda>_ _. Inr (200, ''ok'')), rateWhen = (\<lambda>_ _. 3),
     timeNow = (\<lambda>h. 10 + int (length h)), urlParse = (\<lambda>_. None), apiErrText = (\<lambda>_. ''api error''),
     parseGpuIndices = (\<lambda>s. Inr [(s, 7)]), decodeUUIDs = (\<lambda>s. Inr [s]), decodeSleepState = (\<lambda>_. Inr True),
     decodeUsageMap = (\<lambda>_. Inr []),
     decodeAllInstances = (\<lambda>_. Inr \<lparr>TotalInstances = 0, RunningInstances = 0, Instances = []\<rparr>),
     decodeInstanceIDs = (\<lambda>_. Inr []), decodeJSONObject = (\<lambda>s. Inr s),
     decodeInstanceState = (\<lambda>_. Inl ''none''), decodeActionResult = (\<lambda>_. Inr \<lparr>arStatus = ''ok'', arInstanceID = ''i''\<rparr>),
     encodeVllmConfig = (\<lambda>_. Inr ''cfg''), decodeVllmConfig = (\<lambda>_. Inl ''none''),
     encodeRouting = (\<lambda>_. Inr ''routing''), decodeRouting = (\<lambda>_. Inl ''none''), encodeStatus = concat,
     yamlModelServerConfig = (\<lambda>_. Inr ''yaml''), marshalPod = (\<lambda>_. Inr ''json''), sha256std = (\<lambda>s. s),
     sha256url = (\<lambda>s. s), IsQualifiedName = (\<lambda>_. []), IsValidLabelValue = (\<lambda>_. []), templateParse = (\<lambda>_. None),
     templateExecute = (\<lambda>s _. Inr s), yamlToJSON = (\<lambda>s. Inr s), strategicMerge = (\<lambda>a _. Inr a),
     decodePod = (\<lambda>_. Inr blankPod), spareCap = (\<lambda>_. 0)\<rparr>"

definition dpExampleState :: dpState where
  "dpExampleState = \<lparr>gpuMap = None, nodeNameToData = [(''n1'', (newNodeData ''n1'')\<lparr>LocalQueue :=
       [(InfSvrItem ''u1'' ''r1'', \<lparr>addTime = 4, processAfter = 5\<rparr>)]\<rparr>)], dqueue = [], dcalls = [],
     dualityGauge = Map.empty, requesterCount = (\<lambda>_. 0), iscCount = (\<lambda>_. 0), devents = []\<rparr>"

definition exampleRequester :: pod where
  "exampleRequester = blankPod\<lparr>Name := ''r1'', UID := ''u1'',
     Annotations := [InferenceServerConfigAnnotationName \<mapsto> ''isc1''], Spec := blankPodSpec\<lparr>NodeName := ''n1''\<rparr>\<rparr>"

theorem notification_enqueues_witness:
  "dqueue (OnAdd (dpExampleEnv []) dpExampleState (DPod exampleRequester)) = [QAdd (NodeItem ''n1'')]"
proof -
  have "notifyTarget exampleRequester = Some (''n1'', InfSvrItem ''u1'' ''r1'')"
    by (simp add: notifyTarget_def careAbout_def exampleRequester_def annot_def blank_defs shared_name_defs)
  then show ?thesis
    using notification_enqueues [of "OnAdd (dpExampleEnv []) dpExampleState (DPod exampleRequester)"
        "dpExampleEnv []" dpExampleState exampleRequester DOther]
    by (simp add: dpExampleState_def)
qed

theorem gpu_map_read_witness:
  "mapToGPUIndices (fst (cmItem_process (dpExampleEnv []) dpExampleState ''ns'' ''gpu-map'')) ''n1'' [''g0''] =
     ([showNat 7], None)"
proof -
  have at: "gpuAt (dpExampleEnv []) [(''n1'', ''g0'')] u nn i \<longleftrightarrow> u = ''g0'' \<and> nn = ''n1'' \<and> i = 7" for u nn i
    by (auto simp: gpuAt_def dpExampleEnv_def)
  have "configMapGet (dpExampleEnv []) (dcalls dpExampleState) ''ns'' ''gpu-map'' = Inr [(''n1'', ''g0'')]"
    "\<forall>s m. parseGpuIndices (dpExampleEnv []) s = Inr m \<longrightarrow> mok m" "mok (nodeNameToData dpExampleState)"
    by (auto simp: dpExampleEnv_def dpExampleState_def mok_def)
  from gpu_map_read [OF this(1,2) _ this(3), where nn = "''n1''" and us = "[''g0'']" and ixs = "[showNat 7]"]
  show ?thesis by (simp add: at)
qed

end
