(* ===== verification/Launcher_Pool.thy ===== *)
theory Launcher_Pool
  imports Node_Queue
begin

text \<open>
  Launchers and the vLLM instances in them: the client of a launcher's HTTP interface
  (\<^verbatim>\<open>launcherclient.go\<close>, \<^verbatim>\<open>doHTTP\<close>), synchronising what the controller knows with what a launcher reports
  (\<^verbatim>\<open>syncLauncherInstances\<close>), and choosing a launcher for a new instance, reclaiming room where needed
  (\<^verbatim>\<open>selectOrReclaimLauncherPod\<close> and its helpers).  Latency histograms are not modelled.
\<close>

subsection \<open>HTTP calls\<close>

text \<open>
  \<open>body\<close> is the JSON of the request data, if there is any (\<open>Inl\<close> when it cannot be rendered); \<open>decode\<close>
  reads the response into the result, and accepts anything where the caller wants no result.
\<close>

definition doHTTP :: "dpEnv \<Rightarrow> dpState \<Rightarrow> string \<Rightarrow> string \<Rightarrow> string \<Rightarrow> (string + string) option \<Rightarrow>
    (string \<Rightarrow> string + 'r) \<Rightarrow> dpState \<times> nat \<times> (goError + 'r)" where
  "doHTTP env st purpose method url body decode =
     (case body of
        Some (Inl e) \<Rightarrow> (st, 0, Inl (Wrapped (''failed to marshal request body for '' @ method @ '' '' @ strconv_Quote url) (ErrorText e)))
      | _ \<Rightarrow>
          (case urlParse env url of
             Some e \<Rightarrow> (st, 0, Inl (Wrapped (''failed to construct HTTP request to '' @ method @ '' '' @ strconv_Quote url) (ErrorText e)))
           | None \<Rightarrow>
               (let req = \<lparr>hrPurpose = purpose, hrMethod = method, hrURL = url,
                           hrBody = (case body of Some (Inr b) \<Rightarrow> Some b | _ \<Rightarrow> None)\<rparr>;
                    resp = httpDo env (dcalls st) req;
                    st1 = st\<lparr>dcalls := dcalls st @ [Http req resp]\<rparr>
                in (case resp of
                      Inl e \<Rightarrow> (st1, 0, Inl (Wrapped (''failed to do HTTP '' @ method @ '' '' @ strconv_Quote url) (ErrorText e)))
                    | Inr (statusCode, respBody) \<Rightarrow>
                        if statusCode < 200 \<or> statusCode \<ge> 300
                        then (st1, statusCode,
                              Inl (ErrorText (''HTTP '' @ method @ '' '' @ strconv_Quote url @ '' returned unexpected status '' @
                                              showNat statusCode @ ''; bodyReadErr=<nil>; responseBody='' @ respBody)))
                        else (case decode respBody of
                                Inl e \<Rightarrow> (st1, statusCode,
                                  Inl (Wrapped (''failed to decode response to '' @ method @ '' '' @ strconv_Quote url) (ErrorText e)))
                              | Inr r \<Rightarrow> (st1, statusCode, Inr r))))))"

definition getGPUUUIDs :: "dpEnv \<Rightarrow> dpState \<Rightarrow> string \<Rightarrow> dpState \<times> (goError + string list)" where
  "getGPUUUIDs env st url =
     (case doHTTP env st ''get_gpu_uuids'' ''GET'' url None (decodeUUIDs env) of (st1, _, res) \<Rightarrow> (st1, res))"

subsection \<open>The launcher's client\<close>

text \<open>A client is the base URL it was made with.\<close>

definition NewLauncherClient :: "dpEnv \<Rightarrow> string \<Rightarrow> goError + string" where
  "NewLauncherClient env baseURL =
     (case urlParse env baseURL of
        Some e \<Rightarrow> Inl (Wrapped ''invalid base URL'' (ErrorText e))
      | None \<Rightarrow> Inr baseURL)"

definition fullDo :: "dpEnv \<Rightarrow> dpState \<Rightarrow> string \<Rightarrow> string \<Rightarrow> string \<Rightarrow> string \<Rightarrow> (string + string) option \<Rightarrow>
    (string \<Rightarrow> string + 'r) \<Rightarrow> dpState \<times> (goError + 'r)" where
  "fullDo env st base purpose method path body decode =
     (case urlParse env path of
        Some e \<Rightarrow> (st, Inl (Wrapped (''failed to parse URL '' @ strconv_Quote path) (ErrorText e)))
      | None \<Rightarrow>
          (case doHTTP env st purpose method (base @ path) body decode of
             (st1, statusCode, Inl err) \<Rightarrow> (st1, Inl (LauncherError statusCode (Some err)))
           | (st1, statusCode, Inr r) \<Rightarrow>
               if statusCode \<ge> 300 then (st1, Inl (LauncherError statusCode None)) else (st1, Inr r)))"

definition instancesPath :: string where
  "instancesPath = ''/v2/vllm/instances''"

definition createInst :: "dpEnv \<Rightarrow> dpState \<Rightarrow> string \<Rightarrow> string \<Rightarrow> string \<Rightarrow> vllmConfig \<Rightarrow>
    dpState \<times> (goError + instanceActionResult)" where
  "createInst env st base path method cfg =
     fullDo env st base ''create_instance'' method path (Some (encodeVllmConfig env cfg)) (decodeActionResult env)"

definition CreateInstance :: "dpEnv \<Rightarrow> dpState \<Rightarrow> string \<Rightarrow> vllmConfig \<Rightarrow> dpState \<times> (goError + instanceActionResult)" where
  "CreateInstance env st base cfg = createInst env st base instancesPath ''POST'' cfg"

definition CreateNamedInstance ::
  "dpEnv \<Rightarrow> dpState \<Rightarrow> string \<Rightarrow> string \<Rightarrow> vllmConfig \<Rightarrow> dpState \<times> (goError + instanceActionResult)" where
  "CreateNamedInstance env st base instanceID cfg =
     createInst env st base (instancesPath @ ''/'' @ instanceID) ''PUT'' cfg"

definition GetInstanceState :: "dpEnv \<Rightarrow> dpState \<Rightarrow> string \<Rightarrow> string \<Rightarrow> dpState \<times> (goError + instanceState)" where
  "GetInstanceState env st base instanceID =
     fullDo env st base ''get_instance_state'' ''GET'' (instancesPath @ ''/'' @ instanceID) None (decodeInstanceState env)"

definition ListInstances :: "dpEnv \<Rightarrow> dpState \<Rightarrow> string \<Rightarrow> dpState \<times> (goError + allInstancesState)" where
  "ListInstances env st base = fullDo env st base ''list_instances'' ''GET'' instancesPath None (decodeAllInstances env)"

definition ListInstanceIDs :: "dpEnv \<Rightarrow> dpState \<Rightarrow> string \<Rightarrow> dpState \<times> (goError + string list)" where
  "ListInstanceIDs env st base =
     fullDo env st base ''list_instance_ids'' ''GET'' (instancesPath @ ''?detail=false'') None (decodeInstanceIDs env)"

definition DeleteInstance :: "dpEnv \<Rightarrow> dpState \<Rightarrow> string \<Rightarrow> string \<Rightarrow> dpState \<times> (goError + instanceActionResult)" where
  "DeleteInstance env st base instanceID =
     fullDo env st base ''delete_instance'' ''DELETE'' (instancesPath @ ''/'' @ instanceID) None (decodeActionResult env)"

definition DeleteAllInstances :: "dpEnv \<Rightarrow> dpState \<Rightarrow> string \<Rightarrow> dpState \<times> (goError + string)" where
  "DeleteAllInstances env st base =
     fullDo env st base ''delete_all_instances'' ''DELETE'' instancesPath None (decodeJSONObject env)"

definition Health :: "dpEnv \<Rightarrow> dpState \<Rightarrow> string \<Rightarrow> dpState \<times> (goError + unit)" where
  "Health env st base = fullDo env st base ''get_health'' ''GET'' ''/health'' None (\<lambda>_. Inr ())"

text \<open>\<^verbatim>\<open>errors.As\<close> looks through the wrapped errors for the first \<^verbatim>\<open>*launcherError\<close>.\<close>

fun launcherStatus :: "goError \<Rightarrow> nat option" and firstLauncherStatus :: "goError list \<Rightarrow> nat option" where
  "launcherStatus (LauncherError n _) = Some n"
| "launcherStatus (Wrapped _ e) = launcherStatus e"
| "launcherStatus (Joined es) = firstLauncherStatus es"
| "launcherStatus _ = None"
| "firstLauncherStatus [] = None"
| "firstLauncherStatus (e # es) = (case launcherStatus e of Some n \<Rightarrow> Some n | None \<Rightarrow> firstLauncherStatus es)"

definition IsInstanceNotFoundError :: "goError \<Rightarrow> bool" where
  "IsInstanceNotFoundError e \<longleftrightarrow> launcherStatus e = Some 404"

definition launcherBaseURL :: "pod \<Rightarrow> string" where
  "launcherBaseURL p = ''http://'' @ PodIP (Status p) @ '':'' @ strconv_Itoa LauncherServicePort"

subsection \<open>Synchronising with a launcher\<close>

record launcherSyncResult =
  lsInstances :: allInstancesState
  lsStopped :: "string set"

datatype syncAnswer = SyncNotReady | SyncFailed goError | Synced launcherSyncResult

record syncAcc =
  saInstances :: "(string, time) gomap"
  saRemaining :: "instanceState list"
  saStopped :: "string set"
  saRunning :: int

definition noteDeleted :: "string \<Rightarrow> string option \<Rightarrow> string \<Rightarrow> dpState \<Rightarrow> dpState" where
  "noteDeleted nn deleter instanceID st =
     (case deleter of
        None \<Rightarrow> st
      | Some uid \<Rightarrow> modServer nn uid (\<lambda>sd. sd\<lparr>InstancesDeleted := insert instanceID (InstancesDeleted sd)\<rparr>) st)"

definition boundInstanceIDs :: "dpState \<Rightarrow> string \<Rightarrow> string \<Rightarrow> string set" where
  "boundInstanceIDs st nn launcherName =
     InstanceID ` {sd \<in> snd ` set (InferenceServers (nodeOf st nn)). ProvidingPodName sd = launcherName \<and> InstanceID sd \<noteq> []}"

text \<open>
  The loop over the instances a launcher reports.  \<open>deleter\<close> is the server whose \<^verbatim>\<open>InstancesDeleted\<close> the
  caller passed, if any; \<open>known\<close> is when each instance was last used.
\<close>

fun syncInstances :: "dpEnv \<Rightarrow> string \<Rightarrow> string option \<Rightarrow> string \<Rightarrow> string set \<Rightarrow> (string, time) gomap \<Rightarrow>
    instanceState list \<Rightarrow> dpState \<Rightarrow> syncAcc \<Rightarrow> dpState \<times> syncAcc" where
  "syncInstances env nn deleter base bound known [] st acc = (st, acc)"
| "syncInstances env nn deleter base bound known (inst # insts) st acc =
     (if instStatus inst = InstanceStatusStopped
      then if instID inst \<in> bound
           then syncInstances env nn deleter base bound known insts st (acc\<lparr>saStopped := insert (instID inst) (saStopped acc)\<rparr>)
           else (case DeleteInstance env (noteDeleted nn deleter (instID inst) st) base (instID inst) of
                   (st1, _) \<Rightarrow> syncInstances env nn deleter base bound known insts st1 acc)
      else syncInstances env nn deleter base bound known insts st
             (acc\<lparr>saRemaining := saRemaining acc @ [inst],
                  saRunning := (if instStatus inst = ''running'' then saRunning acc + 1 else saRunning acc),
                  saInstances := mput (instID inst)
                    (case mget known (instID inst) of Some lastUsed \<Rightarrow> lastUsed | None \<Rightarrow> nowD env st) (saInstances acc)\<rparr>))"

definition syncLauncherInstances ::
  "dpEnv \<Rightarrow> dpState \<Rightarrow> string \<Rightarrow> string option \<Rightarrow> pod \<Rightarrow> dpState \<times> syncAnswer" where
  "syncLauncherInstances env st nn deleter launcherPod =
     (if PodIP (Status launcherPod) = [] \<or> \<not> IsPodReady launcherPod then (st, SyncNotReady)
      else (case NewLauncherClient env (launcherBaseURL launcherPod) of
              Inl err \<Rightarrow> (st, SyncFailed err)
            | Inr base \<Rightarrow>
                (case ListInstances env st base of
                   (st1, Inl err) \<Rightarrow> (st1, SyncFailed err)
                 | (st1, Inr insts) \<Rightarrow>
                     (let st2 = getLauncherData st1 nn (Name launcherPod);
                          (st3, acc) = syncInstances env nn deleter base (boundInstanceIDs st2 nn (Name launcherPod))
                             (lastUsedOf st2 nn (Name launcherPod)) (Instances insts) st2
                             \<lparr>saInstances = [], saRemaining = [], saStopped = {}, saRunning = 0\<rparr>;
                          st4 = modLauncher nn (Name launcherPod)
                             (\<lambda>ld. ld\<lparr>LastUsed := saInstances acc, Accurate := True\<rparr>) st3
                      in (st4, Synced \<lparr>lsInstances = \<lparr>TotalInstances = int (length (saRemaining acc)),
                                                     RunningInstances = saRunning acc,
                                                     Instances = saRemaining acc\<rparr>,
                                      lsStopped = saStopped acc\<rparr>)))))"

fun findInstanceState :: "instanceState list \<Rightarrow> string \<Rightarrow> instanceState option" where
  "findInstanceState [] instanceID = None"
| "findInstanceState (inst # insts) instanceID =
     (if instID inst = instanceID then Some inst else findInstanceState insts instanceID)"

definition getVLLMInstancePort :: "instanceState \<Rightarrow> goError + int" where
  "getVLLMInstancePort inst =
     (case vcAnnotations (instConfig inst) VllmConfigInferencePortAnnotationKey of
        Some value \<Rightarrow>
          (case strconv_ParseInt 32 value of
             None \<Rightarrow> Inl (ErrorText (''parse annotations['' @ VllmConfigInferencePortAnnotationKey @ ''] value '' @ strconv_Quote value))
           | Some port \<Rightarrow> Inr port)
      | None \<Rightarrow> Inl (ErrorText (''missing annotations['' @ VllmConfigInferencePortAnnotationKey @ '']'')))"

subsection \<open>Choosing victims\<close>

definition compareLastUsed :: "string \<Rightarrow> time \<Rightarrow> string \<Rightarrow> time \<Rightarrow> int" where
  "compareLastUsed a aTime b bTime =
     (if aTime < bTime then -1 else if bTime < aTime then 1 else strings_Compare a b)"

definition compareInstanceLastUsed :: "(string, time) gomap \<Rightarrow> string \<Rightarrow> string \<Rightarrow> int" where
  "compareInstanceLastUsed knownLastUsed a b = compareLastUsed a (mget0 knownLastUsed a) b (mget0 knownLastUsed b)"

definition pickInstanceVictims :: "string list \<Rightarrow> (string, time) gomap \<Rightarrow> int \<Rightarrow> string list" where
  "pickInstanceVictims candidates knownLastUsed limit =
     (if limit \<le> 0 then []
      else take (nat (min limit (int (length candidates))))
             (slices_SortFunc (compareInstanceLastUsed knownLastUsed) candidates))"

text \<open>\<open>None\<close> is the panic of indexing an empty list of victims.\<close>

definition reclaimPlanLRU :: "string list \<Rightarrow> (string, time) gomap \<Rightarrow> (string \<times> time) option" where
  "reclaimPlanLRU victims knownLastUsed =
     (case victims of
        [] \<Rightarrow> None
      | v # rest \<Rightarrow>
          Some (fold (\<lambda>victim (lruID, lruTime).
                  (let victimTime = mget0 knownLastUsed victim
                   in if compareLastUsed victim victimTime lruID lruTime < 0 then (victim, victimTime) else (lruID, lruTime)))
                rest (v, mget0 knownLastUsed v)))"

record launcherReclaimPlan =
  rpPod :: pod
  rpVictims :: "string list"
  rpLruID :: string
  rpLruTime :: time

definition compareReclaimPlans :: "launcherReclaimPlan \<Rightarrow> launcherReclaimPlan \<Rightarrow> int" where
  "compareReclaimPlans a b =
     (if length (rpVictims a) \<noteq> length (rpVictims b) then int (length (rpVictims b)) - int (length (rpVictims a))
      else compareLastUsed (rpLruID a) (rpLruTime a) (rpLruID b) (rpLruTime b))"

subsection \<open>Selecting a launcher\<close>

datatype selectResult = Selected pod bool | SelectRetry | SelectFailed goError | SelectNone | SelectPanics

record instSorts =
  isSleeping :: bool
  isConflicts :: "string list"
  isOthers :: "string list"

definition deleteKnown :: "string \<Rightarrow> string \<Rightarrow> string \<Rightarrow> dpState \<Rightarrow> dpState" where
  "deleteKnown nn launcherName instanceID st =
     modLauncher nn launcherName (\<lambda>ld. ld\<lparr>LastUsed := mdel instanceID (LastUsed ld)\<rparr>) st"

fun sortInstances :: "dpEnv \<Rightarrow> string \<Rightarrow> string \<Rightarrow> pod \<Rightarrow> string \<Rightarrow> int \<Rightarrow> instanceState list \<Rightarrow> dpState \<Rightarrow> instSorts \<Rightarrow>
    dpState \<times> (selectResult + instSorts)" where
  "sortInstances env nn uid launcherPod target desiredPort [] st acc = (st, Inr acc)"
| "sortInstances env nn uid launcherPod target desiredPort (inst # insts) st acc =
     (case getVLLMInstancePort inst of
        Inl _ \<Rightarrow>
          (case NewLauncherClient env (launcherBaseURL launcherPod) of
             Inl clientErr \<Rightarrow>
               (st, Inl (SelectFailed (Wrapped (''failed to create launcher client for deleting instance '' @ strconv_Quote (instID inst) @
                      '' from launcher Pod '' @ strconv_Quote (Name launcherPod)) clientErr)))
           | Inr base \<Rightarrow>
               (case DeleteInstance env st base (instID inst) of
                  (st1, res) \<Rightarrow>
                    (case res of
                       Inl delErr \<Rightarrow>
                         if \<not> IsInstanceNotFoundError delErr
                         then (st1, Inl (SelectFailed (Wrapped (''failed to delete instance '' @ strconv_Quote (instID inst) @
                                '' with no usable inference port from launcher Pod '' @ strconv_Quote (Name launcherPod)) delErr)))
                         else (deleteKnown nn (Name launcherPod) (instID inst) (noteDeleted nn (Some uid) (instID inst) st1), Inl SelectRetry)
                     | Inr _ \<Rightarrow>
                         (deleteKnown nn (Name launcherPod) (instID inst) (noteDeleted nn (Some uid) (instID inst) st1), Inl SelectRetry))))
      | Inr instPort \<Rightarrow>
          sortInstances env nn uid launcherPod target desiredPort insts st
            (if instID inst = target
             then if instStatus inst \<noteq> InstanceStatusStopped then acc\<lparr>isSleeping := True\<rparr> else acc
             else if instPort = desiredPort then acc\<lparr>isConflicts := isConflicts acc @ [instID inst]\<rparr>
             else acc\<lparr>isOthers := isOthers acc @ [instID inst]\<rparr>))"

record selectAcc =
  selCandidate :: "pod option"
  selNotReady :: bool
  selBest :: "launcherReclaimPlan option"

definition betterPlan :: "launcherReclaimPlan \<Rightarrow> launcherReclaimPlan option \<Rightarrow> launcherReclaimPlan option" where
  "betterPlan plan best =
     (case best of
        None \<Rightarrow> Some plan
      | Some b \<Rightarrow> if compareReclaimPlans plan b < 0 then Some plan else best)"

text \<open>One round of the loop over the launcher Pods.\<close>

definition considerLauncher :: "dpEnv \<Rightarrow> string \<Rightarrow> string \<Rightarrow> string \<Rightarrow> int \<Rightarrow> int \<Rightarrow> pod \<Rightarrow> dpState \<Rightarrow> selectAcc \<Rightarrow>
    dpState \<times> (selectResult + selectAcc)" where
  "considerLauncher env nn uid target desiredPort maxOthers launcherPod st acc =
     (if Phase (Status launcherPod) = PodFailed \<or> DeletionTimestamp launcherPod \<noteq> None then (st, Inr acc)
      else if annot launcherPod RequesterAnnotationKey \<noteq> [] then (st, Inr acc)
      else if PodIP (Status launcherPod) = [] \<or> \<not> IsPodReady launcherPod then (st, Inr (acc\<lparr>selNotReady := True\<rparr>))
      else (case syncLauncherInstances env st nn (Some uid) launcherPod of
              (st1, SyncNotReady) \<Rightarrow> (st1, Inl SelectPanics)
            | (st1, SyncFailed _) \<Rightarrow> (st1, Inr (acc\<lparr>selNotReady := True\<rparr>))
            | (st1, Synced syncResult) \<Rightarrow>
                (let insts = lsInstances syncResult;
                     st2 = getLauncherData st1 nn (Name launcherPod)
                 in (case sortInstances env nn uid launcherPod target desiredPort (Instances insts) st2
                            \<lparr>isSleeping = False, isConflicts = [], isOthers = []\<rparr> of
                       (st3, Inl res) \<Rightarrow> (st3, Inl res)
                     | (st3, Inr sorts) \<Rightarrow>
                         if isSleeping sorts then (st3, Inl (Selected launcherPod True))
                         else if isConflicts sorts = [] \<and> TotalInstances insts \<le> maxOthers
                         then (st3, Inr (case selCandidate acc of
                                           None \<Rightarrow> acc\<lparr>selCandidate := Some launcherPod\<rparr> | Some _ \<Rightarrow> acc))
                         else (let toDelete = max (TotalInstances insts - maxOthers) 1;
                                   known = lastUsedOf st3 nn (Name launcherPod);
                                   victims = isConflicts sorts @
                                     pickInstanceVictims (isOthers sorts) known (toDelete - int (length (isConflicts sorts)))
                               in (case reclaimPlanLRU victims known of
                                     None \<Rightarrow> (st3, Inl SelectPanics)
                                   | Some (lruID, lruTime) \<Rightarrow>
                                       (st3, Inr (acc\<lparr>selBest := betterPlan
                                          \<lparr>rpPod = launcherPod, rpVictims = victims, rpLruID = lruID, rpLruTime = lruTime\<rparr>
                                          (selBest acc)\<rparr>))))))))"

fun considerLaunchers :: "dpEnv \<Rightarrow> string \<Rightarrow> string \<Rightarrow> string \<Rightarrow> int \<Rightarrow> int \<Rightarrow> pod list \<Rightarrow> dpState \<Rightarrow> selectAcc \<Rightarrow>
    dpState \<times> (selectResult + selectAcc)" where
  "considerLaunchers env nn uid target desiredPort maxOthers [] st acc = (st, Inr acc)"
| "considerLaunchers env nn uid target desiredPort maxOthers (p # pods) st acc =
     (case considerLauncher env nn uid target desiredPort maxOthers p st acc of
        (st1, Inl res) \<Rightarrow> (st1, Inl res)
      | (st1, Inr acc1) \<Rightarrow> considerLaunchers env nn uid target desiredPort maxOthers pods st1 acc1)"

fun deleteVictims :: "dpEnv \<Rightarrow> string \<Rightarrow> string \<Rightarrow> string \<Rightarrow> string \<Rightarrow> string list \<Rightarrow> dpState \<Rightarrow> dpState \<times> goError option" where
  "deleteVictims env nn uid base launcherName [] st = (st, None)"
| "deleteVictims env nn uid base launcherName (victim # victims) st =
     (case DeleteInstance env (noteDeleted nn (Some uid) victim st) base victim of
        (st1, Inl err) \<Rightarrow>
          if \<not> IsInstanceNotFoundError err
          then (st1, Some (Wrapped (''failed to delete instance '' @ strconv_Quote victim @ '' from launcher Pod '' @
                                    strconv_Quote launcherName) err))
          else deleteVictims env nn uid base launcherName victims (deleteKnown nn launcherName victim st1)
      | (st1, Inr _) \<Rightarrow> deleteVictims env nn uid base launcherName victims (deleteKnown nn launcherName victim st1))"

definition selectOrReclaimLauncherPod ::
  "dpEnv \<Rightarrow> dpState \<Rightarrow> string \<Rightarrow> string \<Rightarrow> pod list \<Rightarrow> string \<Rightarrow> int \<Rightarrow> int \<Rightarrow> dpState \<times> selectResult" where
  "selectOrReclaimLauncherPod env st nn uid launcherPods targetInstanceID desiredPort maxOthers =
     (case considerLaunchers env nn uid targetInstanceID desiredPort maxOthers launcherPods st
             \<lparr>selCandidate = None, selNotReady = False, selBest = None\<rparr> of
        (st1, Inl res) \<Rightarrow> (st1, res)
      | (st1, Inr acc) \<Rightarrow>
          (case selCandidate acc of
             Some p \<Rightarrow> (st1, Selected p False)
           | None \<Rightarrow>
               (case selBest acc of
                  Some plan \<Rightarrow>
                    (case NewLauncherClient env (launcherBaseURL (rpPod plan)) of
                       Inl err \<Rightarrow> (st1, SelectFailed err)
                     | Inr base \<Rightarrow>
                         (case deleteVictims env nn uid base (Name (rpPod plan)) (rpVictims plan) st1 of
                            (st2, Some err) \<Rightarrow> (st2, SelectFailed err)
                          | (st2, None) \<Rightarrow> (st2, Selected (rpPod plan) False)))
                | None \<Rightarrow> (st1, if selNotReady acc then SelectRetry else SelectNone))))"

subsection \<open>Victims\<close>

lemma compareLastUsed_le: "compareLastUsed a s b t \<le> 0 \<longleftrightarrow> s < t \<or> s = t \<and> a \<le> b"
  by (auto simp: compareLastUsed_def)

lemma compareLastUsed_neg: "compareLastUsed a s b t < 0 \<longleftrightarrow> s < t \<or> s = t \<and> a < b"
  by (auto simp: compareLastUsed_def)

lemma sorted_by_last_used:
  "sorted_wrt (\<lambda>a b. compareInstanceLastUsed known a b \<le> 0) (slices_SortFunc (compareInstanceLastUsed known) xs)"
  by (rule sorted_SortFunc) (auto simp: compareInstanceLastUsed_def compareLastUsed_le)

lemma sorted_wrt_take_drop: "sorted_wrt P xs \<Longrightarrow> x \<in> set (take n xs) \<Longrightarrow> y \<in> set (drop n xs) \<Longrightarrow> P x y"
  by (metis append_take_drop_id sorted_wrt_append)

text \<open>
  The instances picked to make room are as many as asked for, or all when there are fewer, and each
  of them was used less recently than every candidate that is spared, the identifier deciding between
  equal times.
\<close>

theorem victims_are_least_recently_used:
  fixes known :: "(string, time) gomap" and candidates :: "string list" and limit :: int
  defines "vs \<equiv> pickInstanceVictims candidates known limit"
  shows "length vs = min (nat limit) (length candidates) \<and> set vs \<subseteq> set candidates \<and>
    (\<forall>v \<in> set vs. \<forall>w \<in> set candidates - set vs.
       mget0 known v < mget0 known w \<or> mget0 known v = mget0 known w \<and> v < w)"
proof -
  let ?s = "slices_SortFunc (compareInstanceLastUsed known) candidates"
  let ?n = "nat (min limit (int (length candidates)))"
  have vs: "vs = (if limit \<le> 0 then [] else take ?n ?s)" by (simp add: vs_def pickInstanceVictims_def)
  have "set vs \<subseteq> set candidates" using set_take_subset [of ?n ?s] by (auto simp: vs)
  moreover have "mget0 known v < mget0 known w \<or> mget0 known v = mget0 known w \<and> v < w"
    if v: "v \<in> set vs" and w: "w \<in> set candidates" "w \<notin> set vs" for v w
  proof -
    have vn: "v \<in> set (take ?n ?s)" using v by (auto simp: vs split: if_splits)
    have "w \<in> set (take ?n ?s) \<union> set (drop ?n ?s)" using w(1) by (metis append_take_drop_id set_SortFunc set_append)
    moreover have "w \<notin> set (take ?n ?s)" using w(2) v by (auto simp: vs split: if_splits)
    ultimately have "w \<in> set (drop ?n ?s)" by blast
    from sorted_wrt_take_drop [OF sorted_by_last_used vn this] have "compareInstanceLastUsed known v w \<le> 0" .
    moreover have "v \<noteq> w" using v w(2) by auto
    ultimately show ?thesis by (auto simp: compareInstanceLastUsed_def compareLastUsed_le)
  qed
  moreover have "length vs = min (nat limit) (length candidates)" by (auto simp: vs min_def)
  ultimately show ?thesis by blast
qed

theorem victims_are_least_recently_used_witness:
  "pickInstanceVictims [''b'', ''a'', ''c''] [(''a'', 5), (''b'', 3), (''c'', 9)] 1 = [''b''] \<and> (3::time) < 5"
proof -
  have p: "pickInstanceVictims [''b'', ''a'', ''c''] [(''a'', 5), (''b'', 3), (''c'', 9)] 1 = [''b'']"
    by code_simp
  then show ?thesis
    using victims_are_least_recently_used [of "[''b'', ''a'', ''c'']" "[(''a'', 5), (''b'', 3), (''c'', 9)]" 1]
    by (simp add: mget0_def)
qed

subsection \<open>What the client's calls do to the state\<close>

definition launcherURL :: "pod \<Rightarrow> string" where
  "launcherURL p = launcherBaseURL p @ instancesPath"

text \<open>A call to a given launcher.\<close>

definition touches :: "pod \<Rightarrow> dpCall \<Rightarrow> bool" where
  "touches p c \<longleftrightarrow> (\<exists>req r. c = Http req r \<and> hasPrefix (hrURL req) (launcherURL p))"

definition deletesAt :: "pod \<Rightarrow> string \<Rightarrow> dpCall \<Rightarrow> bool" where
  "deletesAt p i c \<longleftrightarrow> (\<exists>req r. c = Http req r \<and> hrMethod req = ''DELETE'' \<and> hrURL req = launcherURL p @ ''/'' @ i)"

lemma deletesAt_touches: "deletesAt p i c \<Longrightarrow> touches p c"
  by (auto simp: deletesAt_def touches_def)

text \<open>The launcher has answered that the instance is deleted, or that there is no such instance.\<close>

definition goneAt :: "pod \<Rightarrow> string \<Rightarrow> dpCall \<Rightarrow> bool" where
  "goneAt p i c \<longleftrightarrow> (\<exists>req code body. c = Http req (Inr (code, body)) \<and> hrMethod req = ''DELETE'' \<and>
     hrURL req = launcherURL p @ ''/'' @ i \<and> (200 \<le> code \<and> code < 300 \<or> code = 404))"

definition listedAt :: "dpEnv \<Rightarrow> pod \<Rightarrow> allInstancesState \<Rightarrow> dpCall \<Rightarrow> bool" where
  "listedAt env p all c \<longleftrightarrow> (\<exists>req code body. c = Http req (Inr (code, body)) \<and> hrMethod req = ''GET'' \<and>
     hrURL req = launcherURL p \<and> decodeAllInstances env body = Inr all)"

text \<open>The state after some more calls, nothing else of it being described.\<close>

definition extends :: "dpState \<Rightarrow> dpCall list \<Rightarrow> dpState \<Rightarrow> bool" where
  "extends st cs st' \<longleftrightarrow> dcalls st' = dcalls st @ cs"

lemma extends_refl [simp]: "extends st [] st"
  by (simp add: extends_def)

lemma extends_trans: "extends st cs st1 \<Longrightarrow> extends st1 ds st2 \<Longrightarrow> extends st (cs @ ds) st2"
  by (simp add: extends_def)

lemma state_changes_make_no_calls [simp]:
  "dcalls (modServer nn uid f st) = dcalls st" "dcalls (modLauncher nn n g st) = dcalls st"
  "dcalls (noteDeleted nn deleter i st) = dcalls st" "dcalls (deleteKnown nn n i st) = dcalls st"
  "dcalls (getLauncherData st nn n) = dcalls st" "dcalls (getServerData st nn rn uid) = dcalls st"
  by (simp_all add: modServer_def modLauncher_def noteDeleted_def deleteKnown_def getLauncherData_def
      getServerData_def split: option.split)

lemma DeleteInstance_call:
  assumes "DeleteInstance env st (launcherBaseURL p) i = (st', res)"
  shows "\<exists>cs. st' = st\<lparr>dcalls := dcalls st @ cs\<rparr> \<and> (\<forall>c \<in> set cs. deletesAt p i c) \<and>
    ((case res of Inr _ \<Rightarrow> True | Inl e \<Rightarrow> IsInstanceNotFoundError e) \<longrightarrow> (\<exists>c \<in> set cs. goneAt p i c))"
proof (cases "urlParse env (instancesPath @ ''/'' @ i)")
  case (Some e)
  then show ?thesis
    using assms by (intro exI [of _ "[]"]) (auto simp: DeleteInstance_def fullDo_def IsInstanceNotFoundError_def)
next
  case None
  let ?url = "launcherBaseURL p @ instancesPath @ ''/'' @ i"
  let ?req = "\<lparr>hrPurpose = ''delete_instance'', hrMethod = ''DELETE'', hrURL = ?url, hrBody = None\<rparr>"
  show ?thesis
  proof (cases "urlParse env ?url")
    case (Some e)
    with None assms show ?thesis
      by (intro exI [of _ "[]"]) (auto simp: DeleteInstance_def fullDo_def doHTTP_def IsInstanceNotFoundError_def)
  next
    case url: None
    have t: "deletesAt p i (Http ?req r)" for r
      by (auto simp: deletesAt_def launcherURL_def)
    show ?thesis
    proof (cases "httpDo env (dcalls st) ?req")
      case (Inl e)
      with None url assms t show ?thesis
        by (intro exI [of _ "[Http ?req (Inl e)]"])
          (auto simp: DeleteInstance_def fullDo_def doHTTP_def IsInstanceNotFoundError_def Let_def)
    next
      case (Inr cb)
      obtain code body where cb: "cb = (code, body)" by (cases cb)
      have g: "goneAt p i (Http ?req (Inr (code, body)))" if "200 \<le> code \<and> code < 300 \<or> code = 404"
        using that by (auto simp: goneAt_def launcherURL_def)
      from None url assms Inr cb t g show ?thesis
        by (intro exI [of _ "[Http ?req (Inr cb)]"])
          (auto simp: DeleteInstance_def fullDo_def doHTTP_def IsInstanceNotFoundError_def Let_def
            split: if_splits sum.splits)
    qed
  qed
qed

lemma ListInstances_call:
  assumes "ListInstances env st (launcherBaseURL p) = (st', res)"
  shows "\<exists>cs. st' = st\<lparr>dcalls := dcalls st @ cs\<rparr> \<and> (\<forall>c \<in> set cs. touches p c \<and> (\<forall>i. \<not> deletesAt p i c)) \<and>
    (\<forall>all. res = Inr all \<longrightarrow> (\<exists>c \<in> set cs. listedAt env p all c))"
proof (cases "urlParse env instancesPath = None \<and> urlParse env (launcherBaseURL p @ instancesPath) = None")
  case False
  then show ?thesis
    using assms by (intro exI [of _ "[]"]) (auto simp: ListInstances_def fullDo_def doHTTP_def split: option.splits)
next
  case True
  let ?req = "\<lparr>hrPurpose = ''list_instances'', hrMethod = ''GET'', hrURL = launcherBaseURL p @ instancesPath, hrBody = None\<rparr>"
  have t: "touches p (Http ?req r)" "\<not> deletesAt p i (Http ?req r)" for r i
    by (auto simp: touches_def deletesAt_def launcherURL_def) (metis append_Nil2 hasPrefix_append)
  show ?thesis
  proof (cases "httpDo env (dcalls st) ?req")
    case (Inl e)
    with True assms t show ?thesis
      by (intro exI [of _ "[Http ?req (Inl e)]"]) (auto simp: ListInstances_def fullDo_def doHTTP_def Let_def)
  next
    case (Inr cb)
    obtain code body where cb: "cb = (code, body)" by (cases cb)
    have l: "listedAt env p all (Http ?req (Inr (code, body)))" if "decodeAllInstances env body = Inr all" for all
      using that by (auto simp: listedAt_def launcherURL_def)
    from True assms Inr cb t l show ?thesis
      by (intro exI [of _ "[Http ?req (Inr cb)]"])
        (auto simp: ListInstances_def fullDo_def doHTTP_def Let_def split: if_splits sum.splits)
  qed
qed

lemma client_base: "NewLauncherClient env u = Inr base \<Longrightarrow> base = u"
  by (simp add: NewLauncherClient_def split: option.splits)

subsection \<open>Synchronising\<close>

lemma node_frames [simp]:
  "Launchers (nodeOf (modServer nn uid f st) mm) = Launchers (nodeOf st mm)"
  "LocalQueue (nodeOf (modServer nn uid f st) mm) = LocalQueue (nodeOf st mm)"
  "Launchers (nodeOf (noteDeleted nn deleter i st) mm) = Launchers (nodeOf st mm)"
  "LocalQueue (nodeOf (noteDeleted nn deleter i st) mm) = LocalQueue (nodeOf st mm)"
  "LocalQueue (nodeOf (modLauncher nn n g st) mm) = LocalQueue (nodeOf st mm)"
  "InferenceServers (nodeOf (modLauncher nn n g st) mm) = InferenceServers (nodeOf st mm)"
  "LocalQueue (nodeOf (getLauncherData st nn n) mm) = LocalQueue (nodeOf st mm)"
  "InferenceServers (nodeOf (getLauncherData st nn n) mm) = InferenceServers (nodeOf st mm)"
  by (auto simp: modServer_def noteDeleted_def modLauncher_def getLauncherData_def split: option.split)

definition isStopped :: "instanceState \<Rightarrow> bool" where
  "isStopped i \<longleftrightarrow> instStatus i = InstanceStatusStopped"

lemma syncInstances_step:
  "isStopped i \<Longrightarrow> instID i \<in> bound \<Longrightarrow> syncInstances env nn deleter base bound known (i # insts) st acc =
     syncInstances env nn deleter base bound known insts st (acc\<lparr>saStopped := insert (instID i) (saStopped acc)\<rparr>)"
  "isStopped i \<Longrightarrow> instID i \<notin> bound \<Longrightarrow> syncInstances env nn deleter base bound known (i # insts) st acc =
     syncInstances env nn deleter base bound known insts
       (fst (DeleteInstance env (noteDeleted nn deleter (instID i) st) base (instID i))) acc"
  "\<not> isStopped i \<Longrightarrow> syncInstances env nn deleter base bound known (i # insts) st acc =
     syncInstances env nn deleter base bound known insts st
       (acc\<lparr>saRemaining := saRemaining acc @ [i],
            saRunning := (if instStatus i = ''running'' then saRunning acc + 1 else saRunning acc),
            saInstances := mput (instID i)
              (case mget known (instID i) of Some lastUsed \<Rightarrow> lastUsed | None \<Rightarrow> nowD env st) (saInstances acc)\<rparr>)"
  by (simp_all add: isStopped_def split_beta)

declare syncInstances.simps(2) [simp del]

lemma syncInstances_calls:
  "\<exists>cs. extends st cs (fst (syncInstances env nn deleter (launcherBaseURL p) bound known insts st acc)) \<and>
    (\<forall>c \<in> set cs. \<exists>i \<in> set insts. isStopped i \<and> instID i \<notin> bound \<and> deletesAt p (instID i) c)"
proof (induction insts arbitrary: st acc)
  case (Cons i insts)
  consider "isStopped i" "instID i \<in> bound" | "isStopped i" "instID i \<notin> bound" | "\<not> isStopped i" by blast
  then show ?case
  proof cases
    case 1
    from Cons.IH [of st "acc\<lparr>saStopped := insert (instID i) (saStopped acc)\<rparr>"] show ?thesis
      unfolding syncInstances_step(1) [OF 1] by (meson list.set_intros(2))
  next
    case 2
    let ?d = "DeleteInstance env (noteDeleted nn deleter (instID i) st) (launcherBaseURL p) (instID i)"
    obtain cs1 where cs1: "fst ?d = (noteDeleted nn deleter (instID i) st)\<lparr>dcalls := dcalls (noteDeleted nn deleter (instID i) st) @ cs1\<rparr>"
      "\<forall>c \<in> set cs1. deletesAt p (instID i) c" using DeleteInstance_call [of env _ p "instID i" "fst ?d" "snd ?d"] by fastforce
    then have "extends st cs1 (fst ?d)" by (simp add: extends_def)
    moreover obtain cs2 where "extends (fst ?d) cs2 (fst (syncInstances env nn deleter (launcherBaseURL p) bound known insts (fst ?d) acc))"
      "\<forall>c \<in> set cs2. \<exists>i \<in> set insts. isStopped i \<and> instID i \<notin> bound \<and> deletesAt p (instID i) c" using Cons.IH by blast
    ultimately show ?thesis
      unfolding syncInstances_step(2) [OF 2] using cs1(2) 2 extends_trans
      by (intro exI [of _ "cs1 @ cs2"]) fastforce
  next
    case 3
    show ?thesis unfolding syncInstances_step(3) [OF 3] using Cons.IH by (meson list.set_intros(2))
  qed
qed (auto intro!: exI [of _ "[]"])

lemma syncInstances_frame:
  "Launchers (nodeOf (fst (syncInstances env nn deleter (launcherBaseURL p) bound known insts st acc)) mm) = Launchers (nodeOf st mm)"
  "LocalQueue (nodeOf (fst (syncInstances env nn deleter (launcherBaseURL p) bound known insts st acc)) mm) = LocalQueue (nodeOf st mm)"
proof (induction insts arbitrary: st acc)
  case (Cons i insts)
  have del: "\<exists>cs. fst (DeleteInstance env s (launcherBaseURL p) (instID i)) = s\<lparr>dcalls := dcalls s @ cs\<rparr>" for s
    using DeleteInstance_call [of env s p "instID i"] by (metis prod.collapse)
  have frame [simp]: "Launchers (nodeOf (fst (DeleteInstance env s (launcherBaseURL p) (instID i))) mm) = Launchers (nodeOf s mm)"
    "LocalQueue (nodeOf (fst (DeleteInstance env s (launcherBaseURL p) (instID i))) mm) = LocalQueue (nodeOf s mm)" for s
    using del [of s] by auto
  {
    case 1
    show ?case by (cases "isStopped i"; cases "instID i \<in> bound") (simp_all add: syncInstances_step Cons.IH)
  next
    case 2
    show ?case by (cases "isStopped i"; cases "instID i \<in> bound") (simp_all add: syncInstances_step Cons.IH)
  }
qed simp_all

lemma syncInstances_sorts:
  "saRemaining (snd (syncInstances env nn deleter base bound known insts st acc)) = saRemaining acc @ filter (\<lambda>i. \<not> isStopped i) insts"
  "saStopped (snd (syncInstances env nn deleter base bound known insts st acc)) =
     saStopped acc \<union> instID ` {i \<in> set insts. isStopped i \<and> instID i \<in> bound}"
  "saRunning (snd (syncInstances env nn deleter base bound known insts st acc)) =
     saRunning acc + int (length (filter (\<lambda>i. \<not> isStopped i \<and> instStatus i = ''running'') insts))"
proof (induction insts arbitrary: st acc)
  case (Cons i insts)
  {
    case 1
    show ?case using Cons.IH(1) by (cases "isStopped i"; cases "instID i \<in> bound") (simp_all add: syncInstances_step)
  next
    case 2
    have "{j \<in> set (i # insts). isStopped j \<and> instID j \<in> bound} =
        (if isStopped i \<and> instID i \<in> bound then {i} else {}) \<union> {j \<in> set insts. isStopped j \<and> instID j \<in> bound}" by auto
    with Cons.IH(2) show ?case by (cases "isStopped i"; cases "instID i \<in> bound") (simp_all add: syncInstances_step)
  next
    case 3
    show ?case using Cons.IH(3) by (cases "isStopped i"; cases "instID i \<in> bound") (simp_all add: syncInstances_step)
  }
qed simp_all

lemma syncInstances_times:
  defines "live is \<equiv> instID ` {i \<in> set is. \<not> isStopped i}"
  shows "n \<notin> live insts \<Longrightarrow> mget (saInstances (snd (syncInstances env nn deleter base bound known insts st acc))) n = mget (saInstances acc) n"
    and "n \<in> live insts \<Longrightarrow> \<exists>t. mget (saInstances (snd (syncInstances env nn deleter base bound known insts st acc))) n = Some t \<and>
      (\<forall>t'. mget known n = Some t' \<longrightarrow> t = t')"
proof (induction insts arbitrary: st acc)
  case (Cons i insts)
  have live: "live (i # insts) = (if isStopped i then {} else {instID i}) \<union> live insts" by (auto simp: live_def)
  {
    case 1
    then show ?case using Cons.IH(1)
      by (cases "isStopped i"; cases "instID i \<in> bound") (simp_all add: syncInstances_step live gomap_simps)
  next
    case 2
    show ?case
    proof (cases "n \<in> live insts")
      case True
      with Cons.IH(2) show ?thesis
        by (cases "isStopped i"; cases "instID i \<in> bound") (simp_all add: syncInstances_step)
    next
      case False
      with 2 live have "\<not> isStopped i" "n = instID i" by (auto split: if_splits)
      with Cons.IH(1) [OF False] show ?thesis by (auto simp: syncInstances_step gomap_simps split: option.split)
    qed
  }
qed (simp_all add: live_def)

lemma deletesAt_id: "deletesAt p i c \<Longrightarrow> deletesAt p j c \<Longrightarrow> i = j"
  by (auto simp: deletesAt_def)

lemma boundInstanceIDs_getLauncherData [simp]:
  "boundInstanceIDs (getLauncherData st nn n) nn m = boundInstanceIDs st nn m"
  "boundInstanceIDs (st\<lparr>dcalls := h\<rparr>) nn m = boundInstanceIDs st nn m"
  by (simp_all add: boundInstanceIDs_def nodeOf_def getLauncherData_def modNode_def gomap_simps split: option.split)

lemma launchers_frames [simp]:
  "mget (Launchers (nodeOf (getLauncherData st nn n) nn)) n \<noteq> None"
  "mget (Launchers (nodeOf st nn)) n = Some ld \<Longrightarrow> lastUsedOf (modLauncher nn n g st) nn n = LastUsed (g ld)"
  "lastUsedOf (getLauncherData st nn n) nn n = lastUsedOf st nn n"
  "lastUsedOf (st\<lparr>dcalls := h\<rparr>) nn n = lastUsedOf st nn n"
  by (auto simp: getLauncherData_def lastUsedOf_def modLauncher_def nodeOf_def modNode_def gomap_simps split: option.split)

lemma sync_lists_and_deletes:
  assumes "syncLauncherInstances env st nn deleter p = (st', Synced res)"
  shows "\<exists>all cs. extends st cs st' \<and> (\<exists>c \<in> set cs. listedAt env p all c) \<and>
    (\<forall>c \<in> set cs. touches p c \<and> (\<forall>i. deletesAt p i c \<longrightarrow>
       (\<exists>inst \<in> set (Instances all). instID inst = i \<and> isStopped inst) \<and> i \<notin> boundInstanceIDs st nn (Name p))) \<and>
    Instances (lsInstances res) = filter (\<lambda>i. \<not> isStopped i) (Instances all) \<and>
    TotalInstances (lsInstances res) = int (length (Instances (lsInstances res))) \<and>
    lsStopped res = instID ` {i \<in> set (Instances all). isStopped i} \<inter> boundInstanceIDs st nn (Name p) \<and>
    (\<forall>n. (mget (lastUsedOf st' nn (Name p)) n \<noteq> None) = (n \<in> instID ` set (Instances (lsInstances res))) \<and>
       (n \<in> instID ` set (Instances (lsInstances res)) \<and> mget (lastUsedOf st nn (Name p)) n \<noteq> None \<longrightarrow>
        mget (lastUsedOf st' nn (Name p)) n = mget (lastUsedOf st nn (Name p)) n))"
proof -
  have base: "NewLauncherClient env (launcherBaseURL p) = Inr (launcherBaseURL p)"
    using assms client_base by (auto simp: syncLauncherInstances_def split: if_splits sum.splits)
  obtain st1 all where list: "ListInstances env st (launcherBaseURL p) = (st1, Inr all)"
    using assms base by (auto simp: syncLauncherInstances_def split: if_splits sum.splits prod.splits)
  let ?bound = "boundInstanceIDs st nn (Name p)" and ?known = "lastUsedOf st nn (Name p)"
  let ?st2 = "getLauncherData st1 nn (Name p)"
  let ?acc = "\<lparr>saInstances = [], saRemaining = [], saStopped = {}, saRunning = 0\<rparr>"
  obtain cs1 where cs1: "st1 = st\<lparr>dcalls := dcalls st @ cs1\<rparr>" "\<forall>c \<in> set cs1. touches p c \<and> (\<forall>i. \<not> deletesAt p i c)"
    "\<exists>c \<in> set cs1. listedAt env p all c" using ListInstances_call [OF list] by auto
  have same: "boundInstanceIDs st1 nn (Name p) = ?bound" "lastUsedOf st1 nn (Name p) = ?known" using cs1(1) by simp_all
  obtain st3 acc where sync: "syncInstances env nn deleter (launcherBaseURL p) ?bound ?known (Instances all) ?st2 ?acc = (st3, acc)"
    by (rule prod.exhaust)
  have st': "st' = modLauncher nn (Name p) (\<lambda>ld. ld\<lparr>LastUsed := saInstances acc, Accurate := True\<rparr>) st3"
    and res: "res = \<lparr>lsInstances = \<lparr>TotalInstances = int (length (saRemaining acc)), RunningInstances = saRunning acc,
      Instances = saRemaining acc\<rparr>, lsStopped = saStopped acc\<rparr>"
    using assms base list sync by (auto simp: syncLauncherInstances_def same Let_def split: if_splits)
  obtain cs2 where cs2: "extends ?st2 cs2 st3"
    "\<forall>c \<in> set cs2. \<exists>i \<in> set (Instances all). isStopped i \<and> instID i \<notin> ?bound \<and> deletesAt p (instID i) c"
    using syncInstances_calls [of ?st2 env nn deleter p ?bound ?known "Instances all" ?acc] sync by auto
  have ext: "extends st (cs1 @ cs2) st'" using cs1(1) cs2(1) by (simp add: st' extends_def)
  have calls: "touches p c \<and> (\<forall>i. deletesAt p i c \<longrightarrow>
       (\<exists>inst \<in> set (Instances all). instID inst = i \<and> isStopped inst) \<and> i \<notin> ?bound)" if "c \<in> set (cs1 @ cs2)" for c
    using that cs1(2) cs2(2) deletesAt_touches deletesAt_id by fastforce
  have sorts: "saRemaining acc = filter (\<lambda>i. \<not> isStopped i) (Instances all)"
    "saStopped acc = instID ` {i \<in> set (Instances all). isStopped i} \<inter> ?bound"
    using syncInstances_sorts [of env nn deleter "launcherBaseURL p" ?bound ?known "Instances all" ?st2 ?acc] sync by auto
  have "mget (Launchers (nodeOf st3 nn)) (Name p) \<noteq> None"
    using syncInstances_frame(1) [of env nn deleter p ?bound ?known "Instances all" ?st2 ?acc nn] sync by simp
  then have used: "lastUsedOf st' nn (Name p) = saInstances acc" by (auto simp: st')
  have live: "instID ` set (saRemaining acc) = instID ` {i \<in> set (Instances all). \<not> isStopped i}" by (auto simp: sorts)
  have times: "(mget (saInstances acc) n \<noteq> None) = (n \<in> instID ` set (saRemaining acc)) \<and>
      (n \<in> instID ` set (saRemaining acc) \<and> mget ?known n \<noteq> None \<longrightarrow> mget (saInstances acc) n = mget ?known n)" for n
    using syncInstances_times [of n "Instances all" env nn deleter "launcherBaseURL p" ?bound ?known ?st2 ?acc] sync
    unfolding live by (cases "n \<in> instID ` {i \<in> set (Instances all). \<not> isStopped i}") auto
  show ?thesis
    by (intro exI [of _ all] exI [of _ "cs1 @ cs2"] conjI)
      (use ext cs1(3) calls sorts used times in \<open>auto simp: res\<close>)
qed


definition freeReadyLauncher :: "pod \<Rightarrow> bool" where
  "freeReadyLauncher p \<longleftrightarrow> Phase (Status p) \<noteq> PodFailed \<and> DeletionTimestamp p = None \<and>
     annot p RequesterAnnotationKey = [] \<and> PodIP (Status p) \<noteq> [] \<and> IsPodReady p"

lemma syncLauncherInstances_calls:
  assumes "syncLauncherInstances env st nn deleter p = (st', ans)"
  shows "\<exists>cs. extends st cs st' \<and> (\<forall>c \<in> set cs. touches p c)"
proof (cases ans)
  case SyncNotReady
  with assms show ?thesis
    by (intro exI [of _ "[]"])
      (auto simp: syncLauncherInstances_def Let_def split: if_splits sum.splits prod.splits)
next
  case (SyncFailed e)
  show ?thesis
  proof (cases "NewLauncherClient env (launcherBaseURL p)")
    case (Inl e)
    with assms SyncFailed show ?thesis
      by (intro exI [of _ "[]"]) (auto simp: syncLauncherInstances_def split: if_splits)
  next
    case (Inr base)
    then have "fst (ListInstances env st (launcherBaseURL p)) = st'"
      using assms SyncFailed client_base [OF Inr]
      by (auto simp: syncLauncherInstances_def Let_def split: if_splits sum.splits prod.splits)
    then show ?thesis
      using ListInstances_call [of env st p st' "snd (ListInstances env st (launcherBaseURL p))"]
      by (auto simp: extends_def)
  qed
next
  case (Synced res)
  with sync_lists_and_deletes assms show ?thesis by metis
qed


text \<open>The instances sorted by what they mean for the wanted one: itself, on its port, or neither.\<close>

lemma sortInstances_calls:
  "\<exists>cs. extends st cs (fst (sortInstances env nn uid p target port insts st acc)) \<and> (\<forall>c \<in> set cs. touches p c)"
proof (induction insts arbitrary: acc)
  case (Cons i insts)
  show ?case
  proof (cases "\<exists>e. getVLLMInstancePort i = Inl e \<and> NewLauncherClient env (launcherBaseURL p) = Inr (launcherBaseURL p)")
    case True
    obtain st1 r where d: "DeleteInstance env st (launcherBaseURL p) (instID i) = (st1, r)" by (rule prod.exhaust)
    from DeleteInstance_call [OF d] obtain cs where "extends st cs st1" "\<forall>c \<in> set cs. deletesAt p (instID i) c"
      by (auto simp: extends_def)
    with True d show ?thesis
      by (intro exI [of _ cs]) (auto simp: extends_def deletesAt_touches split: sum.split)
  next
    case False
    with Cons.IH show ?thesis
      by (cases "getVLLMInstancePort i"; cases "NewLauncherClient env (launcherBaseURL p)")
        (auto intro: exI [of _ "[]"] dest: client_base)
  qed
qed (auto intro: exI [of _ "[]"])

lemma sortInstances_stops:
  "snd (sortInstances env nn uid p target port insts st acc) = Inl r \<Longrightarrow> r = SelectRetry \<or> (\<exists>e. r = SelectFailed e)"
proof (induction insts arbitrary: acc)
  case (Cons i insts)
  then show ?case by (auto split: sum.splits if_splits prod.splits)
qed simp

definition onPort :: "int \<Rightarrow> instanceState \<Rightarrow> bool" where
  "onPort port i \<longleftrightarrow> getVLLMInstancePort i = Inr port"

lemma sortInstances_sorted:
  assumes "snd (sortInstances env nn uid p target port insts st acc) = Inr sorts"
    and "\<forall>i \<in> set insts. \<not> isStopped i"
  shows "isSleeping sorts \<longleftrightarrow> isSleeping acc \<or> target \<in> instID ` set insts"
    and "isConflicts sorts = isConflicts acc @ map instID (filter (\<lambda>i. instID i \<noteq> target \<and> onPort port i) insts)"
    and "isOthers sorts = isOthers acc @ map instID (filter (\<lambda>i. instID i \<noteq> target \<and> \<not> onPort port i) insts)"
  using assms
proof (induction insts arbitrary: acc)
  case (Cons i insts)
  have ex: "\<exists>ip. getVLLMInstancePort i = Inr ip"
    if "snd (sortInstances env nn uid p target port (i # insts) st acc) = Inr sorts" for acc
    using that by (auto split: sum.splits if_splits prod.splits)
  {
    case 1
    with ex obtain ip where "getVLLMInstancePort i = Inr ip" by blast
    with 1 Cons.IH(1) show ?case by (auto simp: isStopped_def image_iff split: if_splits)
  next
    case 2
    with ex obtain ip where "getVLLMInstancePort i = Inr ip" by blast
    with 2 Cons.IH(2) show ?case by (auto simp: isStopped_def onPort_def split: if_splits)
  next
    case 3
    with ex obtain ip where "getVLLMInstancePort i = Inr ip" by blast
    with 3 Cons.IH(3) show ?case by (auto simp: isStopped_def onPort_def split: if_splits)
  }
qed auto

text \<open>What is left of a launcher's instances when the given ones are gone.\<close>

definition liveBut :: "allInstancesState \<Rightarrow> string set \<Rightarrow> instanceState list" where
  "liveBut all gone = filter (\<lambda>i. \<not> isStopped i \<and> instID i \<notin> gone) (Instances all)"

definition roomAfter :: "allInstancesState \<Rightarrow> string set \<Rightarrow> string \<Rightarrow> int \<Rightarrow> int \<Rightarrow> bool" where
  "roomAfter all gone target port maxOthers \<longleftrightarrow> int (length (liveBut all gone)) \<le> max maxOthers 0 \<and>
     (\<forall>i \<in> set (liveBut all gone). instID i \<noteq> target \<and> \<not> onPort port i)"

lemma length_filter_split: "length (filter P xs) + length (filter (\<lambda>x. \<not> P x) xs) = length xs"
  by (induction xs) auto

lemma length_without:
  assumes "distinct (map f xs)" and "distinct vs" and "set vs \<subseteq> f ` set xs"
  shows "length (filter (\<lambda>x. f x \<notin> set vs) xs) + length vs = length xs"
proof -
  have d: "distinct xs" "inj_on f (set xs)" using assms(1) by (auto simp: distinct_map)
  have "f ` {x \<in> set xs. f x \<in> set vs} = set vs" using assms(3) by auto
  then have "card {x \<in> set xs. f x \<in> set vs} = card (set vs)"
    using card_image [of f "{x \<in> set xs. f x \<in> set vs}"] d(2) by (metis (no_types, lifting) inj_on_subset mem_Collect_eq subsetI)
  then have "length (filter (\<lambda>x. f x \<in> set vs) xs) = length vs"
    using distinct_card [of "filter (\<lambda>x. f x \<in> set vs) xs"] distinct_card [OF assms(2)] d(1) by simp
  with length_filter_split [of "\<lambda>x. f x \<in> set vs" xs] show ?thesis by simp
qed

text \<open>Deleting the victims of a plan makes room.\<close>

lemma plan_makes_room:
  fixes live :: "instanceState list" and known :: "(string, time) gomap" and port maxOthers :: int and target :: string
  assumes "distinct (map instID live)" and "target \<notin> instID ` set live"
  defines "cs \<equiv> map instID (filter (\<lambda>i. instID i \<noteq> target \<and> onPort port i) live)"
    and "os \<equiv> map instID (filter (\<lambda>i. instID i \<noteq> target \<and> \<not> onPort port i) live)"
  defines "vs \<equiv> cs @ pickInstanceVictims os known (max (int (length live) - maxOthers) 1 - int (length cs))"
  shows "int (length (filter (\<lambda>i. instID i \<notin> set vs) live)) \<le> max maxOthers 0"
    and "\<forall>i \<in> set live. instID i \<notin> set vs \<longrightarrow> \<not> onPort port i"
    and "vs = [] \<Longrightarrow> live = []"
proof -
  let ?lim = "max (int (length live) - maxOthers) 1 - int (length cs)"
  have nt: "instID i \<noteq> target" if "i \<in> set live" for i using that assms(2) by auto
  have cs: "cs = map instID (filter (onPort port) live)" unfolding cs_def by (rule arg_cong [where f = "map instID"], rule filter_cong) (auto simp: nt)
  have os: "os = map instID (filter (\<lambda>i. \<not> onPort port i) live)" unfolding os_def by (rule arg_cong [where f = "map instID"], rule filter_cong) (auto simp: nt)
  have len: "length cs + length os = length live" unfolding cs os by (simp add: length_filter_split)
  let ?pick = "pickInstanceVictims os known ?lim"
  have pick: "length ?pick = min (nat ?lim) (length os)" "set ?pick \<subseteq> set os" "distinct ?pick"
  proof -
    show "length ?pick = min (nat ?lim) (length os)" by (auto simp: pickInstanceVictims_def min_def)
    show "set ?pick \<subseteq> set os"
      unfolding pickInstanceVictims_def by (auto dest: in_set_takeD)
    have "distinct os" using assms(1) unfolding os by (simp add: distinct_map inj_on_def)
    then show "distinct ?pick" by (simp add: pickInstanceVictims_def)
  qed
  have "set cs \<inter> set os = {}" using assms(1) unfolding cs os by (auto simp: distinct_map inj_on_def)
  then have "distinct vs" using pick(2,3) assms(1) unfolding vs_def cs by (auto simp: distinct_map inj_on_def)
  moreover have "set vs \<subseteq> instID ` set live" using pick(2) unfolding vs_def cs os by auto
  ultimately have "length (filter (\<lambda>i. instID i \<notin> set vs) live) + length vs = length live"
    using length_without assms(1) by blast
  moreover have lvs: "length vs = length cs + min (nat ?lim) (length os)" by (simp add: vs_def pick)
  ultimately show "int (length (filter (\<lambda>i. instID i \<notin> set vs) live)) \<le> max maxOthers 0" using len by linarith
  show "\<forall>i \<in> set live. instID i \<notin> set vs \<longrightarrow> \<not> onPort port i" unfolding vs_def cs by auto
  show "live = []" if "vs = []"
  proof -
    have "cs = []" using that by (simp add: vs_def)
    then have "nat ?lim \<ge> 1" by simp
    then show ?thesis using that lvs len by (cases live) (auto simp: min_def split: if_splits)
  qed
qed


text \<open>A launcher that is free and ready, and that has room once the given instances are gone, by its own report.\<close>

definition hasRoom :: "dpEnv \<Rightarrow> dpCall list \<Rightarrow> string \<Rightarrow> int \<Rightarrow> int \<Rightarrow> string set \<Rightarrow> pod \<Rightarrow> bool" where
  "hasRoom env cs target port maxOthers gone p \<longleftrightarrow> freeReadyLauncher p \<and>
     (\<exists>all. (\<exists>c \<in> set cs. listedAt env p all c) \<and> roomAfter all gone target port maxOthers)"

definition hasTarget :: "dpEnv \<Rightarrow> dpCall list \<Rightarrow> string \<Rightarrow> pod \<Rightarrow> bool" where
  "hasTarget env cs target p \<longleftrightarrow> freeReadyLauncher p \<and>
     (\<exists>all. (\<exists>c \<in> set cs. listedAt env p all c) \<and> target \<in> instID ` set (liveBut all {}))"

definition foundGood :: "dpEnv \<Rightarrow> dpCall list \<Rightarrow> string \<Rightarrow> int \<Rightarrow> int \<Rightarrow> pod set \<Rightarrow> selectAcc \<Rightarrow> bool" where
  "foundGood env cs target port maxOthers pods acc \<longleftrightarrow>
     (\<forall>q. selCandidate acc = Some q \<longrightarrow> q \<in> pods \<and> hasRoom env cs target port maxOthers {} q) \<and>
     (\<forall>plan. selBest acc = Some plan \<longrightarrow> rpPod plan \<in> pods \<and>
        hasRoom env cs target port maxOthers (set (rpVictims plan)) (rpPod plan))"

lemma hasRoom_mono: "hasRoom env cs target port mo gone p \<Longrightarrow> set cs \<subseteq> set ds \<Longrightarrow> hasRoom env ds target port mo gone p"
  unfolding hasRoom_def by blast

lemma foundGood_mono:
  "foundGood env cs target port mo pods acc \<Longrightarrow> set cs \<subseteq> set ds \<Longrightarrow> pods \<subseteq> pods' \<Longrightarrow> foundGood env ds target port mo pods' acc"
  unfolding foundGood_def by (meson hasRoom_mono subsetD)

definition distinctIDs :: "dpEnv \<Rightarrow> bool" where
  "distinctIDs env \<longleftrightarrow> (\<forall>body all. decodeAllInstances env body = Inr all \<longrightarrow> distinct (map instID (Instances all)))"

definition roundOk :: "dpEnv \<Rightarrow> dpCall list \<Rightarrow> string \<Rightarrow> int \<Rightarrow> int \<Rightarrow> pod \<Rightarrow> selectAcc \<Rightarrow> selectResult + selectAcc \<Rightarrow> bool" where
  "roundOk env cs target port maxOthers p acc r \<longleftrightarrow>
     (case r of
        Inl (Selected q sleeping) \<Rightarrow> q = p \<and> sleeping \<and> hasTarget env cs target p
      | Inl SelectPanics \<Rightarrow> maxOthers < 0
      | Inl SelectNone \<Rightarrow> False
      | Inl _ \<Rightarrow> True
      | Inr acc' \<Rightarrow>
          (selCandidate acc' = selCandidate acc \<or> selCandidate acc' = Some p \<and> hasRoom env cs target port maxOthers {} p) \<and>
          (selBest acc' = selBest acc \<or>
           (\<exists>plan. selBest acc' = Some plan \<and> rpPod plan = p \<and> hasRoom env cs target port maxOthers (set (rpVictims plan)) p)))"

lemma reclaimPlanLRU_None: "reclaimPlanLRU vs known = None \<longleftrightarrow> vs = []"
  by (auto simp: reclaimPlanLRU_def split: list.splits)

lemma sync_reports:
  assumes "syncLauncherInstances env st nn deleter p = (st', Synced res)" and "distinctIDs env"
  obtains all cs where "extends st cs st'" "\<forall>c \<in> set cs. touches p c" "\<exists>c \<in> set cs. listedAt env p all c"
    "Instances (lsInstances res) = liveBut all {}" "TotalInstances (lsInstances res) = int (length (liveBut all {}))"
    "distinct (map instID (liveBut all {}))"
proof -
  from sync_lists_and_deletes [OF assms(1)] obtain all cs where *: "extends st cs st'" "\<exists>c \<in> set cs. listedAt env p all c"
    "\<forall>c \<in> set cs. touches p c" "Instances (lsInstances res) = filter (\<lambda>i. \<not> isStopped i) (Instances all)"
    "TotalInstances (lsInstances res) = int (length (Instances (lsInstances res)))" by metis
  moreover have "distinct (map instID (liveBut all {}))"
    using *(2) assms(2) by (auto simp: distinctIDs_def listedAt_def liveBut_def distinct_map_filter)
  ultimately show ?thesis by (intro that [of cs all]) (simp_all add: liveBut_def)
qed

text \<open>What a round makes of the instances once they are sorted.\<close>

definition afterSorting :: "string \<Rightarrow> int \<Rightarrow> pod \<Rightarrow> instanceState list \<Rightarrow> instSorts \<Rightarrow> selectAcc \<Rightarrow> dpState \<Rightarrow> dpState \<times> (selectResult + selectAcc)" where
  "afterSorting nn maxOthers p live so acc st3 =
     (let known = lastUsedOf st3 nn (Name p);
          vs = isConflicts so @ pickInstanceVictims (isOthers so) known
                 (max (int (length live) - maxOthers) 1 - int (length (isConflicts so)))
      in if isSleeping so then (st3, Inl (Selected p True))
         else if isConflicts so = [] \<and> int (length live) \<le> maxOthers
         then (st3, Inr (case selCandidate acc of None \<Rightarrow> acc\<lparr>selCandidate := Some p\<rparr> | Some _ \<Rightarrow> acc))
         else (case reclaimPlanLRU vs known of
                 None \<Rightarrow> (st3, Inl SelectPanics)
               | Some (lruID, lruTime) \<Rightarrow> (st3, Inr (acc\<lparr>selBest := betterPlan
                   \<lparr>rpPod = p, rpVictims = vs, rpLruID = lruID, rpLruTime = lruTime\<rparr> (selBest acc)\<rparr>))))"

lemma betterPlan_cases: "betterPlan plan best = best \<or> betterPlan plan best = Some plan"
  by (simp add: betterPlan_def split: option.split)

lemma afterSorting_ok:
  fixes all :: allInstancesState
  defines "live \<equiv> liveBut all {}"
  assumes sort: "sortInstances env nn uid p target port live st \<lparr>isSleeping = False, isConflicts = [], isOthers = []\<rparr> = (st3, Inr so)"
    and dist: "distinct (map instID live)" and listed: "\<exists>c \<in> set cs. listedAt env p all c" and free: "freeReadyLauncher p"
    and run: "afterSorting nn maxOthers p live so acc st3 = (st', r)"
  shows "st' = st3 \<and> roundOk env cs target port maxOthers p acc r"
proof -
  have nostop: "\<forall>i \<in> set live. \<not> isStopped i" by (simp add: live_def liveBut_def)
  let ?z = "\<lparr>isSleeping = False, isConflicts = [], isOthers = []\<rparr>"
  have "snd (sortInstances env nn uid p target port live st ?z) = Inr so" by (simp add: sort)
  note so = sortInstances_sorted [OF this nostop, simplified]
  let ?known = "lastUsedOf st3 nn (Name p)"
  let ?vs = "isConflicts so @ pickInstanceVictims (isOthers so) ?known
    (max (int (length live) - maxOthers) 1 - int (length (isConflicts so)))"
  show ?thesis
  proof (cases "isSleeping so")
    case True
    then have "hasTarget env cs target p" using so(1) listed free unfolding hasTarget_def live_def by blast
    with True run show ?thesis by (auto simp: roundOk_def afterSorting_def)
  next
    case False
    then have nt: "target \<notin> instID ` set live" using so(1) by simp
    note plan = plan_makes_room [OF dist nt, of port ?known maxOthers, folded so(2,3)]
    show ?thesis
    proof (cases "isConflicts so = [] \<and> int (length live) \<le> maxOthers")
      case True
      then have "\<forall>i \<in> set live. \<not> onPort port i" using nt by (auto simp: so filter_empty_conv image_iff)
      with True nt have "roomAfter all {} target port maxOthers" by (auto simp: roomAfter_def live_def)
      then have "hasRoom env cs target port maxOthers {} p" using listed free unfolding hasRoom_def by blast
      with run True False show ?thesis by (auto simp: roundOk_def afterSorting_def split: option.splits)
    next
      case crowded: False
      have "liveBut all (set ?vs) = filter (\<lambda>i. instID i \<notin> set ?vs) live"
        by (simp add: live_def liveBut_def conj_commute)
      then have room: "hasRoom env cs target port maxOthers (set ?vs) p"
        using plan(1,2) nt listed free unfolding hasRoom_def roomAfter_def by auto
      show ?thesis
      proof (cases "reclaimPlanLRU ?vs ?known")
        case None
        then have "live = []" unfolding reclaimPlanLRU_None by (rule plan(3))
        moreover have "isConflicts so = []" using None by (simp add: reclaimPlanLRU_None)
        ultimately have "maxOthers < 0" using crowded by simp
        with None run False crowded show ?thesis by (auto simp: roundOk_def afterSorting_def Let_def)
      next
        case (Some lru)
        obtain lruID lruTime where lru: "lru = (lruID, lruTime)" by (cases lru)
        let ?plan = "\<lparr>rpPod = p, rpVictims = ?vs, rpLruID = lruID, rpLruTime = lruTime\<rparr>"
        have "st' = st3" "r = Inr (acc\<lparr>selBest := betterPlan ?plan (selBest acc)\<rparr>)"
          using run Some False crowded lru by (auto simp: afterSorting_def Let_def)
        with room betterPlan_cases [of ?plan "selBest acc"] show ?thesis by (auto simp: roundOk_def)
      qed
    qed
  qed
qed

lemma considerLauncher_ok:
  assumes uniq: "distinctIDs env" and run: "considerLauncher env nn uid target port maxOthers p st acc = (st', r)"
  shows "\<exists>cs. extends st cs st' \<and> (\<forall>c \<in> set cs. freeReadyLauncher p \<and> touches p c) \<and> roundOk env cs target port maxOthers p acc r"
proof (cases "freeReadyLauncher p")
  case False
  with run have "st' = st" "r = Inr acc \<or> r = Inr (acc\<lparr>selNotReady := True\<rparr>)"
    by (auto simp: considerLauncher_def freeReadyLauncher_def split: if_splits)
  then show ?thesis by (intro exI [of _ "[]"]) (auto simp: roundOk_def)
next
  case True
  then have free: "\<not> (Phase (Status p) = PodFailed \<or> DeletionTimestamp p \<noteq> None)" "annot p RequesterAnnotationKey = []"
    "\<not> (PodIP (Status p) = [] \<or> \<not> IsPodReady p)" by (auto simp: freeReadyLauncher_def)
  obtain st1 ans where sync: "syncLauncherInstances env st nn (Some uid) p = (st1, ans)" by (rule prod.exhaust)
  have "ans \<noteq> SyncNotReady" using sync free
    by (auto simp: syncLauncherInstances_def Let_def split: sum.splits prod.splits)
  then consider e where "ans = SyncFailed e" | res where "ans = Synced res" by (cases ans) auto
  then show ?thesis
  proof cases
    case 1
    with run free sync have "st' = st1" "r = Inr (acc\<lparr>selNotReady := True\<rparr>)" by (auto simp: considerLauncher_def)
    with syncLauncherInstances_calls [OF sync] True show ?thesis by (auto simp: roundOk_def)
  next
    case 2
    obtain all cs1 where cs1: "extends st cs1 st1" "\<forall>c \<in> set cs1. touches p c" "\<exists>c \<in> set cs1. listedAt env p all c"
      and res: "Instances (lsInstances res) = liveBut all {}" "TotalInstances (lsInstances res) = int (length (liveBut all {}))"
      and dist: "distinct (map instID (liveBut all {}))"
      using sync_reports [OF sync [unfolded 2] uniq] by metis
    let ?st2 = "getLauncherData st1 nn (Name p)"
    let ?z = "\<lparr>isSleeping = False, isConflicts = [], isOthers = []\<rparr>"
    obtain st3 s where sorts: "sortInstances env nn uid p target port (liveBut all {}) ?st2 ?z = (st3, s)" by (rule prod.exhaust)
    obtain cs2 where cs2: "extends ?st2 cs2 st3" "\<forall>c \<in> set cs2. touches p c"
      using sortInstances_calls [of ?st2 env nn uid p target port "liveBut all {}" ?z] sorts by auto
    have ext: "extends st (cs1 @ cs2) st3" using cs1(1) cs2(1) by (simp add: extends_def)
    have "st' = st3 \<and> roundOk env (cs1 @ cs2) target port maxOthers p acc r"
    proof (cases s)
      case (Inl stop)
      with sortInstances_stops [of env nn uid p target port "liveBut all {}" ?st2 ?z stop] sorts
      have "stop = SelectRetry \<or> (\<exists>e. stop = SelectFailed e)" by simp
      with run free sync 2 sorts Inl res show ?thesis by (auto simp: considerLauncher_def roundOk_def Let_def)
    next
      case (Inr so)
      have "considerLauncher env nn uid target port maxOthers p st acc = afterSorting nn maxOthers p (liveBut all {}) so acc st3"
        using free sync 2 sorts Inr by (simp add: considerLauncher_def afterSorting_def res Let_def)
      then have "afterSorting nn maxOthers p (liveBut all {}) so acc st3 = (st', r)" using run by simp
      moreover have "\<exists>c \<in> set (cs1 @ cs2). listedAt env p all c" using cs1(3) by auto
      ultimately show ?thesis using afterSorting_ok sorts Inr dist True by blast
    qed
    with ext cs1(2) cs2(2) True show ?thesis by (intro exI [of _ "cs1 @ cs2"]) auto
  qed
qed


lemma roundOk_found:
  assumes old: "foundGood env cs0 target port mo seen acc" and round: "roundOk env cs1 target port mo p acc (Inr acc1)"
  shows "foundGood env (cs0 @ cs1) target port mo (insert p seen) acc1"
proof -
  have "foundGood env (cs0 @ cs1) target port mo (insert p seen) acc"
    by (rule foundGood_mono [OF old]) auto
  moreover have "hasRoom env (cs0 @ cs1) target port mo gone p" if "hasRoom env cs1 target port mo gone p" for gone
    by (rule hasRoom_mono [OF that]) simp
  ultimately show ?thesis using round unfolding roundOk_def foundGood_def by force
qed

lemma considerLaunchers_ok:
  assumes uniq: "distinctIDs env"
  shows "considerLaunchers env nn uid target port maxOthers pods st acc = (st', r) \<Longrightarrow>
      foundGood env cs0 target port maxOthers seen acc \<Longrightarrow>
    \<exists>cs. extends st cs st' \<and> (\<forall>c \<in> set cs. \<exists>p \<in> set pods. freeReadyLauncher p \<and> touches p c) \<and>
      (case r of
         Inl (Selected q sleeping) \<Rightarrow> q \<in> set pods \<and> sleeping \<and> hasTarget env cs target q
       | Inl SelectPanics \<Rightarrow> maxOthers < 0
       | Inl SelectNone \<Rightarrow> False
       | Inl _ \<Rightarrow> True
       | Inr acc' \<Rightarrow> foundGood env (cs0 @ cs) target port maxOthers (seen \<union> set pods) acc')"
proof (induction pods arbitrary: st acc cs0 seen)
  case (Cons p pods)
  obtain st1 r1 where one: "considerLauncher env nn uid target port maxOthers p st acc = (st1, r1)" by (rule prod.exhaust)
  from considerLauncher_ok [OF uniq one] obtain cs1 where cs1: "extends st cs1 st1"
    "\<forall>c \<in> set cs1. freeReadyLauncher p \<and> touches p c" "roundOk env cs1 target port maxOthers p acc r1" by blast
  show ?case
  proof (cases r1)
    case (Inl stop)
    with Cons.prems one have "st' = st1" "r = Inl stop" by auto
    with cs1 Inl show ?thesis by (intro exI [of _ cs1]) (auto simp: roundOk_def split: selectResult.splits)
  next
    case (Inr acc1)
    have "foundGood env (cs0 @ cs1) target port maxOthers (insert p seen) acc1"
      using cs1(3) Inr by (intro roundOk_found [OF Cons.prems(2)]) simp
    moreover have "considerLaunchers env nn uid target port maxOthers pods st1 acc1 = (st', r)"
      using Cons.prems(1) one Inr by simp
    ultimately obtain cs2 where cs2: "extends st1 cs2 st'" "\<forall>c \<in> set cs2. \<exists>p \<in> set pods. freeReadyLauncher p \<and> touches p c"
      "case r of Inl (Selected q sleeping) \<Rightarrow> q \<in> set pods \<and> sleeping \<and> hasTarget env cs2 target q
       | Inl SelectPanics \<Rightarrow> maxOthers < 0 | Inl SelectNone \<Rightarrow> False | Inl _ \<Rightarrow> True
       | Inr acc' \<Rightarrow> foundGood env ((cs0 @ cs1) @ cs2) target port maxOthers (insert p seen \<union> set pods) acc'"
      using Cons.IH by blast
    have ins: "insert p seen \<union> set pods = seen \<union> set (p # pods)" by auto
    have ext: "extends st (cs1 @ cs2) st'" using extends_trans [OF cs1(1) cs2(1)] .
    have mono: "hasTarget env cs2 target q \<Longrightarrow> hasTarget env (cs1 @ cs2) target q" for q
      unfolding hasTarget_def by auto
    from cs2(3) have "case r of Inl (Selected q sleeping) \<Rightarrow> q \<in> set (p # pods) \<and> sleeping \<and> hasTarget env (cs1 @ cs2) target q
       | Inl SelectPanics \<Rightarrow> maxOthers < 0 | Inl SelectNone \<Rightarrow> False | Inl _ \<Rightarrow> True
       | Inr acc' \<Rightarrow> foundGood env (cs0 @ cs1 @ cs2) target port maxOthers (seen \<union> set (p # pods)) acc'"
      unfolding ins by (auto split: sum.splits selectResult.splits intro: mono)
    with ext cs1(2) cs2(2) show ?thesis by (intro exI [of _ "cs1 @ cs2"]) auto
  qed
qed (auto intro!: exI [of _ "[]"])

lemma deleteVictims_calls:
  "deleteVictims env nn uid (launcherBaseURL p) n vs st = (st', e) \<Longrightarrow>
    \<exists>cs. extends st cs st' \<and> (\<forall>c \<in> set cs. touches p c) \<and>
      (e = None \<longrightarrow> (\<forall>v \<in> set vs. \<exists>c \<in> set cs. goneAt p v c))"
proof (induction vs arbitrary: st)
  case (Cons v vs)
  obtain st1 res where d: "DeleteInstance env (noteDeleted nn (Some uid) v st) (launcherBaseURL p) v = (st1, res)" by (rule prod.exhaust)
  from DeleteInstance_call [OF d] obtain cs1 where
    st1: "st1 = (noteDeleted nn (Some uid) v st)\<lparr>dcalls := dcalls (noteDeleted nn (Some uid) v st) @ cs1\<rparr>"
    and del: "\<forall>c \<in> set cs1. deletesAt p v c"
    and gone: "(case res of Inr _ \<Rightarrow> True | Inl e \<Rightarrow> IsInstanceNotFoundError e) \<longrightarrow> (\<exists>c \<in> set cs1. goneAt p v c)"
    by blast
  have cs1: "extends st cs1 st1" "\<forall>c \<in> set cs1. touches p c"
    using del by (auto simp: extends_def st1 deletesAt_touches)
  show ?case
  proof (cases "case res of Inr _ \<Rightarrow> True | Inl e \<Rightarrow> IsInstanceNotFoundError e")
    case True
    then have "deleteVictims env nn uid (launcherBaseURL p) n vs (deleteKnown nn n v st1) = (st', e)"
      using Cons.prems d by (auto split: sum.splits)
    from Cons.IH [OF this] obtain cs2 where cs2: "extends (deleteKnown nn n v st1) cs2 st'" "\<forall>c \<in> set cs2. touches p c"
      "e = None \<longrightarrow> (\<forall>v \<in> set vs. \<exists>c \<in> set cs2. goneAt p v c)" by blast
    then have "extends st (cs1 @ cs2) st'" using cs1(1) by (simp add: extends_def)
    with cs1 cs2 gone True show ?thesis by (intro exI [of _ "cs1 @ cs2"]) auto
  next
    case False
    then have "st' = st1" "e \<noteq> None" using Cons.prems d by (auto split: sum.splits)
    with cs1 show ?thesis by (intro exI [of _ cs1]) auto
  qed
qed (auto intro!: exI [of _ "[]"])

text \<open>Carrying out the best plan.\<close>

lemma reclaim_outcome:
  assumes room: "hasRoom env cs1 target port maxOthers (set (rpVictims plan)) (rpPod plan)" and base: "NewLauncherClient env (launcherBaseURL (rpPod plan)) = Inr base"
    and del: "deleteVictims env nn uid base (Name (rpPod plan)) (rpVictims plan) st1 = (st2, e)"
  obtains cs2 where "extends st1 cs2 st2" "\<forall>c \<in> set cs2. freeReadyLauncher (rpPod plan) \<and> touches (rpPod plan) c"
    "e = None \<Longrightarrow> hasRoom env (cs1 @ cs2) target port maxOthers (set (rpVictims plan)) (rpPod plan) \<and>
       (\<forall>i \<in> set (rpVictims plan). \<exists>c \<in> set (cs1 @ cs2). goneAt (rpPod plan) i c)"
proof -
  obtain cs2 where cs2: "extends st1 cs2 st2" "\<forall>c \<in> set cs2. touches (rpPod plan) c"
    "e = None \<longrightarrow> (\<forall>v \<in> set (rpVictims plan). \<exists>c \<in> set cs2. goneAt (rpPod plan) v c)"
    using deleteVictims_calls [OF del [unfolded client_base [OF base]]] by blast
  moreover have "hasRoom env (cs1 @ cs2) target port maxOthers (set (rpVictims plan)) (rpPod plan)" by (rule hasRoom_mono [OF room]) simp
  moreover have "freeReadyLauncher (rpPod plan)" using room by (simp add: hasRoom_def)
  ultimately show ?thesis by (intro that [of cs2]) auto
qed

lemma select_outcome:
  assumes uniq: "distinctIDs env"
    and run: "selectOrReclaimLauncherPod env st nn uid pods target port maxOthers = (st', res)"
  shows "\<exists>cs. extends st cs st' \<and>
    (\<forall>c \<in> set cs. \<exists>p \<in> set pods. freeReadyLauncher p \<and> touches p c) \<and>
    (\<forall>p sleeping. res = Selected p sleeping \<longrightarrow> p \<in> set pods \<and>
       (if sleeping then hasTarget env cs target p
        else \<exists>gone. hasRoom env cs target port maxOthers gone p \<and> (\<forall>i \<in> gone. \<exists>c \<in> set cs. goneAt p i c))) \<and>
    (res = SelectPanics \<longrightarrow> maxOthers < 0)"
proof -
  let ?acc = "\<lparr>selCandidate = None, selNotReady = False, selBest = None\<rparr>"
  obtain st1 r where loop: "considerLaunchers env nn uid target port maxOthers pods st ?acc = (st1, r)" by (rule prod.exhaust)
  have "foundGood env [] target port maxOthers {} ?acc" by (simp add: foundGood_def)
  from considerLaunchers_ok [OF uniq loop this] obtain cs1 where cs1: "extends st cs1 st1"
    "\<forall>c \<in> set cs1. \<exists>p \<in> set pods. freeReadyLauncher p \<and> touches p c"
    "case r of Inl (Selected q sleeping) \<Rightarrow> q \<in> set pods \<and> sleeping \<and> hasTarget env cs1 target q
       | Inl SelectPanics \<Rightarrow> maxOthers < 0 | Inl SelectNone \<Rightarrow> False | Inl _ \<Rightarrow> True
       | Inr acc' \<Rightarrow> foundGood env ([] @ cs1) target port maxOthers ({} \<union> set pods) acc'" by blast
  consider (stop) stop where "r = Inl stop" | (cand) acc p where "r = Inr acc" "selCandidate acc = Some p"
    | (plan) acc plan where "r = Inr acc" "selCandidate acc = None" "selBest acc = Some plan"
    | (none) acc where "r = Inr acc" "selCandidate acc = None" "selBest acc = None"
    by (cases r) (auto, metis not_None_eq)
  then show ?thesis
  proof cases
    case stop
    with run loop have "st' = st1" "res = stop" by (auto simp: selectOrReclaimLauncherPod_def)
    with stop cs1 show ?thesis by (intro exI [of _ cs1]) (auto split: selectResult.splits)
  next
    case cand
    with run loop have "st' = st1" "res = Selected p False" by (auto simp: selectOrReclaimLauncherPod_def)
    with cand cs1 show ?thesis by (intro exI [of _ cs1]) (auto simp: foundGood_def intro: exI [of _ "{}"])
  next
    case none
    with run loop have "st' = st1" "res = SelectRetry \<or> res = SelectNone"
      by (auto simp: selectOrReclaimLauncherPod_def split: if_splits)
    with cs1 show ?thesis by (intro exI [of _ cs1]) auto
  next
    case plan
    have room: "hasRoom env cs1 target port maxOthers (set (rpVictims plan)) (rpPod plan)" "rpPod plan \<in> set pods"
      using cs1(3) plan by (auto simp: foundGood_def)
    show ?thesis
    proof (cases "NewLauncherClient env (launcherBaseURL (rpPod plan))")
      case (Inl e)
      with plan run loop have "st' = st1" "res = SelectFailed e" by (auto simp: selectOrReclaimLauncherPod_def)
      with cs1 show ?thesis by (intro exI [of _ cs1]) auto
    next
      case (Inr base)
      obtain st2 e where del: "deleteVictims env nn uid base (Name (rpPod plan)) (rpVictims plan) st1 = (st2, e)" by (rule prod.exhaust)
      then have res: "st' = st2" "res = (case e of Some e \<Rightarrow> SelectFailed e | None \<Rightarrow> Selected (rpPod plan) False)"
        using plan run loop Inr by (auto simp: selectOrReclaimLauncherPod_def split: option.splits)
      show ?thesis
        by (rule reclaim_outcome [OF room(1) Inr del]; rule exI [of _ "cs1 @ cs2" for cs2])
          (use res cs1 room(2) in \<open>cases e; fastforce intro: extends_trans\<close>)
    qed
  qed
qed

text \<open>
  C23: choosing a launcher for a new instance calls only launchers that are bound to no requester and are
  ready.  The launcher chosen is one of those given; if the choice reports a sleeping instance, the launcher
  reported the wanted instance among its live ones; otherwise, by the launcher's own report and after the
  deletions it confirmed, no more live instances than allowed are left, none of them has the wanted identifier
  or uses the wanted port.  It panics only when the limit on other instances is negative.
\<close>

theorem selected_launcher_has_room:
  assumes uniq: "distinctIDs env"
    and run: "selectOrReclaimLauncherPod env st nn uid pods target port maxOthers = (st', res)"
  shows "\<exists>cs. extends st cs st' \<and>
    (\<forall>c \<in> set cs. \<exists>p \<in> set pods. freeReadyLauncher p \<and> touches p c) \<and>
    (\<forall>p sleeping. res = Selected p sleeping \<longrightarrow> p \<in> set pods \<and>
       (if sleeping then hasTarget env cs target p
        else \<exists>gone. hasRoom env cs target port maxOthers gone p \<and> (\<forall>i \<in> gone. \<exists>c \<in> set cs. goneAt p i c))) \<and>
    (res = SelectPanics \<longrightarrow> maxOthers < 0)"
  by (rule select_outcome [OF assms])


text \<open>
  C35: synchronising with a launcher asks it for its instances and deletes, of those it reports, only ones
  that are stopped and that no inference server is bound to; the result is the live instances with their
  number, and the stopped ones that are still bound; of each live instance the time of last use that was
  known is kept, and nothing else is remembered of the launcher.
\<close>

theorem sync_deletes_only_stopped_unbound:
  assumes "syncLauncherInstances env st nn deleter p = (st', Synced res)"
  shows "\<exists>all cs. extends st cs st' \<and> (\<exists>c \<in> set cs. listedAt env p all c) \<and>
    (\<forall>c \<in> set cs. touches p c \<and> (\<forall>i. deletesAt p i c \<longrightarrow>
       (\<exists>inst \<in> set (Instances all). instID inst = i \<and> isStopped inst) \<and> i \<notin> boundInstanceIDs st nn (Name p))) \<and>
    Instances (lsInstances res) = filter (\<lambda>i. \<not> isStopped i) (Instances all) \<and>
    TotalInstances (lsInstances res) = int (length (Instances (lsInstances res))) \<and>
    lsStopped res = instID ` {i \<in> set (Instances all). isStopped i} \<inter> boundInstanceIDs st nn (Name p) \<and>
    (\<forall>n. (mget (lastUsedOf st' nn (Name p)) n \<noteq> None) = (n \<in> instID ` set (Instances (lsInstances res))) \<and>
       (n \<in> instID ` set (Instances (lsInstances res)) \<and> mget (lastUsedOf st nn (Name p)) n \<noteq> None \<longrightarrow>
        mget (lastUsedOf st' nn (Name p)) n = mget (lastUsedOf st nn (Name p)) n))"
  by (rule sync_lists_and_deletes [OF assms])

definition exampleLauncher :: pod where
  "exampleLauncher = blankPod\<lparr>Name := ''l1'', UID := ''ul1'', Status := (Status blankPod)\<lparr>PodIP := ''10.0.0.1'',
     Phase := PodRunning, Conditions := [\<lparr>condType = PodReady, condStatus = ConditionTrue, LastTransitionTime = 1\<rparr>]\<rparr>\<rparr>"

definition stoppedInstance :: instanceState where
  "stoppedInstance = \<lparr>instID = ''i1'', instStatus = ''stopped'',
     instConfig = \<lparr>vcOptions = [], vcGpuUUIDs = [], vcEnvVars = [], vcAnnotations = Map.empty\<rparr>\<rparr>"

definition poolExampleEnv :: dpEnv where
  "poolExampleEnv = (dpExampleEnv [])\<lparr>decodeAllInstances :=
     (\<lambda>_. Inr \<lparr>TotalInstances = 1, RunningInstances = 0, Instances = [stoppedInstance]\<rparr>)\<rparr>"

lemma poolExample_answers [simp]:
  "urlParse poolExampleEnv u = None" "httpDo poolExampleEnv h r = Inr (200, ''ok'')"
  "decodeAllInstances poolExampleEnv b = Inr \<lparr>TotalInstances = 1, RunningInstances = 0, Instances = [stoppedInstance]\<rparr>"
  "decodeActionResult poolExampleEnv b = Inr \<lparr>arStatus = ''ok'', arInstanceID = ''i''\<rparr>"
  by (simp_all add: poolExampleEnv_def dpExampleEnv_def)

lemma poolExample_calls:
  "NewLauncherClient poolExampleEnv u = Inr u"
  "ListInstances poolExampleEnv st b = (st\<lparr>dcalls := dcalls st @ [Http \<lparr>hrPurpose = ''list_instances'', hrMethod = ''GET'',
     hrURL = b @ instancesPath, hrBody = None\<rparr> (Inr (200, ''ok''))]\<rparr>,
     Inr \<lparr>TotalInstances = 1, RunningInstances = 0, Instances = [stoppedInstance]\<rparr>)"
  "DeleteInstance poolExampleEnv st b i = (st\<lparr>dcalls := dcalls st @ [Http \<lparr>hrPurpose = ''delete_instance'', hrMethod = ''DELETE'',
     hrURL = b @ instancesPath @ ''/'' @ i, hrBody = None\<rparr> (Inr (200, ''ok''))]\<rparr>,
     Inr \<lparr>arStatus = ''ok'', arInstanceID = ''i''\<rparr>)"
  by (simp_all add: NewLauncherClient_def ListInstances_def DeleteInstance_def fullDo_def doHTTP_def Let_def)

lemma exampleLauncher_fields [simp]:
  "IsPodReady exampleLauncher" "PodIP (Status exampleLauncher) \<noteq> []" "Name exampleLauncher = ''l1''"
  "freeReadyLauncher exampleLauncher"
  by (simp_all add: exampleLauncher_def IsPodReady_def GetPodCondition_def freeReadyLauncher_def annot_def blank_defs
      SliceGetByFeature_def SliceIndexFeature_def Let_def)

lemma stoppedInstance_fields: "isStopped stoppedInstance" "instID stoppedInstance = ''i1''"
  by (simp_all add: stoppedInstance_def isStopped_def InstanceStatusStopped_def)

lemma poolExample_sync:
  assumes "InferenceServers (nodeOf st nn) = []"
  shows "\<exists>st'. syncLauncherInstances poolExampleEnv st nn d exampleLauncher =
    (st', Synced \<lparr>lsInstances = \<lparr>TotalInstances = 0, RunningInstances = 0, Instances = []\<rparr>, lsStopped = {}\<rparr>) \<and>
    length (dcalls st') = length (dcalls st) + 2"
proof -
  have "boundInstanceIDs st nn ''l1'' = {}" using assms by (simp add: boundInstanceIDs_def)
  then show ?thesis
    by (simp add: syncLauncherInstances_def poolExample_calls syncInstances_step(2) stoppedInstance_fields Let_def)
qed

theorem sync_deletes_only_stopped_unbound_witness:
  "\<exists>st' res. syncLauncherInstances poolExampleEnv dpExampleState ''n1'' None exampleLauncher = (st', Synced res) \<and>
     length (dcalls st') = 2 \<and> (\<forall>n. mget (lastUsedOf st' ''n1'' ''l1'') n = None)"
proof -
  obtain st' where run: "syncLauncherInstances poolExampleEnv dpExampleState ''n1'' None exampleLauncher =
    (st', Synced \<lparr>lsInstances = \<lparr>TotalInstances = 0, RunningInstances = 0, Instances = []\<rparr>, lsStopped = {}\<rparr>)"
    "length (dcalls st') = 2"
    using poolExample_sync [of dpExampleState "''n1''" None] by (auto simp: dpExampleState_def nodeOf_def newNodeData_def)
  from sync_deletes_only_stopped_unbound [OF run(1)] run show ?thesis by auto
qed

theorem selected_launcher_has_room_witness:
  "\<exists>st'. selectOrReclaimLauncherPod poolExampleEnv dpExampleState ''n1'' ''u1'' [exampleLauncher] ''i'' 8000 3 =
      (st', Selected exampleLauncher False) \<and> (\<exists>c \<in> set (dcalls st'). \<exists>all. listedAt poolExampleEnv exampleLauncher all c)"
proof -
  obtain st1 where "syncLauncherInstances poolExampleEnv dpExampleState ''n1'' (Some ''u1'') exampleLauncher =
    (st1, Synced \<lparr>lsInstances = \<lparr>TotalInstances = 0, RunningInstances = 0, Instances = []\<rparr>, lsStopped = {}\<rparr>)"
    using poolExample_sync [of dpExampleState "''n1''" "Some ''u1''"] by (auto simp: dpExampleState_def nodeOf_def newNodeData_def)
  moreover have free: "freeReadyLauncher exampleLauncher" by simp
  ultimately obtain st' where run: "selectOrReclaimLauncherPod poolExampleEnv dpExampleState ''n1'' ''u1'' [exampleLauncher] ''i'' 8000 3 =
      (st', Selected exampleLauncher False)"
    unfolding freeReadyLauncher_def by (auto simp: selectOrReclaimLauncherPod_def considerLauncher_def Let_def)
  have "distinctIDs poolExampleEnv" by (simp add: distinctIDs_def)
  from selected_launcher_has_room [OF this run] obtain cs where "extends dpExampleState cs st'"
    "\<exists>gone. hasRoom poolExampleEnv cs ''i'' 8000 3 gone exampleLauncher" by auto
  with run show ?thesis by (auto simp: hasRoom_def extends_def)
qed

end
