(* ===== verification/Binding.thy ===== *)
theory Binding
  imports Launcher_Pool
begin

text \<open>
  Binding a server-requesting Pod to a server-providing Pod and what is written on the two Pods
  (\<^verbatim>\<open>inference-server.go\<close>): the desired vLLM instance, the annotations that keep a launcher's binding,
  the routing labels and annotations of an InferenceServerConfig, sleeping and waking, finalizers, the
  budget of sleeping servers, binding and unbinding.

  A Go function that updates the data of an inference server takes the Node's name and the requester's
  UID.  Times of calls inside error messages, log messages and metrics other than the duality gauge are
  left out.
\<close>


subsection \<open>Names\<close>

definition AdminPortAnnotationName :: string where
  "AdminPortAnnotationName = ''dual-pods.llm-d.ai/admin-port''"
definition AdminPortDefaultValue :: string where
  "AdminPortDefaultValue = ''8081''"
definition AcceleratorQueryPath :: string where
  "AcceleratorQueryPath = ''/v1/dual-pods/accelerators''"
definition AcceleratorMemoryQueryPath :: string where
  "AcceleratorMemoryQueryPath = ''/v1/dual-pods/accelerator-memory-usage''"
definition BecomeReadyPath :: string where
  "BecomeReadyPath = ''/v1/become-ready''"
definition BecomeUnreadyPath :: string where
  "BecomeUnreadyPath = ''/v1/become-unready''"

definition launcherInstanceIDAnnotationKey :: string where
  "launcherInstanceIDAnnotationKey = ''dual-pods.llm-d.ai/instance-id''"
definition launcherServerPortAnnotationKey :: string where
  "launcherServerPortAnnotationKey = ''dual-pods.llm-d.ai/server-port''"
definition launcherVllmConfigAnnotationKey :: string where
  "launcherVllmConfigAnnotationKey = ''dual-pods.llm-d.ai/vllm-config''"
definition launcherISCRoutingMetadataAnnotationKey :: string where
  "launcherISCRoutingMetadataAnnotationKey = ''dual-pods.llm-d.ai/isc-routing-metadata''"
definition providerFinalizer :: string where
  "providerFinalizer = ''dual-pods.llm-d.ai/provider''"
definition requesterFinalizer :: string where
  "requesterFinalizer = ''dual-pods.llm-d.ai/requester''"
definition ControllerName :: string where
  "ControllerName = ''dual-pods-controller''"

lemmas binding_name_defs = launcherInstanceIDAnnotationKey_def launcherServerPortAnnotationKey_def
  launcherVllmConfigAnnotationKey_def launcherISCRoutingMetadataAnnotationKey_def

definition strconv_FormatBool :: "bool \<Rightarrow> string" where
  "strconv_FormatBool b = (if b then ''true'' else ''false'')"

definition reservedKeyPrefixes :: "string list" where
  "reservedKeyPrefixes = [''dual-pods.llm-d.ai/'', ''kubernetes.io/'', ''k8s.io/'']"

definition hasReservedPrefix :: "string \<Rightarrow> bool" where
  "hasReservedPrefix key = list_ex (\<lambda>prefix. hasPrefix key prefix) reservedKeyPrefixes"

subsection \<open>Calls to the apiserver\<close>

definition updatePod :: "dpEnv \<Rightarrow> dpState \<Rightarrow> pod \<Rightarrow> dpState \<times> (apiError + pod)" where
  "updatePod env st p = (let r = podUpdateD env (dcalls st) p in (st\<lparr>dcalls := dcalls st @ [UpdatePod p r]\<rparr>, r))"

definition deletePodPre :: "dpEnv \<Rightarrow> dpState \<Rightarrow> string \<Rightarrow> string option \<Rightarrow> string option \<Rightarrow> dpState \<times> apiError option" where
  "deletePodPre env st nm uid rv =
     (let r = podDeleteD env (dcalls st) nm uid rv in (st\<lparr>dcalls := dcalls st @ [DeletePodD nm uid rv r]\<rparr>, r))"

definition createPod :: "dpEnv \<Rightarrow> dpState \<Rightarrow> pod \<Rightarrow> dpState \<times> (apiError + pod)" where
  "createPod env st p = (let r = podCreateD env (dcalls st) p in (st\<lparr>dcalls := dcalls st @ [CreatePodD p r]\<rparr>, r))"

subsection \<open>Desired instances\<close>

definition configInferenceServer ::
  "dpEnv \<Rightarrow> inferenceServerConfig \<Rightarrow> string list \<Rightarrow> goError + vllmConfig \<times> string" where
  "configInferenceServer env isc gpuUUIDs =
     (let msc = ModelServerConfig isc;
          portS = strconv_Itoa (mscPort msc);
          vllmCfg = \<lparr>vcOptions = mscOptions msc @ '' --port '' @ portS, vcGpuUUIDs = gpuUUIDs, vcEnvVars = mscEnvVars msc,
             vcAnnotations = [VllmConfigISCNameAnnotationKey \<mapsto> Name isc, VllmConfigInferencePortAnnotationKey \<mapsto> portS]\<rparr>
      in (case yamlModelServerConfig env msc of
            Inl err \<Rightarrow> Inl (Wrapped (''failed to marshal InferenceServerConfig '' @ strconv_Quote (Name isc)) (ErrorText err))
          | Inr iscBytes \<Rightarrow>
              Inr (vllmCfg, ''I'' @ sha256url env (iscBytes @ '';gpus='' @ strings_Join gpuUUIDs '','') @ ''i'')))"

definition computeDesiredInstanceState ::
  "dpEnv \<Rightarrow> inferenceServerConfig \<Rightarrow> string list \<Rightarrow> goError + vllmInstanceState" where
  "computeDesiredInstanceState env isc gpuUUIDs =
     (case configInferenceServer env isc gpuUUIDs of
        Inl err \<Rightarrow> Inl err
      | Inr (cfg, instanceID) \<Rightarrow>
          Inr \<lparr>visCfg = cfg, visInstanceID = instanceID, visServerPort = mscPort (ModelServerConfig isc),
               visIscLabels = mscLabels (ModelServerConfig isc), visIscAnnotations = mscAnnotations (ModelServerConfig isc)\<rparr>)"

subsection \<open>Metadata of bound launchers\<close>

definition keyProblems :: "dpEnv \<Rightarrow> string \<Rightarrow> strmap \<Rightarrow> string \<Rightarrow> string list" where
  "keyProblems env what existing k =
     (let errs = IsQualifiedName env k
      in if errs \<noteq> [] then [''ISC '' @ what @ '' key '' @ strconv_Quote k @ '' is not a valid qualified name: '' @ strings_Join errs ''; '']
         else if hasReservedPrefix k then [''ISC '' @ what @ '' key '' @ strconv_Quote k @ '' uses a reserved prefix'']
         else if existing k \<noteq> None then [''ISC '' @ what @ '' key '' @ strconv_Quote k @ '' collides with existing pod '' @ what]
         else [])"

definition valueProblems :: "dpEnv \<Rightarrow> string \<Rightarrow> string \<Rightarrow> string list" where
  "valueProblems env k v =
     (let errs = IsValidLabelValue env v
      in if errs \<noteq> []
         then [''ISC label value '' @ strconv_Quote v @ '' for key '' @ strconv_Quote k @ '' is not valid: '' @ strings_Join errs ''; '']
         else [])"

definition validateISCRoutingMetadata ::
  "dpEnv \<Rightarrow> pod \<Rightarrow> (string, string) gomap \<Rightarrow> (string, string) gomap \<Rightarrow> string list" where
  "validateISCRoutingMetadata env providingPod iscLabels iscAnnotations =
     concat (map (\<lambda>(k, v). keyProblems env ''label'' (Labels providingPod) k @ valueProblems env k v) iscLabels) @
     concat (map (\<lambda>(k, v). keyProblems env ''annotation'' (Annotations providingPod) k) iscAnnotations)"

text \<open>\<open>Inl\<close> holds the problems found.\<close>

definition applyControllerMetadataToLauncherPod :: "dpEnv \<Rightarrow> pod \<Rightarrow> vllmInstanceState \<Rightarrow> string list + pod" where
  "applyControllerMetadataToLauncherPod env providingPod state =
     (let problems = validateISCRoutingMetadata env providingPod (visIscLabels state) (visIscAnnotations state)
      in if problems \<noteq> [] then Inl problems
         else (case encodeVllmConfig env (visCfg state) of
                 Inl err \<Rightarrow> Inl [''failed to marshal launcher instance config: '' @ err]
               | Inr cfgJSON \<Rightarrow>
                   (case encodeRouting env \<lparr>rmLabels = visIscLabels state, rmAnnotations = visIscAnnotations state\<rparr> of
                      Inl err \<Rightarrow> Inl [''failed to marshal ISC routing metadata: '' @ err]
                    | Inr routingJSON \<Rightarrow>
                        Inr (providingPod\<lparr>Annotations := (MapSet (Annotations providingPod) launcherInstanceIDAnnotationKey (visInstanceID state))
                          (launcherServerPortAnnotationKey \<mapsto> strconv_Itoa (visServerPort state),
                           launcherVllmConfigAnnotationKey \<mapsto> cfgJSON,
                           launcherISCRoutingMetadataAnnotationKey \<mapsto> routingJSON)\<rparr>))))"

definition setAll :: "(string, string) gomap \<Rightarrow> strmap \<Rightarrow> strmap" where
  "setAll kvs m = fold (\<lambda>(k, v) m. MapSet m k v) kvs m"

definition applyISCRoutingMetadataToLauncherPod ::
  "dpEnv \<Rightarrow> pod \<Rightarrow> (string, string) gomap \<Rightarrow> (string, string) gomap \<Rightarrow> string list + pod" where
  "applyISCRoutingMetadataToLauncherPod env providingPod iscLabels iscAnnotations =
     (let problems = validateISCRoutingMetadata env providingPod iscLabels iscAnnotations
      in if problems \<noteq> [] then Inl problems
         else Inr (providingPod\<lparr>Labels := setAll iscLabels (Labels providingPod),
                                Annotations := setAll iscAnnotations (Annotations providingPod)\<rparr>))"

definition commitInstanceState :: "serverData \<Rightarrow> vllmInstanceState \<Rightarrow> serverData" where
  "commitInstanceState sd state =
     sd\<lparr>InstanceID := visInstanceID state, InstanceConfig := Some (visCfg state), ServerPort := visServerPort state,
        InstanceISCLabels := visIscLabels state, InstanceISCAnnotations := visIscAnnotations state\<rparr>"

definition launcherStateKeys :: "string list" where
  "launcherStateKeys = [launcherInstanceIDAnnotationKey, launcherServerPortAnnotationKey, launcherVllmConfigAnnotationKey,
     launcherISCRoutingMetadataAnnotationKey]"

definition removeKeys :: "string list \<Rightarrow> strmap \<Rightarrow> strmap \<times> bool" where
  "removeKeys ks m = fold (\<lambda>k (m, changed). if m k \<noteq> None then (m(k := None), True) else (m, changed)) ks (m, False)"

definition clearInstanceStateFromLauncherPod :: "pod \<Rightarrow> pod \<times> bool" where
  "clearInstanceStateFromLauncherPod providingPod =
     (let (as, changed) = removeKeys launcherStateKeys (Annotations providingPod)
      in (providingPod\<lparr>Annotations := as\<rparr>, changed))"

definition iscRoutingMetadataPresent :: "pod \<Rightarrow> iscRoutingMetadata \<Rightarrow> bool" where
  "iscRoutingMetadataPresent providingPod routing \<longleftrightarrow>
     MapIsSubset (rmLabels routing) (Labels providingPod) \<and> MapIsSubset (rmAnnotations routing) (Annotations providingPod)"

definition missingAnnotation :: "pod \<Rightarrow> string \<Rightarrow> goError" where
  "missingAnnotation p k =
     ErrorText (''bound launcher Pod '' @ strconv_Quote (Name p) @ '' is missing annotation '' @ strconv_Quote k)"

definition invalidAnnotation :: "pod \<Rightarrow> string \<Rightarrow> goError \<Rightarrow> goError" where
  "invalidAnnotation p k err =
     Wrapped (''bound launcher Pod '' @ strconv_Quote (Name p) @ '' has invalid annotation '' @ strconv_Quote k) err"

definition recoverInstanceStateFromLauncherPod :: "dpEnv \<Rightarrow> serverData \<Rightarrow> pod \<Rightarrow> goError + serverData" where
  "recoverInstanceStateFromLauncherPod env sd p =
     (if InstanceID sd \<noteq> [] then Inr sd
      else (case Annotations p launcherInstanceIDAnnotationKey of
              None \<Rightarrow> Inl (missingAnnotation p launcherInstanceIDAnnotationKey)
            | Some instanceID \<Rightarrow>
      if instanceID = [] then Inl (missingAnnotation p launcherInstanceIDAnnotationKey)
      else (case Annotations p launcherServerPortAnnotationKey of
              None \<Rightarrow> Inl (missingAnnotation p launcherServerPortAnnotationKey)
            | Some portS \<Rightarrow>
      (case strconv_ParseInt 32 portS of
         None \<Rightarrow> Inl (Wrapped (''bound launcher Pod '' @ strconv_Quote (Name p) @ '' has invalid annotation '' @
           strconv_Quote launcherServerPortAnnotationKey @ '' value '' @ strconv_Quote portS) (ErrorText ''strconv.ParseInt''))
       | Some port \<Rightarrow>
      (case Annotations p launcherVllmConfigAnnotationKey of
         None \<Rightarrow> Inl (missingAnnotation p launcherVllmConfigAnnotationKey)
       | Some cfgJSON \<Rightarrow>
      (case decodeVllmConfig env cfgJSON of
         Inl err \<Rightarrow> Inl (invalidAnnotation p launcherVllmConfigAnnotationKey (ErrorText err))
       | Inr cfg \<Rightarrow>
      (case Annotations p launcherISCRoutingMetadataAnnotationKey of
         None \<Rightarrow> Inl (missingAnnotation p launcherISCRoutingMetadataAnnotationKey)
       | Some routingJSON \<Rightarrow>
      (case decodeRouting env routingJSON of
         Inl err \<Rightarrow> Inl (invalidAnnotation p launcherISCRoutingMetadataAnnotationKey (ErrorText err))
       | Inr routing \<Rightarrow>
           Inr (sd\<lparr>InstanceID := instanceID, InstanceConfig := Some cfg, ServerPort := port,
                   InstanceISCLabels := rmLabels routing, InstanceISCAnnotations := rmAnnotations routing,
                   LabelsApplied := iscRoutingMetadataPresent p routing\<rparr>)))))))))"

subsection \<open>Labels\<close>

text \<open>\<open>Inl\<close> holds the error, \<open>Inr\<close> the current Pod.\<close>

definition ensureSleepingLabel :: "dpEnv \<Rightarrow> dpState \<Rightarrow> pod \<Rightarrow> bool \<Rightarrow> dpState \<times> (goError + pod)" where
  "ensureSleepingLabel env st providingPod desired =
     (let desiredStr = strconv_FormatBool desired
      in if lbl providingPod SleepingLabelName = desiredStr then (st, Inr providingPod)
         else (case updatePod env st (providingPod\<lparr>Labels := MapSet (Labels providingPod) SleepingLabelName desiredStr\<rparr>) of
                 (st1, Inl err) \<Rightarrow>
                   (st1, Inl (Wrapped (''failed to revise sleeping label on server-providing Pod to '' @ desiredStr) (ApiErr err)))
               | (st1, Inr echo) \<Rightarrow> (st1, Inr echo)))"

definition removeISCRoutingLabels ::
  "dpEnv \<Rightarrow> dpState \<Rightarrow> pod \<Rightarrow> (string, string) gomap \<Rightarrow> dpState \<times> (goError + pod)" where
  "removeISCRoutingLabels env st providingPod iscLabels =
     (let toRemove = filter (\<lambda>k. Labels providingPod k \<noteq> None) (mkeys iscLabels)
      in if toRemove = [] then (st, Inr providingPod)
         else (case updatePod env st (providingPod\<lparr>Labels := fold (\<lambda>k m. m(k := None)) toRemove (Labels providingPod)\<rparr>) of
                 (st1, Inl err) \<Rightarrow>
                   (st1, Inl (Wrapped (''failed to remove ISC routing labels from launcher Pod '' @ Name providingPod) (ApiErr err)))
               | (st1, Inr echo) \<Rightarrow> (st1, Inr echo)))"

text \<open>
  The result is the current Pod, or the signal to stop: with an error to retry, or without after the
  requester has been asked to go.
\<close>

datatype labelsResult = GoOn pod | StopErr goError | StopDone

definition applyBoundLauncherLabels ::
  "dpEnv \<Rightarrow> dpState \<Rightarrow> string \<Rightarrow> string \<Rightarrow> pod \<Rightarrow> pod \<Rightarrow> dpState \<times> labelsResult" where
  "applyBoundLauncherLabels env st nn uid requestingPod providingPod =
     (let sd = serverOf st nn uid
      in (case Sleeping sd of
            None \<Rightarrow> (st, StopErr (GoPanic ''nil pointer dereference''))
          | Some sleeping \<Rightarrow>
              (let desiredSleeping = strconv_FormatBool sleeping;
                   applyLabels = \<not> LabelsApplied sd;
                   updated = providingPod\<lparr>Labels := MapSet (Labels providingPod) SleepingLabelName desiredSleeping\<rparr>
               in if lbl providingPod SleepingLabelName = desiredSleeping \<and> \<not> applyLabels then (st, GoOn providingPod)
                  else (case (if applyLabels
                              then applyISCRoutingMetadataToLauncherPod env updated (InstanceISCLabels sd) (InstanceISCAnnotations sd)
                              else Inr updated) of
                          Inl problems \<Rightarrow>
                            (let st1 = st\<lparr>devents := devents st @ [(requestingPod,
                                   ''Deleting server-requesting Pod because bound launcher is committed to outdated ISC routing metadata: '' @
                                   strings_Join problems ''; '')]\<rparr>
                             in (case deletePodPre env st1 (Name requestingPod) (Some (UID requestingPod)) None of
                                   (st2, Some delErr) \<Rightarrow>
                                     if \<not> isNotFound delErr \<and> \<not> isGone delErr
                                     then (st2, StopErr (Wrapped (''failed to delete requester Pod '' @ strconv_Quote (Name requestingPod) @
                                             '' (provider '' @ strconv_Quote (Name providingPod) @ '') after invalid ISC routing metadata'') (ApiErr delErr)))
                                     else (modServer nn uid (\<lambda>sd. sd\<lparr>RequesterDeleteRequested := True\<rparr>) st2, StopDone)
                                 | (st2, None) \<Rightarrow> (modServer nn uid (\<lambda>sd. sd\<lparr>RequesterDeleteRequested := True\<rparr>) st2, StopDone)))
                        | Inr updated' \<Rightarrow>
                            (case updatePod env st updated' of
                               (st1, Inl err) \<Rightarrow>
                                 (st1, StopErr (Wrapped (''failed to update bound launcher Pod '' @ Name updated') (ApiErr err)))
                             | (st1, Inr echo) \<Rightarrow>
                                 (if applyLabels then modServer nn uid (\<lambda>sd. sd\<lparr>LabelsApplied := True\<rparr>) st1 else st1, GoOn echo))))))"


subsection \<open>State reported on the requester\<close>

text \<open>
  Only the last write to the requester counts here: \<^verbatim>\<open>SliceRemoveOnce\<close> also shifts the finalizers of the
  Pod it was given, which the informer's cache holds.
\<close>

definition reqStatePod :: "serverData \<Rightarrow> string \<Rightarrow> string list \<Rightarrow> pod \<Rightarrow> pod" where
  "reqStatePod sd newStatusStr newFinalizers p =
     p\<lparr>Annotations := (MapSet (Annotations p) StatusAnnotationName newStatusStr)
          (AcceleratorsAnnotationName \<mapsto> (case GPUIDsStr sd of None \<Rightarrow> [] | Some s \<Rightarrow> s)),
       Finalizers := newFinalizers,
       Labels := (if ProvidingPodName sd \<noteq> []
                  then (let ls = MapSet (Labels p) DualLabelName (ProvidingPodName sd)
                        in if InstanceID sd \<noteq> [] then MapSet ls InstanceLabelName (InstanceID sd) else ls)
                  else (Labels p)(DualLabelName := None, InstanceLabelName := None))\<rparr>"

definition ensureReqState ::
  "dpEnv \<Rightarrow> dpState \<Rightarrow> string \<Rightarrow> string \<Rightarrow> pod \<Rightarrow> bool \<Rightarrow> bool \<Rightarrow> string list \<Rightarrow> dpState \<times> processResult" where
  "ensureReqState env st nn uid requestingPod addFinalizer removeFinalizer errors =
     (let sd = serverOf st nn uid;
          newStatusStr = encodeStatus env errors;
          newFinalizers = (if removeFinalizer then fst (SliceRemoveOnce [] (Finalizers requestingPod) requesterFinalizer)
                           else if addFinalizer then Finalizers requestingPod @ [requesterFinalizer]
                           else Finalizers requestingPod);
          desiredAccelerators = (case GPUIDsStr sd of None \<Rightarrow> [] | Some s \<Rightarrow> s);
          desiredInstanceID = (if ProvidingPodName sd \<noteq> [] then InstanceID sd else [])
      in if annot requestingPod StatusAnnotationName = newStatusStr \<and>
            desiredAccelerators = annot requestingPod AcceleratorsAnnotationName \<and>
            length newFinalizers = length (Finalizers requestingPod) \<and>
            ProvidingPodName sd = lbl requestingPod DualLabelName \<and> desiredInstanceID = lbl requestingPod InstanceLabelName
         then (st, prDone)
         else (case updatePod env st (reqStatePod sd newStatusStr newFinalizers requestingPod) of
                 (st1, Inl err) \<Rightarrow> (st1, prRetryErr (ApiErr err))
               | (st1, Inr _) \<Rightarrow> (st1, prDone)))"

definition ensureReqStatus ::
  "dpEnv \<Rightarrow> dpState \<Rightarrow> string \<Rightarrow> string \<Rightarrow> pod \<Rightarrow> string list \<Rightarrow> dpState \<times> processResult" where
  "ensureReqStatus env st nn uid requestingPod errors = ensureReqState env st nn uid requestingPod False False errors"

definition ensureDualityMetric :: "dpEnv \<Rightarrow> serverData \<Rightarrow> string \<Rightarrow> bool \<Rightarrow> dpState \<Rightarrow> dpState" where
  "ensureDualityMetric env sd nodeName on st =
     (if DualityMetricAsserted sd = on then st
      else st\<lparr>dualityGauge := fold (\<lambda>gpuUUID g. g([nsName env, RequestingPodName sd, ProvidingPodName sd, InferenceServerContainerName,
                InstanceID sd, gpuUUID, nodeName] \<mapsto> (if on then 1 else 0))) (GPUIDs sd) (dualityGauge st)\<rparr>)"

text \<open>The same, and the server's data remember it.\<close>

definition assertDuality :: "dpEnv \<Rightarrow> string \<Rightarrow> string \<Rightarrow> string \<Rightarrow> dpState \<Rightarrow> dpState" where
  "assertDuality env nn uid nodeName st =
     modServer nn uid (\<lambda>sd. sd\<lparr>DualityMetricAsserted := True\<rparr>) (ensureDualityMetric env (serverOf st nn uid) nodeName True st)"

subsection \<open>Sleeping and waking\<close>

definition getContainerStatus :: "pod \<Rightarrow> string \<Rightarrow> containerStatus option" where
  "getContainerStatus from containerName = SliceGetByFeature (ContainerStatuses (Status from)) csName containerName"

definition serverURL :: "pod \<Rightarrow> int \<Rightarrow> string" where
  "serverURL p port = ''http://'' @ PodIP (Status p) @ '':'' @ strconv_Itoa port"

definition querySleeping :: "dpEnv \<Rightarrow> dpState \<Rightarrow> pod \<Rightarrow> int \<Rightarrow> dpState \<times> (goError + bool)" where
  "querySleeping env st providingPod serverPort =
     (case doHTTP env st ''query_sleeping'' ''GET'' (serverURL providingPod serverPort @ ''/is_sleeping'') None (decodeSleepState env) of
        (st1, _, res) \<Rightarrow> (st1, res))"

definition adminPortOf :: "pod \<Rightarrow> string" where
  "adminPortOf requestingPod =
     (let adminPort = annot requestingPod AdminPortAnnotationName in if adminPort = [] then AdminPortDefaultValue else adminPort)"

fun gpusLowEnough :: "int \<Rightarrow> (string, int) gomap \<Rightarrow> string list \<Rightarrow> goError option" where
  "gpusLowEnough limit usageMap [] = None"
| "gpusLowEnough limit usageMap (gpuID # gpus) =
     (case mget usageMap gpuID of
        None \<Rightarrow> Some (ErrorText (''no GPU usage information for GPU '' @ gpuID))
      | Some used \<Rightarrow>
          if used > limit
          then Some (ErrorText (''accelerator '' @ gpuID @ '' is currently using '' @ strconv_Itoa used @
                      '' MiB of memory, limit for sleeping total is '' @ strconv_Itoa limit @ '' MiB''))
          else gpusLowEnough limit usageMap gpus)"

definition accelMemoryIsLowEnough :: "dpEnv \<Rightarrow> dpState \<Rightarrow> string \<Rightarrow> string \<Rightarrow> pod \<Rightarrow> dpState \<times> goError option" where
  "accelMemoryIsLowEnough env st nn uid requestingPod =
     (case doHTTP env st ''get_accel_memory_usage'' ''GET'' (''http://'' @ PodIP (Status requestingPod) @ '':'' @
             adminPortOf requestingPod @ AcceleratorMemoryQueryPath) None (decodeUsageMap env) of
        (st1, _, Inl err) \<Rightarrow> (st1, Some err)
      | (st1, _, Inr usageMap) \<Rightarrow> (st1, gpusLowEnough (accelMemoryLimitMiB env) usageMap (GPUIDs (serverOf st nn uid))))"

definition wakeUp :: "dpEnv \<Rightarrow> dpState \<Rightarrow> string \<Rightarrow> string \<Rightarrow> pod \<Rightarrow> pod \<Rightarrow> int \<Rightarrow> dpState \<times> goError option" where
  "wakeUp env st nn uid requestingPod providingPod serverPort =
     (case (if debugAccelMemory env then accelMemoryIsLowEnough env st nn uid requestingPod else (st, None)) of
        (st1, Some err) \<Rightarrow> (st1, Some err)
      | (st1, None) \<Rightarrow>
          (case doHTTP env st1 ''wake'' ''POST'' (serverURL providingPod serverPort @ ''/wake_up'') None (\<lambda>_. Inr ()) of
             (st2, _, Inl err) \<Rightarrow>
               (st2, Some (Wrapped (''failed to wake inference server at '' @ PodIP (Status providingPod) @ '':'' @ strconv_Itoa serverPort) err))
           | (st2, _, Inr _) \<Rightarrow> (modServer nn uid (\<lambda>sd. sd\<lparr>Sleeping := Some False\<rparr>) st2, None)))"

subsection \<open>Finalizers\<close>

text \<open>The result says whether the finalizer was removed and whether it should be added.\<close>

definition maybeRemoveRequesterFinalizer ::
  "dpEnv \<Rightarrow> dpState \<Rightarrow> pod \<Rightarrow> pod option \<Rightarrow> dpState \<times> (goError + bool \<times> bool)" where
  "maybeRemoveRequesterFinalizer env st requestingPod providingPod =
     (let wantFinalizer = (case providingPod of
                             None \<Rightarrow> False
                           | Some p \<Rightarrow> (case getContainerStatus p InferenceServerContainerName of
                                          None \<Rightarrow> False | Some cs \<Rightarrow> csRunning cs \<noteq> None));
          finIdx = slices_Index (Finalizers requestingPod) requesterFinalizer;
          haveFinalizer = finIdx \<ge> 0
      in if wantFinalizer = haveFinalizer then (st, Inr (False, False))
         else if wantFinalizer then (st, Inr (False, DeletionTimestamp requestingPod = None))
         else (case updatePod env st (requestingPod\<lparr>Finalizers := fst (slices_Delete1 [] (Finalizers requestingPod) (nat finIdx))\<rparr>) of
                 (st1, Inl err) \<Rightarrow> (st1, Inl (Wrapped ''failed to remove finalizer from server-requesting Pod'' (ApiErr err)))
               | (st1, Inr _) \<Rightarrow> (st1, Inr (True, False))))"

definition addRequesterFinalizer ::
  "dpEnv \<Rightarrow> dpState \<Rightarrow> pod \<Rightarrow> string \<Rightarrow> string \<Rightarrow> dpState \<times> (goError + string)" where
  "addRequesterFinalizer env st requestingPod providingPodName instanceID =
     (let ls1 = (if lbl requestingPod DualLabelName \<noteq> providingPodName
                 then MapSet (Labels requestingPod) DualLabelName providingPodName else Labels requestingPod);
          ls2 = (if instanceID \<noteq> [] then MapSet ls1 InstanceLabelName instanceID else ls1)
      in (case updatePod env st (requestingPod\<lparr>Labels := ls2, Finalizers := Finalizers requestingPod @ [requesterFinalizer]\<rparr>) of
            (st1, Inl err) \<Rightarrow> (st1, Inl (Wrapped ''failed to add finalizer from server-requesting Pod'' (ApiErr err)))
          | (st1, Inr echo) \<Rightarrow> (st1, Inr (ResourceVersion echo))))"

text \<open>
  The last component is the given Pod as the informer's cache holds it afterwards: \<^verbatim>\<open>SliceRemoveOnce\<close>
  shifts its finalizers in place before the copy is made.
\<close>

definition removeProviderFinalizer :: "dpEnv \<Rightarrow> dpState \<Rightarrow> pod \<Rightarrow> dpState \<times> (goError + bool) \<times> pod" where
  "removeProviderFinalizer env st providingPod =
     (case SliceRemoveOnce [] (Finalizers providingPod) providerFinalizer of
        (newFinalizers, changed, cached) \<Rightarrow>
          if changed
          then (case updatePod env st (providingPod\<lparr>Finalizers := newFinalizers\<rparr>) of
                  (st1, Inl err) \<Rightarrow>
                    (st1, Inl (Wrapped (''failed to remove finalizer from server-providing Pod '' @ Name providingPod @
                               '' (RV '' @ ResourceVersion providingPod @ '')'') (ApiErr err)), providingPod\<lparr>Finalizers := cached\<rparr>)
                | (st1, Inr _) \<Rightarrow> (st1, Inr True, providingPod\<lparr>Finalizers := cached\<rparr>))
          else (st, Inr False, providingPod))"


subsection \<open>The sleeper budget\<close>

text \<open>How long ago the controller wrote the Pod; \<open>None\<close> is the panic of a managed-fields entry without time.\<close>

definition podAge :: "time \<Rightarrow> pod \<Rightarrow> duration option" where
  "podAge now p =
     (case find (\<lambda>mf. Manager mf = ControllerName) (ManagedFields p) of
        Some mf \<Rightarrow> map_option (\<lambda>t. now - t) (mfTime mf)
      | None \<Rightarrow> Some (now - CreationTimestamp p))"

definition comparePods :: "time \<Rightarrow> pod \<Rightarrow> pod \<Rightarrow> int" where
  "comparePods now left right =
     (let leftAge = (case podAge now left of None \<Rightarrow> 0 | Some a \<Rightarrow> a);
          rightAge = (case podAge now right of None \<Rightarrow> 0 | Some a \<Rightarrow> a)
      in if leftAge > rightAge then -1 else if rightAge > leftAge then 1 else strings_Compare (Name left) (Name right))"

fun deleteSleepers :: "dpEnv \<Rightarrow> pod list \<Rightarrow> dpState \<Rightarrow> string set \<Rightarrow> dpState \<times> string set \<times> goError option" where
  "deleteSleepers env [] st gonerNames = (st, gonerNames, None)"
| "deleteSleepers env (goner # goners) st gonerNames =
     (case deletePodPre env st (Name goner) (Some (UID goner)) (Some (ResourceVersion goner)) of
        (st1, err) \<Rightarrow>
          (case err of
             Some e \<Rightarrow>
               if isNotFound e \<or> isGone e then deleteSleepers env goners st1 (insert (Name goner) gonerNames)
               else (st1, insert (Name goner) gonerNames,
                     Some (Wrapped (''unable to delete server-providing Pod '' @ Name goner @ '' (RV='' @ ResourceVersion goner @ '')'') (ApiErr e)))
           | None \<Rightarrow> deleteSleepers env goners st1 (insert (Name goner) gonerNames)))"

text \<open>
  \<^verbatim>\<open>len(sleepingPods) - sleeperLimit\<close> in a 64-bit \<^verbatim>\<open>int\<close>.  The difference of two such numbers that are
  not negative fits; minus a negative limit it may wrap.
\<close>

definition lenMinus :: "nat \<Rightarrow> int \<Rightarrow> int" where
  "lenMinus n limit = (if limit < 0 then wrap64 (int n - limit) else int n - limit)"

text \<open>
  \<^verbatim>\<open>comparePods\<close> orders Pods of different names strictly, and the Pods of one Namespace have different names, so
  that it does not matter that \<^verbatim>\<open>slices.SortFunc\<close> is not stable.
\<close>

fun budgetLoop :: "dpEnv \<Rightarrow> string \<Rightarrow> time \<Rightarrow> int \<Rightarrow> string list \<Rightarrow> dpState \<Rightarrow> string set \<Rightarrow> dpState \<times> string set \<times> goError option" where
  "budgetLoop env nodeName now limit [] st gonerNames = (st, gonerNames, None)"
| "budgetLoop env nodeName now limit (gpuIndex # gpuIndices) st gonerNames =
     (let sleepingPods = filter (\<lambda>p. Name p \<notin> gonerNames) (byIndex env GPUIndexFunc (nodeName @ '' '' @ gpuIndex));
          toGo = lenMinus (length sleepingPods) limit
      in if toGo \<le> 0 then budgetLoop env nodeName now limit gpuIndices st gonerNames
         else if length sleepingPods > 1 \<and> (\<exists>p \<in> set sleepingPods. podAge now p = None)
         then (st, gonerNames, Some (GoPanic ''nil pointer dereference''))
         else if toGo > int (sliceCap env (length sleepingPods)) then (st, gonerNames, Some (GoPanic ''slice bounds out of range''))
         else (case deleteSleepers env (take (nat toGo) (slices_SortFunc (comparePods now) sleepingPods)) st gonerNames of
                 (st1, goners1, Some err) \<Rightarrow> (st1, goners1, Some err)
               | (st1, goners1, None) \<Rightarrow>
                   if toGo > int (length sleepingPods) then (st1, goners1, Some (GoPanic ''nil pointer dereference''))
                   else budgetLoop env nodeName now limit gpuIndices st1 goners1))"

definition enforceSleeperBudget ::
  "dpEnv \<Rightarrow> dpState \<Rightarrow> string \<Rightarrow> string \<Rightarrow> pod \<Rightarrow> int \<Rightarrow> dpState \<times> goError option \<times> bool" where
  "enforceSleeperBudget env st nn uid requestingPod limit =
     (case budgetLoop env (NodeName (Spec requestingPod)) (nowD env st) limit (GPUIndices (serverOf st nn uid)) st {} of
        (st1, _, Some err) \<Rightarrow> (st1, Some err, True)
      | (st1, gonerNames, None) \<Rightarrow> (st1, None, gonerNames \<noteq> {}))"

subsection \<open>Binding\<close>

definition boundPod :: "pod \<Rightarrow> pod \<Rightarrow> pod" where
  "boundPod requestingPod providingPod =
     providingPod\<lparr>Annotations := MapSet (Annotations providingPod) RequesterAnnotationKey (UID requestingPod @ '' '' @ Name requestingPod),
       Finalizers := (if providerFinalizer \<in> set (Finalizers providingPod) then Finalizers providingPod
                      else Finalizers providingPod @ [providerFinalizer]),
       Labels := MapSet (Labels providingPod) DualLabelName (Name requestingPod)\<rparr>"

definition bind :: "dpEnv \<Rightarrow> dpState \<Rightarrow> string \<Rightarrow> string \<Rightarrow> pod \<Rightarrow> pod \<Rightarrow> vllmInstanceState option \<Rightarrow> bool \<Rightarrow> dpState \<times> processResult" where
  "bind env st nn uid requestingPod providingPod launcherState skipWake =
     (case (case launcherState of
              None \<Rightarrow> Inr (boundPod requestingPod providingPod)
            | Some ls \<Rightarrow> applyControllerMetadataToLauncherPod env (boundPod requestingPod providingPod) ls) of
        Inl problems \<Rightarrow> ensureReqStatus env st nn uid requestingPod problems
      | Inr p \<Rightarrow>
          (case updatePod env (modServer nn uid (\<lambda>sd. sd\<lparr>Sleeping := None\<rparr>) st) p of
             (st1, Inl err) \<Rightarrow> (st1, prRetryErr (Wrapped (''failed to bind server-providing Pod '' @ Name p) (ApiErr err)))
           | (st1, Inr _) \<Rightarrow>
               (let st2 = modServer nn uid (\<lambda>sd. sd\<lparr>ProvidingPodName := Name p\<rparr>) st1;
                    st3 = (case launcherState of
                             None \<Rightarrow> st2
                           | Some ls \<Rightarrow> assertDuality env nn uid (NodeName (Spec requestingPod))
                                          (modServer nn uid (\<lambda>sd. commitInstanceState sd ls) st2));
                    port = (case launcherState of
                              Some ls \<Rightarrow> Inr (visServerPort ls)
                            | None \<Rightarrow> (case GetInferenceServerContainerIndexAndPort p of Inl err \<Rightarrow> Inl err | Inr (_, n) \<Rightarrow> Inr n))
                in (case port of
                      Inl err \<Rightarrow> (st3, prRetryErr (Wrapped ''unable to wake up server because port not known'' (ErrorText err)))
                    | Inr serverPort \<Rightarrow>
                        (case (if skipWake then (st3, None)
                               else (case wakeUp env st3 nn uid requestingPod p serverPort of
                                       (st4, Some err) \<Rightarrow> (st4, Some err)
                                     | (st4, None) \<Rightarrow>
                                         (case ensureSleepingLabel env st4 p False of
                                            (st5, Inl err) \<Rightarrow> (st5, Some err)
                                          | (st5, Inr _) \<Rightarrow> (st5, None)))) of
                           (st6, Some err) \<Rightarrow> (st6, prRetryErr err)
                         | (st6, None) \<Rightarrow>
                             ensureReqState env st6 nn uid requestingPod
                               (requesterFinalizer \<notin> set (Finalizers requestingPod)) False [])))))"

subsection \<open>Unbinding\<close>

definition maybeDeleteObsoleteInstance ::
  "dpEnv \<Rightarrow> dpState \<Rightarrow> string \<Rightarrow> string \<Rightarrow> pod \<Rightarrow> dpState \<times> string \<times> bool" where
  "maybeDeleteObsoleteInstance env st nn uid providingPod =
     (let instanceID = InstanceID (serverOf st nn uid)
      in if instanceID = [] then (st, [], False)
         else (case NewLauncherClient env (launcherBaseURL providingPod) of
                 Inl _ \<Rightarrow> (st, [], False)
               | Inr base \<Rightarrow>
         (case GetInstanceState env st base instanceID of
            (st1, Inl err) \<Rightarrow> (st1, [], IsInstanceNotFoundError err)
          | (st1, Inr instState) \<Rightarrow>
         (let iscName = instAnnot instState VllmConfigISCNameAnnotationKey
          in if iscName = [] then (st1, iscName, False)
             else (case iscGet env iscName of
                     Inl _ \<Rightarrow> (st1, iscName, False)
                   | Inr currentISC \<Rightarrow>
             if vcGpuUUIDs (instConfig instState) = [] then (st1, iscName, False)
             else (case configInferenceServer env currentISC (vcGpuUUIDs (instConfig instState)) of
                     Inl _ \<Rightarrow> (st1, iscName, False)
                   | Inr (_, currentHash) \<Rightarrow>
             if currentHash = instanceID then (st1, iscName, False)
             else (case DeleteInstance env (noteDeleted nn (Some uid) instanceID st1) base instanceID of
                     (st2, res) \<Rightarrow>
                       if (case res of Inl delErr \<Rightarrow> \<not> IsInstanceNotFoundError delErr | Inr _ \<Rightarrow> False) then (st2, iscName, False)
                       else (deleteKnown nn (Name providingPod) instanceID st2, iscName, True))))))))"

text \<open>Putting to sleep the server behind a Pod that is being unbound.\<close>

definition putToSleep :: "dpEnv \<Rightarrow> dpState \<Rightarrow> string \<Rightarrow> string \<Rightarrow> pod \<Rightarrow> bool \<Rightarrow> dpState \<times> goError option" where
  "putToSleep env st nn uid providingPod launcherBased =
     (case (if launcherBased then maybeDeleteObsoleteInstance env st nn uid providingPod else (st, [], False)) of
        (st1, iscNameRead, deletedFromLauncher) \<Rightarrow>
          if deletedFromLauncher then (modServer nn uid (\<lambda>sd. sd\<lparr>Sleeping := Some True\<rparr>) st1, None)
          else (case (if \<not> launcherBased \<and> NominalProvidingPod (serverOf st1 nn uid) = None
                      then (case GetInferenceServerContainerIndexAndPort providingPod of
                              Inl err \<Rightarrow> Inl (Wrapped ''unable to put server to sleep because port not known'' (ErrorText err))
                            | Inr (_, port) \<Rightarrow> Inr port)
                      else Inr (ServerPort (serverOf st1 nn uid))) of
                  Inl err \<Rightarrow> (st1, Some err)
                | Inr serverPort \<Rightarrow>
                    (case doHTTP env st1 ''sleep'' ''POST'' (serverURL providingPod serverPort @ ''/sleep'') None (\<lambda>_. Inr ()) of
                       (st2, _, Inl err) \<Rightarrow>
                         (st2, Some (Wrapped (''failed to put provider '' @ strconv_Quote (ProvidingPodName (serverOf st2 nn uid)) @
                                 '' to sleep, POST '' @ serverURL providingPod serverPort @ ''/sleep'') err))
                     | (st2, _, Inr _) \<Rightarrow> (modServer nn uid (\<lambda>sd. sd\<lparr>Sleeping := Some True\<rparr>) st2, None))))"

text \<open>The Pod without its binding, and whether the sleeping label or a key, an annotation or a finalizer changed.\<close>

definition unboundPod :: "serverData \<Rightarrow> pod \<Rightarrow> pod \<times> bool" where
  "unboundPod sd p0 =
     (let lChange0 = (lbl p0 SleepingLabelName \<noteq> ''true'');
          p1 = (if lChange0 then p0\<lparr>Labels := MapSet (Labels p0) SleepingLabelName ''true''\<rparr> else p0);
          aChange0 = (Annotations p1 RequesterAnnotationKey \<noteq> None);
          p2 = p1\<lparr>Annotations := (Annotations p1)(RequesterAnnotationKey := None)\<rparr>;
          (newFinalizers, fChange, _) = SliceRemoveOnce [] (Finalizers p2) providerFinalizer;
          (ls, lChange1) = removeKeys (mkeys (InstanceISCLabels sd)) (Labels p2);
          (as, aChange1) = removeKeys (mkeys (InstanceISCAnnotations sd)) (Annotations p2);
          (p3, aChange2) = clearInstanceStateFromLauncherPod (p2\<lparr>Finalizers := newFinalizers, Labels := ls, Annotations := as\<rparr>)
      in (p3, lChange0 \<or> aChange0 \<or> fChange \<or> lChange1 \<or> aChange1 \<or> aChange2))"

definition ensureUnbound ::
  "dpEnv \<Rightarrow> dpState \<Rightarrow> string \<Rightarrow> string \<Rightarrow> pod \<Rightarrow> bool \<Rightarrow> dpState \<times> goError option" where
  "ensureUnbound env st nn uid providingPod launcherBased =
     (case (if launcherBased
            then (case recoverInstanceStateFromLauncherPod env (serverOf st nn uid) providingPod of
                    Inl err \<Rightarrow> (st, Inl err)
                  | Inr sd \<Rightarrow>
                      (let st1 = assertDuality env nn uid (ndNodeName (nodeOf st nn)) (modServer nn uid (\<lambda>_. sd) st)
                       in removeISCRoutingLabels env st1 providingPod (InstanceISCLabels sd)))
            else (st, Inr providingPod)) of
        (st1, Inl err) \<Rightarrow> (st1, Some err)
      | (st1, Inr p) \<Rightarrow>
          (case (if Sleeping (serverOf st1 nn uid) \<noteq> Some True \<and> PodIP (Status p) \<noteq> []
                 then putToSleep env st1 nn uid p launcherBased else (st1, None)) of
             (st2, Some err) \<Rightarrow> (st2, Some err)
           | (st2, None) \<Rightarrow>
               (let (p', change) = unboundPod (serverOf st2 nn uid) p
                in if change
                   then (case updatePod env st2 (p'\<lparr>Labels := (Labels p')(DualLabelName := None)\<rparr>) of
                           (st3, Inl err) \<Rightarrow> (st3, Some (Wrapped (''failed to unbind server-providing Pod '' @ Name p') (ApiErr err)))
                         | (st3, Inr _) \<Rightarrow> (st3, None))
                   else (st2, None))))"

subsection \<open>Routing metadata\<close>

lemma keyProblems_none:
  "keyProblems env what m k = [] \<Longrightarrow> \<not> hasReservedPrefix k \<and> m k = None"
  by (auto simp: keyProblems_def Let_def split: if_splits)

lemma validated_keys:
  assumes "validateISCRoutingMetadata env p ls as = []"
  shows "k \<in> fst ` set ls \<Longrightarrow> \<not> hasReservedPrefix k \<and> Labels p k = None"
    and "k \<in> fst ` set as \<Longrightarrow> \<not> hasReservedPrefix k \<and> Annotations p k = None"
  using assms keyProblems_none by (fastforce simp: validateISCRoutingMetadata_def)+

lemma reserved_keys [simp]:
  "hasReservedPrefix launcherInstanceIDAnnotationKey" "hasReservedPrefix launcherServerPortAnnotationKey"
  "hasReservedPrefix launcherVllmConfigAnnotationKey" "hasReservedPrefix launcherISCRoutingMetadataAnnotationKey"
  "hasReservedPrefix RequesterAnnotationKey" "hasReservedPrefix SleepingLabelName" "hasReservedPrefix DualLabelName"
  by (simp_all add: hasReservedPrefix_def reservedKeyPrefixes_def binding_name_defs shared_name_defs hasPrefix_def)

lemma launcher_keys_distinct [simp]:
  "launcherInstanceIDAnnotationKey \<noteq> launcherServerPortAnnotationKey" "launcherServerPortAnnotationKey \<noteq> launcherInstanceIDAnnotationKey"
  "launcherInstanceIDAnnotationKey \<noteq> launcherVllmConfigAnnotationKey" "launcherVllmConfigAnnotationKey \<noteq> launcherInstanceIDAnnotationKey"
  "launcherInstanceIDAnnotationKey \<noteq> launcherISCRoutingMetadataAnnotationKey"
  "launcherISCRoutingMetadataAnnotationKey \<noteq> launcherInstanceIDAnnotationKey"
  "launcherServerPortAnnotationKey \<noteq> launcherVllmConfigAnnotationKey" "launcherVllmConfigAnnotationKey \<noteq> launcherServerPortAnnotationKey"
  "launcherServerPortAnnotationKey \<noteq> launcherISCRoutingMetadataAnnotationKey"
  "launcherISCRoutingMetadataAnnotationKey \<noteq> launcherServerPortAnnotationKey"
  "launcherVllmConfigAnnotationKey \<noteq> launcherISCRoutingMetadataAnnotationKey"
  "launcherISCRoutingMetadataAnnotationKey \<noteq> launcherVllmConfigAnnotationKey"
  "RequesterAnnotationKey \<notin> set launcherStateKeys"
  by (simp_all add: binding_name_defs shared_name_defs launcherStateKeys_def)

lemma setAll_none: "k \<notin> fst ` set kvs \<Longrightarrow> setAll kvs m k = m k"
  by (induction kvs arbitrary: m) (auto simp: setAll_def MapSet_def)

lemma setAll_mget: "mok kvs \<Longrightarrow> setAll kvs m k = (case mget kvs k of None \<Rightarrow> m k | Some v \<Rightarrow> Some v)"
proof (induction kvs arbitrary: m)
  case (Cons kv kvs)
  obtain j v where kv: "kv = (j, v)" by (cases kv)
  have step: "setAll (kv # kvs) m k = setAll kvs (m(j \<mapsto> v)) k" by (simp add: setAll_def MapSet_def kv)
  show ?case
  proof (cases "k = j")
    case True
    then show ?thesis unfolding step using Cons.prems setAll_none [of k kvs "m(j \<mapsto> v)"] by (simp add: kv mok_def)
  next
    case False
    then show ?thesis unfolding step using Cons by (simp add: kv mok_def split: option.split)
  qed
qed (simp add: setAll_def)

lemma MapIsSubset_absent: "\<forall>k \<in> fst ` set kvs. m k = None \<Longrightarrow> MapIsSubset kvs m \<longleftrightarrow> kvs = []"
  by (cases kvs) (auto simp: MapIsSubset_iff)

lemma MapIsSubset_setAll: "mok kvs \<Longrightarrow> MapIsSubset kvs (setAll kvs m)"
  by (auto simp: MapIsSubset_iff setAll_mget mok_def)

lemma removeKeys_fst: "fst (removeKeys ks m) k = (if k \<in> set ks then None else m k)"
proof -
  have "fst (fold (\<lambda>k (m, changed). if m k \<noteq> None then (m(k := None), True) else (m, changed)) ks (m, c)) k =
      (if k \<in> set ks then None else m k)" for m :: strmap and c
    by (induction ks arbitrary: m c) auto
  then show ?thesis by (simp only: removeKeys_def simp_thms)
qed

lemma removeKeys_snd: "snd (removeKeys ks m) \<longleftrightarrow> (\<exists>k \<in> set ks. m k \<noteq> None)"
proof -
  have "snd (fold (\<lambda>k (m, changed). if m k \<noteq> None then (m(k := None), True) else (m, changed)) ks (m, c)) \<longleftrightarrow>
      c \<or> (\<exists>k \<in> set ks. m k \<noteq> None)" for m :: strmap and c
    by (induction ks arbitrary: m c) auto
  then show ?thesis by (simp only: removeKeys_def simp_thms)
qed

text \<open>Codecs that read back what they wrote.\<close>

definition codecsOk :: "dpEnv \<Rightarrow> bool" where
  "codecsOk env \<longleftrightarrow> (\<forall>c s. encodeVllmConfig env c = Inr s \<longrightarrow> decodeVllmConfig env s = Inr c) \<and>
     (\<forall>r s. encodeRouting env r = Inr s \<longrightarrow> decodeRouting env s = Inr r)"

lemma applied_annotations:
  assumes "applyControllerMetadataToLauncherPod env p state = Inr p'"
  shows "\<exists>cfgJSON routingJSON. encodeVllmConfig env (visCfg state) = Inr cfgJSON \<and>
    encodeRouting env \<lparr>rmLabels = visIscLabels state, rmAnnotations = visIscAnnotations state\<rparr> = Inr routingJSON \<and>
    validateISCRoutingMetadata env p (visIscLabels state) (visIscAnnotations state) = [] \<and>
    p' = p\<lparr>Annotations := (Annotations p)(launcherInstanceIDAnnotationKey \<mapsto> visInstanceID state,
      launcherServerPortAnnotationKey \<mapsto> strconv_Itoa (visServerPort state), launcherVllmConfigAnnotationKey \<mapsto> cfgJSON,
      launcherISCRoutingMetadataAnnotationKey \<mapsto> routingJSON)\<rparr>"
  using assms
  by (auto simp: applyControllerMetadataToLauncherPod_def Let_def MapSet_def split: if_splits sum.splits)

lemma recover_reads:
  assumes codecs: "codecsOk env" and applied: "applyControllerMetadataToLauncherPod env p state = Inr p'"
    and port: "- (2 ^ 31) \<le> visServerPort state" "visServerPort state < 2 ^ 31" and id: "visInstanceID state \<noteq> []"
    and sd: "InstanceID sd = []" and same: "\<forall>k \<in> set launcherStateKeys. Annotations q k = Annotations p' k"
  shows "recoverInstanceStateFromLauncherPod env sd q = Inr ((commitInstanceState sd state)\<lparr>LabelsApplied :=
    iscRoutingMetadataPresent q \<lparr>rmLabels = visIscLabels state, rmAnnotations = visIscAnnotations state\<rparr>\<rparr>)"
proof -
  obtain cfgJSON routingJSON where enc: "encodeVllmConfig env (visCfg state) = Inr cfgJSON"
    "encodeRouting env \<lparr>rmLabels = visIscLabels state, rmAnnotations = visIscAnnotations state\<rparr> = Inr routingJSON"
    and p': "p' = p\<lparr>Annotations := (Annotations p)(launcherInstanceIDAnnotationKey \<mapsto> visInstanceID state,
      launcherServerPortAnnotationKey \<mapsto> strconv_Itoa (visServerPort state), launcherVllmConfigAnnotationKey \<mapsto> cfgJSON,
      launcherISCRoutingMetadataAnnotationKey \<mapsto> routingJSON)\<rparr>"
    using applied_annotations [OF applied] by metis
  have "strconv_ParseInt 32 (strconv_Itoa (visServerPort state)) = Some (visServerPort state)"
    using port by (simp add: ParseInt_Itoa)
  moreover have "decodeVllmConfig env cfgJSON = Inr (visCfg state)"
    "decodeRouting env routingJSON = Inr \<lparr>rmLabels = visIscLabels state, rmAnnotations = visIscAnnotations state\<rparr>"
    using codecs enc by (auto simp: codecsOk_def)
  ultimately show ?thesis
    using same sd id by (simp add: recoverInstanceStateFromLauncherPod_def launcherStateKeys_def p' commitInstanceState_def)
qed


lemma present_after_bind:
  assumes "applyControllerMetadataToLauncherPod env p state = Inr p'"
  shows "iscRoutingMetadataPresent p' \<lparr>rmLabels = visIscLabels state, rmAnnotations = visIscAnnotations state\<rparr> \<longleftrightarrow>
    visIscLabels state = [] \<and> visIscAnnotations state = []"
proof -
  from applied_annotations [OF assms] obtain cfgJSON routingJSON where
    valid: "validateISCRoutingMetadata env p (visIscLabels state) (visIscAnnotations state) = []"
    and p': "p' = p\<lparr>Annotations := (Annotations p)(launcherInstanceIDAnnotationKey \<mapsto> visInstanceID state,
      launcherServerPortAnnotationKey \<mapsto> strconv_Itoa (visServerPort state), launcherVllmConfigAnnotationKey \<mapsto> cfgJSON,
      launcherISCRoutingMetadataAnnotationKey \<mapsto> routingJSON)\<rparr>" by metis
  have "MapIsSubset (visIscLabels state) (Labels p') \<longleftrightarrow> visIscLabels state = []"
    using validated_keys(1) [OF valid] by (intro MapIsSubset_absent) (simp add: p')
  moreover have "Annotations p' k = None" if "k \<in> fst ` set (visIscAnnotations state)" for k
  proof -
    have "\<not> hasReservedPrefix k" "Annotations p k = None" using validated_keys(2) [OF valid that] by simp_all
    then have "k \<notin> set launcherStateKeys" "Annotations p k = None" by (auto simp: launcherStateKeys_def)
    then show ?thesis by (simp add: p' launcherStateKeys_def)
  qed
  then have "MapIsSubset (visIscAnnotations state) (Annotations p') \<longleftrightarrow> visIscAnnotations state = []"
    by (intro MapIsSubset_absent ballI)
  ultimately show ?thesis by (simp add: iscRoutingMetadataPresent_def)
qed

lemma routed_pod:
  assumes "applyISCRoutingMetadataToLauncherPod env p ls as = Inr q"
  shows "q = p\<lparr>Labels := setAll ls (Labels p), Annotations := setAll as (Annotations p)\<rparr>"
    and "k \<in> fst ` set ls \<Longrightarrow> \<not> hasReservedPrefix k \<and> Labels p k = None"
    and "k \<in> fst ` set as \<Longrightarrow> \<not> hasReservedPrefix k \<and> Annotations p k = None"
  using assms validated_keys [of env p ls as]
  by (auto simp: applyISCRoutingMetadataToLauncherPod_def Let_def split: if_splits)

lemma routing_keeps_reserved:
  assumes "applyISCRoutingMetadataToLauncherPod env p ls as = Inr q" and "hasReservedPrefix k"
  shows "Annotations q k = Annotations p k" and "Labels q k = Labels p k"
proof -
  have "k \<notin> fst ` set ls" "k \<notin> fst ` set as" using routed_pod(2,3) [OF assms(1)] assms(2) by blast+
  then show "Annotations q k = Annotations p k" "Labels q k = Labels p k"
    using routed_pod(1) [OF assms(1)] by (simp_all add: setAll_none)
qed

text \<open>
  C24: a controller that has lost its memory recovers from the annotations of a bound launcher Pod exactly
  what it had committed to when binding, right after binding, and also once the routing labels and annotations
  are on the Pod; and it knows which of the two is the case.
\<close>

theorem recover_after_bind:
  assumes codecs: "codecsOk env" and applied: "applyControllerMetadataToLauncherPod env p state = Inr p'"
    and port: "- (2 ^ 31) \<le> visServerPort state" "visServerPort state < 2 ^ 31" and id: "visInstanceID state \<noteq> []"
    and maps: "mok (visIscLabels state)" "mok (visIscAnnotations state)"
    and routed: "applyISCRoutingMetadataToLauncherPod env (p'\<lparr>Labels := MapSet (Labels p') SleepingLabelName s\<rparr>)
      (visIscLabels state) (visIscAnnotations state) = Inr q"
    and fresh: "InstanceID sd = []"
  shows "recoverInstanceStateFromLauncherPod env sd p' =
      Inr ((commitInstanceState sd state)\<lparr>LabelsApplied := (visIscLabels state = [] \<and> visIscAnnotations state = [])\<rparr>) \<and>
    recoverInstanceStateFromLauncherPod env sd q = Inr ((commitInstanceState sd state)\<lparr>LabelsApplied := True\<rparr>)"
proof
  show "recoverInstanceStateFromLauncherPod env sd p' =
      Inr ((commitInstanceState sd state)\<lparr>LabelsApplied := (visIscLabels state = [] \<and> visIscAnnotations state = [])\<rparr>)"
    using recover_reads [OF codecs applied port id fresh, of p'] present_after_bind [OF applied] by simp
  have "Annotations q k = Annotations p' k" if "k \<in> set launcherStateKeys" for k
    using that routing_keeps_reserved(1) [OF routed, of k] by (auto simp: launcherStateKeys_def)
  moreover have "iscRoutingMetadataPresent q \<lparr>rmLabels = visIscLabels state, rmAnnotations = visIscAnnotations state\<rparr>"
    using routed_pod(1) [OF routed] maps by (simp add: iscRoutingMetadataPresent_def MapIsSubset_setAll)
  ultimately show "recoverInstanceStateFromLauncherPod env sd q = Inr ((commitInstanceState sd state)\<lparr>LabelsApplied := True\<rparr>)"
    using recover_reads [OF codecs applied port id fresh, of q] by simp
qed


subsection \<open>What the calls do to the state\<close>

text \<open>Only calls are added, and all of them are HTTP requests.\<close>

definition onlyHttp :: "dpState \<Rightarrow> dpState \<Rightarrow> bool" where
  "onlyHttp st st' \<longleftrightarrow> (\<exists>cs. st' = st\<lparr>dcalls := dcalls st @ cs\<rparr> \<and> (\<forall>c \<in> set cs. \<exists>req r. c = Http req r))"

lemma doHTTP_onlyHttp: "onlyHttp st (fst (doHTTP env st purpose verb url body decode))"
proof (cases "urlParse env url = None \<and> (\<forall>e. body \<noteq> Some (Inl e))")
  case True
  let ?req = "\<lparr>hrPurpose = purpose, hrMethod = verb, hrURL = url, hrBody = (case body of Some (Inr b) \<Rightarrow> Some b | _ \<Rightarrow> None)\<rparr>"
  have "fst (doHTTP env st purpose verb url body decode) = st\<lparr>dcalls := dcalls st @ [Http ?req (httpDo env (dcalls st) ?req)]\<rparr>"
    using True by (auto simp: doHTTP_def Let_def split: option.split sum.split)
  then show ?thesis by (auto simp: onlyHttp_def)
next
  case False
  then have "fst (doHTTP env st purpose verb url body decode) = st"
    by (auto simp: doHTTP_def split: option.split sum.split)
  then show ?thesis by (auto simp: onlyHttp_def intro!: exI [of _ "[]"])
qed

lemma fullDo_onlyHttp: "onlyHttp st (fst (fullDo env st base purpose verb path body decode))"
  using doHTTP_onlyHttp [of st env purpose verb "base @ path" body decode]
  by (auto simp: fullDo_def onlyHttp_def split_beta split: option.split sum.split intro!: exI [of _ "[]"])

lemma onlyHttp_refl [simp]: "onlyHttp st st"
  by (auto simp: onlyHttp_def intro!: exI [of _ "[]"])

lemma nodeOf_frames [simp]:
  "nodeOf (st\<lparr>dcalls := h\<rparr>) nn = nodeOf st nn" "nodeOf (st\<lparr>dualityGauge := dg\<rparr>) nn = nodeOf st nn"
  "nodeOf (st\<lparr>devents := es\<rparr>) nn = nodeOf st nn"
  by (simp_all add: nodeOf_def)

lemma serverOf_calls [simp]:
  "serverOf (st\<lparr>dcalls := h\<rparr>) nn uid = serverOf st nn uid"
  "serverOf (st\<lparr>dualityGauge := dg\<rparr>) nn uid = serverOf st nn uid"
  "serverOf (st\<lparr>devents := es\<rparr>) nn uid = serverOf st nn uid"
  by (simp_all add: serverOf_def)

lemma serverOf_modServer [simp]: "serverOf (modServer nn uid f st) nn uid = f (serverOf st nn uid)"
  unfolding modServer_def by (subst serverOf_def) (simp add: gomap_simps)

lemma serverOf_launchers [simp]:
  "serverOf (modLauncher nn n g st) mm uid = serverOf st mm uid"
  "serverOf (deleteKnown nn n i st) mm uid = serverOf st mm uid"
  by (simp_all add: serverOf_def modLauncher_def deleteKnown_def split: option.split)

lemma serverOf_noteDeleted [simp]:
  "serverOf (noteDeleted nn (Some uid) i st) nn uid =
     (serverOf st nn uid)\<lparr>InstancesDeleted := insert i (InstancesDeleted (serverOf st nn uid))\<rparr>"
  by (simp add: noteDeleted_def)

lemma serverOf_duality [simp]:
  "serverOf (ensureDualityMetric env sd nodeName on st) nn uid = serverOf st nn uid"
  "serverOf (assertDuality env nn uid nodeName st) nn uid = (serverOf st nn uid)\<lparr>DualityMetricAsserted := True\<rparr>"
  "dcalls (ensureDualityMetric env sd nodeName on st) = dcalls st"
  "dcalls (assertDuality env nn uid nodeName st) = dcalls st"
  by (simp_all add: assertDuality_def ensureDualityMetric_def)

text \<open>Two states of a server that agree on the instance it is bound to.\<close>

definition sameInstance :: "serverData \<Rightarrow> serverData \<Rightarrow> bool" where
  "sameInstance a b \<longleftrightarrow> InstanceID a = InstanceID b \<and> InstanceConfig a = InstanceConfig b \<and> ServerPort a = ServerPort b \<and>
     InstanceISCLabels a = InstanceISCLabels b \<and> InstanceISCAnnotations a = InstanceISCAnnotations b"

lemma sameInstance_refl [simp]: "sameInstance a a"
  by (simp add: sameInstance_def)

text \<open>The HTTP calls that put a server to sleep.\<close>

definition httpOnly :: "string \<Rightarrow> string \<Rightarrow> dpState \<Rightarrow> dpState \<Rightarrow> bool" where
  "httpOnly nn uid st st' \<longleftrightarrow> (\<exists>cs. extends st cs st' \<and> (\<forall>c \<in> set cs. \<exists>req r. c = Http req r)) \<and>
     sameInstance (serverOf st nn uid) (serverOf st' nn uid)"

lemma httpOnly_trans: "httpOnly nn uid st st1 \<Longrightarrow> httpOnly nn uid st1 st2 \<Longrightarrow> httpOnly nn uid st st2"
proof -
  assume a: "httpOnly nn uid st st1" and b: "httpOnly nn uid st1 st2"
  from a obtain cs where cs: "extends st cs st1" "\<forall>c \<in> set cs. \<exists>req r. c = Http req r" by (auto simp: httpOnly_def)
  from b obtain ds where ds: "extends st1 ds st2" "\<forall>c \<in> set ds. \<exists>req r. c = Http req r" by (auto simp: httpOnly_def)
  have "extends st (cs @ ds) st2" "\<forall>c \<in> set (cs @ ds). \<exists>req r. c = Http req r"
    using extends_trans [OF cs(1) ds(1)] cs(2) ds(2) by auto
  moreover have "sameInstance (serverOf st nn uid) (serverOf st2 nn uid)" using a b by (simp add: httpOnly_def sameInstance_def)
  ultimately show ?thesis unfolding httpOnly_def by blast
qed

lemma onlyHttp_httpOnly: "onlyHttp st st' \<Longrightarrow> httpOnly nn uid st st'"
  unfolding onlyHttp_def httpOnly_def extends_def by (elim exE conjE) (intro conjI exI, auto)

lemma httpOnly_steps [simp]:
  "httpOnly nn uid st (modServer nn uid (\<lambda>sd. sd\<lparr>Sleeping := b\<rparr>) st') = httpOnly nn uid st st'"
  "httpOnly nn uid st (deleteKnown nn n i st') = httpOnly nn uid st st'"
  "httpOnly nn uid (noteDeleted nn (Some uid) i st) st' = httpOnly nn uid st st'"
  "httpOnly nn uid st st"
  by (simp_all add: httpOnly_def extends_def sameInstance_def)

lemma maybeDelete_httpOnly: "httpOnly nn uid st (fst (maybeDeleteObsoleteInstance env st nn uid p))"
proof -
  let ?get = "GetInstanceState env st (launcherBaseURL p) (InstanceID (serverOf st nn uid))"
  let ?del = "\<lambda>st1. DeleteInstance env (noteDeleted nn (Some uid) (InstanceID (serverOf st nn uid)) st1) (launcherBaseURL p)
    (InstanceID (serverOf st nn uid))"
  have get: "httpOnly nn uid st (fst ?get)" unfolding GetInstanceState_def by (rule onlyHttp_httpOnly [OF fullDo_onlyHttp])
  have "httpOnly nn uid (noteDeleted nn (Some uid) i st1) (fst (?del st1))" for i st1
    unfolding DeleteInstance_def httpOnly_steps(3) 
    using onlyHttp_httpOnly [OF fullDo_onlyHttp, of nn uid "noteDeleted nn (Some uid) (InstanceID (serverOf st nn uid)) st1"] by simp
  then have del: "httpOnly nn uid st (fst (?del (fst ?get)))" using httpOnly_trans [OF get] by simp
  show ?thesis using get del client_base
    by (auto simp: maybeDeleteObsoleteInstance_def Let_def split_beta split: sum.split)
qed


lemma putToSleep_httpOnly: "httpOnly nn uid st (fst (putToSleep env st nn uid p launcherBased))"
proof -
  let ?m = "if launcherBased then maybeDeleteObsoleteInstance env st nn uid p else (st, [], False)"
  have m: "httpOnly nn uid st (fst ?m)" by (simp add: maybeDelete_httpOnly)
  have "httpOnly nn uid (fst ?m) (fst (doHTTP env (fst ?m) ''sleep'' ''POST'' u None (\<lambda>_. Inr ())))" for u
    by (rule onlyHttp_httpOnly [OF doHTTP_onlyHttp])
  from httpOnly_trans [OF m this] have "httpOnly nn uid st (fst (doHTTP env (fst ?m) ''sleep'' ''POST'' u None (\<lambda>_. Inr ())))" for u .
  with m show ?thesis
    unfolding putToSleep_def by (auto simp: split_beta split: sum.split)
qed

definition labelsGone :: "(string, string) gomap \<Rightarrow> pod \<Rightarrow> bool" where
  "labelsGone ls p \<longleftrightarrow> (\<forall>k \<in> fst ` set ls. Labels p k = None)"

lemma fold_unset: "fold (\<lambda>k m. m(k := None)) ks m k = (if k \<in> set ks then None else m k)"
  by (induction ks arbitrary: m) auto

lemma removeISCRoutingLabels_cases:
  assumes "removeISCRoutingLabels env st p ls = (st', res)"
  obtains "labelsGone ls p" "st' = st" "res = Inr p"
  | L' r where "labelsGone ls (p\<lparr>Labels := L'\<rparr>)" "\<forall>k. k \<notin> fst ` set ls \<longrightarrow> L' k = Labels p k"
      "st' = st\<lparr>dcalls := dcalls st @ [UpdatePod (p\<lparr>Labels := L'\<rparr>) r]\<rparr>"
      "r = podUpdateD env (dcalls st) (p\<lparr>Labels := L'\<rparr>)" "\<forall>q. res = Inr q \<longleftrightarrow> r = Inr q"
proof (cases "filter (\<lambda>k. Labels p k \<noteq> None) (mkeys ls) = []")
  case True
  then show ?thesis using assms that(1) by (auto simp: removeISCRoutingLabels_def labelsGone_def filter_empty_conv)
next
  case False
  let ?L = "fold (\<lambda>k m. m(k := None)) (filter (\<lambda>k. Labels p k \<noteq> None) (mkeys ls)) (Labels p)"
  show ?thesis
  proof (rule that(2) [of ?L "podUpdateD env (dcalls st) (p\<lparr>Labels := ?L\<rparr>)"])
    show "labelsGone ls (p\<lparr>Labels := ?L\<rparr>)" "\<forall>k. k \<notin> fst ` set ls \<longrightarrow> ?L k = Labels p k"
      by (auto simp: labelsGone_def fold_unset)
  qed (use False assms in \<open>auto simp: removeISCRoutingLabels_def Let_def updatePod_def split: sum.splits\<close>)
qed

text \<open>The steps of unbinding a launcher whose instance is known.\<close>

lemma ensureUnbound_steps:
  assumes rec: "recoverInstanceStateFromLauncherPod env (serverOf st nn uid) p = Inr sd"
    and run: "ensureUnbound env st nn uid p True = (st', e)"
  obtains st1 res where "removeISCRoutingLabels env (assertDuality env nn uid (ndNodeName (nodeOf st nn))
      (modServer nn uid (\<lambda>_. sd) st)) p (InstanceISCLabels sd) = (st1, res)"
    and "(\<exists>err. res = Inl err) \<Longrightarrow> st' = st1"
    and "\<And>q. res = Inr q \<Longrightarrow> \<exists>st2 f. httpOnly nn uid st1 st2 \<and> (f = None \<longrightarrow>
      (\<exists>p'. unboundPod (serverOf st2 nn uid) q = (p', True) \<and>
         st' = fst (updatePod env st2 (p'\<lparr>Labels := (Labels p')(DualLabelName := None)\<rparr>)) \<and>
         (e = None \<longrightarrow> (\<exists>echo. snd (updatePod env st2 (p'\<lparr>Labels := (Labels p')(DualLabelName := None)\<rparr>)) = Inr echo))) \<or>
      (\<exists>p'. unboundPod (serverOf st2 nn uid) q = (p', False) \<and> st' = st2)) \<and>
      (f \<noteq> None \<longrightarrow> st' = st2 \<and> e \<noteq> None)"
proof -
  obtain st1 res where rm: "removeISCRoutingLabels env (assertDuality env nn uid (ndNodeName (nodeOf st nn))
      (modServer nn uid (\<lambda>_. sd) st)) p (InstanceISCLabels sd) = (st1, res)" by (rule prod.exhaust)
  show ?thesis
  proof (rule that [OF rm])
    show "\<exists>err. res = Inl err \<Longrightarrow> st' = st1" using run by (auto simp: ensureUnbound_def rec rm Let_def)
  next
    fix q
    assume q: "res = Inr q"
    let ?s = "if Sleeping (serverOf st1 nn uid) \<noteq> Some True \<and> PodIP (Status q) \<noteq> [] then putToSleep env st1 nn uid q True else (st1, None)"
    obtain st2 f where s: "?s = (st2, f)" by (rule prod.exhaust)
    have "httpOnly nn uid st1 st2" using s putToSleep_httpOnly [of nn uid st1 env q True] by (auto split: if_splits)
    moreover obtain p' ch where u: "unboundPod (serverOf st2 nn uid) q = (p', ch)" by (rule prod.exhaust)
    moreover have "(f = None \<longrightarrow> (if ch then st' = fst (updatePod env st2 (p'\<lparr>Labels := (Labels p')(DualLabelName := None)\<rparr>)) \<and>
          (e = None \<longrightarrow> (\<exists>echo. snd (updatePod env st2 (p'\<lparr>Labels := (Labels p')(DualLabelName := None)\<rparr>)) = Inr echo)) else st' = st2)) \<and>
        (f \<noteq> None \<longrightarrow> st' = st2 \<and> e \<noteq> None)"
      using run unfolding ensureUnbound_def
      by (simp add: rec rm q s u Let_def split: option.splits if_splits sum.splits prod.splits) auto
    ultimately show "\<exists>st2 f. httpOnly nn uid st1 st2 \<and> (f = None \<longrightarrow>
      (\<exists>p'. unboundPod (serverOf st2 nn uid) q = (p', True) \<and>
         st' = fst (updatePod env st2 (p'\<lparr>Labels := (Labels p')(DualLabelName := None)\<rparr>)) \<and>
         (e = None \<longrightarrow> (\<exists>echo. snd (updatePod env st2 (p'\<lparr>Labels := (Labels p')(DualLabelName := None)\<rparr>)) = Inr echo))) \<or>
      (\<exists>p'. unboundPod (serverOf st2 nn uid) q = (p', False) \<and> st' = st2)) \<and>
      (f \<noteq> None \<longrightarrow> st' = st2 \<and> e \<noteq> None)"
      by (intro exI [of _ st2] exI [of _ f]) (auto split: if_splits)
  qed
qed


lemma no_http_prefix:
  assumes "pre @ Http req r # post = x @ ys" and "\<forall>c \<in> set x. \<forall>req r. c \<noteq> Http req r"
  shows "\<exists>pre'. pre = x @ pre'"
  using assms by (auto simp: append_eq_append_conv2 Cons_eq_append_conv)

text \<open>
  C25: when a launcher is unbound, no HTTP call is made, neither to put the instance to sleep nor to delete it,
  before the Pod has lost the routing labels it was bound with: either the Pod has none of them, or the apiserver
  has accepted an update that removes them all.
\<close>

theorem derouted_before_sleep:
  assumes rec: "recoverInstanceStateFromLauncherPod env (serverOf st nn uid) p = Inr sd"
    and run: "ensureUnbound env st nn uid p True = (st', e)"
    and calls: "dcalls st' = dcalls st @ pre @ Http req r # post"
  shows "labelsGone (InstanceISCLabels sd) p \<or>
    (\<exists>sent echo. UpdatePod sent (Inr echo) \<in> set pre \<and> labelsGone (InstanceISCLabels sd) sent)"
proof -
  let ?st0 = "assertDuality env nn uid (ndNodeName (nodeOf st nn)) (modServer nn uid (\<lambda>_. sd) st)"
  obtain st1 res where rm: "removeISCRoutingLabels env ?st0 p (InstanceISCLabels sd) = (st1, res)"
    and fail: "(\<exists>err. res = Inl err) \<Longrightarrow> st' = st1"
    and go: "\<And>q. res = Inr q \<Longrightarrow> \<exists>st2 f. httpOnly nn uid st1 st2 \<and> (f = None \<longrightarrow>
      (\<exists>p'. unboundPod (serverOf st2 nn uid) q = (p', True) \<and>
         st' = fst (updatePod env st2 (p'\<lparr>Labels := (Labels p')(DualLabelName := None)\<rparr>)) \<and>
         (e = None \<longrightarrow> (\<exists>echo. snd (updatePod env st2 (p'\<lparr>Labels := (Labels p')(DualLabelName := None)\<rparr>)) = Inr echo))) \<or>
      (\<exists>p'. unboundPod (serverOf st2 nn uid) q = (p', False) \<and> st' = st2)) \<and>
      (f \<noteq> None \<longrightarrow> st' = st2 \<and> e \<noteq> None)"
    by (rule ensureUnbound_steps [OF rec run]) (rule that; assumption)
  show ?thesis
  proof (rule removeISCRoutingLabels_cases [OF rm])
    assume "labelsGone (InstanceISCLabels sd) p" then show ?thesis ..
  next
    fix L' rr
    let ?sent = "p\<lparr>Labels := L'\<rparr>"
    assume sent: "labelsGone (InstanceISCLabels sd) ?sent" "st1 = ?st0\<lparr>dcalls := dcalls ?st0 @ [UpdatePod ?sent rr]\<rparr>"
      "\<forall>q. res = Inr q \<longleftrightarrow> rr = Inr q"
    have st1: "dcalls st1 = dcalls st @ [UpdatePod ?sent rr]" using sent(2) by simp
    obtain q where q: "res = Inr q"
      using fail calls st1 by (cases res) (auto simp: append_eq_Cons_conv Cons_eq_append_conv)
    obtain rest where "dcalls st' = dcalls st1 @ rest" using go [OF q] by (auto simp: httpOnly_def extends_def updatePod_def Let_def)
    then have "pre @ Http req r # post = [UpdatePod ?sent rr] @ rest" using calls st1 by simp
    from no_http_prefix [OF this] obtain pre' where "pre = UpdatePod ?sent rr # pre'" by auto
    moreover have "rr = Inr q" using sent(3) q by blast
    ultimately show ?thesis using sent(1) by auto
  qed
qed

text \<open>A launcher Pod that is bound to nothing.\<close>

definition unboundLauncher :: "pod \<Rightarrow> bool" where
  "unboundLauncher p \<longleftrightarrow> (\<forall>k \<in> insert RequesterAnnotationKey (set launcherStateKeys). Annotations p k = None) \<and>
     Labels p DualLabelName = None \<and> providerFinalizer \<notin> set (Finalizers p)"

lemma unboundPod_eq:
  assumes "unboundPod sd q = (p', ch)"
  shows "p' = q\<lparr>Labels := (\<lambda>k. if k \<in> fst ` set (InstanceISCLabels sd) then None
            else if k = SleepingLabelName then Some ''true'' else Labels q k),
      Annotations := (\<lambda>k. if k \<in> insert RequesterAnnotationKey (fst ` set (InstanceISCAnnotations sd) \<union> set launcherStateKeys)
            then None else Annotations q k),
      Finalizers := remove1 providerFinalizer (Finalizers q)\<rparr>"
    and "Annotations q RequesterAnnotationKey \<noteq> None \<Longrightarrow> ch"
proof -
  have lab: "fst (removeKeys ks (Labels (if lbl q SleepingLabelName \<noteq> ''true'' then q\<lparr>Labels := MapSet (Labels q) SleepingLabelName ''true''\<rparr> else q))) =
      (\<lambda>k. if k \<in> set ks then None else if k = SleepingLabelName then Some ''true'' else Labels q k)" for ks
    by (rule ext) (auto simp: removeKeys_fst MapSet_def lbl_def split: option.splits)
  have ann: "fst (removeKeys launcherStateKeys (fst (removeKeys ks (m(RequesterAnnotationKey := None))))) =
      (\<lambda>k. if k \<in> insert RequesterAnnotationKey (set ks \<union> set launcherStateKeys) then None else m k)" for ks m
    by (rule ext) (auto simp: removeKeys_fst)
  show "p' = q\<lparr>Labels := (\<lambda>k. if k \<in> fst ` set (InstanceISCLabels sd) then None
            else if k = SleepingLabelName then Some ''true'' else Labels q k),
      Annotations := (\<lambda>k. if k \<in> insert RequesterAnnotationKey (fst ` set (InstanceISCAnnotations sd) \<union> set launcherStateKeys)
            then None else Annotations q k),
      Finalizers := remove1 providerFinalizer (Finalizers q)\<rparr>"
    (is "_ = ?r")
  proof -
    let ?p1 = "if lbl q SleepingLabelName \<noteq> ''true'' then q\<lparr>Labels := MapSet (Labels q) SleepingLabelName ''true''\<rparr> else q"
    have fields: "Annotations ?p1 = Annotations q" "Finalizers ?p1 = Finalizers q" by simp_all
    have fin: "fst (SliceRemoveOnce [] xs providerFinalizer) = remove1 providerFinalizer xs" for xs
      by (simp add: SliceRemoveOnce_eq remove1_idem)
    have "p' = ?p1\<lparr>Labels := fst (removeKeys (mkeys (InstanceISCLabels sd)) (Labels ?p1)),
        Annotations := fst (removeKeys launcherStateKeys (fst (removeKeys (mkeys (InstanceISCAnnotations sd))
          ((Annotations ?p1)(RequesterAnnotationKey := None))))),
        Finalizers := fst (SliceRemoveOnce [] (Finalizers ?p1) providerFinalizer)\<rparr>"
      using assms
      by (cases "lbl q SleepingLabelName = ''true''") (auto simp: unboundPod_def Let_def split_beta clearInstanceStateFromLauncherPod_def)
    then show ?thesis unfolding lab ann fin fields by simp
  qed
  show "Annotations q RequesterAnnotationKey \<noteq> None \<Longrightarrow> ch"
    using assms by (auto simp: unboundPod_def Let_def split_beta split: if_splits)
qed


text \<open>What is on a bound launcher Pod, with or without its routing metadata.\<close>

definition boundAs :: "vllmInstanceState \<Rightarrow> pod \<Rightarrow> strmap \<Rightarrow> strmap \<Rightarrow> bool" where
  "boundAs state p L A \<longleftrightarrow>
     (\<forall>k. k \<notin> fst ` set (visIscLabels state) \<longrightarrow> k \<noteq> SleepingLabelName \<longrightarrow> k \<noteq> DualLabelName \<longrightarrow> L k = Labels p k) \<and>
     (\<forall>k. k \<notin> fst ` set (visIscAnnotations state) \<longrightarrow> k \<noteq> RequesterAnnotationKey \<longrightarrow> k \<notin> set launcherStateKeys \<longrightarrow>
        A k = Annotations p k) \<and>
     (\<forall>k \<in> fst ` set (visIscLabels state). \<not> hasReservedPrefix k \<and> Labels p k = None) \<and>
     (\<forall>k \<in> fst ` set (visIscAnnotations state). \<not> hasReservedPrefix k \<and> Annotations p k = None) \<and>
     A RequesterAnnotationKey \<noteq> None"

lemma bound_launcher:
  assumes free: "unboundLauncher p"
    and applied: "applyControllerMetadataToLauncherPod env (boundPod r p) state = Inr p1"
    and routed: "q = p1\<lparr>Labels := MapSet (Labels p1) SleepingLabelName s\<rparr> \<or>
      applyISCRoutingMetadataToLauncherPod env (p1\<lparr>Labels := MapSet (Labels p1) SleepingLabelName s\<rparr>)
        (visIscLabels state) (visIscAnnotations state) = Inr q"
  obtains L A where "q = p\<lparr>Labels := L, Annotations := A, Finalizers := Finalizers p @ [providerFinalizer]\<rparr>" "boundAs state p L A"
proof -
  let ?ls = "visIscLabels state" and ?as = "visIscAnnotations state"
  obtain c1 c2 where valid: "validateISCRoutingMetadata env (boundPod r p) ?ls ?as = []"
    and p1: "p1 = (boundPod r p)\<lparr>Annotations := (Annotations (boundPod r p))(launcherInstanceIDAnnotationKey \<mapsto> visInstanceID state,
      launcherServerPortAnnotationKey \<mapsto> strconv_Itoa (visServerPort state), launcherVllmConfigAnnotationKey \<mapsto> c1,
      launcherISCRoutingMetadataAnnotationKey \<mapsto> c2)\<rparr>"
    using applied_annotations [OF applied] by metis
  let ?q0 = "p1\<lparr>Labels := MapSet (Labels p1) SleepingLabelName s\<rparr>"
  have absent: "\<not> hasReservedPrefix k \<and> Labels p k = None" if "k \<in> fst ` set ?ls" for k
    using validated_keys(1) [OF valid that] by (auto simp: boundPod_def MapSet_def split: if_splits)
  have absentA: "\<not> hasReservedPrefix k \<and> Annotations p k = None" if "k \<in> fst ` set ?as" for k
    using validated_keys(2) [OF valid that] by (auto simp: boundPod_def MapSet_def split: if_splits)
  obtain L A where q: "q = ?q0\<lparr>Labels := L, Annotations := A\<rparr>" "\<forall>k. k \<notin> fst ` set ?ls \<longrightarrow> L k = Labels ?q0 k"
    "\<forall>k. k \<notin> fst ` set ?as \<longrightarrow> A k = Annotations ?q0 k"
  proof (cases "q = ?q0")
    case True
    then show ?thesis by (intro that [where L = "Labels ?q0" and A = "Annotations ?q0"]) simp_all
  next
    case False
    with routed routed_pod(1) [of env ?q0 ?ls ?as q] show ?thesis
      by (intro that [where L = "setAll ?ls (Labels ?q0)" and A = "setAll ?as (Annotations ?q0)"]) (auto simp: setAll_none)
  qed
  have eq: "q = p\<lparr>Labels := L, Annotations := A, Finalizers := Finalizers p @ [providerFinalizer]\<rparr>"
    using free by (simp add: q(1) p1 boundPod_def unboundLauncher_def)
  have "RequesterAnnotationKey \<notin> fst ` set ?as" using absentA reserved_keys(5) by blast
  then have "A RequesterAnnotationKey \<noteq> None"
    using q(3) launcher_keys_distinct(13) by (simp add: p1 boundPod_def MapSet_def launcherStateKeys_def)
  then have "boundAs state p L A" unfolding boundAs_def
    by (intro conjI) (use q(2,3) absent absentA in \<open>auto simp: p1 boundPod_def MapSet_def launcherStateKeys_def\<close>)
  with eq that show ?thesis by blast
qed

lemma unbound_again:
  assumes free: "unboundLauncher p" and q: "boundAs state p L A"
    and q': "Annotations q' = A" "Finalizers q' = Finalizers p @ [providerFinalizer]"
      "\<forall>k. k \<notin> fst ` set (visIscLabels state) \<longrightarrow> Labels q' k = L k"
    and u: "unboundPod sd q' = (p', ch)"
    and sd: "InstanceISCLabels sd = visIscLabels state" "InstanceISCAnnotations sd = visIscAnnotations state"
  shows "p'\<lparr>Labels := (Labels p')(DualLabelName := None)\<rparr> =
      q'\<lparr>Labels := (Labels p)(SleepingLabelName \<mapsto> ''true''), Annotations := Annotations p, Finalizers := Finalizers p\<rparr>" and ch
proof -
  let ?ls = "fst ` set (visIscLabels state)" and ?as = "fst ` set (visIscAnnotations state)"
  let ?L = "\<lambda>k. if k \<in> ?ls then None else if k = SleepingLabelName then Some ''true'' else Labels q' k"
  let ?A = "\<lambda>k. if k \<in> insert RequesterAnnotationKey (?as \<union> set launcherStateKeys) then None else A k"
  have p': "p' = q'\<lparr>Labels := ?L, Annotations := ?A, Finalizers := Finalizers p\<rparr>"
    using unboundPod_eq(1) [OF u] free unfolding sd q'(1,2) by (simp add: unboundLauncher_def remove1_append)
  have L: "?L(DualLabelName := None) = (Labels p)(SleepingLabelName \<mapsto> ''true'')"
  proof
    fix k
    show "(?L(DualLabelName := None)) k = ((Labels p)(SleepingLabelName \<mapsto> ''true'')) k"
      using q free q'(3) by (cases "k \<in> ?ls") (auto simp: boundAs_def unboundLauncher_def)
  qed
  have A: "?A = Annotations p"
    using q free by (auto simp: boundAs_def unboundLauncher_def fun_eq_iff)
  show "p'\<lparr>Labels := (Labels p')(DualLabelName := None)\<rparr> =
      q'\<lparr>Labels := (Labels p)(SleepingLabelName \<mapsto> ''true''), Annotations := Annotations p, Finalizers := Finalizers p\<rparr>"
    unfolding p' A using L by simp
  show ch using unboundPod_eq(2) [OF u] q by (simp add: q'(1) boundAs_def)
qed

text \<open>
  C26: a launcher is bound, with or without its routing labels applied, and unbound again.  Let the API server answer an
  accepted update with the labels, annotations and finalizers that were sent, whatever else of the Pod it changes (its
  ResourceVersion, its status), and let unbinding start from a cached Pod with the metadata that binding wrote.  Then,
  when unbinding succeeds, its last call is an accepted update that gives the Pod the labels, annotations and finalizers it
  had before it was bound, except for the sleeping label, which says that it sleeps; the rest of the Pod is sent as the
  cache or the answer to the preceding update had it.
\<close>

theorem unbind_restores_launcher:
  assumes free: "unboundLauncher p"
    and echoed: "\<forall>h sent echo. podUpdateD env h sent = Inr echo \<longrightarrow>
      Labels echo = Labels sent \<and> Annotations echo = Annotations sent \<and> Finalizers echo = Finalizers sent"
    and applied: "applyControllerMetadataToLauncherPod env (boundPod r p) state = Inr p1"
    and routed: "q = p1\<lparr>Labels := MapSet (Labels p1) SleepingLabelName s\<rparr> \<or>
      applyISCRoutingMetadataToLauncherPod env (p1\<lparr>Labels := MapSet (Labels p1) SleepingLabelName s\<rparr>)
        (visIscLabels state) (visIscAnnotations state) = Inr q"
    and cached: "Labels c = Labels q" "Annotations c = Annotations q" "Finalizers c = Finalizers q"
    and sd: "serverOf st nn uid = commitInstanceState sd0 state" "visInstanceID state \<noteq> []"
    and run: "ensureUnbound env st nn uid c True = (st', None)"
  shows "\<exists>cs base echo. dcalls st' = dcalls st @ cs @ [UpdatePod (base\<lparr>Labels := (Labels p)(SleepingLabelName \<mapsto> ''true''),
        Annotations := Annotations p, Finalizers := Finalizers p\<rparr>) (Inr echo)] \<and>
      (base = c \<or> (\<exists>sent. UpdatePod sent (Inr base) \<in> set cs))"
proof -
  obtain L A where q: "q = p\<lparr>Labels := L, Annotations := A, Finalizers := Finalizers p @ [providerFinalizer]\<rparr>" and bound: "boundAs state p L A"
    using bound_launcher [OF free applied routed] by blast
  let ?sd = "serverOf st nn uid"
  have rec: "recoverInstanceStateFromLauncherPod env ?sd c = Inr ?sd"
    using sd by (simp add: recoverInstanceStateFromLauncherPod_def commitInstanceState_def)
  let ?st0 = "assertDuality env nn uid (ndNodeName (nodeOf st nn)) (modServer nn uid (\<lambda>_. ?sd) st)"
  obtain st1 res where rm: "removeISCRoutingLabels env ?st0 c (InstanceISCLabels ?sd) = (st1, res)" by (rule prod.exhaust)
  obtain base where base: "res = Inr base"
    using run by (cases res) (auto simp: ensureUnbound_def rec rm Let_def)
  obtain cs1 where st1: "dcalls st1 = dcalls st @ cs1" "base = c \<or> (\<exists>sent. UpdatePod sent (Inr base) \<in> set cs1)"
    and meta: "Annotations base = A" "Finalizers base = Finalizers p @ [providerFinalizer]"
      "\<forall>k. k \<notin> fst ` set (visIscLabels state) \<longrightarrow> Labels base k = L k" and same: "sameInstance ?sd (serverOf st1 nn uid)"
    using rm
  proof (cases rule: removeISCRoutingLabels_cases)
    case 1 then show ?thesis using base cached by (intro that [of "[]"]) (simp_all add: sameInstance_def q)
  next
    case (2 L' rr)
    from 2 base have "rr = Inr base" by blast
    moreover with 2(4) echoed have "Labels base = L'" "Annotations base = Annotations c" "Finalizers base = Finalizers c" by force+
    ultimately show ?thesis using 2 sd cached
      by (intro that [of "[UpdatePod (c\<lparr>Labels := L'\<rparr>) rr]"]) (auto simp: sameInstance_def commitInstanceState_def q)
  qed
  from ensureUnbound_steps [OF rec run] rm base
  obtain st2 p' ch where st2: "httpOnly nn uid st1 st2" and u: "unboundPod (serverOf st2 nn uid) base = (p', ch)"
    and st': "ch \<longrightarrow> st' = fst (updatePod env st2 (p'\<lparr>Labels := (Labels p')(DualLabelName := None)\<rparr>)) \<and>
      (\<exists>echo. snd (updatePod env st2 (p'\<lparr>Labels := (Labels p')(DualLabelName := None)\<rparr>)) = Inr echo)"
    by (smt (verit, best) prod.inject)
  have "InstanceISCLabels (serverOf st2 nn uid) = visIscLabels state" "InstanceISCAnnotations (serverOf st2 nn uid) = visIscAnnotations state"
    using st2 same sd(1) by (simp_all add: httpOnly_def sameInstance_def commitInstanceState_def)
  note again = unbound_again [OF free bound meta u this]
  from st2 obtain cs2 where "dcalls st2 = dcalls st1 @ cs2" by (auto simp: httpOnly_def extends_def)
  with st1(1) st' again obtain echo where
    "dcalls st' = dcalls st @ (cs1 @ cs2) @ [UpdatePod (base\<lparr>Labels := (Labels p)(SleepingLabelName \<mapsto> ''true''),
        Annotations := Annotations p, Finalizers := Finalizers p\<rparr>) (Inr echo)]"
    by (auto simp: updatePod_def Let_def)
  with st1(2) show ?thesis unfolding Un_iff [symmetric] by (metis Un_iff set_append)
qed


subsection \<open>Finalizers and state on the requester\<close>

text \<open>
  C37: when the update that removes the provider's finalizer fails, trying again with the Pod as the informer's
  cache then holds it makes no call and reports that there is nothing to remove: the finalizer stays on the Pod.
\<close>

theorem failed_finalizer_removal_is_not_retried:
  assumes "removeProviderFinalizer env st p = (st', Inl err, cached)"
    and "distinct (Finalizers p)"
  shows "removeProviderFinalizer env st'' cached = (st'', Inr False, cached)"
proof -
  have cached: "cached = p\<lparr>Finalizers := remove1 providerFinalizer (Finalizers p) @ [[]]\<rparr>"
    using assms(1) by (auto simp: removeProviderFinalizer_def SliceRemoveOnce_eq split: sum.splits prod.splits if_splits)
  have "providerFinalizer \<notin> set (Finalizers cached)"
    using assms(2) by (simp add: cached providerFinalizer_def)
  then show ?thesis by (simp add: removeProviderFinalizer_def SliceRemoveOnce_eq)
qed

text \<open>
  Reporting the state of an inference server on its requester settles: once an update was accepted, reporting
  the same state on the Pod it wrote makes no further call, and the Pod shows the given errors, the accelerators, the
  provider and the instance.
\<close>

theorem reported_state_settles:
  fixes st :: dpState and nn uid :: string
  defines "sd \<equiv> serverOf st nn uid"
  assumes run: "ensureReqState env st nn uid r addF removeF errors = (st', out)"
    and made: "dcalls st' = dcalls st @ [UpdatePod r' (Inr echo)]"
    and inst: "ProvidingPodName sd \<noteq> [] \<longrightarrow> InstanceID sd \<noteq> [] \<or> lbl r InstanceLabelName = []"
  shows "out = prDone \<and> ensureReqState env st' nn uid r' False False errors = (st', prDone) \<and>
    annot r' StatusAnnotationName = encodeStatus env errors \<and>
    annot r' AcceleratorsAnnotationName = (case GPUIDsStr sd of None \<Rightarrow> [] | Some s \<Rightarrow> s) \<and>
    lbl r' DualLabelName = ProvidingPodName sd \<and> lbl r' InstanceLabelName = (if ProvidingPodName sd \<noteq> [] then InstanceID sd else [])"
proof -
  define fs where "fs = (if removeF then fst (SliceRemoveOnce [] (Finalizers r) requesterFinalizer)
    else if addF then Finalizers r @ [requesterFinalizer] else Finalizers r)"
  let ?sent = "reqStatePod sd (encodeStatus env errors) fs r"
  have "ensureReqState env st nn uid r addF removeF errors = (st, prDone) \<or>
      ensureReqState env st nn uid r addF removeF errors = (case updatePod env st ?sent of
        (st1, Inl err) \<Rightarrow> (st1, prRetryErr (ApiErr err)) | (st1, Inr _) \<Rightarrow> (st1, prDone))"
    unfolding ensureReqState_def Let_def fs_def sd_def by presburger
  then have r': "r' = ?sent" and st': "st' = st\<lparr>dcalls := dcalls st @ [UpdatePod r' (Inr echo)]\<rparr>" and out: "out = prDone"
    using run made by (auto simp: updatePod_def Let_def split: sum.splits)
  have vals: "annot r' StatusAnnotationName = encodeStatus env errors"
    "annot r' AcceleratorsAnnotationName = (case GPUIDsStr sd of None \<Rightarrow> [] | Some s \<Rightarrow> s)"
    "lbl r' DualLabelName = ProvidingPodName sd" "lbl r' InstanceLabelName = (if ProvidingPodName sd \<noteq> [] then InstanceID sd else [])"
    using inst by (auto simp: r' reqStatePod_def annot_def lbl_def MapSet_def Let_def split: option.splits)
  have same: "serverOf st' nn uid = sd" by (simp add: st' sd_def)
  show ?thesis
    by (intro conjI out vals) (simp add: ensureReqState_def same vals Let_def)
qed

subsection \<open>The sleeper budget\<close>

text \<open>The Pods that the GPU index of the Pod informer lists for a GPU of a Node.\<close>

definition podsOnGPU :: "dpEnv \<Rightarrow> string \<Rightarrow> string \<Rightarrow> pod list" where
  "podsOnGPU env nodeName gpuIndex = byIndex env GPUIndexFunc (nodeName @ '' '' @ gpuIndex)"

text \<open>A deletion of a given Pod, as it was seen.\<close>

definition deletes :: "pod \<Rightarrow> dpCall \<Rightarrow> bool" where
  "deletes p c \<longleftrightarrow> (\<exists>res. c = DeletePodD (Name p) (Some (UID p)) (Some (ResourceVersion p)) res)"

text \<open>
  The calls delete Pods of the list, each named among those gone; and every one that is newly gone has been
  deleted.
\<close>

definition deletesThese :: "pod set \<Rightarrow> string set \<Rightarrow> string set \<Rightarrow> dpCall list \<Rightarrow> bool" where
  "deletesThese ps goners goners' cs \<longleftrightarrow> goners \<subseteq> goners' \<and> (\<forall>c \<in> set cs. \<exists>p \<in> ps. deletes p c \<and> Name p \<in> goners') \<and>
     (\<forall>n \<in> goners' - goners. \<exists>p c. Name p = n \<and> c \<in> set cs \<and> deletes p c)"

lemma deletesThese_trans:
  assumes a: "deletesThese ps g0 g1 cs" and b: "deletesThese qs g1 g2 ds"
  shows "deletesThese (ps \<union> qs) g0 g2 (cs @ ds)"
proof -
  have sub: "g0 \<subseteq> g1" "g1 \<subseteq> g2" using a b by (simp_all add: deletesThese_def)
  have cs: "\<exists>p \<in> ps \<union> qs. deletes p c \<and> Name p \<in> g2" if "c \<in> set cs" for c
  proof -
    from a that obtain p where "p \<in> ps" "deletes p c" "Name p \<in> g1" unfolding deletesThese_def by meson
    then show ?thesis using sub(2) by blast
  qed
  have ds: "\<exists>p \<in> ps \<union> qs. deletes p c \<and> Name p \<in> g2" if "c \<in> set ds" for c
    using b that unfolding deletesThese_def by (meson UnI2)
  have n: "\<exists>p c. Name p = n \<and> c \<in> set (cs @ ds) \<and> deletes p c" if "n \<in> g2 - g0" for n
  proof (cases "n \<in> g1")
    case True
    with that have "n \<in> g1 - g0" by simp
    with a obtain p c where "Name p = n" "c \<in> set cs" "deletes p c" unfolding deletesThese_def by meson
    then show ?thesis by auto
  next
    case False
    with that have "n \<in> g2 - g1" by simp
    with b obtain p c where "Name p = n" "c \<in> set ds" "deletes p c" unfolding deletesThese_def by meson
    then show ?thesis by auto
  qed
  show ?thesis unfolding deletesThese_def
  proof (intro conjI ballI)
    show "g0 \<subseteq> g2" using sub by (rule subset_trans)
    show "\<exists>p \<in> ps \<union> qs. deletes p c \<and> Name p \<in> g2" if "c \<in> set (cs @ ds)" for c
      using that unfolding set_append by (elim UnE) (rule cs, assumption, rule ds, assumption)
  qed (rule n)
qed

lemma deletesThese_mono: "deletesThese ps g0 g1 cs \<Longrightarrow> ps \<subseteq> qs \<Longrightarrow> deletesThese qs g0 g1 cs"
  unfolding deletesThese_def by blast

lemma deleteSleepers_ok:
  assumes "deleteSleepers env ps st goners = (st', goners', err)"
  shows "(err = None \<longrightarrow> goners' = goners \<union> Name ` set ps) \<and> (\<exists>cs. extends st cs st' \<and> deletesThese (set ps) goners goners' cs)"
  using assms
proof (induction ps arbitrary: st goners)
  case (Cons p ps)
  let ?c = "DeletePodD (Name p) (Some (UID p)) (Some (ResourceVersion p)) (podDeleteD env (dcalls st) (Name p) (Some (UID p)) (Some (ResourceVersion p)))"
  let ?st1 = "st\<lparr>dcalls := dcalls st @ [?c]\<rparr>"
  have ext: "extends st [?c] ?st1" by (simp add: extends_def)
  have one: "deletesThese {p} goners (insert (Name p) goners) [?c]" by (auto simp: deletesThese_def deletes_def)
  show ?case
  proof (cases "\<exists>e. podDeleteD env (dcalls st) (Name p) (Some (UID p)) (Some (ResourceVersion p)) = Some e \<and> \<not> isNotFound e \<and> \<not> isGone e")
    case True
    then have "st' = ?st1" "goners' = insert (Name p) goners" "err \<noteq> None"
      using Cons.prems by (auto simp: deletePodPre_def Let_def)
    then show ?thesis using ext deletesThese_mono [OF one, of "set (p # ps)"] by auto
  next
    case False
    then have "deleteSleepers env ps ?st1 (insert (Name p) goners) = (st', goners', err)"
      using Cons.prems by (auto simp: deletePodPre_def Let_def split: option.splits if_splits)
    from Cons.IH [OF this] obtain cs where IH: "err = None \<longrightarrow> goners' = insert (Name p) goners \<union> Name ` set ps" "extends ?st1 cs st'"
      "deletesThese (set ps) (insert (Name p) goners) goners' cs" by blast
    from deletesThese_trans [OF one IH(3)] extends_trans [OF ext IH(2)] IH(1) show ?thesis by auto
  qed
qed (auto simp: extends_def deletesThese_def)

lemma mset_insertBy: "mset (insertBy cmp x xs) = add_mset x (mset xs)"
  by (induction xs) auto

lemma mset_SortFunc: "mset (slices_SortFunc cmp xs) = mset xs"
  by (induction xs) (auto simp: mset_insertBy)

lemma length_after_removal:
  "length (filter (\<lambda>p. Name p \<notin> goners \<union> Name ` set (take n (slices_SortFunc cmp xs))) xs) \<le> length xs - n"
proof -
  let ?ys = "slices_SortFunc cmp xs"
  let ?P = "\<lambda>p. Name p \<notin> goners \<union> Name ` set (take n ?ys)"
  have "length (filter ?P xs) = length (filter ?P ?ys)" by (metis mset_SortFunc mset_filter size_mset)
  also have "filter ?P ?ys = filter ?P (take n ?ys) @ filter ?P (drop n ?ys)" by (metis append_take_drop_id filter_append)
  also have "filter ?P (take n ?ys) = []" by (auto simp: filter_empty_conv)
  finally have "length (filter ?P xs) \<le> length (drop n ?ys)"
    using length_filter_le [of ?P "drop n ?ys"] by (simp only: append_Nil)
  then show ?thesis by simp
qed

lemma filter_goners_mono:
  "goners \<subseteq> goners' \<Longrightarrow> length (filter (\<lambda>p. Name p \<notin> goners') xs) \<le> length (filter (\<lambda>p. Name p \<notin> goners) xs)"
  by (induction xs) auto

lemma budgetLoop_Cons:
  "budgetLoop env nodeName now limit (g # gpus) st goners =
     (let ps = filter (\<lambda>p. Name p \<notin> goners) (podsOnGPU env nodeName g); toGo = lenMinus (length ps) limit
      in if toGo \<le> 0 then budgetLoop env nodeName now limit gpus st goners
         else if length ps > 1 \<and> (\<exists>p \<in> set ps. podAge now p = None)
         then (st, goners, Some (GoPanic ''nil pointer dereference''))
         else if toGo > int (sliceCap env (length ps)) then (st, goners, Some (GoPanic ''slice bounds out of range''))
         else (case deleteSleepers env (take (nat toGo) (slices_SortFunc (comparePods now) ps)) st goners of
                 (st1, goners1, Some err) \<Rightarrow> (st1, goners1, Some err)
               | (st1, goners1, None) \<Rightarrow>
                   if toGo > int (length ps) then (st1, goners1, Some (GoPanic ''nil pointer dereference''))
                   else budgetLoop env nodeName now limit gpus st1 goners1))"
  by (simp only: budgetLoop.simps podsOnGPU_def)

declare budgetLoop.simps(2) [simp del]

lemma lenMinus_nonneg: "0 \<le> limit \<Longrightarrow> lenMinus n limit = int n - limit"
  by (simp add: lenMinus_def)

lemma budgetLoop_ok:
  assumes "0 \<le> limit" and "budgetLoop env nodeName now limit gpus st goners = (st', goners', err)"
  shows "(err = None \<longrightarrow> (\<forall>g \<in> set gpus. int (length (filter (\<lambda>p. Name p \<notin> goners') (podsOnGPU env nodeName g))) \<le> limit)) \<and>
    (\<exists>cs. extends st cs st' \<and> deletesThese (\<Union>g \<in> set gpus. set (podsOnGPU env nodeName g)) goners goners' cs)"
  using assms(2)
proof (induction gpus arbitrary: st goners)
  case (Cons g gpus)
  note loop_Cons = budgetLoop_Cons [of env nodeName now limit g gpus, unfolded lenMinus_nonneg [OF assms(1)]]
  let ?ps = "filter (\<lambda>p. Name p \<notin> goners) (podsOnGPU env nodeName g)"
  let ?toGo = "int (length ?ps) - limit"
  let ?vs = "take (nat ?toGo) (slices_SortFunc (comparePods now) ?ps)"
  let ?all = "\<Union>g \<in> set (g # gpus). set (podsOnGPU env nodeName g)"
  have "set ?ps \<subseteq> set (podsOnGPU env nodeName g)" by auto
  show ?case
  proof (cases "?toGo \<le> 0")
    case True
    then have "budgetLoop env nodeName now limit gpus st goners = (st', goners', err)"
      using Cons.prems by (simp only: loop_Cons Let_def if_P)
    from Cons.IH [OF this] obtain cs where IH: "extends st cs st'" "deletesThese (\<Union>g \<in> set gpus. set (podsOnGPU env nodeName g)) goners goners' cs"
      "err = None \<longrightarrow> (\<forall>g \<in> set gpus. int (length (filter (\<lambda>p. Name p \<notin> goners') (podsOnGPU env nodeName g))) \<le> limit)" by blast
    have "goners \<subseteq> goners'" using IH(2) by (simp add: deletesThese_def)
    from filter_goners_mono [OF this, of "podsOnGPU env nodeName g"] True
    have "int (length (filter (\<lambda>p. Name p \<notin> goners') (podsOnGPU env nodeName g))) \<le> limit" by linarith
    with IH deletesThese_mono [OF IH(2), of ?all] show ?thesis by auto
  next
    case False
    show ?thesis
    proof (cases "length ?ps > 1 \<and> (\<exists>p \<in> set ?ps. podAge now p = None)")
      case True
      with False Cons.prems have "st' = st" "goners' = goners" "err \<noteq> None" 
        by (simp_all only: loop_Cons Let_def if_P if_not_P prod.inject) auto
      then show ?thesis by (intro conjI exI [of _ "[]"]) (auto simp: deletesThese_def)
    next
      case aged: False
      obtain st1 goners1 err1 where del: "deleteSleepers env ?vs st goners = (st1, goners1, err1)" by (rule prod_cases3)
      from deleteSleepers_ok [OF this] obtain cs1 where cs1: "extends st cs1 st1" "deletesThese (set ?vs) goners goners1 cs1"
        "err1 = None \<longrightarrow> goners1 = goners \<union> Name ` set ?vs" by blast
      have vs: "set ?vs \<subseteq> ?all" by (auto dest: in_set_takeD)
      have loop: "budgetLoop env nodeName now limit (g # gpus) st goners = (case err1 of
          Some e \<Rightarrow> (st1, goners1, Some e) | None \<Rightarrow> budgetLoop env nodeName now limit gpus st1 goners1)"
      proof -
        have "\<not> ?toGo > int (length ?ps)" "\<not> ?toGo > int (sliceCap env (length ?ps))" using assms(1) by (simp_all add: sliceCap_def)
        then show ?thesis
          by (simp only: loop_Cons Let_def if_not_P [OF False] if_not_P [OF aged] if_not_P if_False simp_thms del prod.case split: option.split)
      qed
      show ?thesis
      proof (cases err1)
        case (Some e)
        then have "st' = st1" "goners' = goners1" "err \<noteq> None" using Cons.prems loop by auto
        then show ?thesis using cs1 deletesThese_mono [OF cs1(2) vs] by auto
      next
        case None
        then have "budgetLoop env nodeName now limit gpus st1 goners1 = (st', goners', err)" using Cons.prems loop by simp
        from Cons.IH [OF this] obtain cs2 where IH: "extends st1 cs2 st'"
          "deletesThese (\<Union>g \<in> set gpus. set (podsOnGPU env nodeName g)) goners1 goners' cs2"
          "err = None \<longrightarrow> (\<forall>g \<in> set gpus. int (length (filter (\<lambda>p. Name p \<notin> goners') (podsOnGPU env nodeName g))) \<le> limit)" by blast
        have "goners1 \<subseteq> goners'" using IH(2) by (simp add: deletesThese_def)
        note filter_goners_mono [OF this, of "podsOnGPU env nodeName g"]
        moreover have "filter (\<lambda>p. Name p \<notin> goners1) (podsOnGPU env nodeName g) = filter (\<lambda>p. Name p \<notin> goners \<union> Name ` set ?vs) ?ps"
          using cs1(3) None by (auto intro: filter_cong)
        then have "length (filter (\<lambda>p. Name p \<notin> goners1) (podsOnGPU env nodeName g)) \<le> length ?ps - nat ?toGo"
          using length_after_removal [of goners "nat ?toGo" "comparePods now" ?ps] by (simp only:)
        moreover have "int (length ?ps - nat ?toGo) \<le> limit" using False assms(1) by linarith
        ultimately have "int (length (filter (\<lambda>p. Name p \<notin> goners') (podsOnGPU env nodeName g))) \<le> limit"
          by linarith
        moreover have "deletesThese ?all goners goners' (cs1 @ cs2)"
          by (rule deletesThese_mono [OF deletesThese_trans [OF cs1(2) IH(2)]]) (use vs in auto)
        ultimately show ?thesis using extends_trans [OF cs1(1) IH(1)] IH(3) by auto
      qed
    qed
  qed
qed (auto simp: extends_def deletesThese_def)

text \<open>
  C36: when the sleeper budget has been enforced without error, every GPU of the requester has at most as many
  direct server-providing Pods in the GPU index as allowed, apart from Pods whose deletion was requested; each request
  names a Pod that the index lists for one of these GPUs and is refused when the Pod has changed since; and without
  any deletion there is no call at all.
\<close>

theorem sleeper_budget_met:
  assumes run: "enforceSleeperBudget env st nn uid r limit = (st', None, retry)" and limit: "0 \<le> limit"
  defines "gpus \<equiv> GPUIndices (serverOf st nn uid)" and "node \<equiv> NodeName (Spec r)"
  shows "\<exists>goners cs. extends st cs st' \<and> deletesThese (\<Union>g \<in> set gpus. set (podsOnGPU env node g)) {} goners cs \<and>
    (\<forall>g \<in> set gpus. int (length (filter (\<lambda>p. Name p \<notin> goners) (podsOnGPU env node g))) \<le> limit) \<and>
    retry = (goners \<noteq> {}) \<and> (\<not> retry \<longrightarrow> cs = [])"
proof -
  obtain st1 goners err where loop: "budgetLoop env node (nowD env st) limit gpus st {} = (st1, goners, err)" by (rule prod_cases3)
  with run have "st1 = st'" "err = None" "retry = (goners \<noteq> {})"
    by (auto simp: enforceSleeperBudget_def gpus_def node_def split: option.splits)
  moreover from budgetLoop_ok [OF limit loop] obtain cs where cs: "extends st cs st1"
    "deletesThese (\<Union>g \<in> set gpus. set (podsOnGPU env node g)) {} goners cs" by blast
  moreover have "goners = {} \<Longrightarrow> cs = []" using cs(2) by (cases cs) (auto simp: deletesThese_def)
  ultimately show ?thesis using budgetLoop_ok [OF limit loop] by blast
qed


subsection \<open>Examples\<close>

text \<open>An outside world whose codecs read back what they wrote: here they know one configuration and one routing.\<close>

definition exampleConfig :: vllmConfig where
  "exampleConfig = \<lparr>vcOptions = ''--port 8000'', vcGpuUUIDs = [''g0''], vcEnvVars = [], vcAnnotations = Map.empty\<rparr>"

definition exampleRouting :: iscRoutingMetadata where
  "exampleRouting = \<lparr>rmLabels = [(''model'', ''m'')], rmAnnotations = [(''note'', ''x'')]\<rparr>"

definition bindExampleEnv :: dpEnv where
  "bindExampleEnv = (dpExampleEnv [])\<lparr>
     encodeVllmConfig := (\<lambda>c. if c = exampleConfig then Inr ''cfg'' else Inl ''unknown''), decodeVllmConfig := (\<lambda>_. Inr exampleConfig),
     encodeRouting := (\<lambda>m. if m = exampleRouting then Inr ''routing'' else Inl ''unknown''), decodeRouting := (\<lambda>_. Inr exampleRouting)\<rparr>"

definition exampleState :: vllmInstanceState where
  "exampleState = \<lparr>visCfg = exampleConfig, visInstanceID = ''Ihi'', visServerPort = 8000,
     visIscLabels = rmLabels exampleRouting, visIscAnnotations = rmAnnotations exampleRouting\<rparr>"

lemma bindExample_codecs: "codecsOk bindExampleEnv"
  by (auto simp: codecsOk_def bindExampleEnv_def split: if_splits)

lemma bindExample_env [simp]:
  "IsQualifiedName bindExampleEnv k = []" "IsValidLabelValue bindExampleEnv v = []"
  "encodeVllmConfig bindExampleEnv (visCfg exampleState) = Inr ''cfg''"
  "encodeRouting bindExampleEnv \<lparr>rmLabels = visIscLabels exampleState, rmAnnotations = visIscAnnotations exampleState\<rparr> = Inr ''routing''"
  "podUpdateD bindExampleEnv h p = Inr p"
  by (simp_all add: bindExampleEnv_def dpExampleEnv_def exampleState_def exampleRouting_def)

lemma example_valid:
  assumes "Labels p ''model'' = None" and "Annotations p ''note'' = None"
  shows "validateISCRoutingMetadata bindExampleEnv p (visIscLabels exampleState) (visIscAnnotations exampleState) = []"
  using assms
  by (simp add: validateISCRoutingMetadata_def exampleState_def exampleRouting_def keyProblems_def valueProblems_def
      hasReservedPrefix_def reservedKeyPrefixes_def hasPrefix_def)

definition exampleBound :: pod where
  "exampleBound = (boundPod exampleRequester exampleLauncher)\<lparr>Annotations := (Annotations (boundPod exampleRequester exampleLauncher))
     (launcherInstanceIDAnnotationKey \<mapsto> ''Ihi'', launcherServerPortAnnotationKey \<mapsto> strconv_Itoa 8000,
      launcherVllmConfigAnnotationKey \<mapsto> ''cfg'', launcherISCRoutingMetadataAnnotationKey \<mapsto> ''routing'')\<rparr>"

lemma example_keys [simp]: "''model'' \<noteq> DualLabelName" "''model'' \<noteq> SleepingLabelName" "''note'' \<noteq> RequesterAnnotationKey"
  "''note'' \<notin> set launcherStateKeys"
  by (simp_all add: shared_name_defs binding_name_defs launcherStateKeys_def)

lemma example_applied:
  "applyControllerMetadataToLauncherPod bindExampleEnv (boundPod exampleRequester exampleLauncher) exampleState = Inr exampleBound"
proof -
  have "Labels (boundPod exampleRequester exampleLauncher) ''model'' = None" "Annotations (boundPod exampleRequester exampleLauncher) ''note'' = None"
    by (simp_all add: boundPod_def MapSet_def exampleLauncher_def blank_defs)
  from example_valid [OF this] show ?thesis
    by (simp add: applyControllerMetadataToLauncherPod_def exampleBound_def MapSet_def exampleState_def [THEN arg_cong, of visInstanceID]
        exampleState_def [THEN arg_cong, of visServerPort])
qed

definition exampleRouted :: pod where
  "exampleRouted = (exampleBound\<lparr>Labels := MapSet (Labels exampleBound) SleepingLabelName ''false''\<rparr>)\<lparr>
     Labels := setAll (visIscLabels exampleState) (MapSet (Labels exampleBound) SleepingLabelName ''false''),
     Annotations := setAll (visIscAnnotations exampleState) (Annotations exampleBound)\<rparr>"

lemma example_routed:
  "applyISCRoutingMetadataToLauncherPod bindExampleEnv (exampleBound\<lparr>Labels := MapSet (Labels exampleBound) SleepingLabelName ''false''\<rparr>)
     (visIscLabels exampleState) (visIscAnnotations exampleState) = Inr exampleRouted"
proof -
  let ?p = "exampleBound\<lparr>Labels := MapSet (Labels exampleBound) SleepingLabelName ''false''\<rparr>"
  have "Labels ?p ''model'' = None" "Annotations ?p ''note'' = None"
    using example_keys(4)
    by (simp_all add: exampleBound_def boundPod_def MapSet_def exampleLauncher_def blank_defs launcherStateKeys_def)
  from example_valid [OF this] show ?thesis
    by (simp add: applyISCRoutingMetadataToLauncherPod_def exampleRouted_def)
qed

theorem recover_after_bind_witness:
  "InstanceISCLabels (case recoverInstanceStateFromLauncherPod bindExampleEnv (newServerData ''r1'') exampleRouted of Inr sd \<Rightarrow> sd) =
     [(''model'', ''m'')]"
proof -
  have "- (2 ^ 31) \<le> visServerPort exampleState" "visServerPort exampleState < 2 ^ 31" "visInstanceID exampleState \<noteq> []"
    "mok (visIscLabels exampleState)" "mok (visIscAnnotations exampleState)" "InstanceID (newServerData ''r1'') = []"
    by (simp_all add: exampleState_def exampleRouting_def mok_def newServerData_def)
  from recover_after_bind [OF bindExample_codecs example_applied this(1-5) example_routed this(6)] show ?thesis
    by (simp add: commitInstanceState_def exampleState_def exampleRouting_def)
qed


text \<open>A server that remembers its instance and is asleep.\<close>

definition bindExampleState :: dpState where
  "bindExampleState = modServer ''n1'' ''u1'' (\<lambda>_. (commitInstanceState (newServerData ''r1'') exampleState)\<lparr>Sleeping := Some True\<rparr>) dpExampleState"

lemma bindExample_server: "serverOf bindExampleState ''n1'' ''u1'' = (commitInstanceState (newServerData ''r1'') exampleState)\<lparr>Sleeping := Some True\<rparr>"
  by (simp add: bindExampleState_def)

text \<open>An API server that gives the Pod another ResourceVersion with every update, and a cached Pod that has one.\<close>

definition versioningEnv :: dpEnv where
  "versioningEnv = bindExampleEnv\<lparr>podUpdateD := (\<lambda>h p. Inr (p\<lparr>ResourceVersion := CHR ''8'' # replicate (length h) CHR ''0''\<rparr>))\<rparr>"

definition cachedRouted :: pod where
  "cachedRouted = exampleRouted\<lparr>ResourceVersion := ''7''\<rparr>"

lemma versioning_same:
  "applyControllerMetadataToLauncherPod versioningEnv = applyControllerMetadataToLauncherPod bindExampleEnv"
  "applyISCRoutingMetadataToLauncherPod versioningEnv = applyISCRoutingMetadataToLauncherPod bindExampleEnv"
proof -
  have "validateISCRoutingMetadata versioningEnv = validateISCRoutingMetadata bindExampleEnv"
    by (simp add: fun_eq_iff validateISCRoutingMetadata_def keyProblems_def valueProblems_def versioningEnv_def)
  moreover have "encodeVllmConfig versioningEnv = encodeVllmConfig bindExampleEnv" "encodeRouting versioningEnv = encodeRouting bindExampleEnv"
    by (simp_all add: versioningEnv_def)
  ultimately show "applyControllerMetadataToLauncherPod versioningEnv = applyControllerMetadataToLauncherPod bindExampleEnv"
    "applyISCRoutingMetadataToLauncherPod versioningEnv = applyISCRoutingMetadataToLauncherPod bindExampleEnv"
    by (simp_all add: fun_eq_iff applyControllerMetadataToLauncherPod_def applyISCRoutingMetadataToLauncherPod_def Let_def
        cong: sum.case_cong)
qed

lemma versioning_unbinds: "\<exists>st'. ensureUnbound versioningEnv bindExampleState ''n1'' ''u1'' cachedRouted True = (st', None)"
proof -
  have "recoverInstanceStateFromLauncherPod versioningEnv (serverOf bindExampleState ''n1'' ''u1'') cachedRouted = Inr (serverOf bindExampleState ''n1'' ''u1'')"
    "Sleeping (serverOf bindExampleState ''n1'' ''u1'') = Some True"
    by (simp_all add: bindExample_server recoverInstanceStateFromLauncherPod_def commitInstanceState_def exampleState_def)
  moreover have "podUpdateD versioningEnv h p = Inr (p\<lparr>ResourceVersion := CHR ''8'' # replicate (length h) CHR ''0''\<rparr>)" for h p
    by (simp add: versioningEnv_def)
  ultimately show ?thesis
    by (simp add: ensureUnbound_def removeISCRoutingLabels_def updatePod_def Let_def split_beta)
qed

theorem unbind_restores_launcher_witness:
  "\<exists>sent echo. UpdatePod sent (Inr echo) = last (dcalls (fst (ensureUnbound versioningEnv bindExampleState ''n1'' ''u1'' cachedRouted True))) \<and>
     Labels sent = (Labels exampleLauncher)(SleepingLabelName \<mapsto> ''true'') \<and> Annotations sent = Annotations exampleLauncher \<and>
     Finalizers sent = [] \<and> Labels cachedRouted ''model'' = Some ''m'' \<and> Finalizers cachedRouted = [providerFinalizer]"
proof -
  obtain st' where run: "ensureUnbound versioningEnv bindExampleState ''n1'' ''u1'' cachedRouted True = (st', None)"
    using versioning_unbinds by blast
  have free: "unboundLauncher exampleLauncher" by (simp add: unboundLauncher_def exampleLauncher_def blank_defs)
  have sd: "serverOf bindExampleState ''n1'' ''u1'' = commitInstanceState ((newServerData ''r1'')\<lparr>Sleeping := Some True\<rparr>) exampleState"
    by (simp add: bindExample_server commitInstanceState_def)
  have "\<exists>cs base echo. dcalls st' = dcalls bindExampleState @ cs @ [UpdatePod (base\<lparr>Labels := (Labels exampleLauncher)(SleepingLabelName \<mapsto> ''true''),
        Annotations := Annotations exampleLauncher, Finalizers := Finalizers exampleLauncher\<rparr>) (Inr echo)] \<and>
      (base = cachedRouted \<or> (\<exists>sent. UpdatePod sent (Inr base) \<in> set cs))"
    by (rule unbind_restores_launcher [OF free _ example_applied [folded versioning_same] disjI2 [OF example_routed [folded versioning_same]] _ _ _ sd _ run])
      (auto simp: versioningEnv_def cachedRouted_def exampleState_def)
  then show ?thesis using run
    by (auto simp: exampleLauncher_def blank_defs cachedRouted_def exampleRouted_def exampleBound_def boundPod_def setAll_def MapSet_def
        exampleState_def exampleRouting_def)
qed

text \<open>The same, awake.\<close>

definition awakeState :: dpState where
  "awakeState = modServer ''n1'' ''u1'' (\<lambda>_. commitInstanceState (newServerData ''r1'') exampleState) dpExampleState"

lemma bindExample_http [simp]:
  "urlParse bindExampleEnv u = None" "httpDo bindExampleEnv h req = Inr (200, ''ok'')" "decodeInstanceState bindExampleEnv b = Inl ''none''"
  by (simp_all add: bindExampleEnv_def dpExampleEnv_def)

lemma bindExample_sleep:
  assumes "InstanceID (serverOf st nn uid) \<noteq> []"
  shows "\<exists>req1 r1 req r. dcalls (fst (putToSleep bindExampleEnv st nn uid p True)) = dcalls st @ [Http req1 r1, Http req r] \<and>
    snd (putToSleep bindExampleEnv st nn uid p True) = None"
  using assms
  by (simp add: putToSleep_def maybeDeleteObsoleteInstance_def GetInstanceState_def fullDo_def doHTTP_def NewLauncherClient_def
      IsInstanceNotFoundError_def Let_def)

lemma exampleRouted_fields: "Labels exampleRouted ''model'' = Some ''m''" "Status exampleRouted = Status exampleLauncher"
  by (simp_all add: exampleRouted_def setAll_def exampleState_def exampleRouting_def MapSet_def exampleBound_def boundPod_def)

lemma awake_server: "serverOf awakeState ''n1'' ''u1'' = commitInstanceState (newServerData ''r1'') exampleState"
  by (simp add: awakeState_def)

lemma awake_unbinds:
  "\<exists>st' pre req r post. ensureUnbound bindExampleEnv awakeState ''n1'' ''u1'' exampleRouted True = (st', None) \<and>
     dcalls st' = dcalls awakeState @ pre @ Http req r # post"
proof -
  let ?sd = "serverOf awakeState ''n1'' ''u1''"
  have rec: "recoverInstanceStateFromLauncherPod bindExampleEnv ?sd exampleRouted = Inr ?sd"
    by (simp add: awake_server recoverInstanceStateFromLauncherPod_def commitInstanceState_def exampleState_def)
  have keys: "mkeys (InstanceISCLabels ?sd) = [''model'']"
    by (simp add: awake_server commitInstanceState_def exampleState_def exampleRouting_def)
  let ?st0 = "assertDuality bindExampleEnv ''n1'' ''u1'' (ndNodeName (nodeOf awakeState ''n1'')) (modServer ''n1'' ''u1'' (\<lambda>_. ?sd) awakeState)"
  let ?q = "exampleRouted\<lparr>Labels := (Labels exampleRouted)(''model'' := None)\<rparr>"
  let ?st1 = "?st0\<lparr>dcalls := dcalls awakeState @ [UpdatePod ?q (Inr ?q)]\<rparr>"
  have rm: "removeISCRoutingLabels bindExampleEnv ?st0 exampleRouted (InstanceISCLabels ?sd) = (?st1, Inr ?q)"
    by (simp add: removeISCRoutingLabels_def keys exampleRouted_fields updatePod_def Let_def)
  have s1: "InstanceID (serverOf ?st1 ''n1'' ''u1'') \<noteq> []" "Sleeping (serverOf ?st1 ''n1'' ''u1'') = None"
    by (simp_all add: awake_server commitInstanceState_def exampleState_def newServerData_def)
  have ip: "PodIP (Status ?q) \<noteq> []" using exampleRouted_fields(2) by simp
  obtain st2 req1 r1 req r where sl: "putToSleep bindExampleEnv ?st1 ''n1'' ''u1'' ?q True = (st2, None)"
    "dcalls st2 = dcalls ?st1 @ [Http req1 r1, Http req r]"
    using bindExample_sleep [OF s1(1), of ?q] by (metis prod.collapse)
  obtain st' rest where "ensureUnbound bindExampleEnv awakeState ''n1'' ''u1'' exampleRouted True = (st', None)" "dcalls st' = dcalls st2 @ rest"
  proof (cases "snd (unboundPod (serverOf st2 ''n1'' ''u1'') ?q)")
    case True
    then show ?thesis using that rec rm s1(2) ip sl(1)
      by (simp add: ensureUnbound_def Let_def split_beta updatePod_def)
  next
    case False
    then show ?thesis using that [of st2 "[]"] rec rm s1(2) ip sl(1)
      by (simp add: ensureUnbound_def Let_def split_beta)
  qed
  then show ?thesis using sl(2)
    by (intro exI [of _ st'] exI [of _ "[UpdatePod ?q (Inr ?q)]"] exI [of _ req1] exI [of _ r1] exI [of _ "Http req r # rest"]) simp
qed

theorem derouted_before_sleep_witness:
  "\<exists>sent echo. UpdatePod sent (Inr echo) \<in> set (dcalls (fst (ensureUnbound bindExampleEnv awakeState ''n1'' ''u1'' exampleRouted True))) \<and>
     Labels sent ''model'' = None"
proof -
  obtain st' pre req r post where run: "ensureUnbound bindExampleEnv awakeState ''n1'' ''u1'' exampleRouted True = (st', None)"
    "dcalls st' = dcalls awakeState @ pre @ Http req r # post" using awake_unbinds by blast
  let ?sd = "serverOf awakeState ''n1'' ''u1''"
  have rec: "recoverInstanceStateFromLauncherPod bindExampleEnv ?sd exampleRouted = Inr ?sd"
    by (simp add: awake_server recoverInstanceStateFromLauncherPod_def commitInstanceState_def exampleState_def)
  have keys: "fst ` set (InstanceISCLabels ?sd) = {''model''}"
    by (simp add: awake_server commitInstanceState_def exampleState_def exampleRouting_def)
  have "\<not> labelsGone (InstanceISCLabels ?sd) exampleRouted" by (simp add: labelsGone_def keys exampleRouted_fields)
  with derouted_before_sleep [OF rec run] show ?thesis using run by (auto simp: labelsGone_def keys)
qed

theorem failed_finalizer_removal_is_not_retried_witness:
  "\<exists>env st err cached. removeProviderFinalizer env dpExampleState exampleBound = (st, Inl err, cached) \<and>
     removeProviderFinalizer env st cached = (st, Inr False, cached)"
proof -
  let ?env = "bindExampleEnv\<lparr>podUpdateD := (\<lambda>_ _. Inl ErrConflict)\<rparr>"
  have fin: "Finalizers exampleBound = [providerFinalizer]"
    by (simp add: exampleBound_def boundPod_def exampleLauncher_def blank_defs)
  then obtain st err cached where run: "removeProviderFinalizer ?env dpExampleState exampleBound = (st, Inl err, cached)"
    by (auto simp: removeProviderFinalizer_def SliceRemoveOnce_eq updatePod_def Let_def)
  from failed_finalizer_removal_is_not_retried [OF this] fin run show ?thesis by (metis distinct_singleton)
qed

theorem reported_state_settles_witness:
  "\<exists>st' r'. ensureReqState bindExampleEnv bindExampleState ''n1'' ''u1'' exampleRequester True False [''no IP''] = (st', prDone) \<and>
     ensureReqState bindExampleEnv st' ''n1'' ''u1'' r' False False [''no IP''] = (st', prDone) \<and> annot r' StatusAnnotationName = ''no IP''"
proof -
  let ?r' = "reqStatePod (serverOf bindExampleState ''n1'' ''u1'') ''no IP'' [requesterFinalizer] exampleRequester"
  let ?st' = "bindExampleState\<lparr>dcalls := dcalls bindExampleState @ [UpdatePod ?r' (Inr ?r')]\<rparr>"
  have st: "encodeStatus bindExampleEnv [''no IP''] = ''no IP''" by (simp add: bindExampleEnv_def dpExampleEnv_def)
  have run: "ensureReqState bindExampleEnv bindExampleState ''n1'' ''u1'' exampleRequester True False [''no IP''] = (?st', prDone)"
    by (simp add: ensureReqState_def st updatePod_def Let_def) (simp add: exampleRequester_def blank_defs)
  have "ProvidingPodName (serverOf bindExampleState ''n1'' ''u1'') = []"
    by (simp add: bindExample_server commitInstanceState_def newServerData_def)
  with reported_state_settles [OF run, of ?r' ?r'] st run show ?thesis by auto
qed

text \<open>Two Pods with servers on GPU 0, of which one may stay.\<close>

definition sleepingProvider :: "string \<Rightarrow> time \<Rightarrow> pod" where
  "sleepingProvider n t = blankPod\<lparr>Name := n, UID := ''uid-'' @ n, CreationTimestamp := t, Annotations := [nominalHashAnnotationKey \<mapsto> ''h''],
     Spec := blankPodSpec\<lparr>NodeName := ''n1'', Containers := [blankContainer\<lparr>ctrName := InferenceServerContainerName,
       Env := [\<lparr>evName = ''CUDA_VISIBLE_DEVICES'', evValue = ''0'', evFieldRef = None\<rparr>]\<rparr>]\<rparr>\<rparr>"

definition sleepersEnv :: dpEnv where
  "sleepersEnv = dpExampleEnv [sleepingProvider ''young'' 5, sleepingProvider ''old'' 1]"

definition sleepersState :: dpState where
  "sleepersState = modServer ''n1'' ''u1'' (\<lambda>sd. sd\<lparr>GPUIndices := [''0'']\<rparr>) bindExampleState"

lemma sleepingProvider_index: "GPUIndexFunc (sleepingProvider n t) = [''n1 0'']"
  by (simp add: GPUIndexFunc_def sleepingProvider_def annot_def blank_defs GetInferenceServerContainerIndex_def
      SliceIndexFeature_def SliceGetByFeature_def ContainerName_def EnvVarName_def trimWith_def Let_def)

lemma podsOnGPU_listed:
  "podsOnGPU sleepersEnv ''n1'' ''0'' = [sleepingProvider ''young'' 5, sleepingProvider ''old'' 1]"
  by (simp add: podsOnGPU_def byIndex_def sleepersEnv_def dpExampleEnv_def sleepingProvider_index)

lemma sleepers_deleted:
  "enforceSleeperBudget sleepersEnv sleepersState ''n1'' ''u1'' exampleRequester 1 =
     (sleepersState\<lparr>dcalls := [DeletePodD ''old'' (Some ''uid-old'') (Some ''1'') None]\<rparr>, None, True)"
proof -
  have st: "GPUIndices (serverOf sleepersState ''n1'' ''u1'') = [''0'']" "dcalls sleepersState = []"
    by (simp_all add: sleepersState_def bindExampleState_def dpExampleState_def)
  have fields: "Name (sleepingProvider n t) = n" "UID (sleepingProvider n t) = ''uid-'' @ n" "ResourceVersion (sleepingProvider n t) = ''1''"
    "podAge now (sleepingProvider n t) = Some (now - t)" for n t now
    by (simp_all add: sleepingProvider_def podAge_def blank_defs)
  have "NodeName (Spec exampleRequester) = ''n1''" "podDeleteD sleepersEnv h n u v = None" for h n u v
    by (simp_all add: exampleRequester_def sleepersEnv_def dpExampleEnv_def)
  then show ?thesis
    by (simp add: enforceSleeperBudget_def st budgetLoop_Cons podsOnGPU_listed lenMinus_def sliceCap_def comparePods_def fields
        deletePodPre_def Let_def)
qed

theorem sleeper_budget_met_witness:
  "\<exists>st' goners cs. enforceSleeperBudget sleepersEnv sleepersState ''n1'' ''u1'' exampleRequester 1 = (st', None, True) \<and>
     cs = [DeletePodD ''old'' (Some ''uid-old'') (Some ''1'') None] \<and> extends sleepersState cs st' \<and>
     deletesThese (set (podsOnGPU sleepersEnv ''n1'' ''0'')) {} goners cs \<and>
     length (podsOnGPU sleepersEnv ''n1'' ''0'') = 2 \<and>
     length (filter (\<lambda>p. Name p \<notin> goners) (podsOnGPU sleepersEnv ''n1'' ''0'')) \<le> 1"
proof -
  let ?c = "DeletePodD ''old'' (Some ''uid-old'') (Some ''1'') None"
  have st: "GPUIndices (serverOf sleepersState ''n1'' ''u1'') = [''0'']" "dcalls sleepersState = []" "NodeName (Spec exampleRequester) = ''n1''"
    by (simp_all add: sleepersState_def bindExampleState_def dpExampleState_def exampleRequester_def)
  from sleeper_budget_met [OF sleepers_deleted]
  obtain goners cs where "extends sleepersState cs (sleepersState\<lparr>dcalls := [?c]\<rparr>)"
    "deletesThese (set (podsOnGPU sleepersEnv ''n1'' ''0'')) {} goners cs"
    "int (length (filter (\<lambda>p. Name p \<notin> goners) (podsOnGPU sleepersEnv ''n1'' ''0''))) \<le> 1"
    by (auto simp: st)
  moreover from this(1) have "cs = [?c]" by (simp add: extends_def st)
  moreover have "length (podsOnGPU sleepersEnv ''n1'' ''0'') = 2" by (simp add: podsOnGPU_listed)
  ultimately show ?thesis using sleepers_deleted by auto
qed

end
