(* ===== verification/Inference_Server.thy ===== *)
theory Inference_Server
  imports Binding
begin

text \<open>
  Processing the items of a Node (\<^verbatim>\<open>inference-server.go\<close>): \<^verbatim>\<open>infSvrItem.process\<close> brings the inference server
  of one requester forward, in the stages of the Go function; \<^verbatim>\<open>unboundLauncherPodItem.process\<close> keeps what
  is known of a free launcher fresh; \<^verbatim>\<open>instanceGCItem.process\<close> deletes sleeping instances whose
  InferenceServerConfig has changed.  Log messages and latency histograms are left out.
\<close>


subsection \<open>The nominal server-providing Pod\<close>

definition zeroPod :: pod where
  "zeroPod = blankPod\<lparr>Namespace := [], ResourceVersion := [], Generation := 0\<rparr>"

definition nominalBase :: "pod \<Rightarrow> pod" where
  "nominalBase reqPod = zeroPod\<lparr>Labels := Labels reqPod, Namespace := Namespace reqPod, Spec := DeIndividualize (Spec reqPod)\<rparr>"

definition setCudaDevices :: "string \<Rightarrow> envVar list \<Rightarrow> envVar list" where
  "setCudaDevices indices evs =
     (let i = SliceIndexFeature evs EnvVarName ''CUDA_VISIBLE_DEVICES''
      in if i \<ge> 0 then evs[nat i := (evs ! nat i)\<lparr>evValue := indices\<rparr>] else evs @ [mkEnv ''CUDA_VISIBLE_DEVICES'' indices])"

definition zeroGPUs :: "resourceList option \<Rightarrow> resourceList option" where
  "zeroGPUs rl = Some ((case rl of None \<Rightarrow> Map.empty | Some m \<Rightarrow> m)(gpuResource \<mapsto> 0))"

definition nominalContainer :: "string \<Rightarrow> container \<Rightarrow> container" where
  "nominalContainer indices c = c\<lparr>Env := setCudaDevices indices (Env c), Limits := zeroGPUs (Limits c), Requests := zeroGPUs (Requests c)\<rparr>"

definition nominalPod :: "serverData \<Rightarrow> pod \<Rightarrow> string \<Rightarrow> string \<Rightarrow> nat \<Rightarrow> pod \<Rightarrow> pod" where
  "nominalPod sd reqPod indices nominalHash cIdx p =
     p\<lparr>Spec := (Spec p)\<lparr>Containers := (Containers (Spec p))[cIdx := nominalContainer indices (Containers (Spec p) ! cIdx)]\<rparr>,
       GenerateName := Name reqPod @ ''-dual-'',
       Finalizers := Finalizers p @ [providerFinalizer],
       Annotations := (MapSet (Annotations p) nominalHashAnnotationKey nominalHash)
         (RequesterAnnotationKey \<mapsto> UID reqPod @ '' '' @ Name reqPod,
          AcceleratorsAnnotationName \<mapsto> (case GPUIDsStr sd of None \<Rightarrow> [] | Some s \<Rightarrow> s)),
       Labels := (MapSet (Labels p) DualLabelName (Name reqPod))(SleepingLabelName \<mapsto> ''false'')\<rparr>"

text \<open>The Pod a server patch asks for, with its hash and port, computed from the requester.\<close>

definition computeNominal :: "dpEnv \<Rightarrow> serverData \<Rightarrow> pod \<Rightarrow> string \<Rightarrow> goError + pod \<times> string \<times> int" where
  "computeNominal env sd reqPod rawTmpl =
     (case templateParse env rawTmpl of
        Some err \<Rightarrow> Inl (Wrapped ''parse template'' (ErrorText err))
      | None \<Rightarrow>
     (case templateExecute env rawTmpl (NodeName (Spec reqPod)) of
        Inl err \<Rightarrow> Inl (Wrapped ''failed to execute server patch template'' (ErrorText err))
      | Inr renderedPatch \<Rightarrow>
     (case yamlToJSON env renderedPatch of
        Inl err \<Rightarrow> Inl (Wrapped ''failed to convert server patch yaml to json'' (ErrorText err))
      | Inr patchJSON \<Rightarrow>
     (case marshalPod env (nominalBase reqPod) of
        Inl err \<Rightarrow> Inl (Wrapped ''failed to marshal server-requesting pod'' (ErrorText err))
      | Inr baseJSON \<Rightarrow>
     (case strategicMerge env baseJSON patchJSON of
        Inl err \<Rightarrow> Inl (Wrapped ''failed to apply server patch'' (ErrorText err))
      | Inr modifiedJSON \<Rightarrow>
     (case GPUIndicesStr sd of
        None \<Rightarrow> Inl (GoPanic ''nil pointer dereference'')
      | Some indices \<Rightarrow>
     (let nominalHash = sha256std env (modifiedJSON @ '';gpus='' @ indices @ '';node='' @ NodeName (Spec reqPod))
      in (case decodePod env modifiedJSON of
            Inl err \<Rightarrow> Inl (Wrapped ''failed to unmarshal patched pod'' (ErrorText err))
          | Inr p0 \<Rightarrow>
              (let p = p0\<lparr>Spec := (Spec p0)\<lparr>NodeSelector := (NodeSelector (Spec p0))(hostnameLabel \<mapsto> NodeName (Spec reqPod))\<rparr>\<rparr>
               in (case GetInferenceServerContainerIndexAndPort p of
                     Inl err \<Rightarrow> Inl (ErrorText err)
                   | Inr (cIdx, serverPort) \<Rightarrow>
                       Inr (nominalPod sd reqPod indices nominalHash (nat cIdx) p, nominalHash, serverPort)))))))))))"

definition getNominalServerProvidingPod ::
  "dpEnv \<Rightarrow> dpState \<Rightarrow> string \<Rightarrow> string \<Rightarrow> pod \<Rightarrow> string \<Rightarrow> dpState \<times> (goError + pod \<times> string)" where
  "getNominalServerProvidingPod env st nn uid reqPod rawTmpl =
     (let sd = serverOf st nn uid
      in (case NominalProvidingPod sd of
            Some p \<Rightarrow> (st, Inr (p, NominalProvidingPodHash sd))
          | None \<Rightarrow>
              (case computeNominal env sd reqPod rawTmpl of
                 Inl err \<Rightarrow> (st, Inl err)
               | Inr (p, nominalHash, serverPort) \<Rightarrow>
                   (modServer nn uid (\<lambda>sd. sd\<lparr>ServerPort := serverPort, NominalProvidingPod := Some p, NominalProvidingPodHash := nominalHash\<rparr>) st,
                    Inr (p, nominalHash)))))"

text \<open>The regular expression \<^verbatim>\<open>^Pod "[a-z0-9.-]*" is invalid\<close>.\<close>

definition invalidPodRE_MatchString :: "string \<Rightarrow> bool" where
  "invalidPodRE_MatchString s \<longleftrightarrow> hasPrefix s (''Pod '' @ [CHR 0x22]) \<and>
     hasPrefix (dropWhile (\<lambda>c. isLowerAlnum c \<or> c = CHR ''.'' \<or> c = CHR ''-'') (drop 5 s)) ([CHR 0x22] @ '' is invalid'')"

subsection \<open>A requester with its provider\<close>

definition prError :: "goError \<Rightarrow> processResult" where
  "prError e = \<lparr>prErr = Some e, prRetry = False, prRetryAfter = 0\<rparr>"

definition prRetryOnly :: processResult where
  "prRetryOnly = \<lparr>prErr = None, prRetry = True, prRetryAfter = 0\<rparr>"

definition requestDeleted :: "string \<Rightarrow> string \<Rightarrow> dpState \<Rightarrow> dpState" where
  "requestDeleted nn uid st = modServer nn uid (\<lambda>sd. sd\<lparr>RequesterDeleteRequested := True\<rparr>) st"

text \<open>Making sure that the vLLM instance of a bound launcher exists; \<open>Inr ()\<close> goes on with it.\<close>

definition ensureInstance ::
  "dpEnv \<Rightarrow> dpState \<Rightarrow> string \<Rightarrow> string \<Rightarrow> pod \<Rightarrow> pod \<Rightarrow> dpState \<times> (processResult + unit)" where
  "ensureInstance env st nn uid requestingPod providingPod =
     (if PodIP (Status providingPod) = [] \<or> \<not> IsPodReady providingPod then (st, Inl prDone)
      else (case syncLauncherInstances env st nn (Some uid) providingPod of
              (st1, SyncNotReady) \<Rightarrow> (st1, Inl (prError (GoPanic ''nil pointer dereference'')))
            | (st1, SyncFailed err) \<Rightarrow> (st1, Inl (prRetryErr (Wrapped ''failed to sync launcher instances for bound launcher Pod'' err)))
            | (st1, Synced syncResult) \<Rightarrow>
                (let sd = serverOf st1 nn uid;
                     instancePresent = findInstanceState (Instances (lsInstances syncResult)) (InstanceID sd) \<noteq> None;
                     instanceStopped = InstanceID sd \<in> lsStopped syncResult;
                     known = (\<lambda>st. modServer nn uid (\<lambda>sd. sd\<lparr>InstanceKnownToExist := True\<rparr>) st)
                 in if instanceStopped \<or> \<not> instancePresent
                    then if instanceStopped \<or> InstanceKnownToExist sd
                         then (case deletePodPre env (modServer nn uid (\<lambda>sd. sd\<lparr>Sleeping := Some True\<rparr>) st1) (Name requestingPod)
                                      (Some uid) (Some (ResourceVersion requestingPod)) of
                                 (st2, err) \<Rightarrow>
                                   if (case err of None \<Rightarrow> False | Some e \<Rightarrow> \<not> isGone e \<and> \<not> isNotFound e)
                                   then (st2, Inl (prRetryErr (Wrapped ''failed to delete server-requesting Pod for stopped instance'' (ApiErr (the err)))))
                                   else (requestDeleted nn uid st2, Inl prDone))
                         else (let st2 = modServer nn uid (\<lambda>sd. sd\<lparr>NeededNewInstance := True\<rparr>) st1
                               in (case NewLauncherClient env (launcherBaseURL providingPod) of
                                     Inl err \<Rightarrow> (st2, Inl (prRetryErr err))
                                   | Inr base \<Rightarrow>
                                       (case InstanceConfig sd of
                                          None \<Rightarrow> (st2, Inl (prError (GoPanic ''nil pointer dereference'')))
                                        | Some cfg \<Rightarrow>
                                            (case CreateNamedInstance env st2 base (InstanceID sd) cfg of
                                               (st3, Inl err) \<Rightarrow>
                                                 (st3, Inl (prRetryErr (Wrapped (''failed to create vLLM instance '' @ strconv_Quote (InstanceID sd)) err)))
                                             | (st3, Inr _) \<Rightarrow>
                                                 (let st4 = getLauncherData (known st3) nn (Name providingPod);
                                                      now = nowD env st4
                                                  in (known (modLauncher nn (Name providingPod)
                                                        (\<lambda>ld. ld\<lparr>LastUsed := mput (InstanceID sd) now (LastUsed ld)\<rparr>) st4), Inr ()))))))
                    else (known st1, Inr ()))))"

definition relayReadiness ::
  "dpEnv \<Rightarrow> dpState \<Rightarrow> string \<Rightarrow> string \<Rightarrow> pod \<Rightarrow> bool \<Rightarrow> dpState \<times> processResult" where
  "relayReadiness env st nn uid requestingPod ready =
     (let sd = serverOf st nn uid;
          reqCS = getContainerStatus requestingPod InferenceServerContainerName;
          alreadyReady = (case reqCS of None \<Rightarrow> False | Some cs \<Rightarrow> csReady cs)
      in if ReadinessRelayed sd = Some ready then (st, prDone)
         else if ready = alreadyReady
         then (modServer nn uid (\<lambda>sd. sd\<lparr>ReadinessRelayed := Some ready, FirstReadyRelayed := (if ready then True else FirstReadyRelayed sd)\<rparr>) st, prDone)
         else (let url = ''http://'' @ PodIP (Status requestingPod) @ '':'' @ adminPortOf requestingPod @
                         (if ready then BecomeReadyPath else BecomeUnreadyPath)
               in (case doHTTP env st (''relay_'' @ (if ready then ''ready'' else ''unready'')) ''POST'' url None (\<lambda>_. Inr ()) of
                     (st1, _, Inl err) \<Rightarrow> (st1, prRetryErr err)
                   | (st1, _, Inr _) \<Rightarrow>
                       (modServer nn uid (\<lambda>sd. sd\<lparr>ReadinessRelayed := Some ready,
                           FirstReadyRelayed := (if ready \<and> \<not> FirstReadyRelayed sd \<and>
                             (case reqCS of None \<Rightarrow> False | Some cs \<Rightarrow> csRunning cs \<noteq> None) then True else FirstReadyRelayed sd)\<rparr>) st1, prDone))))"

text \<open>A server that is bound is made awake, its labels and the requester's state are reconciled, and its readiness is relayed.\<close>

definition serveBound ::
  "dpEnv \<Rightarrow> dpState \<Rightarrow> string \<Rightarrow> string \<Rightarrow> pod \<Rightarrow> pod \<Rightarrow> bool \<Rightarrow> int \<Rightarrow> bool \<Rightarrow> dpState \<times> processResult" where
  "serveBound env st nn uid requestingPod providingPod launcherBased serverPort shouldAddRequesterFinalizer =
     (case (case Sleeping (serverOf st nn uid) of
              Some sleeping \<Rightarrow> (st, Inr sleeping)
            | None \<Rightarrow>
                (case querySleeping env st providingPod serverPort of
                   (st1, Inl err) \<Rightarrow> (st1, Inl err)
                 | (st1, Inr sleeping) \<Rightarrow> (modServer nn uid (\<lambda>sd. sd\<lparr>Sleeping := Some sleeping\<rparr>) st1, Inr sleeping))) of
        (st1, Inl err) \<Rightarrow> (st1, \<lparr>prErr = Some err, prRetry = True, prRetryAfter = 5000000000\<rparr>)
      | (st1, Inr sleeping) \<Rightarrow>
     (case (if sleeping then wakeUp env st1 nn uid requestingPod providingPod serverPort else (st1, None)) of
        (st2, Some err) \<Rightarrow> (st2, prRetryErr err)
      | (st2, None) \<Rightarrow>
     (case (if launcherBased then applyBoundLauncherLabels env st2 nn uid requestingPod providingPod
            else (case ensureSleepingLabel env st2 providingPod (Sleeping (serverOf st2 nn uid) = Some True) of
                    (st3, Inl err) \<Rightarrow> (st3, StopErr err) | (st3, Inr p) \<Rightarrow> (st3, GoOn p))) of
        (st3, StopErr err) \<Rightarrow> (st3, prRetryErr err)
      | (st3, StopDone) \<Rightarrow> (st3, prDone)
      | (st3, GoOn p) \<Rightarrow>
     (case ensureReqState env st3 nn uid requestingPod shouldAddRequesterFinalizer False [] of
        (st4, out) \<Rightarrow>
          (case prErr out of
             Some err \<Rightarrow> (st4, prRetryErr err)
           | None \<Rightarrow>
               relayReadiness env st4 nn uid requestingPod
                 (if launcherBased then Sleeping (serverOf st4 nn uid) \<noteq> Some True else IsPodReady p))))))"

definition processBound ::
  "dpEnv \<Rightarrow> dpState \<Rightarrow> string \<Rightarrow> string \<Rightarrow> pod \<Rightarrow> pod \<Rightarrow> bool \<Rightarrow> bool \<Rightarrow> dpState \<times> processResult" where
  "processBound env st nn uid requestingPod providingPod launcherBased shouldAddRequesterFinalizer =
     (if launcherBased
      then (case recoverInstanceStateFromLauncherPod env (serverOf st nn uid) providingPod of
              Inl err \<Rightarrow> ensureReqStatus env st nn uid requestingPod [errText env err]
            | Inr sd \<Rightarrow>
                (case ensureInstance env (assertDuality env nn uid (ndNodeName (nodeOf st nn)) (modServer nn uid (\<lambda>_. sd) st)) nn uid
                        requestingPod providingPod of
                   (st1, Inl out) \<Rightarrow> (st1, out)
                 | (st1, Inr _) \<Rightarrow>
                     serveBound env st1 nn uid requestingPod providingPod True (ServerPort sd) shouldAddRequesterFinalizer))
      else (case GetInferenceServerContainerIndexAndPort providingPod of
              Inl err \<Rightarrow> (st, prRetryErr (Wrapped ''unable to wake up server because port not known'' (ErrorText err)))
            | Inr (_, serverPort) \<Rightarrow>
                serveBound env st nn uid requestingPod providingPod False serverPort shouldAddRequesterFinalizer))"


subsection \<open>A requester without provider\<close>

text \<open>What is done when the apiserver refuses to create a Pod: \<open>kind\<close> is the word for the Pod in the messages.\<close>

definition createFailed ::
  "dpEnv \<Rightarrow> dpState \<Rightarrow> string \<Rightarrow> string \<Rightarrow> pod \<Rightarrow> string \<Rightarrow> string \<Rightarrow> apiError \<Rightarrow> dpState \<times> processResult" where
  "createFailed env st nn uid requestingPod nominal kind err =
     (let errMsg = apiErrText env err
      in if invalidPodRE_MatchString errMsg then ensureReqStatus env st nn uid requestingPod [''the '' @ nominal @ '' '' @ errMsg]
         else (case ensureReqStatus env st nn uid requestingPod [''failed to create '' @ kind @ '' Pod: '' @ errMsg] of
                 (st1, inner) \<Rightarrow>
                   (st1, prRetryErr (Joined (Wrapped (''failed to create '' @ kind @ '' Pod'') (ApiErr err) #
                           (case prErr inner of None \<Rightarrow> [] | Some e \<Rightarrow> [e]))))))"

definition provideDirect :: "dpEnv \<Rightarrow> dpState \<Rightarrow> string \<Rightarrow> string \<Rightarrow> pod \<Rightarrow> dpState \<times> processResult" where
  "provideDirect env st nn uid requestingPod =
     (let serverPatch = annot requestingPod ServerPatchAnnotationName
      in if serverPatch = []
         then ensureReqStatus env st nn uid requestingPod [''the '' @ ServerPatchAnnotationName @ '' annotation is missing'']
         else (case getNominalServerProvidingPod env st nn uid requestingPod serverPatch of
                 (st1, Inl err) \<Rightarrow>
                   (case err of
                      GoPanic m \<Rightarrow> (st1, prError (GoPanic m))
                    | _ \<Rightarrow> ensureReqStatus env st1 nn uid requestingPod
                            [''failed to construct the nominal server-providing Pod: '' @ errText env err])
               | (st1, Inr (desiredProvidingPod, nominalHash)) \<Rightarrow>
                   (case byIndex env nominalHashIndexFunc nominalHash of
                      providingPod # _ \<Rightarrow> bind env st1 nn uid requestingPod providingPod None False
                    | [] \<Rightarrow>
                        (case enforceSleeperBudget env st1 nn uid requestingPod (sleeperLimit env) of
                           (st2, err, retry) \<Rightarrow>
                             if err \<noteq> None \<or> retry then (st2, \<lparr>prErr = err, prRetry = retry, prRetryAfter = 0\<rparr>)
                             else (case createPod env st2 desiredProvidingPod of
                                     (st3, Inl e) \<Rightarrow>
                                       createFailed env st3 nn uid requestingPod ''nominal server-providing'' ''server-providing'' e
                                   | (st3, Inr _) \<Rightarrow>
                                       ensureReqStatus env (modServer nn uid (\<lambda>sd. sd\<lparr>Sleeping := Some False\<rparr>) st3) nn uid requestingPod [])))))"

text \<open>A launcher Pod created bound to the requester.\<close>

definition newLauncherPod :: "dpEnv \<Rightarrow> pod \<Rightarrow> pod \<Rightarrow> vllmInstanceState \<Rightarrow> string list + pod" where
  "newLauncherPod env requestingPod desiredLauncherPod desiredInstanceState =
     (case applyControllerMetadataToLauncherPod env
             (desiredLauncherPod\<lparr>
                Annotations := MapSet (Annotations desiredLauncherPod) RequesterAnnotationKey (UID requestingPod @ '' '' @ Name requestingPod),
                Labels := MapSet (Labels desiredLauncherPod) DualLabelName (Name requestingPod)\<rparr>)
             desiredInstanceState of
        Inl problems \<Rightarrow> Inl problems
      | Inr p \<Rightarrow> Inr (if providerFinalizer \<in> set (Finalizers p) then p else p\<lparr>Finalizers := Finalizers p @ [providerFinalizer]\<rparr>))"

definition createLauncher ::
  "dpEnv \<Rightarrow> dpState \<Rightarrow> string \<Rightarrow> string \<Rightarrow> pod \<Rightarrow> pod \<Rightarrow> vllmInstanceState \<Rightarrow> dpState \<times> processResult" where
  "createLauncher env st nn uid requestingPod desiredLauncherPod desiredInstanceState =
     (let st1 = modServer nn uid (\<lambda>sd. sd\<lparr>NeededNewLauncher := True\<rparr>) st
      in (case newLauncherPod env requestingPod desiredLauncherPod desiredInstanceState of
            Inl problems \<Rightarrow> ensureReqStatus env st1 nn uid requestingPod problems
          | Inr p \<Rightarrow>
              (case createPod env st1 p of
                 (st2, Inl e) \<Rightarrow>
                   createFailed env st2 nn uid requestingPod ''desired launcher-based server-providing'' ''launcher-based server-providing'' e
               | (st2, Inr echo) \<Rightarrow>
                   ensureReqStatus env (assertDuality env nn uid (ndNodeName (nodeOf st2 nn))
                     (modServer nn uid (\<lambda>sd. (commitInstanceState (sd\<lparr>Sleeping := None\<rparr>) desiredInstanceState)\<lparr>ProvidingPodName := Name echo\<rparr>) st2))
                     nn uid requestingPod [])))"

definition provideLauncherBased ::
  "dpEnv \<Rightarrow> dpState \<Rightarrow> string \<Rightarrow> string \<Rightarrow> pod \<Rightarrow> inferenceServerConfig \<Rightarrow> vllmInstanceState \<Rightarrow> dpState \<times> processResult" where
  "provideLauncherBased env st nn uid requestingPod isc desiredInstanceState =
     (let lcName = LauncherConfigName isc
      in (case lcGetD env lcName of
            Inl err \<Rightarrow>
              ensureReqStatus env st nn uid requestingPod [''failed to get LauncherConfig '' @ strconv_Quote lcName @ '': '' @ apiErrText env err]
          | Inr lc \<Rightarrow>
              (case BuildNodeIndependentLauncherTemplate (marshalPod env) (sha256std env) lc of
                 Inl err \<Rightarrow>
                   (st, prRetryErr (Wrapped (''failed to build launcher Pod from LauncherConfig '' @ strconv_Quote lcName) (ErrorText err)))
               | Inr (nodeIndependent, _) \<Rightarrow>
                   (let desiredLauncherPod = SpecializeLauncherTemplateToNode (sha256std env) nodeIndependent (NodeName (Spec requestingPod));
                        lcHash = annot desiredLauncherPod LauncherConfigHashAnnotationKey;
                        launcherPods = byIndex env launcherConfigHashIndexFunc lcHash
                    in (case (if launcherPods = [] then (st, SelectNone)
                              else selectOrReclaimLauncherPod env st nn uid launcherPods (visInstanceID desiredInstanceState)
                                     (visServerPort desiredInstanceState) (MaxInstances lc - 1)) of
                          (st1, SelectFailed err) \<Rightarrow> (st1, prRetryErr err)
                        | (st1, SelectPanics) \<Rightarrow> (st1, prError (GoPanic ''index out of range''))
                        | (st1, SelectRetry) \<Rightarrow> (st1, prRetryOnly)
                        | (st1, Selected launcherPod _) \<Rightarrow> bind env st1 nn uid requestingPod launcherPod (Some desiredInstanceState) True
                        | (st1, SelectNone) \<Rightarrow> createLauncher env st1 nn uid requestingPod desiredLauncherPod desiredInstanceState)))))"

subsection \<open>Processing an inference server\<close>

text \<open>The GPUs of the requester, asked of it once; \<open>Inl\<close> ends the processing.\<close>

definition fetchGPUs :: "dpEnv \<Rightarrow> dpState \<Rightarrow> string \<Rightarrow> string \<Rightarrow> pod \<Rightarrow> bool \<Rightarrow> dpState \<times> (processResult + unit)" where
  "fetchGPUs env st nn uid requestingPod launcherBased =
     (case (if GPUIDsStr (serverOf st nn uid) \<noteq> None then (st, Inr ())
            else (let url = ''http://'' @ PodIP (Status requestingPod) @ '':'' @ adminPortOf requestingPod @ AcceleratorQueryPath
                  in (case getGPUUUIDs env st url of
                        (st1, Inl err) \<Rightarrow>
                          (let queryErr = ErrorText (''GET '' @ strconv_Quote url @ '' fails: '' @ errText env err)
                           in (case ensureReqStatus env st1 nn uid requestingPod [errText env queryErr] of
                                 (st2, out) \<Rightarrow> (st2, Inl (prRetryErr (Joined (queryErr # (case prErr out of None \<Rightarrow> [] | Some e \<Rightarrow> [e])))))))
                      | (st1, Inr gpuUUIDs) \<Rightarrow>
                          if gpuUUIDs = []
                          then (case ensureReqStatus env st1 nn uid requestingPod [''the assigned set of GPUs is empty''] of (st2, out) \<Rightarrow> (st2, Inl out))
                          else (modServer nn uid (\<lambda>sd. sd\<lparr>GPUIDs := gpuUUIDs, GPUIDsStr := Some (strings_Join gpuUUIDs '','')\<rparr>) st1, Inr ())))) of
        (st1, Inl out) \<Rightarrow> (st1, Inl out)
      | (st1, Inr _) \<Rightarrow>
          if launcherBased \<or> GPUIndicesStr (serverOf st1 nn uid) \<noteq> None then (st1, Inr ())
          else (case mapToGPUIndices st1 (NodeName (Spec requestingPod)) (GPUIDs (serverOf st1 nn uid)) of
                  (_, Some err) \<Rightarrow>
                    (case ensureReqStatus env st1 nn uid requestingPod [errText env err] of (st2, out) \<Rightarrow> (st2, Inl out))
                | (gpuIndices, None) \<Rightarrow>
                    (modServer nn uid (\<lambda>sd. sd\<lparr>GPUIndices := gpuIndices, GPUIndicesStr := Some (strings_Join gpuIndices '','')\<rparr>) st1, Inr ())))"

text \<open>A requester without provider on a Node that takes no Pods is deleted.\<close>

definition deleteOnUnschedulable :: "dpEnv \<Rightarrow> dpState \<Rightarrow> pod \<Rightarrow> dpState \<times> processResult" where
  "deleteOnUnschedulable env st requestingPod =
     (case deletePodPre env st (Name requestingPod) None None of
        (st1, Some e) \<Rightarrow> (st1, prError (Wrapped ''failed to delete server-requesting Pod on unschedulable Node'' (ApiErr e)))
      | (st1, None) \<Rightarrow> (st1, prDone))"

text \<open>A requester that exists, is not being deleted, and whose provider, if any, is not being deleted.\<close>

definition processLive ::
  "dpEnv \<Rightarrow> dpState \<Rightarrow> string \<Rightarrow> string \<Rightarrow> pod \<Rightarrow> pod option \<Rightarrow> bool \<Rightarrow> dpState \<times> processResult" where
  "processLive env st nn uid requestingPod providingPod shouldAddRequesterFinalizer =
     (case nodeGetD env (NodeName (Spec requestingPod)) of
        Inl err \<Rightarrow> (st, if isNotFound err then prDone else prRetryErr (ApiErr err))
      | Inr node \<Rightarrow>
          if DeletionTimestamp node \<noteq> None then (st, prDone)
          else if PodIP (Status requestingPod) = []
          then ensureReqState env st nn uid requestingPod shouldAddRequesterFinalizer False [''no IP assigned yet'']
          else (let launcherBased = (Annotations requestingPod InferenceServerConfigAnnotationName \<noteq> None);
                    iscName = annot requestingPod InferenceServerConfigAnnotationName
                in (case fetchGPUs env st nn uid requestingPod launcherBased of
                      (st1, Inl out) \<Rightarrow> (st1, out)
                    | (st1, Inr _) \<Rightarrow>
                        (case providingPod of
                           Some p \<Rightarrow> processBound env st1 nn uid requestingPod p launcherBased shouldAddRequesterFinalizer
                         | None \<Rightarrow>
                             (if \<not> launcherBased
                                 then if Unschedulable node then deleteOnUnschedulable env st1 requestingPod else provideDirect env st1 nn uid requestingPod
                                 else if iscName = []
                                 then ensureReqStatus env st1 nn uid requestingPod
                                        [''empty value for annotation '' @ strconv_Quote InferenceServerConfigAnnotationName]
                                 else (case iscGet env iscName of
                                         Inl err \<Rightarrow>
                                           ensureReqStatus env st1 nn uid requestingPod
                                             [''failed to get InferenceServerConfig '' @ strconv_Quote iscName @ '': '' @ apiErrText env err]
                                       | Inr isc \<Rightarrow>
                                           (case computeDesiredInstanceState env isc (GPUIDs (serverOf st1 nn uid)) of
                                              Inl err \<Rightarrow>
                                                ensureReqStatus env st1 nn uid requestingPod [''failed to configure inference server: '' @ errText env err]
                                            | Inr desired \<Rightarrow>
                                                if Unschedulable node then deleteOnUnschedulable env st1 requestingPod
                                                else provideLauncherBased env st1 nn uid requestingPod isc desired)))))))"

text \<open>A provider that is being deleted takes its requester with it and is let go.\<close>

definition providerGoing ::
  "dpEnv \<Rightarrow> dpState \<Rightarrow> string \<Rightarrow> string \<Rightarrow> pod option \<Rightarrow> pod \<Rightarrow> bool \<Rightarrow> dpState \<times> processResult" where
  "providerGoing env st nn uid requestingPod providingPod shouldAddRequesterFinalizer =
     (case (case requestingPod of
              None \<Rightarrow> (st, None)
            | Some r \<Rightarrow>
                if DeletionTimestamp r \<noteq> None then (st, None)
                else (case (if shouldAddRequesterFinalizer
                            then addRequesterFinalizer env st r (Name providingPod) (InstanceID (serverOf st nn uid))
                            else (st, Inr (ResourceVersion r))) of
                        (st1, Inl err) \<Rightarrow> (st1, Some err)
                      | (st1, Inr gonerRV) \<Rightarrow>
                          (case deletePodPre env st1 (Name r) (Some uid) (Some gonerRV) of
                             (st2, Some e) \<Rightarrow>
                               if isGone e \<or> isNotFound e then (requestDeleted nn uid st2, None)
                               else (st2, Some (Wrapped ''failed to delete server-requesting Pod'' (ApiErr e)))
                           | (st2, None) \<Rightarrow> (requestDeleted nn uid st2, None)))) of
        (st1, Some err) \<Rightarrow> (st1, prRetryErr err)
      | (st1, None) \<Rightarrow>
          (case removeProviderFinalizer env st1 providingPod of
             (st2, Inl err, _) \<Rightarrow> (st2, prRetryErr err)
           | (st2, Inr _, _) \<Rightarrow> (st2, prDone)))"

text \<open>A requester that is gone or going leaves its provider unbound, or deleted when it is in trouble.\<close>

definition requesterGoing :: "dpEnv \<Rightarrow> dpState \<Rightarrow> string \<Rightarrow> string \<Rightarrow> pod option \<Rightarrow> pod \<Rightarrow> dpState \<times> processResult" where
  "requesterGoing env st nn uid requestingPod providingPod =
     (let unbind = (\<lambda>st. case ensureUnbound env st nn uid providingPod (Labels providingPod LauncherConfigNameLabelKey \<noteq> None) of
                       (st1, Some err) \<Rightarrow> (st1, prRetryErr err)
                     | (st1, None) \<Rightarrow>
                         (case requestingPod of
                            Some r \<Rightarrow> ensureReqState env st1 nn uid r False True []
                          | None \<Rightarrow> (st1, prDone)))
      in if PodIsInTrouble providingPod
         then (case deletePodPre env st (Name providingPod) (Some (UID providingPod)) (Some (ResourceVersion providingPod)) of
                 (st1, None) \<Rightarrow> (st1, prDone)
               | (st1, Some _) \<Rightarrow> unbind st1)
         else unbind st)"

definition processPair ::
  "dpEnv \<Rightarrow> dpState \<Rightarrow> string \<Rightarrow> string \<Rightarrow> pod option \<Rightarrow> pod option \<Rightarrow> dpState \<times> processResult" where
  "processPair env st nn uid requestingPod providingPod =
     (case (case requestingPod of
              None \<Rightarrow> (st, Inr (False, False))
            | Some r \<Rightarrow> maybeRemoveRequesterFinalizer env st r providingPod) of
        (st1, Inl err) \<Rightarrow> (st1, prRetryErr err)
      | (st1, Inr (removed, shouldAdd)) \<Rightarrow>
          if removed then (st1, prDone)
          else (case providingPod of
                  Some p \<Rightarrow>
                    if DeletionTimestamp p \<noteq> None then providerGoing env st1 nn uid requestingPod p shouldAdd
                    else (case requestingPod of
                            None \<Rightarrow> requesterGoing env st1 nn uid requestingPod p
                          | Some r \<Rightarrow>
                              if DeletionTimestamp r \<noteq> None then requesterGoing env st1 nn uid requestingPod p
                              else if NodeName (Spec r) = [] then ensureReqStatus env st1 nn uid r [''not scheduled yet'']
                              else if RequesterDeleteRequested (serverOf st1 nn uid) then (st1, prDone)
                              else processLive env st1 nn uid r providingPod shouldAdd)
                | None \<Rightarrow>
                    (case requestingPod of
                       None \<Rightarrow> (st1, prError (GoPanic ''nil pointer dereference''))
                     | Some r \<Rightarrow>
                         if NodeName (Spec r) = [] then ensureReqStatus env st1 nn uid r [''not scheduled yet'']
                         else if DeletionTimestamp r \<noteq> None \<or> RequesterDeleteRequested (serverOf st1 nn uid) then (st1, prDone)
                         else processLive env st1 nn uid r None shouldAdd)))"

text \<open>The provider is the one Pod bound to the requester's UID; both Pods gone is the end of the inference server.\<close>

definition infSvrPods :: "dpEnv \<Rightarrow> dpState \<Rightarrow> string \<Rightarrow> string \<Rightarrow> pod option \<Rightarrow> dpState \<times> processResult" where
  "infSvrPods env st nn uid requestingPod =
     (case byIndex env requesterIndexFunc uid of
        [] \<Rightarrow>
          (case requestingPod of
             None \<Rightarrow>
               (let sd = serverOf st nn uid; st1 = clearServerData st nn uid
                in (if InstanceID sd \<noteq> [] then ensureDualityMetric env sd (ndNodeName (nodeOf st nn)) False st1 else st1, prDone))
           | Some r \<Rightarrow> processPair env st nn uid requestingPod None)
      | [p] \<Rightarrow> processPair env (modServer nn uid (\<lambda>sd. sd\<lparr>ProvidingPodName := Name p\<rparr>) st) nn uid requestingPod (Some p)
      | ps \<Rightarrow> (st, prError (ErrorText (''found multiple bound server-running Pods: ['' @ strings_Join (map Name ps) '' '' @ '']''))))"

definition infSvrItem_process :: "dpEnv \<Rightarrow> dpState \<Rightarrow> string \<Rightarrow> string \<Rightarrow> string \<Rightarrow> dpState \<times> processResult" where
  "infSvrItem_process env st nn uid requesterName =
     (let st0 = getServerData st nn requesterName uid
      in (case podGet env requesterName of
            Inl err \<Rightarrow> if isNotFound err then infSvrPods env st0 nn uid None else (st0, prRetryErr (ApiErr err))
          | Inr r \<Rightarrow> infSvrPods env st0 nn uid (Some r)))"


subsection \<open>Unbound launchers and obsolete instances\<close>

definition unboundLauncherPodItem_process ::
  "dpEnv \<Rightarrow> dpState \<Rightarrow> string \<Rightarrow> string \<Rightarrow> string \<Rightarrow> dpState \<times> processResult" where
  "unboundLauncherPodItem_process env st nn launcherPodName nodeName =
     (case podGet env launcherPodName of
        Inl err \<Rightarrow>
          if isNotFound err
          then (enqueueUnboundInfSvrItemsOnNode env nodeName (clearLauncherData st nn launcherPodName), prDone)
          else (st, prRetryErr (ApiErr err))
      | Inr launcherPod \<Rightarrow>
          (case syncLauncherInstances env st nn None launcherPod of
             (st1, ans) \<Rightarrow>
               (enqueueUnboundInfSvrItemsOnNode env nodeName st1,
                (case ans of
                   SyncFailed err \<Rightarrow> prRetryErr (Wrapped ''failed to sync launcher instances'' err)
                 | _ \<Rightarrow> prDone))))"

text \<open>One instance of a launcher, looked at for an InferenceServerConfig.\<close>

definition gcInstance ::
  "dpEnv \<Rightarrow> string \<Rightarrow> inferenceServerConfig \<Rightarrow> pod \<Rightarrow> string \<Rightarrow> instanceState \<Rightarrow> dpState \<Rightarrow> dpState" where
  "gcInstance env nn isc launcherPod base inst st =
     (if instAnnot inst VllmConfigISCNameAnnotationKey \<noteq> Name isc then st
      else if vcGpuUUIDs (instConfig inst) = [] then st
      else (case configInferenceServer env isc (vcGpuUUIDs (instConfig inst)) of
              Inl _ \<Rightarrow> st
            | Inr (_, currentHash) \<Rightarrow>
                if instID inst = currentHash then st
                else (case getVLLMInstancePort inst of
                        Inl _ \<Rightarrow> st
                      | Inr instPort \<Rightarrow>
                          (case querySleeping env st launcherPod instPort of
                             (st1, Inl _) \<Rightarrow> st1
                           | (st1, Inr sleeping) \<Rightarrow>
                               if \<not> sleeping then st1
                               else (case DeleteInstance env st1 base (instID inst) of
                                       (st2, Inl _) \<Rightarrow> st2
                                     | (st2, Inr _) \<Rightarrow> deleteKnown nn (Name launcherPod) (instID inst) st2)))))"

definition gcLauncher :: "dpEnv \<Rightarrow> string \<Rightarrow> inferenceServerConfig \<Rightarrow> string \<Rightarrow> dpState \<Rightarrow> dpState" where
  "gcLauncher env nn isc launcherPodName st =
     (case podGet env launcherPodName of
        Inl _ \<Rightarrow> st
      | Inr launcherPod \<Rightarrow>
          if DeletionTimestamp launcherPod \<noteq> None \<or> PodIP (Status launcherPod) = [] then st
          else (case NewLauncherClient env (launcherBaseURL launcherPod) of
                  Inl _ \<Rightarrow> st
                | Inr base \<Rightarrow>
                    (case ListInstances env st base of
                       (st1, Inl _) \<Rightarrow> st1
                     | (st1, Inr allInsts) \<Rightarrow> fold (gcInstance env nn isc launcherPod base) (Instances allInsts) st1)))"

definition instanceGCItem_process :: "dpEnv \<Rightarrow> dpState \<Rightarrow> string \<Rightarrow> string \<Rightarrow> dpState \<times> processResult" where
  "instanceGCItem_process env st nn iscName =
     (case iscGet env iscName of
        Inl err \<Rightarrow> (st, if isNotFound err then prDone else prRetryErr (ApiErr err))
      | Inr isc \<Rightarrow> (fold (gcLauncher env nn isc) (mkeys (Launchers (nodeOf st nn))) st, prDone))"

text \<open>The \<^verbatim>\<open>process\<close> method of the three kinds of item.\<close>

fun process :: "dpEnv \<Rightarrow> dpState \<Rightarrow> string \<Rightarrow> itemOnNode \<Rightarrow> dpState \<times> processResult" where
  "process env st nn (InfSvrItem uid requesterName) = infSvrItem_process env st nn uid requesterName"
| "process env st nn (UnboundLauncherPodItem launcherPodName nodeName) = unboundLauncherPodItem_process env st nn launcherPodName nodeName"
| "process env st nn (InstanceGCItem iscName) = instanceGCItem_process env st nn iscName"

end
