(* ===== verification/Call_Policy.thy ===== *)
theory Call_Policy
  imports Inference_Server
begin

text \<open>
  What the controller may ask of the cluster.  A policy says, for every call, whether it is allowed after the calls
  made before; the operations that only query, report or tidy follow every policy that allows such calls, which is
  proved once and used for each policy.
\<close>

subsection \<open>Following a policy\<close>

text \<open>From one state to another only allowed calls are made, and the invariant \<open>I\<close> is kept.\<close>

definition follows :: "(dpCall list \<Rightarrow> dpCall \<Rightarrow> bool) \<Rightarrow> (dpState \<Rightarrow> bool) \<Rightarrow> dpState \<Rightarrow> dpState \<Rightarrow> bool" where
  "follows ok I st st' \<longleftrightarrow>
     (\<exists>cs. extends st cs st' \<and> (\<forall>pre c post. cs = pre @ c # post \<longrightarrow> ok (dcalls st @ pre) c)) \<and> (I st \<longrightarrow> I st')"

named_theorems follows_rules \<open>how a step of a run follows a policy\<close>

lemma follows_refl [simp]: "follows ok I st st"
  by (auto simp: follows_def intro!: exI [of _ "[]"])

lemma follows_same: "follows ok I st s \<Longrightarrow> dcalls s' = dcalls s \<Longrightarrow> (I s \<Longrightarrow> I s') \<Longrightarrow> follows ok I st s'"
  by (auto simp: follows_def extends_def)

lemma follows_call:
  assumes "follows ok I st s" and "ok (dcalls s) c" and "dcalls s' = dcalls s @ [c]" and "I s \<Longrightarrow> I s'"
  shows "follows ok I st s'"
proof -
  from assms(1) obtain cs where cs: "dcalls s = dcalls st @ cs" "\<And>pre c post. cs = pre @ c # post \<Longrightarrow> ok (dcalls st @ pre) c"
    by (auto simp: follows_def extends_def)
  have "ok (dcalls st @ pre) d" if "cs @ [c] = pre @ d # post" for pre d post
    using that cs assms(2) by (cases post rule: rev_cases) auto
  then show ?thesis using cs(1) assms by (auto simp: follows_def extends_def intro!: exI [of _ "cs @ [c]"])
qed

lemma follows_grows: "follows ok I st st' \<Longrightarrow> \<exists>cs. dcalls st' = dcalls st @ cs"
  by (auto simp: follows_def extends_def)

lemma follows_mono: "follows ok I st st' \<Longrightarrow> (\<And>h c. ok h c \<Longrightarrow> ok' h c) \<Longrightarrow> follows ok' I st st'"
  unfolding follows_def by blast

lemma follows_keeps: "follows ok I st st' \<Longrightarrow> I st \<Longrightarrow> I st'"
  by (simp add: follows_def)

text \<open>The state, and the branches of a definition.\<close>

lemma follows_leaf [follows_rules]: "follows ok I st s \<Longrightarrow> follows ok I st (fst (s, x))" by simp

lemma follows_prod [follows_rules]:
  "follows ok I st (fst x) \<Longrightarrow> (\<And>a b. x = (a, b) \<Longrightarrow> follows ok I st a \<Longrightarrow> follows ok I st (fst (f a b))) \<Longrightarrow>
   follows ok I st (fst (case x of (a, b) \<Rightarrow> f a b))"
  by (cases x) simp

lemma follows_pair: "(\<And>a b. x = (a, b) \<Longrightarrow> follows ok I st (fst (f a b))) \<Longrightarrow> follows ok I st (fst (case x of (a, b) \<Rightarrow> f a b))"
  by (cases x) simp

lemmas follows_pairs [follows_rules] = follows_pair [where 'a = nat] follows_pair [where 'a = bool] follows_pair [where 'a = string]
  follows_pair [where 'a = "string set"] follows_pair [where 'a = "goError option"] follows_pair [where 'a = "goError + bool"]
  follows_pair [where 'a = pod] follows_pair [where 'a = "string list"] follows_pair [where 'a = int] follows_pair [where 'a = vllmConfig]

lemma follows_if [follows_rules]:
  "(c \<Longrightarrow> follows ok I st (fst x)) \<Longrightarrow> (\<not> c \<Longrightarrow> follows ok I st (fst y)) \<Longrightarrow> follows ok I st (fst (if c then x else y))"
  "(c \<Longrightarrow> follows ok I st s) \<Longrightarrow> (\<not> c \<Longrightarrow> follows ok I st s') \<Longrightarrow> follows ok I st (if c then s else s')"
  by simp_all

lemma follows_let [follows_rules]: "follows ok I st (fst (f x)) \<Longrightarrow> follows ok I st (fst (Let x f))" by simp

lemma follows_sum [follows_rules]:
  "(\<And>e. x = Inl e \<Longrightarrow> follows ok I st (fst (f e))) \<Longrightarrow> (\<And>y. x = Inr y \<Longrightarrow> follows ok I st (fst (g y))) \<Longrightarrow>
   follows ok I st (fst (case x of Inl e \<Rightarrow> f e | Inr y \<Rightarrow> g y))"
  "(\<And>e. x = Inl e \<Longrightarrow> follows ok I st (f' e)) \<Longrightarrow> (\<And>y. x = Inr y \<Longrightarrow> follows ok I st (g' y)) \<Longrightarrow>
   follows ok I st (case x of Inl e \<Rightarrow> f' e | Inr y \<Rightarrow> g' y)"
  by (cases x; simp)+

lemma follows_option [follows_rules]:
  "(x = None \<Longrightarrow> follows ok I st (fst a)) \<Longrightarrow> (\<And>y. x = Some y \<Longrightarrow> follows ok I st (fst (g y))) \<Longrightarrow>
   follows ok I st (fst (case x of None \<Rightarrow> a | Some y \<Rightarrow> g y))"
  "(x = None \<Longrightarrow> follows ok I st b) \<Longrightarrow> (\<And>y. x = Some y \<Longrightarrow> follows ok I st (h y)) \<Longrightarrow>
   follows ok I st (case x of None \<Rightarrow> b | Some y \<Rightarrow> h y)"
  by (cases x; simp)+

lemma follows_list [follows_rules]:
  "(x = [] \<Longrightarrow> follows ok I st (fst a)) \<Longrightarrow> (\<And>y ys. x = y # ys \<Longrightarrow> follows ok I st (fst (g y ys))) \<Longrightarrow>
   follows ok I st (fst (case x of [] \<Rightarrow> a | y # ys \<Rightarrow> g y ys))"
  by (cases x) simp_all

lemma follows_answers [follows_rules]:
  "follows ok I st (fst a) \<Longrightarrow> (\<And>e. s = SyncFailed e \<Longrightarrow> follows ok I st (fst (f e))) \<Longrightarrow> (\<And>r. s = Synced r \<Longrightarrow> follows ok I st (fst (g r))) \<Longrightarrow>
   follows ok I st (fst (case s of SyncNotReady \<Rightarrow> a | SyncFailed e \<Rightarrow> f e | Synced r \<Rightarrow> g r))"
  "(\<And>p. l = GoOn p \<Longrightarrow> follows ok I st (fst (gp p))) \<Longrightarrow> (\<And>e. follows ok I st (fst (fe e))) \<Longrightarrow> follows ok I st (fst d) \<Longrightarrow>
   follows ok I st (fst (case l of GoOn p \<Rightarrow> gp p | StopErr e \<Rightarrow> fe e | StopDone \<Rightarrow> d))"
  "(\<And>p b. r = Selected p b \<Longrightarrow> follows ok I st (fst (fs p b))) \<Longrightarrow> follows ok I st (fst a1) \<Longrightarrow> (\<And>e. follows ok I st (fst (ff e))) \<Longrightarrow>
   (r = SelectNone \<Longrightarrow> follows ok I st (fst a2)) \<Longrightarrow> follows ok I st (fst a3) \<Longrightarrow>
   follows ok I st (fst (case r of Selected p b \<Rightarrow> fs p b | SelectRetry \<Rightarrow> a1 | SelectFailed e \<Rightarrow> ff e | SelectNone \<Rightarrow> a2 | SelectPanics \<Rightarrow> a3))"
  by (simp_all split: syncAnswer.split labelsResult.split selectResult.split)

lemma follows_panic [follows_rules]:
  "(\<And>m. follows ok I st (fst (f m))) \<Longrightarrow> follows ok I st (fst a) \<Longrightarrow> follows ok I st (fst (case e of GoPanic m \<Rightarrow> f m | _ \<Rightarrow> a))"
  by (cases e) simp_all

text \<open>The part of a server's data that invariants are about.\<close>

definition core :: "serverData \<Rightarrow> pod option \<times> string \<times> string \<times> vllmConfig option" where
  "core sd = (NominalProvidingPod sd, NominalProvidingPodHash sd, InstanceID sd, InstanceConfig sd)"

lemma serverOf_other: "serverOf (modServer mm v f s) nn uid = (if mm = nn \<and> v = uid then f (serverOf s nn uid) else serverOf s nn uid)"
  by (auto simp: serverOf_def modServer_def gomap_simps nodeOf_modNode)

lemma core_update [simp]:
  "core (sd\<lparr>Sleeping := a\<rparr>) = core sd" "core (sd\<lparr>InstancesDeleted := b\<rparr>) = core sd" "core (sd\<lparr>GPUIDs := c, GPUIDsStr := d\<rparr>) = core sd"
  "core (sd\<lparr>GPUIndices := e, GPUIndicesStr := f\<rparr>) = core sd" "core (sd\<lparr>RequesterDeleteRequested := g\<rparr>) = core sd"
  "core (sd\<lparr>ReadinessRelayed := h, FirstReadyRelayed := i\<rparr>) = core sd" "core (sd\<lparr>DualityMetricAsserted := j\<rparr>) = core sd"
  "core (sd\<lparr>LabelsApplied := k\<rparr>) = core sd" "core (sd\<lparr>ProvidingPodName := l\<rparr>) = core sd" "core (sd\<lparr>NeededNewLauncher := m\<rparr>) = core sd"
  "core (sd\<lparr>NeededNewInstance := n\<rparr>) = core sd" "core (sd\<lparr>InstanceKnownToExist := p\<rparr>) = core sd"
  by (simp_all add: core_def)

lemma serverOf_launcherData [simp]:
  "serverOf (getLauncherData s mm n) nn uid = serverOf s nn uid" "serverOf (clearLauncherData s mm n) nn uid = serverOf s nn uid"
  by (simp_all add: getLauncherData_def clearLauncherData_def serverOf_def nodeOf_modNode split: option.split)

lemma serverOf_getServerData: "serverOf (getServerData s mm rn v) nn uid =
    (if mm = nn \<and> v = uid \<and> mget (InferenceServers (nodeOf s nn)) uid = None then newServerData rn else serverOf s nn uid)"
  by (auto simp: getServerData_def serverOf_def nodeOf_modNode gomap_simps split: option.split)

lemma core_state [simp]:
  "core (serverOf (noteDeleted mm deleter i s) nn uid) = core (serverOf s nn uid)"
  "core (serverOf (requestDeleted mm v s) nn uid) = core (serverOf s nn uid)"
  "core (serverOf (assertDuality env mm v nodeName s) nn uid) = core (serverOf s nn uid)"
  by (simp_all add: noteDeleted_def serverOf_other requestDeleted_def assertDuality_def split: option.split)

lemma core_getServerData [simp]: "core (serverOf (getServerData s mm rn v) nn uid) = core (serverOf s nn uid)"
  unfolding serverOf_getServerData by (simp add: core_def newServerData_def serverOf_def)

text \<open>Bookkeeping leaves the queues of the Nodes alone.\<close>

lemma LocalQueue_modNode [simp]:
  "(\<And>nd. LocalQueue (f nd) = LocalQueue nd) \<Longrightarrow> LocalQueue (nodeOf (modNode mm f s) m) = LocalQueue (nodeOf s m)"
  by (simp add: nodeOf_modNode)

lemma LocalQueue_state [simp]:
  "LocalQueue (nodeOf (modServer mm v g s) m) = LocalQueue (nodeOf s m)"
  "LocalQueue (nodeOf (modLauncher mm n fl s) m) = LocalQueue (nodeOf s m)"
  "LocalQueue (nodeOf (noteDeleted mm deleter i s) m) = LocalQueue (nodeOf s m)"
  "LocalQueue (nodeOf (deleteKnown mm n i s) m) = LocalQueue (nodeOf s m)"
  "LocalQueue (nodeOf (getLauncherData s mm n) m) = LocalQueue (nodeOf s m)"
  "LocalQueue (nodeOf (getServerData s mm rn v) m) = LocalQueue (nodeOf s m)"
  "LocalQueue (nodeOf (clearLauncherData s mm n) m) = LocalQueue (nodeOf s m)"
  "LocalQueue (nodeOf (clearServerData s mm v) m) = LocalQueue (nodeOf s m)"
  "LocalQueue (nodeOf (requestDeleted mm v s) m) = LocalQueue (nodeOf s m)"
  "LocalQueue (nodeOf (ensureDualityMetric env sd nodeName on s) m) = LocalQueue (nodeOf s m)"
  "LocalQueue (nodeOf (assertDuality env mm v nodeName s) m) = LocalQueue (nodeOf s m)"
  by (simp_all add: modServer_def modLauncher_def noteDeleted_def deleteKnown_def getLauncherData_def getServerData_def
      clearLauncherData_def clearServerData_def requestDeleted_def ensureDualityMetric_def assertDuality_def split: option.split)

text \<open>
  A state is well formed when its maps, like Go's, hold one value per key, and the data of a Node are kept under its name.
\<close>

definition wfNode :: "string \<Rightarrow> nodeData \<Rightarrow> bool" where
  "wfNode nn nd \<longleftrightarrow> ndNodeName nd = nn \<and> mok (InferenceServers nd) \<and> mok (Launchers nd) \<and> mok (LocalQueue nd)"

definition wfState :: "dpState \<Rightarrow> bool" where
  "wfState st \<longleftrightarrow> mok (nodeNameToData st) \<and> (\<forall>(nn, nd) \<in> set (nodeNameToData st). wfNode nn nd)"

lemma wfNode_new [simp]: "wfNode nn (newNodeData nn)"
  by (simp add: wfNode_def newNodeData_def)

lemma wfNode_nodeOf: "wfState st \<Longrightarrow> wfNode nn (nodeOf st nn)"
  by (auto simp: wfState_def nodeOf_def mget_Some_iff split: option.split)

lemma wfState_upd [simp]:
  "wfState (st\<lparr>dcalls := cs\<rparr>) = wfState st" "wfState (st\<lparr>dqueue := q\<rparr>) = wfState st" "wfState (st\<lparr>gpuMap := g\<rparr>) = wfState st"
  "wfState (st\<lparr>dualityGauge := dg\<rparr>) = wfState st" "wfState (st\<lparr>requesterCount := rc\<rparr>) = wfState st"
  "wfState (st\<lparr>iscCount := ic\<rparr>) = wfState st" "wfState (st\<lparr>devents := es\<rparr>) = wfState st"
  by (simp_all add: wfState_def)

lemma wfState_mput: "wfState st \<Longrightarrow> wfNode nn nd \<Longrightarrow> wfState (st\<lparr>nodeNameToData := mput nn nd (nodeNameToData st)\<rparr>)"
  by (auto simp: wfState_def mok_mput dest!: in_set_mput)

lemma wfState_modNode: "wfState st \<Longrightarrow> (\<And>nd. wfNode nn nd \<Longrightarrow> wfNode nn (f nd)) \<Longrightarrow> wfState (modNode nn f st)"
  unfolding modNode_def by (simp add: wfState_mput wfNode_nodeOf)

lemma wfState_maps:
  assumes "wfState s"
  shows "wfState (modServer mm v g s)" "wfState (modLauncher mm n fl s)" "wfState (getLauncherData s mm n)" "wfState (getServerData s mm rn v)"
    "wfState (clearLauncherData s mm n)" "wfState (clearServerData s mm v)" "wfState (getNodeData s mm)"
  using assms
  by (auto simp: modServer_def modLauncher_def getLauncherData_def getServerData_def clearLauncherData_def clearServerData_def getNodeData_def
      wfNode_def newNodeData_def intro!: wfState_modNode wfState_mput mok_mput mok_mdel split: option.split)

lemma wfState_state:
  assumes "wfState s"
  shows "wfState (noteDeleted mm deleter i s)" "wfState (deleteKnown mm n i s)" "wfState (requestDeleted mm v s)"
    "wfState (ensureDualityMetric env sd nodeName on s)" "wfState (assertDuality env mm v nodeName s)"
  using assms
  by (auto simp: noteDeleted_def deleteKnown_def requestDeleted_def ensureDualityMetric_def assertDuality_def
      intro: wfState_maps split: option.split)

lemmas wfState_ops = wfState_maps wfState_state

text \<open>
  Invariants that depend on the core of the servers' data and on the queues only, as far as the bookkeeping is concerned.
\<close>

locale core_policy =
  fixes ok :: "dpCall list \<Rightarrow> dpCall \<Rightarrow> bool" and I :: "dpState \<Rightarrow> bool" and nn uid :: string
  assumes core_enough: "I s \<Longrightarrow> (\<And>m v. core (serverOf s' m v) = core (serverOf s m v)) \<Longrightarrow>
      (\<And>m. LocalQueue (nodeOf s' m) = LocalQueue (nodeOf s m)) \<Longrightarrow> (wfState s \<Longrightarrow> wfState s') \<Longrightarrow> I s'"
begin

text \<open>Bookkeeping makes no calls.\<close>

lemma follows_modServer [follows_rules]:
  "follows ok I st s \<Longrightarrow> (\<And>sd. core (f sd) = core sd) \<Longrightarrow> follows ok I st (modServer mm v f s)"
  by (erule follows_same) (auto intro: core_enough simp: serverOf_other wfState_maps)

lemma follows_state [follows_rules]:
  assumes "follows ok I st s"
  shows "follows ok I st (modLauncher mm n fl s)" "follows ok I st (noteDeleted mm deleter i s)" "follows ok I st (deleteKnown mm n i s)"
    "follows ok I st (getLauncherData s mm n)" "follows ok I st (getServerData s mm rn v)" "follows ok I st (clearLauncherData s mm n)"
    "follows ok I st (requestDeleted mm v s)" "follows ok I st (ensureDualityMetric env sd nodeName on s)"
    "follows ok I st (assertDuality env mm v nodeName s)" "follows ok I st (s\<lparr>devents := es\<rparr>)"
  by (rule follows_same [OF assms], simp add: clearLauncherData_def requestDeleted_def modNode_def, erule core_enough, simp, simp,
      (rule wfState_ops, assumption | simp))+

text \<open>Every call a definition makes is one of these four.\<close>

lemma follows_doHTTP:
  assumes "follows ok I st s" and "\<And>req r. hrPurpose req = purpose \<Longrightarrow> hrURL req = url \<Longrightarrow> ok (dcalls s) (Http req r)"
  shows "follows ok I st (fst (doHTTP env s purpose verb url body decode))"
proof (cases "(\<forall>e. body \<noteq> Some (Inl e)) \<and> urlParse env url = None")
  case True
  let ?req = "\<lparr>hrPurpose = purpose, hrMethod = verb, hrURL = url, hrBody = (case body of Some (Inr b) \<Rightarrow> Some b | _ \<Rightarrow> None)\<rparr>"
  have eq: "fst (doHTTP env s purpose verb url body decode) = s\<lparr>dcalls := dcalls s @ [Http ?req (httpDo env (dcalls s) ?req)]\<rparr>"
    using True by (auto simp: doHTTP_def Let_def split: option.split sum.split)
  show ?thesis unfolding eq by (rule follows_call [OF assms(1) assms(2), of ?req]) (auto intro: core_enough)
next
  case False
  then have "fst (doHTTP env s purpose verb url body decode) = s"
    by (auto simp: doHTTP_def split: option.split sum.split)
  then show ?thesis using assms(1) by simp
qed

lemma follows_fullDo:
  assumes "follows ok I st s" and "\<And>req r. hrPurpose req = purpose \<Longrightarrow> hrURL req = base @ path \<Longrightarrow> ok (dcalls s) (Http req r)"
  shows "follows ok I st (fst (fullDo env s base purpose verb path body decode))"
  using follows_doHTTP [OF assms, where env = env and verb = verb and body = body and decode = decode] assms(1)
  by (auto simp: fullDo_def split_beta split: option.split sum.split)

lemma follows_updatePod: "follows ok I st s \<Longrightarrow> (\<And>r. ok (dcalls s) (UpdatePod p r)) \<Longrightarrow> follows ok I st (fst (updatePod env s p))"
  by (rule follows_call [of ok I st s]) (auto simp: updatePod_def Let_def intro: core_enough)

lemma follows_deletePodPre:
  "follows ok I st s \<Longrightarrow> (\<And>r. ok (dcalls s) (DeletePodD n u rv r)) \<Longrightarrow> follows ok I st (fst (deletePodPre env s n u rv))"
  by (rule follows_call [of ok I st s]) (auto simp: deletePodPre_def Let_def intro: core_enough)

lemma follows_createPod: "follows ok I st s \<Longrightarrow> (\<And>r. ok (dcalls s) (CreatePodD p r)) \<Longrightarrow> follows ok I st (fst (createPod env s p))"
  by (rule follows_call [of ok I st s]) (auto simp: createPod_def Let_def intro: core_enough)

end


subsection \<open>Operations that query, report and tidy\<close>

text \<open>
  A policy allows everything but waking, creating, binding and deleting when it allows the other HTTP calls, updates
  of a Pod without a requester and updates that leave the requester annotation of a cached Pod as it is.
\<close>

lemma reqStatePod_keeps [simp]:
  "Name (reqStatePod sd s fs p) = Name p"
  "Annotations (reqStatePod sd s fs p) RequesterAnnotationKey = Annotations p RequesterAnnotationKey"
  by (simp_all add: reqStatePod_def MapSet_def shared_name_defs)

lemma unboundPod_frees: "unboundPod sd p = (p', change) \<Longrightarrow> Annotations p' RequesterAnnotationKey = None"
  by (auto simp: unboundPod_def clearInstanceStateFromLauncherPod_def Let_def split_beta removeKeys_fst split: if_splits)

locale lenient_policy = core_policy +
  fixes env :: dpEnv and cached :: "pod \<Rightarrow> bool"
  assumes allows_http: "hrPurpose req \<notin> {''wake'', ''create_instance''} \<Longrightarrow> ok h (Http req resp)"
    and allows_free: "Annotations q RequesterAnnotationKey = None \<Longrightarrow> ok h (UpdatePod q r)"
    and allows_keep: "cached p \<Longrightarrow> Name q = Name p \<Longrightarrow>
      Annotations q RequesterAnnotationKey = Annotations p RequesterAnnotationKey \<Longrightarrow> ok h (UpdatePod q r)"
    and recovers: "I s \<Longrightarrow> recoverInstanceStateFromLauncherPod env (serverOf s nn uid) p = Inr sd \<Longrightarrow>
      I (modServer nn uid (\<lambda>_. sd) s)"
begin

lemma lenient_http [follows_rules]:
  assumes "follows ok I st s"
  shows "follows ok I st (fst (getGPUUUIDs env s url))" "follows ok I st (fst (querySleeping env s p port))"
    "follows ok I st (fst (GetInstanceState env s base i))" "follows ok I st (fst (ListInstances env s base))"
    "follows ok I st (fst (DeleteInstance env s base i))" "follows ok I st (fst (accelMemoryIsLowEnough env s nn uid r))"
    "follows ok I st (fst (doHTTP env s ''sleep'' verb url body decode))"
    "follows ok I st (fst (doHTTP env s (''relay_'' @ x) verb url body decode'))"
  unfolding getGPUUUIDs_def querySleeping_def GetInstanceState_def ListInstances_def DeleteInstance_def accelMemoryIsLowEnough_def
  by (rule follows_rules follows_doHTTP follows_fullDo assms allows_http | assumption | simp)+

lemma lenient_update:
  assumes "follows ok I st s" and "cached p" and "Name q = Name p"
    and "Annotations q RequesterAnnotationKey = Annotations p RequesterAnnotationKey"
  shows "follows ok I st (fst (updatePod env s q))"
  using assms by (intro follows_updatePod allows_keep)

lemma lenient_reports [follows_rules]:
  assumes "follows ok I st s" and "cached p"
  shows "follows ok I st (fst (ensureReqState env s nn uid p addF removeF errors))"
    "follows ok I st (fst (ensureReqStatus env s nn uid p errors))"
    "follows ok I st (fst (ensureSleepingLabel env s p desired))"
    "follows ok I st (fst (removeISCRoutingLabels env s p ls))"
    "follows ok I st (fst (maybeRemoveRequesterFinalizer env s p provider))"
    "follows ok I st (fst (addRequesterFinalizer env s p pn i))"
    "follows ok I st (fst (removeProviderFinalizer env s p))"
  unfolding ensureReqStatus_def ensureReqState_def ensureSleepingLabel_def removeISCRoutingLabels_def
    maybeRemoveRequesterFinalizer_def addRequesterFinalizer_def removeProviderFinalizer_def
  by (rule follows_rules lenient_update [where p = p] assms | assumption | (simp; fail))+

lemma lenient_syncInstances [follows_rules]:
  "follows ok I st s \<Longrightarrow> follows ok I st (fst (syncInstances env nn deleter base bound known insts s acc))"
proof (induction insts arbitrary: s acc)
  case (Cons x xs)
  show ?case unfolding syncInstances.simps by (rule follows_rules Cons.IH Cons.prems | assumption | (simp; fail))+
qed simp

lemma lenient_sync [follows_rules]:
  "follows ok I st s \<Longrightarrow> follows ok I st (fst (syncLauncherInstances env s nn deleter p))"
  unfolding syncLauncherInstances_def by (rule follows_rules | assumption | (simp; fail))+

lemma lenient_sortInstances [follows_rules]:
  "follows ok I st s \<Longrightarrow> follows ok I st (fst (sortInstances env nn uid p target port insts s acc))"
proof (induction insts arbitrary: s acc)
  case (Cons x xs)
  show ?case unfolding sortInstances.simps by (rule follows_rules Cons.IH Cons.prems | assumption | (simp; fail))+
qed simp

lemma lenient_considerLauncher [follows_rules]:
  "follows ok I st s \<Longrightarrow> follows ok I st (fst (considerLauncher env nn uid target port n p s acc))"
  unfolding considerLauncher_def by (rule follows_rules | assumption | (simp; fail))+

lemma lenient_considerLaunchers [follows_rules]:
  "follows ok I st s \<Longrightarrow> follows ok I st (fst (considerLaunchers env nn uid target port n pods s acc))"
proof (induction pods arbitrary: s acc)
  case (Cons x xs)
  show ?case unfolding considerLaunchers.simps by (rule follows_rules Cons.IH Cons.prems | assumption | (simp; fail))+
qed simp

lemma lenient_deleteVictims [follows_rules]:
  "follows ok I st s \<Longrightarrow> follows ok I st (fst (deleteVictims env nn uid base n victims s))"
proof (induction victims arbitrary: s)
  case (Cons x xs)
  show ?case unfolding deleteVictims.simps by (rule follows_rules Cons.IH Cons.prems | assumption | (simp; fail))+
qed simp

lemma lenient_select [follows_rules]:
  "follows ok I st s \<Longrightarrow> follows ok I st (fst (selectOrReclaimLauncherPod env s nn uid pods i port n))"
  unfolding selectOrReclaimLauncherPod_def by (rule follows_rules | assumption | (simp; fail))+

lemma lenient_sleep [follows_rules]:
  assumes "follows ok I st s"
  shows "follows ok I st (fst (putToSleep env s nn uid p launcherBased))"
  unfolding putToSleep_def maybeDeleteObsoleteInstance_def by (rule follows_rules assms | assumption | (simp; fail))+

lemma lenient_recovered:
  "follows ok I st s \<Longrightarrow> recoverInstanceStateFromLauncherPod env (serverOf s nn uid) p = Inr sd \<Longrightarrow>
   follows ok I st (modServer nn uid (\<lambda>_. sd) s)"
  by (erule follows_same) (auto intro: recovers)

lemma lenient_unbind [follows_rules]:
  assumes "follows ok I st s" and "cached p"
  shows "follows ok I st (fst (ensureUnbound env s nn uid p launcherBased))"
  unfolding ensureUnbound_def
  by (rule lenient_recovered follows_rules follows_updatePod allows_free assms | assumption | (simp add: unboundPod_frees; fail))+

lemma lenient_relay [follows_rules]:
  "follows ok I st s \<Longrightarrow> follows ok I st (fst (relayReadiness env s nn uid r ready))"
  unfolding relayReadiness_def by (rule follows_rules | assumption | (simp; fail))+

lemma lenient_fetchGPUs [follows_rules]:
  assumes "follows ok I st s" and "cached r"
  shows "follows ok I st (fst (fetchGPUs env s nn uid r launcherBased))"
  unfolding fetchGPUs_def by (rule follows_rules assms | assumption | (simp; fail))+

end

end
