(* ===== verification/Server_Run.thy ===== *)
theory Server_Run
  imports Call_Policy
begin

text \<open>
  What one run of \<^verbatim>\<open>infSvrItem.process\<close> asks of the cluster: which servers it wakes, which Pods it binds, creates and
  deletes.
\<close>

subsection \<open>The policy of a run\<close>

text \<open>A Pod that carries the annotation of its requester and the finalizer of a provider.\<close>

definition carries :: "pod \<Rightarrow> pod \<Rightarrow> bool" where
  "carries r q \<longleftrightarrow> Annotations q RequesterAnnotationKey = Some (UID r @ '' '' @ Name r) \<and> providerFinalizer \<in> set (Finalizers q)"

text \<open>Creating a provider, or writing to a Pod a requester annotation that no Pod of that name has in the cache.\<close>

fun binds :: "dpEnv \<Rightarrow> dpCall \<Rightarrow> bool" where
  "binds env (UpdatePod q _) \<longleftrightarrow> Annotations q RequesterAnnotationKey \<noteq> None \<and>
     \<not> (\<exists>p \<in> set (podCache env). Name p = Name q \<and> Annotations p RequesterAnnotationKey = Annotations q RequesterAnnotationKey)"
| "binds env (CreatePodD _ _) \<longleftrightarrow> True"
| "binds env _ \<longleftrightarrow> False"

definition boundProviders :: "dpEnv \<Rightarrow> string \<Rightarrow> pod list" where
  "boundProviders env uid = byIndex env requesterIndexFunc uid"

definition sentTo :: "pod \<Rightarrow> httpRequest \<Rightarrow> bool" where
  "sentTo p req \<longleftrightarrow> hasPrefix (hrURL req) (''http://'' @ PodIP (Status p) @ '':'')"

definition isRequester :: "dpEnv \<Rightarrow> string \<Rightarrow> pod \<Rightarrow> bool" where
  "isRequester env rn r \<longleftrightarrow> podGet env rn = Inr r"

text \<open>
  The conditions under which a Pod may be bound, a server roused and a Pod deleted; \<open>h\<close> holds the calls of the run so
  far, \<open>gs\<close> the indices of the GPUs of the requester.
\<close>

definition mayBind :: "dpEnv \<Rightarrow> string \<Rightarrow> string \<Rightarrow> pod \<Rightarrow> bool" where
  "mayBind env rn uid q \<longleftrightarrow> boundProviders env uid = [] \<and> (\<exists>r. isRequester env rn r \<and> carries r q)"

text \<open>The bindings so far were updates of this Pod.\<close>

definition sameBound :: "dpEnv \<Rightarrow> dpCall list \<Rightarrow> pod \<Rightarrow> bool" where
  "sameBound env h q \<longleftrightarrow> (\<forall>c \<in> set h. binds env c \<longrightarrow> (\<exists>q' res. c = UpdatePod q' res \<and> Name q' = Name q))"

definition mayRouse :: "dpEnv \<Rightarrow> string \<Rightarrow> string \<Rightarrow> dpCall list \<Rightarrow> httpRequest \<Rightarrow> bool" where
  "mayRouse env rn uid h req \<longleftrightarrow> (\<exists>p. sentTo p req \<and> (p \<in> set (boundProviders env uid) \<or>
     (\<exists>r echo. isRequester env rn r \<and> carries r p \<and> UpdatePod p (Inr echo) \<in> set h)))"

definition mayDelete :: "string set \<Rightarrow> dpEnv \<Rightarrow> string \<Rightarrow> string \<Rightarrow> string \<Rightarrow> string option \<Rightarrow> string option \<Rightarrow> bool" where
  "mayDelete gs env rn uid name u rv \<longleftrightarrow>
     (\<exists>r. isRequester env rn r \<and> name = Name r \<and> (u = Some uid \<or> u = Some (UID r) \<or>
        u = None \<and> boundProviders env uid = [] \<and> (\<exists>node. nodeGetD env (NodeName (Spec r)) = Inr node \<and> Unschedulable node))) \<or>
     (\<exists>p \<in> set (boundProviders env uid). name = Name p \<and> u = Some (UID p) \<and> rv = Some (ResourceVersion p) \<and> PodIsInTrouble p \<and>
        (\<forall>r. isRequester env rn r \<longrightarrow> DeletionTimestamp r \<noteq> None)) \<or>
     (boundProviders env uid = [] \<and> (\<exists>r. isRequester env rn r \<and> (\<exists>g \<in> gs. \<exists>p \<in> set (podsOnGPU env (NodeName (Spec r)) g).
        name = Name p \<and> u = Some (UID p) \<and> rv = Some (ResourceVersion p))))"

fun lawfulCall :: "string set \<Rightarrow> dpEnv \<Rightarrow> string \<Rightarrow> string \<Rightarrow> dpCall list \<Rightarrow> dpCall \<Rightarrow> bool" where
  "lawfulCall gs env rn uid h (Http req r) \<longleftrightarrow> (hrPurpose req \<in> {''wake'', ''create_instance''} \<longrightarrow> mayRouse env rn uid h req)"
| "lawfulCall gs env rn uid h (UpdatePod q r) \<longleftrightarrow> (binds env (UpdatePod q r) \<longrightarrow> mayBind env rn uid q \<and> sameBound env h q)"
| "lawfulCall gs env rn uid h (CreatePodD q r) \<longleftrightarrow> mayBind env rn uid q \<and> (\<forall>c \<in> set h. \<not> binds env c)"
| "lawfulCall gs env rn uid h (DeletePodD name u rv r) \<longleftrightarrow> mayDelete gs env rn uid name u rv"
| "lawfulCall gs env rn uid h _ \<longleftrightarrow> False"

text \<open>The first \<open>n\<close> calls were made before the run.\<close>

definition lawful :: "string set \<Rightarrow> dpEnv \<Rightarrow> string \<Rightarrow> string \<Rightarrow> nat \<Rightarrow> dpCall list \<Rightarrow> dpCall \<Rightarrow> bool" where
  "lawful gs env rn uid n h c \<longleftrightarrow> lawfulCall gs env rn uid (drop n h) c"

definition calm :: "string set \<Rightarrow> dpEnv \<Rightarrow> string \<Rightarrow> string \<Rightarrow> nat \<Rightarrow> dpCall list \<Rightarrow> dpCall \<Rightarrow> bool" where
  "calm gs env rn uid n h c \<longleftrightarrow> lawful gs env rn uid n h c \<and> \<not> binds env c"

text \<open>
  What the data of a server satisfy between runs: the nominal provider carries its requester, and a known instance has
  a configuration.
\<close>

definition serverInv :: "dpEnv \<Rightarrow> string \<Rightarrow> string \<Rightarrow> string \<Rightarrow> dpState \<Rightarrow> bool" where
  "serverInv env rn nn uid st \<longleftrightarrow>
     (\<forall>r p. isRequester env rn r \<longrightarrow> NominalProvidingPod (serverOf st nn uid) = Some p \<longrightarrow> carries r p) \<and>
     (InstanceID (serverOf st nn uid) \<noteq> [] \<longrightarrow> InstanceConfig (serverOf st nn uid) \<noteq> None)"

lemma recover_keeps:
  assumes "recoverInstanceStateFromLauncherPod env sd p = Inr sd'"
  shows "NominalProvidingPod sd' = NominalProvidingPod sd" "InstanceID sd \<noteq> [] \<Longrightarrow> sd' = sd" "InstanceID sd = [] \<Longrightarrow> InstanceConfig sd' \<noteq> None"
  using assms unfolding recoverInstanceStateFromLauncherPod_def
  by (auto simp: Let_def split: if_splits option.splits sum.splits)

text \<open>The invariant of a run, which leaves the queues of the Nodes as they are.\<close>

definition runInv :: "dpEnv \<Rightarrow> string \<Rightarrow> string \<Rightarrow> string \<Rightarrow> (string \<Rightarrow> (itemOnNode, scheduledItem) gomap) \<Rightarrow> dpState \<Rightarrow> bool" where
  "runInv env rn nn uid q st \<longleftrightarrow> serverInv env rn nn uid st \<and> (\<forall>m. LocalQueue (nodeOf st m) = q m)"

lemma runInv_core:
  "runInv env rn nn uid q s \<Longrightarrow> core (serverOf s' nn uid) = core (serverOf s nn uid) \<Longrightarrow>
   (\<And>m. LocalQueue (nodeOf s' m) = LocalQueue (nodeOf s m)) \<Longrightarrow> runInv env rn nn uid q s'"
  by (simp add: runInv_def serverInv_def core_def)

lemma runInv_recovers:
  "runInv env rn nn uid q s \<Longrightarrow> recoverInstanceStateFromLauncherPod env (serverOf s nn uid) p = Inr sd \<Longrightarrow>
   runInv env rn nn uid q (modServer nn uid (\<lambda>_. sd) s)"
  using recover_keeps [of env "serverOf s nn uid" p sd]
  by (cases "InstanceID (serverOf s nn uid) = []") (auto simp: runInv_def serverInv_def)

interpretation lw: lenient_policy "lawful gs env rn uid n" "runInv env rn nn uid q" nn uid env "\<lambda>p. p \<in> set (podCache env)"
  for gs env rn nn uid n q
  by unfold_locales (auto simp: lawful_def intro: runInv_core runInv_recovers)

interpretation cl: lenient_policy "calm gs env rn uid n" "runInv env rn nn uid q" nn uid env "\<lambda>p. p \<in> set (podCache env)"
  for gs env rn nn uid n q
  by unfold_locales (auto simp: calm_def lawful_def intro: runInv_core runInv_recovers)

text \<open>As long as nothing was bound, the run is calm; afterwards it is still lawful.\<close>

lemma calm_lawful: "follows (calm gs env rn uid n) I st s \<Longrightarrow> follows (lawful gs env rn uid n) I st s"
  by (erule follows_mono) (simp add: calm_def)

lemma calm_prod:
  "follows (calm gs env rn uid n) I st (fst x) \<Longrightarrow>
   (\<And>a b. x = (a, b) \<Longrightarrow> follows (calm gs env rn uid n) I st a \<Longrightarrow> follows (lawful gs env rn uid n) I st (fst (f a b))) \<Longrightarrow>
   follows (lawful gs env rn uid n) I st (fst (case x of (a, b) \<Rightarrow> f a b))"
  by (cases x) simp

lemma calm_leaf: "follows (calm gs env rn uid n) I st s \<Longrightarrow> follows (lawful gs env rn uid n) I st (fst (s, x))"
  by (simp add: calm_lawful)

lemma calm_unbound:
  assumes "follows (calm gs env rn uid n) I st s" and "n = length (dcalls st)" and "c \<in> set (drop n (dcalls s))"
  shows "\<not> binds env c"
proof -
  from assms(1) obtain cs where cs: "dcalls s = dcalls st @ cs" "\<And>pre c post. cs = pre @ c # post \<Longrightarrow> calm gs env rn uid n (dcalls st @ pre) c"
    by (auto simp: follows_def extends_def)
  then have "c \<in> set cs" using assms(2,3) by simp
  then show ?thesis using cs(2) by (auto simp: calm_def dest: split_list)
qed


abbreviation lawfulRun :: "string set \<Rightarrow> dpEnv \<Rightarrow> string \<Rightarrow> string \<Rightarrow> string \<Rightarrow> (string \<Rightarrow> (itemOnNode, scheduledItem) gomap) \<Rightarrow> dpState \<Rightarrow> dpState \<Rightarrow> bool" where
  "lawfulRun gs env rn nn uid q0 st \<equiv> follows (lawful gs env rn uid (length (dcalls st))) (runInv env rn nn uid q0) st"

abbreviation calmRun :: "string set \<Rightarrow> dpEnv \<Rightarrow> string \<Rightarrow> string \<Rightarrow> string \<Rightarrow> (string \<Rightarrow> (itemOnNode, scheduledItem) gomap) \<Rightarrow> dpState \<Rightarrow> dpState \<Rightarrow> bool" where
  "calmRun gs env rn nn uid q0 st \<equiv> follows (calm gs env rn uid (length (dcalls st))) (runInv env rn nn uid q0) st"


subsection \<open>Servers that are bound\<close>

lemma sentTo_URL [simp]: "sentTo p req" if "hrURL req = serverURL p port @ x"
  using that by (simp add: sentTo_def serverURL_def hasPrefix_def)

lemma sentTo_launcher [simp]: "sentTo p req" if "hrURL req = launcherBaseURL p @ x"
  using that by (simp add: sentTo_def launcherBaseURL_def hasPrefix_def)

lemma lawful_wakeUp:
  assumes run: "lawfulRun gs env rn nn uid q0 st s" and rouse: "\<And>h req. hrURL req = serverURL p port @ ''/wake_up'' \<Longrightarrow>
    mayRouse env rn uid (drop (length (dcalls st)) (dcalls s @ h)) req"
  shows "lawfulRun gs env rn nn uid q0 st (fst (wakeUp env s nn uid r p port))"
proof -
  let ?a = "if debugAccelMemory env then accelMemoryIsLowEnough env s nn uid r else (s, None)"
  have "\<exists>h. dcalls (fst (accelMemoryIsLowEnough env s nn uid r)) = dcalls s @ h"
    by (rule follows_grows) (rule lw.lenient_http(6) [OF follows_refl])
  then obtain h where h: "dcalls (fst ?a) = dcalls s @ h" by (cases "debugAccelMemory env") auto
  show ?thesis unfolding wakeUp_def
  proof (rule follows_prod)
    show a: "lawfulRun gs env rn nn uid q0 st (fst ?a)" by (rule follows_rules run)+
    fix st1 err
    assume eq: "?a = (st1, err)"
    show "lawfulRun gs env rn nn uid q0 st (fst (case err of None \<Rightarrow> (case doHTTP env st1 ''wake'' ''POST'' (serverURL p port @ ''/wake_up'') None (\<lambda>_. Inr ()) of
             (st2, _, Inl err) \<Rightarrow>
               (st2, Some (Wrapped (''failed to wake inference server at '' @ PodIP (Status p) @ '':'' @ strconv_Itoa port) err))
           | (st2, _, Inr _) \<Rightarrow> (modServer nn uid (\<lambda>sd. sd\<lparr>Sleeping := Some False\<rparr>) st2, None))
        | Some err \<Rightarrow> (st1, Some err)))"
      using a eq h rouse by (auto intro!: follows_rules lw.follows_doHTTP simp: lawful_def split: option.split)
  qed
qed

lemma rouse_bound:
  "p \<in> set (boundProviders env uid) \<Longrightarrow> hrURL req = serverURL p port @ x \<Longrightarrow> mayRouse env rn uid h req"
  "p \<in> set (boundProviders env uid) \<Longrightarrow> hrURL req = launcherBaseURL p @ x \<Longrightarrow> mayRouse env rn uid h req"
  unfolding mayRouse_def by (meson sentTo_URL sentTo_launcher)+

lemma bound_cached: "p \<in> set (boundProviders env uid) \<Longrightarrow> p \<in> set (podCache env)"
  by (simp add: boundProviders_def byIndex_def)

lemma delete_requester:
  "isRequester env rn r \<Longrightarrow> u \<in> {Some uid, Some (UID r)} \<Longrightarrow> lawful gs env rn uid n h (DeletePodD (Name r) u rv res)"
  by (auto simp: lawful_def mayDelete_def)

lemma relabelled_keeps:
  assumes "(if a then applyISCRoutingMetadataToLauncherPod env (p\<lparr>Labels := L\<rparr>) ls as else Inr (p\<lparr>Labels := L\<rparr>)) = Inr q"
  shows "Name q = Name p \<and> Annotations q RequesterAnnotationKey = Annotations p RequesterAnnotationKey"
  using assms routing_keeps_reserved(1) [of env "p\<lparr>Labels := L\<rparr>" ls as q RequesterAnnotationKey]
  by (auto simp: applyISCRoutingMetadataToLauncherPod_def Let_def split: if_splits)

lemma lawful_labels:
  assumes "lawfulRun gs env rn nn uid q0 st s" and "isRequester env rn r" and "p \<in> set (podCache env)"
  shows "lawfulRun gs env rn nn uid q0 st (fst (applyBoundLauncherLabels env s nn uid r p))"
  unfolding applyBoundLauncherLabels_def 
  by (rule follows_rules lw.follows_deletePodPre delete_requester lw.lenient_update [where p = p] assms | assumption | (simp; fail) | (drule relabelled_keeps; simp; fail))+

lemma lawful_create:
  assumes "lawfulRun gs env rn nn uid q0 st s" and "NewLauncherClient env (launcherBaseURL p) = Inr base" and "p \<in> set (boundProviders env uid)"
  shows "lawfulRun gs env rn nn uid q0 st (fst (CreateNamedInstance env s base i cfg))"
proof -
  have base: "base = launcherBaseURL p" using assms(2) by (simp add: NewLauncherClient_def split: option.splits)
  show ?thesis unfolding CreateNamedInstance_def createInst_def base
    by (rule lw.follows_fullDo [OF assms(1)]) (auto simp: lawful_def intro: rouse_bound [OF assms(3)])
qed

lemma lawful_ensureInstance:
  assumes "lawfulRun gs env rn nn uid q0 st s" and "isRequester env rn r" and "p \<in> set (boundProviders env uid)"
  shows "lawfulRun gs env rn nn uid q0 st (fst (ensureInstance env s nn uid r p))"
  unfolding ensureInstance_def
  by (rule follows_rules lw.follows_deletePodPre delete_requester lawful_create [where p = p] assms | assumption | (simp; fail))+

lemma lawful_serveBound:
  assumes "lawfulRun gs env rn nn uid q0 st s" and "isRequester env rn r" and "r \<in> set (podCache env)" and "p \<in> set (boundProviders env uid)"
  shows "lawfulRun gs env rn nn uid q0 st (fst (serveBound env s nn uid r p launcherBased port shouldAdd))"
  unfolding serveBound_def
  by (rule follows_rules lawful_wakeUp lawful_labels rouse_bound(1) [OF assms(4)] bound_cached [OF assms(4)] assms | assumption | (simp; fail))+

lemma lawful_processBound:
  assumes "lawfulRun gs env rn nn uid q0 st s" and "isRequester env rn r" and "r \<in> set (podCache env)" and "p \<in> set (boundProviders env uid)"
  shows "lawfulRun gs env rn nn uid q0 st (fst (processBound env s nn uid r p launcherBased shouldAdd))"
  unfolding processBound_def
  by (rule lw.lenient_recovered follows_rules lawful_ensureInstance lawful_serveBound assms | assumption | (simp; fail))+


subsection \<open>Pods that are going\<close>

lemma lawful_providerGoing:
  assumes "lawfulRun gs env rn nn uid q0 st s" and "\<And>r. req = Some r \<Longrightarrow> isRequester env rn r \<and> r \<in> set (podCache env)"
    and "p \<in> set (boundProviders env uid)"
  shows "lawfulRun gs env rn nn uid q0 st (fst (providerGoing env s nn uid req p shouldAdd))"
  unfolding providerGoing_def
  by (rule follows_rules lw.follows_deletePodPre delete_requester bound_cached [OF assms(3)] assms | assumption | (simp add: assms(2); fail))+

lemma lawful_requesterGoing:
  assumes "lawfulRun gs env rn nn uid q0 st s" and "\<And>r. req = Some r \<Longrightarrow> isRequester env rn r \<and> r \<in> set (podCache env)"
    and "p \<in> set (boundProviders env uid)" and "\<And>r. isRequester env rn r \<Longrightarrow> DeletionTimestamp r \<noteq> None"
  shows "lawfulRun gs env rn nn uid q0 st (fst (requesterGoing env s nn uid req p))"
proof -
  have "lawful gs env rn uid n h (DeletePodD (Name p) (Some (UID p)) (Some (ResourceVersion p)) res)" if "PodIsInTrouble p" for n h res
    using that assms(3,4) by (auto simp: lawful_def mayDelete_def)
  then show ?thesis unfolding requesterGoing_def
    by (auto intro!: follows_rules lw.follows_deletePodPre bound_cached [OF assms(3)] assms(1) dest: assms(2))
qed


subsection \<open>Binding and creating providers\<close>

lemma carries_bound: "carries r (boundPod r p)"
  by (simp add: carries_def boundPod_def MapSet_def)

lemma carries_applied: "applyControllerMetadataToLauncherPod env q ls = Inr q' \<Longrightarrow> carries r q \<Longrightarrow> carries r q'"
  by (auto simp: applyControllerMetadataToLauncherPod_def carries_def MapSet_def Let_def binding_name_defs shared_name_defs split: if_splits sum.splits)

lemma carries_nominal: "computeNominal env sd r tmpl = Inr (q, hash, port) \<Longrightarrow> carries r q"
  by (auto simp: computeNominal_def nominalPod_def carries_def MapSet_def Let_def shared_name_defs split: option.splits sum.splits prod.splits)

lemma carries_newLauncher: "newLauncherPod env r p ls = Inr q \<Longrightarrow> carries r q"
  unfolding newLauncherPod_def
  by (auto simp: applyControllerMetadataToLauncherPod_def carries_def MapSet_def Let_def binding_name_defs shared_name_defs split: if_splits sum.splits)

lemma follows_commit:
  "follows ok (runInv env rn nn uid q0) st s \<Longrightarrow> follows ok (runInv env rn nn uid q0) st (modServer nn uid (\<lambda>sd. commitInstanceState sd ls) s)"
  "follows ok (runInv env rn nn uid q0) st s \<Longrightarrow> follows ok (runInv env rn nn uid q0) st
     (modServer nn uid (\<lambda>sd. (commitInstanceState (sd\<lparr>Sleeping := None\<rparr>) ls)\<lparr>ProvidingPodName := pn\<rparr>) s)"
  by (erule follows_same; auto simp: runInv_def serverInv_def commitInstanceState_def)+

lemma may_bind:
  assumes "calmRun gs env rn nn uid q0 st s" and "isRequester env rn r" and "carries r q" and "boundProviders env uid = []"
  shows "mayBind env rn uid q \<and> (\<forall>c \<in> set (drop (length (dcalls st)) (dcalls s)). \<not> binds env c)"
  using calm_unbound [OF assms(1) refl] assms(2-) by (auto simp: mayBind_def)

interpretation ht: core_policy "\<lambda>_ c. \<exists>req resp. c = Http req resp" "\<lambda>_. True" nn uid for nn uid
  by unfold_locales simp

lemma wakeUp_http: "\<exists>cs. dcalls (fst (wakeUp env s nn uid r q port)) = dcalls s @ cs \<and> (\<forall>c \<in> set cs. \<exists>req resp. c = Http req resp)"
proof -
  have "follows (\<lambda>_ c. \<exists>req resp. c = Http req resp) (\<lambda>_. True) s (fst (wakeUp env s nn uid r q port))"
    unfolding wakeUp_def accelMemoryIsLowEnough_def
    by (rule follows_rules ht.follows_doHTTP follows_refl | assumption | (simp; fail))+
  then show ?thesis by (force simp: follows_def extends_def dest: split_list)
qed


text \<open>The run has bound \<open>q\<close>, and nothing else, and has then made HTTP calls only.\<close>

definition justBound :: "dpEnv \<Rightarrow> dpState \<Rightarrow> pod \<Rightarrow> dpState \<Rightarrow> bool" where
  "justBound env st q s \<longleftrightarrow> (\<exists>cs echo hs. dcalls s = dcalls st @ cs @ UpdatePod q (Inr echo) # hs \<and> (\<forall>c \<in> set cs. \<not> binds env c) \<and>
     (\<forall>c \<in> set hs. \<exists>req resp. c = Http req resp))"

lemma justBound_same: "justBound env st q s \<Longrightarrow> dcalls s' = dcalls s \<Longrightarrow> justBound env st q s'"
  by (simp add: justBound_def)

lemma justBound_update:
  assumes "calmRun gs env rn nn uid q0 st s" and "podUpdateD env (dcalls s) q = Inr echo" and "dcalls s' = dcalls s"
  shows "justBound env st q (fst (updatePod env s' q))"
proof -
  obtain cs where cs: "dcalls s = dcalls st @ cs" using follows_grows [OF assms(1)] by blast
  then have "\<forall>c \<in> set cs. \<not> binds env c" using calm_unbound [OF assms(1) refl] by simp
  then show ?thesis unfolding justBound_def using cs assms(2,3)
    by (intro exI [of _ cs] exI [of _ echo] exI [of _ "[]"]) (simp add: updatePod_def Let_def)
qed

lemma justBound_wakeUp:
  assumes "justBound env st q s"
  shows "justBound env st q (fst (wakeUp env s nn uid r p port))"
proof -
  obtain hs where hs: "dcalls (fst (wakeUp env s nn uid r p port)) = dcalls s @ hs" "\<forall>c \<in> set hs. \<exists>req resp. c = Http req resp"
    using wakeUp_http by blast
  from assms obtain cs echo hs0 where "dcalls s = dcalls st @ cs @ UpdatePod q (Inr echo) # hs0"
    "\<forall>c \<in> set cs. \<not> binds env c" "\<forall>c \<in> set hs0. \<exists>req resp. c = Http req resp" unfolding justBound_def by blast
  with hs show ?thesis unfolding justBound_def
    by (intro exI [of _ cs] exI [of _ echo] exI [of _ "hs0 @ hs"]) auto
qed

lemma lawful_wake_bound:
  assumes "justBound env st q s" and "lawfulRun gs env rn nn uid q0 st s" and "isRequester env rn r" and "carries r q"
  shows "lawfulRun gs env rn nn uid q0 st (fst (wakeUp env s nn uid r q port))"
proof (rule lawful_wakeUp [OF assms(2)])
  fix h and req :: httpRequest
  assume "hrURL req = serverURL q port @ ''/wake_up''"
  moreover have "\<exists>echo. UpdatePod q (Inr echo) \<in> set (drop (length (dcalls st)) (dcalls s @ h))" using assms(1) by (auto simp: justBound_def)
  ultimately show "mayRouse env rn uid (drop (length (dcalls st)) (dcalls s @ h)) req"
    unfolding mayRouse_def using assms(3,4) sentTo_URL by blast
qed

lemma lawful_label_bound:
  assumes "justBound env st q s" and "lawfulRun gs env rn nn uid q0 st s" and "mayBind env rn uid q"
  shows "lawfulRun gs env rn nn uid q0 st (fst (ensureSleepingLabel env s q b))"
proof -
  have "sameBound env (drop (length (dcalls st)) (dcalls s)) q"
    using assms(1) by (fastforce simp: justBound_def sameBound_def)
  then have ok: "lawful gs env rn uid (length (dcalls st)) (dcalls s) (UpdatePod (q\<lparr>Labels := L\<rparr>) res)" for L res
    using assms(3) by (simp add: lawful_def sameBound_def mayBind_def carries_def)
  show ?thesis unfolding ensureSleepingLabel_def by (rule follows_rules lw.follows_updatePod assms(2) ok | assumption)+
qed

lemma lawful_bind:
  assumes calm: "calmRun gs env rn nn uid q0 st s" and r: "isRequester env rn r" "r \<in> set (podCache env)"
    and none: "boundProviders env uid = []"
  shows "lawfulRun gs env rn nn uid q0 st (fst (bind env s nn uid r p launcherState skipWake))"
proof (cases "case launcherState of None \<Rightarrow> Inr (boundPod r p) | Some ls \<Rightarrow> applyControllerMetadataToLauncherPod env (boundPod r p) ls")
  case (Inl problems)
  then show ?thesis unfolding bind_def by (simp add: follows_rules calm_lawful [OF calm] r)
next
  case (Inr q)
  let ?s = "modServer nn uid (\<lambda>sd. sd\<lparr>Sleeping := None\<rparr>) s"
  define s1 where "s1 = fst (updatePod env ?s q)"
  have q: "carries r q" using Inr carries_bound carries_applied by (fastforce split: option.splits)
  note may = may_bind [OF calm r(1) q none]
  have run1: "lawfulRun gs env rn nn uid q0 st s1"
    unfolding s1_def by (rule follows_rules lw.follows_updatePod calm_lawful [OF calm] | use may in \<open>auto simp: lawful_def sameBound_def\<close>)+
  show ?thesis
  proof (cases "podUpdateD env (dcalls s) q")
    case (Inl e)
    then show ?thesis using run1 unfolding bind_def by (simp add: Inr updatePod_def Let_def s1_def)
  next
    case up: (Inr echo)
    have upd: "updatePod env ?s q = (s1, Inr echo)" using up by (simp add: updatePod_def Let_def s1_def)
    let ?s3 = "case launcherState of None \<Rightarrow> modServer nn uid (\<lambda>sd. sd\<lparr>ProvidingPodName := Name q\<rparr>) s1
        | Some ls \<Rightarrow> assertDuality env nn uid (NodeName (Spec r))
            (modServer nn uid (\<lambda>sd. commitInstanceState sd ls) (modServer nn uid (\<lambda>sd. sd\<lparr>ProvidingPodName := Name q\<rparr>) s1))"
    have s3: "lawfulRun gs env rn nn uid q0 st ?s3" by (rule follows_commit follows_rules run1 | simp)+
    have b3: "justBound env st q ?s3"
      by (rule justBound_same [OF justBound_update [OF calm up, of ?s]]) (auto simp: s1_def split: option.split)
    have label: "lawfulRun gs env rn nn uid q0 st (fst (ensureSleepingLabel env s4 q b))"
      if "wakeUp env ?s3 nn uid r q port = (s4, x)" "lawfulRun gs env rn nn uid q0 st s4" for s4 port x b
      using justBound_wakeUp [OF b3, of nn uid r q port] that may by (intro lawful_label_bound) auto
    show ?thesis unfolding bind_def Inr sum.case upd prod.case Let_def
      by (rule label follows_rules s3 lawful_wake_bound b3 r q | assumption)+
  qed
qed

lemma calm_sleepers:
  assumes "calmRun gs env rn nn uid q0 st s" and "\<And>p. p \<in> set ps \<Longrightarrow> mayDelete gs env rn uid (Name p) (Some (UID p)) (Some (ResourceVersion p))"
  shows "calmRun gs env rn nn uid q0 st (fst (deleteSleepers env ps s goners))"
  using assms
proof (induction ps arbitrary: s goners)
  case (Cons p ps)
  have "calm gs env rn uid n h (DeletePodD (Name p) (Some (UID p)) (Some (ResourceVersion p)) res)" for n h res
    using Cons.prems(2) by (simp add: calm_def lawful_def)
  then show ?case unfolding deleteSleepers.simps
    using Cons by (auto intro!: follows_rules cl.follows_deletePodPre)
qed simp

lemma calm_budget:
  assumes "calmRun gs env rn nn uid q0 st s" and "isRequester env rn r" and "boundProviders env uid = []" and "set gpus \<subseteq> gs"
  shows "calmRun gs env rn nn uid q0 st (fst (budgetLoop env (NodeName (Spec r)) now limit gpus s goners))"
  using assms(1,4)
proof (induction gpus arbitrary: s goners)
  case (Cons g gpus)
  have "mayDelete gs env rn uid (Name p) (Some (UID p)) (Some (ResourceVersion p))"
    if "p \<in> set (podsOnGPU env (NodeName (Spec r)) g)" for p
    unfolding mayDelete_def using that assms(2,3) Cons.prems(2) by (intro disjI2 conjI exI [of _ r] bexI [of _ g] bexI [of _ p]) auto
  then have may: "mayDelete gs env rn uid (Name p) (Some (UID p)) (Some (ResourceVersion p))"
    if "p \<in> set (take k (slices_SortFunc cmp (filter P (byIndex env GPUIndexFunc (NodeName (Spec r) @ '' '' @ g)))))" for p k cmp P
    using that by (auto simp: podsOnGPU_def dest!: in_set_takeD)
  have gpus: "set gpus \<subseteq> gs" using Cons.prems(2) by simp
  show ?case unfolding budgetLoop.simps
    by (rule follows_rules calm_sleepers Cons.IH [OF _ gpus] Cons.prems(1) | erule may | assumption)+
qed simp

lemma calm_enforce:
  assumes "calmRun gs env rn nn uid q0 st s" and "isRequester env rn r" and "boundProviders env uid = []"
    and "set (GPUIndices (serverOf s nn uid)) \<subseteq> gs"
  shows "calmRun gs env rn nn uid q0 st (fst (enforceSleeperBudget env s nn uid r limit))"
  unfolding enforceSleeperBudget_def by (rule follows_rules calm_budget assms | assumption)+

text \<open>Nothing after the sleeper budget changes what is recorded of the GPUs of the requester.\<close>

lemma deleteSleepers_data: "nodeNameToData (fst (deleteSleepers env ps s goners)) = nodeNameToData s"
  by (induction ps arbitrary: s goners) (auto simp: deletePodPre_def Let_def split: option.split)

lemma budgetLoop_data: "nodeNameToData (fst (budgetLoop env node now limit gpus s goners)) = nodeNameToData s"
proof (induction gpus arbitrary: s goners)
  case (Cons g gpus)
  have "nodeNameToData st1 = nodeNameToData s" if "deleteSleepers env ps s goners = (st1, x)" for ps st1 x
    using deleteSleepers_data [of env ps s goners] that by simp
  with Cons.IH show ?case by (auto simp: budgetLoop.simps Let_def split: prod.split option.split)
qed simp

lemma enforced_data:
  "enforceSleeperBudget env s nn uid r limit = (s', x) \<Longrightarrow> nodeNameToData s' = nodeNameToData s"
  using budgetLoop_data [of env "NodeName (Spec r)" "nowD env s" limit "GPUIndices (serverOf s nn uid)" s "{}"]
  by (auto simp: enforceSleeperBudget_def split: prod.splits option.splits)

lemma status_data: "nodeNameToData (fst (ensureReqStatus env s nn uid r errs)) = nodeNameToData s"
  by (auto simp: ensureReqStatus_def ensureReqState_def updatePod_def Let_def split: sum.split)

lemma createFailed_data: "nodeNameToData (fst (createFailed env s nn uid r nominal kind e)) = nodeNameToData s"
  using status_data by (auto simp: createFailed_def Let_def split: prod.split) (metis fst_conv)

lemma serverOf_data: "nodeNameToData s = nodeNameToData s' \<Longrightarrow> serverOf s nn uid = serverOf s' nn uid"
  by (simp add: serverOf_def nodeOf_def)

lemma provided_gpus:
  assumes "getNominalServerProvidingPod env s nn uid r (annot r ServerPatchAnnotationName) = (s1, Inr (d, h))" and "byIndex env nominalHashIndexFunc h = []"
    and "annot r ServerPatchAnnotationName \<noteq> []"
  shows "GPUIndices (serverOf (fst (provideDirect env s nn uid r)) nn uid) = GPUIndices (serverOf s1 nn uid)"
proof -
  obtain s2 err retry where e: "enforceSleeperBudget env s1 nn uid r (sleeperLimit env) = (s2, err, retry)" by (rule prod_cases3)
  obtain s3 res where c: "createPod env s2 d = (s3, res)" by (rule prod.exhaust)
  have s2: "serverOf s2 nn uid = serverOf s1 nn uid" by (rule serverOf_data [OF enforced_data [OF e]])
  have s3: "serverOf s3 nn uid = serverOf s1 nn uid"
    using c s2 serverOf_data [of s3 s2 nn uid] by (auto simp: createPod_def Let_def)
  show ?thesis using assms e c s2 s3
    by (auto simp: provideDirect_def Let_def serverOf_data [OF status_data] serverOf_data [OF createFailed_data] split: sum.split)
qed

lemma lawful_createFailed:
  assumes "lawfulRun gs env rn nn uid q0 st s" and "r \<in> set (podCache env)"
  shows "lawfulRun gs env rn nn uid q0 st (fst (createFailed env s nn uid r nominal kind e))"
  unfolding createFailed_def by (rule follows_rules assms | assumption)+

lemma lawful_createPod:
  assumes "calmRun gs env rn nn uid q0 st s" and "isRequester env rn r" and "boundProviders env uid = []" and "carries r q"
  shows "lawfulRun gs env rn nn uid q0 st (fst (createPod env s q))"
  using may_bind [OF assms(1,2,4,3)] by (intro lw.follows_createPod calm_lawful [OF assms(1)]) (simp add: lawful_def)

lemma calm_nominal:
  assumes calm: "calmRun gs env rn nn uid q0 st s" and inv: "runInv env rn nn uid q0 st" and r: "isRequester env rn r"
  shows "calmRun gs env rn nn uid q0 st (fst (getNominalServerProvidingPod env s nn uid r tmpl))"
    and "getNominalServerProvidingPod env s nn uid r tmpl = (s', Inr (q, hash)) \<Longrightarrow> carries r q"
proof -
  have inv_s: "runInv env rn nn uid q0 s" by (rule follows_keeps [OF calm inv])
  have keep: "calmRun gs env rn nn uid q0 st (modServer nn uid (\<lambda>sd. sd\<lparr>ServerPort := port, NominalProvidingPod := Some p, NominalProvidingPodHash := h\<rparr>) s)"
    if "carries r p" for p port h
    using that r by (intro follows_same [OF calm]) (auto simp: runInv_def serverInv_def isRequester_def)
  show "calmRun gs env rn nn uid q0 st (fst (getNominalServerProvidingPod env s nn uid r tmpl))"
    unfolding getNominalServerProvidingPod_def using calm keep carries_nominal
    by (auto simp: Let_def split: option.split sum.split)
  show "getNominalServerProvidingPod env s nn uid r tmpl = (s', Inr (q, hash)) \<Longrightarrow> carries r q"
    unfolding getNominalServerProvidingPod_def using inv_s r carries_nominal
    by (auto simp: Let_def runInv_def serverInv_def split: option.splits sum.splits)
qed

lemmas calm_rules = calm_prod calm_leaf follows_if follows_let follows_sum follows_option follows_list follows_pairs follows_leaf

lemma lawful_provideDirect:
  assumes calm: "calmRun gs env rn nn uid q0 st s" and inv: "runInv env rn nn uid q0 st"
    and r: "isRequester env rn r" "r \<in> set (podCache env)" and none: "boundProviders env uid = []"
    and gpus: "set (GPUIndices (serverOf (fst (provideDirect env s nn uid r)) nn uid)) \<subseteq> gs"
  shows "lawfulRun gs env rn nn uid q0 st (fst (provideDirect env s nn uid r))"
proof -
  have create: "lawfulRun gs env rn nn uid q0 st (fst (case createPod env s2 q of
       (st3, Inl e) \<Rightarrow> createFailed env st3 nn uid r ''nominal server-providing'' ''server-providing'' e
     | (st3, Inr _) \<Rightarrow> ensureReqStatus env (modServer nn uid (\<lambda>sd. sd\<lparr>Sleeping := Some False\<rparr>) st3) nn uid r []))"
    if "calmRun gs env rn nn uid q0 st s2" "carries r q" for s2 q
    by (rule follows_rules lawful_createPod lawful_createFailed r none that | assumption | (simp; fail))+
  have status: "lawfulRun gs env rn nn uid q0 st (fst (ensureReqStatus env s2 nn uid r errs))" if "calmRun gs env rn nn uid q0 st s2" for s2 errs
    using that r by (intro lw.lenient_reports calm_lawful)
  have nominal: "carries r q" if "getNominalServerProvidingPod env s nn uid r tmpl = (s1, b)" "b = Inr y" "y = (q, hash)" for tmpl s1 b y q hash
    using calm_nominal(2) [OF calm inv r(1), of tmpl s1 q hash] that by simp
  have listed: "set (GPUIndices (serverOf s1 nn uid)) \<subseteq> gs"
    if "getNominalServerProvidingPod env s nn uid r (annot r ServerPatchAnnotationName) = (s1, b)" "b = Inr y" "y = (q, hash)"
      "byIndex env nominalHashIndexFunc hash = []" "annot r ServerPatchAnnotationName \<noteq> []" for s1 b y q hash
    using gpus provided_gpus that by metis
  show ?thesis unfolding provideDirect_def Let_def
    by (rule follows_panic create lawful_bind status calm_rules calm_nominal(1) [OF calm inv r(1)] calm_enforce calm r none | assumption |
        (rule nominal, assumption+) | (rule listed, assumption+))+
qed

lemma lawful_createLauncher:
  assumes calm: "calmRun gs env rn nn uid q0 st s" and r: "isRequester env rn r" "r \<in> set (podCache env)" and none: "boundProviders env uid = []"
  shows "lawfulRun gs env rn nn uid q0 st (fst (createLauncher env s nn uid r p ls))"
proof -
  have calm1: "calmRun gs env rn nn uid q0 st (modServer nn uid (\<lambda>sd. sd\<lparr>NeededNewLauncher := True\<rparr>) s)"
    by (rule follows_rules calm | simp)+
  show ?thesis unfolding createLauncher_def
    by (rule follows_commit follows_rules lawful_createPod lawful_createFailed calm_lawful [OF calm1] calm1 r none |
        erule carries_newLauncher | assumption | (simp; fail))+
qed

lemma lawful_provideLauncherBased:
  assumes calm: "calmRun gs env rn nn uid q0 st s" and r: "isRequester env rn r" "r \<in> set (podCache env)" and none: "boundProviders env uid = []"
  shows "lawfulRun gs env rn nn uid q0 st (fst (provideLauncherBased env s nn uid r isc ls))"
proof -
  have status: "lawfulRun gs env rn nn uid q0 st (fst (ensureReqStatus env s nn uid r errs))" for errs
    using calm r by (intro lw.lenient_reports calm_lawful)
  show ?thesis unfolding provideLauncherBased_def
    by (rule follows_answers status lawful_bind lawful_createLauncher calm_rules cl.lenient_select calm r none | assumption)+
qed


subsection \<open>A whole run\<close>

lemma lawful_live:
  assumes calm: "calmRun gs env rn nn uid q0 st s" and inv: "runInv env rn nn uid q0 st"
    and r: "isRequester env rn r" "r \<in> set (podCache env)" and p: "boundProviders env uid = (case provider of None \<Rightarrow> [] | Some p \<Rightarrow> [p])"
    and gpus: "provider = None \<Longrightarrow> set (GPUIndices (serverOf (fst (processLive env s nn uid r provider shouldAdd)) nn uid)) \<subseteq> gs"
  shows "lawfulRun gs env rn nn uid q0 st (fst (processLive env s nn uid r provider shouldAdd))"
proof -
  have status: "lawfulRun gs env rn nn uid q0 st (fst (ensureReqStatus env s2 nn uid r errs))"
    "lawfulRun gs env rn nn uid q0 st (fst (ensureReqState env s2 nn uid r a b errs))" if "calmRun gs env rn nn uid q0 st s2" for s2 a b errs
    by (rule lw.lenient_reports [OF calm_lawful [OF that] r(2)])+
  have unsched: "lawfulRun gs env rn nn uid q0 st (fst (case deletePodPre env s2 (Name r) None None of
       (st2, Some e) \<Rightarrow> (st2, prError (Wrapped ''failed to delete server-requesting Pod on unschedulable Node'' (ApiErr e)))
     | (st2, None) \<Rightarrow> (st2, prDone)))"
    if "calmRun gs env rn nn uid q0 st s2" "nodeGetD env (NodeName (Spec r)) = Inr node" "Unschedulable node" "provider = None" for s2 node
  proof -
    have "lawful gs env rn uid n h (DeletePodD (Name r) None None res)" for n h res
      using that p r(1) by (auto simp: lawful_def mayDelete_def)
    then show ?thesis by (intro follows_rules lw.follows_deletePodPre calm_lawful [OF that(1)])
  qed
  have bound: "lawfulRun gs env rn nn uid q0 st (fst (processBound env s2 nn uid r q lb sa))"
    if "calmRun gs env rn nn uid q0 st s2" "provider = Some q" for s2 q lb sa
    using that p r by (intro lawful_processBound calm_lawful) auto
  have none: "boundProviders env uid = []" if "provider = None" using p that by simp
  have listed: "set (GPUIndices (serverOf (fst (provideDirect env s1 nn uid r)) nn uid)) \<subseteq> gs"
    if "nodeGetD env (NodeName (Spec r)) = Inr node" "\<not> DeletionTimestamp node \<noteq> None" "PodIP (Status r) \<noteq> []"
      "fetchGPUs env s nn uid r (Annotations r InferenceServerConfigAnnotationName \<noteq> None) = (s1, b)" "b = Inr x" "provider = None"
      "\<not> Annotations r InferenceServerConfigAnnotationName \<noteq> None" "\<not> Unschedulable node" for node s1 b x
  proof -
    have "processLive env s nn uid r provider shouldAdd = provideDirect env s1 nn uid r"
      using that by (simp add: processLive_def Let_def)
    with gpus [OF \<open>provider = None\<close>] show ?thesis by simp
  qed
  show ?thesis unfolding processLive_def deleteOnUnschedulable_def Let_def
    by (rule unsched bound status lawful_provideDirect [OF _ inv] lawful_provideLauncherBased calm_rules cl.lenient_fetchGPUs calm r | assumption | erule none | (rule listed, assumption+))+
qed

lemma lawful_pair:
  assumes calm: "calmRun gs env rn nn uid q0 st s" and inv: "runInv env rn nn uid q0 st"
    and req: "\<And>r. isRequester env rn r \<longleftrightarrow> req = Some r" "\<And>r. req = Some r \<Longrightarrow> r \<in> set (podCache env)"
    and p: "boundProviders env uid = (case provider of None \<Rightarrow> [] | Some p \<Rightarrow> [p])"
    and gpus: "provider = None \<Longrightarrow> set (GPUIndices (serverOf (fst (processPair env s nn uid req provider)) nn uid)) \<subseteq> gs"
  shows "lawfulRun gs env rn nn uid q0 st (fst (processPair env s nn uid req provider))"
proof -
  have r: "isRequester env rn r" "r \<in> set (podCache env)" if "req = Some r" for r using req that by auto
  have status: "lawfulRun gs env rn nn uid q0 st (fst (ensureReqStatus env s2 nn uid r errs))" if "calmRun gs env rn nn uid q0 st s2" "req = Some r" for s2 r errs
    by (rule lw.lenient_reports [OF calm_lawful [OF that(1)] r(2) [OF that(2)]])
  have fin: "calmRun gs env rn nn uid q0 st (fst (maybeRemoveRequesterFinalizer env s r provider))" if "req = Some r" for r
    by (rule cl.lenient_reports [OF calm r(2) [OF that]])
  have live: "lawfulRun gs env rn nn uid q0 st (fst (processLive env s2 nn uid r provider sa))"
    if "calmRun gs env rn nn uid q0 st s2" "req = Some r" "provider = None \<Longrightarrow> processPair env s nn uid req provider = processLive env s2 nn uid r provider sa" for s2 r sa
    by (rule lawful_live [OF that(1) inv r [OF that(2)] p]) (use gpus that(3) in simp)
  have goes: "lawfulRun gs env rn nn uid q0 st (fst (providerGoing env s2 nn uid req q sa))" if "calmRun gs env rn nn uid q0 st s2" "provider = Some q" for s2 q sa
    by (rule lawful_providerGoing [OF calm_lawful [OF that(1)]]) (use r p that in auto)
  have left: "lawfulRun gs env rn nn uid q0 st (fst (requesterGoing env s2 nn uid req q))"
    if "calmRun gs env rn nn uid q0 st s2" "provider = Some q" "\<And>r. req = Some r \<Longrightarrow> DeletionTimestamp r \<noteq> None" for s2 q
    by (rule lawful_requesterGoing [OF calm_lawful [OF that(1)]]) (use r req(1) p that in auto)
  show ?thesis unfolding processPair_def
  proof (rule calm_prod)
    show "calmRun gs env rn nn uid q0 st (fst (case req of None \<Rightarrow> (s, Inr (False, False)) | Some r \<Rightarrow> maybeRemoveRequesterFinalizer env s r provider))"
      by (rule follows_rules fin calm | assumption)+
  next
    fix s1 b
    assume eq: "(case req of None \<Rightarrow> (s, Inr (False, False)) | Some r \<Rightarrow> maybeRemoveRequesterFinalizer env s r provider) = (s1, b)"
      and "calmRun gs env rn nn uid q0 st s1"
    note rules = this(2) status [OF this(2)] goes [OF this(2)] left [OF this(2)] calm_lawful [OF this(2)]
    have live1: "lawfulRun gs env rn nn uid q0 st (fst (processLive env s1 nn uid r provider sa))"
      if "req = Some r" "b = Inr (False, sa)" "NodeName (Spec r) \<noteq> []" "DeletionTimestamp r = None" "\<not> RequesterDeleteRequested (serverOf s1 nn uid)" for r sa
      using that eq by (intro live [OF \<open>calmRun gs env rn nn uid q0 st s1\<close>]) (simp_all add: processPair_def)
    show "lawfulRun gs env rn nn uid q0 st (fst (case b of Inl err \<Rightarrow> (s1, prRetryErr err)
      | Inr (removed, shouldAdd) \<Rightarrow>
          if removed then (s1, prDone)
          else (case provider of
                  Some p \<Rightarrow>
                    if DeletionTimestamp p \<noteq> None then providerGoing env s1 nn uid req p shouldAdd
                    else (case req of
                            None \<Rightarrow> requesterGoing env s1 nn uid req p
                          | Some r \<Rightarrow>
                              if DeletionTimestamp r \<noteq> None then requesterGoing env s1 nn uid req p
                              else if NodeName (Spec r) = [] then ensureReqStatus env s1 nn uid r [''not scheduled yet'']
                              else if RequesterDeleteRequested (serverOf s1 nn uid) then (s1, prDone)
                              else processLive env s1 nn uid r provider shouldAdd)
                | None \<Rightarrow>
                    (case req of
                       None \<Rightarrow> (s1, prError (GoPanic ''nil pointer dereference''))
                     | Some r \<Rightarrow>
                         if NodeName (Spec r) = [] then ensureReqStatus env s1 nn uid r [''not scheduled yet'']
                         else if DeletionTimestamp r \<noteq> None \<or> RequesterDeleteRequested (serverOf s1 nn uid) then (s1, prDone)
                         else processLive env s1 nn uid r None shouldAdd))))"
      using rules live1 by (auto split: sum.split option.split)
  qed
qed

lemma clearServerData_cleared:
  "dcalls (clearServerData s nn uid) = dcalls s" "serverOf (clearServerData s nn uid) nn uid = newServerData []"
  by (simp add: clearServerData_def modNode_def) (simp add: clearServerData_def serverOf_def nodeOf_modNode gomap_simps)

lemma lawful_run:
  assumes inv: "runInv env rn nn uid q0 st" and cache: "\<And>r. podGet env rn = Inr r \<Longrightarrow> r \<in> set (podCache env)"
  defines "gs \<equiv> set (GPUIndices (serverOf (fst (infSvrItem_process env st nn uid rn)) nn uid))"
  shows "lawfulRun gs env rn nn uid q0 st (fst (infSvrItem_process env st nn uid rn))"
proof -
  let ?s = "getServerData st nn rn uid"
  have calm: "calmRun gs env rn nn uid q0 st ?s" by (rule follows_rules follows_refl)+
  have pods: "lawfulRun gs env rn nn uid q0 st (fst (infSvrPods env ?s nn uid req))"
    if "\<And>r. isRequester env rn r \<longleftrightarrow> req = Some r" "infSvrItem_process env st nn uid rn = infSvrPods env ?s nn uid req" for req
  proof -
    have pair: "lawfulRun gs env rn nn uid q0 st (fst (processPair env s nn uid req provider))"
      if "calmRun gs env rn nn uid q0 st s" "boundProviders env uid = (case provider of None \<Rightarrow> [] | Some p \<Rightarrow> [p])"
        "provider = None \<Longrightarrow> infSvrItem_process env st nn uid rn = processPair env s nn uid req provider" for s provider
      by (rule lawful_pair [OF that(1) inv _ _ that(2)]) (use that(3) cache \<open>\<And>r. isRequester env rn r \<longleftrightarrow> req = Some r\<close> in \<open>auto simp: isRequester_def gs_def\<close>)
    have cleared: "lawfulRun gs env rn nn uid q0 st (clearServerData ?s nn uid)"
      by (rule follows_same [OF calm_lawful [OF calm]]) (simp_all add: clearServerData_cleared runInv_def serverInv_def newServerData_def)
    have named: "calmRun gs env rn nn uid q0 st (modServer nn uid (\<lambda>sd. sd\<lparr>ProvidingPodName := n\<rparr>) ?s)" for n
      by (rule follows_rules calm | simp)+
    show ?thesis unfolding infSvrPods_def
      using pair [OF calm, of None] that(2) pair [OF named, of "Some p" "Name p" for p] cleared calm_lawful [OF calm]
      by (auto intro!: follows_rules simp: boundProviders_def infSvrPods_def Let_def split: list.split option.split)
  qed
  show ?thesis
  proof (cases "podGet env rn")
    case (Inl e)
    with calm_lawful [OF calm] pods [of None] show ?thesis
      by (cases "isNotFound e") (simp_all add: infSvrItem_process_def isRequester_def)
  next
    case (Inr r)
    with pods [of "Some r"] show ?thesis by (simp add: infSvrItem_process_def isRequester_def)
  qed
qed

lemma run_keeps:
  assumes "serverInv env rn nn uid st" and "\<And>r. podGet env rn = Inr r \<Longrightarrow> r \<in> set (podCache env)"
  defines "st' \<equiv> fst (infSvrItem_process env st nn uid rn)"
  shows "lawfulRun (set (GPUIndices (serverOf st' nn uid))) env rn nn uid (\<lambda>m. LocalQueue (nodeOf st m)) st st'"
    and "serverInv env rn nn uid st' \<and> (\<forall>m. LocalQueue (nodeOf st' m) = LocalQueue (nodeOf st m))"
proof -
  have inv: "runInv env rn nn uid (\<lambda>m. LocalQueue (nodeOf st m)) st" using assms(1) by (simp add: runInv_def)
  from lawful_run [OF this assms(2)] show run: "lawfulRun (set (GPUIndices (serverOf st' nn uid))) env rn nn uid (\<lambda>m. LocalQueue (nodeOf st m)) st st'" by (simp add: st'_def)
  from follows_keeps [OF this inv] show "serverInv env rn nn uid st' \<and> (\<forall>m. LocalQueue (nodeOf st' m) = LocalQueue (nodeOf st m))"
    by (simp add: runInv_def)
qed

lemma run_call:
  assumes "serverInv env rn nn uid st" and "\<And>r. podGet env rn = Inr r \<Longrightarrow> r \<in> set (podCache env)"
    and "infSvrItem_process env st nn uid rn = (st', out)" and "dcalls st' = dcalls st @ pre @ c # post"
  shows "lawfulCall (set (GPUIndices (serverOf st' nn uid))) env rn uid pre c"
  using run_keeps(1) [OF assms(1,2)] assms(3,4) by (auto simp: follows_def extends_def lawful_def)

text \<open>
  C5: a run of an inference server item wakes a server or creates a vLLM instance only in a Pod that is bound to the
  requester: one that the cache shows bound, or one whose binding the apiserver has accepted earlier in the run.
\<close>

theorem awake_implies_bound:
  assumes "serverInv env rn nn uid st" and "\<forall>r. podGet env rn = Inr r \<longrightarrow> r \<in> set (podCache env)"
    and "infSvrItem_process env st nn uid rn = (st', out)" and "dcalls st' = dcalls st @ pre @ Http req resp # post"
    and "hrPurpose req \<in> {''wake'', ''create_instance''}"
  shows "\<exists>p. sentTo p req \<and> (p \<in> set (byIndex env requesterIndexFunc uid) \<or>
    (\<exists>r echo. podGet env rn = Inr r \<and> carries r p \<and> UpdatePod p (Inr echo) \<in> set pre))"
  using run_call [OF assms(1) _ assms(3,4)] assms(2,5) by (auto simp: mayRouse_def isRequester_def boundProviders_def)

text \<open>
  C6: a run binds a Pod only when the cache shows no provider bound to the requester; what it writes names the
  requester and carries the provider's finalizer; and at most one Pod gets bound: a new one that is created, or an
  existing one that is updated.
\<close>

theorem binds_at_most_one_provider:
  assumes "serverInv env rn nn uid st" and "\<forall>r. podGet env rn = Inr r \<longrightarrow> r \<in> set (podCache env)"
    and "infSvrItem_process env st nn uid rn = (st', out)" and "dcalls st' = dcalls st @ pre @ c # post" and "binds env c"
  shows "byIndex env requesterIndexFunc uid = [] \<and>
    (\<exists>r q res. podGet env rn = Inr r \<and> carries r q \<and> (c = UpdatePod q res \<or> c = CreatePodD q res) \<and>
       (\<forall>b \<in> set pre. binds env b \<longrightarrow> (\<exists>q' res'. b = UpdatePod q' res' \<and> c = UpdatePod q res \<and> Name q' = Name q)))"
  using run_call [OF assms(1) _ assms(3,4)] assms(2,5)
  by (cases c) (auto simp: mayBind_def sameBound_def isRequester_def boundProviders_def)

text \<open>
  C7: a run deletes only the requester itself (and, but for an unschedulable Node, only the very Pod the item is about),
  a provider in trouble whose requester is gone or going, and, while the requester has no provider, Pods that the GPU
  index lists for a GPU that is recorded as one of the requester's, on the requester's Node; the latter two exactly as
  the cache shows them.
\<close>

theorem run_deletes_only:
  assumes "serverInv env rn nn uid st" and "\<forall>r. podGet env rn = Inr r \<longrightarrow> r \<in> set (podCache env)"
    and "infSvrItem_process env st nn uid rn = (st', out)" and "dcalls st' = dcalls st @ pre @ DeletePodD name u rv res # post"
  shows "(\<exists>r. podGet env rn = Inr r \<and> name = Name r \<and> (u = Some uid \<or> u = Some (UID r) \<or>
        u = None \<and> byIndex env requesterIndexFunc uid = [] \<and> (\<exists>node. nodeGetD env (NodeName (Spec r)) = Inr node \<and> Unschedulable node))) \<or>
     (\<exists>p \<in> set (byIndex env requesterIndexFunc uid). name = Name p \<and> u = Some (UID p) \<and> rv = Some (ResourceVersion p) \<and> PodIsInTrouble p \<and>
        (\<forall>r. podGet env rn = Inr r \<longrightarrow> DeletionTimestamp r \<noteq> None)) \<or>
     (byIndex env requesterIndexFunc uid = [] \<and> (\<exists>r. podGet env rn = Inr r \<and> (\<exists>g \<in> set (GPUIndices (serverOf st' nn uid)). \<exists>p \<in> set (podsOnGPU env (NodeName (Spec r)) g).
        name = Name p \<and> u = Some (UID p) \<and> rv = Some (ResourceVersion p))))"
  using run_call [OF assms(1) _ assms(3,4)] assms(2) by (simp add: mayDelete_def isRequester_def boundProviders_def)

text \<open>
  A run keeps the data of its server in order (the nominal provider it remembers names the requester, and an
  instance it knows has a configuration) and leaves the queue of every Node as it is.
\<close>

theorem run_keeps_server_data:
  assumes "serverInv env rn nn uid st" and "\<forall>r. podGet env rn = Inr r \<longrightarrow> r \<in> set (podCache env)"
  defines "st' \<equiv> fst (infSvrItem_process env st nn uid rn)"
  shows "serverInv env rn nn uid st' \<and> (\<forall>m. LocalQueue (nodeOf st' m) = LocalQueue (nodeOf st m))"
  using run_keeps(2) [of env rn nn uid st] assms by blast

subsection \<open>Examples\<close>

text \<open>A requester with a server patch, its provider, and what the controller knows of them.\<close>

definition directRequester :: pod where
  "directRequester = blankPod\<lparr>Name := ''r1'', UID := ''u1'', Annotations := [ServerPatchAnnotationName \<mapsto> ''patch''],
     Spec := blankPodSpec\<lparr>NodeName := ''n1''\<rparr>, Status := blankPodStatus\<lparr>PodIP := ''10.0.0.1''\<rparr>\<rparr>"

definition serverContainer :: container where
  "serverContainer = blankContainer\<lparr>ctrName := InferenceServerContainerName,
     ReadinessProbe := Some \<lparr>HTTPGet = Some \<lparr>probePath = ''/health'', probePort = PortInt 8000, probeScheme = []\<rparr>, InitialDelaySeconds = 0, PeriodSeconds = 0,
       TimeoutSeconds = 0, SuccessThreshold = 0, FailureThreshold = 0\<rparr>\<rparr>"

definition directProvider :: pod where
  "directProvider = (boundPod directRequester blankPod)\<lparr>Name := ''p1'', Spec := blankPodSpec\<lparr>Containers := [serverContainer]\<rparr>,
     Status := blankPodStatus\<lparr>PodIP := ''10.0.0.2''\<rparr>\<rparr>"

definition directServer :: serverData where
  "directServer = (newServerData ''r1'')\<lparr>GPUIDsStr := Some ''g0'', GPUIndicesStr := Some ''0'', Sleeping := Some True,
     NominalProvidingPod := Some directProvider, NominalProvidingPodHash := ''h''\<rparr>"

definition directState :: dpState where
  "directState = modServer ''n1'' ''u1'' (\<lambda>_. directServer) dpExampleState"

lemma directRequester_fields [simp]:
  "Name directRequester = ''r1''" "UID directRequester = ''u1''" "DeletionTimestamp directRequester = None" "Finalizers directRequester = []"
  "NodeName (Spec directRequester) = ''n1''" "PodIP (Status directRequester) = ''10.0.0.1''" "ContainerStatuses (Status directRequester) = []"
  "annot directRequester ServerPatchAnnotationName = ''patch''" "Annotations directRequester InferenceServerConfigAnnotationName = None"
  "requesterIndexFunc directRequester = []" "nominalHashIndexFunc directRequester = []"
  by (simp_all add: directRequester_def blank_defs annot_def shared_name_defs nominalHashAnnotationKey_def requesterIndexFunc_def careAbout_def nominalHashIndexFunc_def)

lemma directProvider_fields [simp]:
  "Name directProvider = ''p1''" "DeletionTimestamp directProvider = None" "GetInferenceServerContainerIndexAndPort directProvider = Inr (0, 8000)"
  "ContainerStatuses (Status directProvider) = []" "requesterIndexFunc directProvider = [''u1'']"
  "lbl directProvider SleepingLabelName = []" "PodIP (Status directProvider) = ''10.0.0.2''" "Conditions (Status directProvider) = []"
  by (simp_all add: directProvider_def boundPod_def blank_defs serverContainer_def GetInferenceServerContainerIndexAndPort_def
      GetInferenceServerContainerIndex_def SliceIndexFeature_eq requesterIndexFunc_def careAbout_def annot_def lbl_def MapSet_def shared_name_defs Let_def strings_Split_append)

lemma directProvider_carries [simp]: "carries directRequester directProvider"
  using carries_bound [of directRequester blankPod] by (simp add: carries_def directProvider_def)

lemma directState_server [simp]: "serverOf directState ''n1'' ''u1'' = directServer" "dcalls directState = []"
  by (simp_all add: directState_def dpExampleState_def)

lemma directState_present: "getServerData directState ''n1'' rn ''u1'' = directState"
  by (simp add: directState_def modServer_def getServerData_def nodeOf_modNode gomap_simps)

lemma directServer_fields [simp]:
  "Sleeping directServer = Some True" "GPUIDsStr directServer = Some ''g0''" "GPUIndicesStr directServer = Some ''0''" "GPUIndices directServer = []"
  "NominalProvidingPod directServer = Some directProvider" "NominalProvidingPodHash directServer = ''h''" "InstanceID directServer = []"
  "RequesterDeleteRequested directServer = False"
  by (simp_all add: directServer_def newServerData_def)

lemma dpExample_cache [simp]:
  "podCache (dpExampleEnv ps) = ps" "podGet (dpExampleEnv ps) n = (case find (\<lambda>p. Name p = n) ps of None \<Rightarrow> Inl ErrNotFound | Some p \<Rightarrow> Inr p)"
  "urlParse (dpExampleEnv ps) u = None" "httpDo (dpExampleEnv ps) h req = Inr (200, ''ok'')" "podUpdateD (dpExampleEnv ps) h p = Inr p"
  "podCreateD (dpExampleEnv ps) h p = Inr p" "podDeleteD (dpExampleEnv ps) h n uu rv = None" "debugAccelMemory (dpExampleEnv ps) = False"
  "nodeGetD (dpExampleEnv ps) n = Inr (blankNode\<lparr>Name := n\<rparr>)" "encodeStatus (dpExampleEnv ps) = concat"
  by (simp_all add: dpExampleEnv_def)

lemma direct_inv: "podGet env ''r1'' = Inr directRequester \<Longrightarrow> serverInv env ''r1'' ''n1'' ''u1'' directState"
  by (auto simp: serverInv_def isRequester_def)

lemma direct_wakes:
  "\<exists>req post. hrPurpose req = ''wake'' \<and>
     dcalls (fst (infSvrItem_process (dpExampleEnv [directRequester, directProvider]) directState ''n1'' ''u1'' ''r1'')) =
     dcalls directState @ [] @ Http req (Inr (200, ''ok'')) # post"
proof -
  let ?env = "dpExampleEnv [directRequester, directProvider]"
  let ?req = "\<lparr>hrPurpose = ''wake'', hrMethod = ''POST'', hrURL = serverURL directProvider 8000 @ ''/wake_up'', hrBody = None\<rparr>"
  have idx: "byIndex ?env requesterIndexFunc ''u1'' = [directProvider]" by (simp add: byIndex_def)
  define st0 where "st0 = modServer ''n1'' ''u1'' (\<lambda>sd. sd\<lparr>ProvidingPodName := ''p1''\<rparr>) directState"
  have st0: "serverOf st0 ''n1'' ''u1'' = directServer\<lparr>ProvidingPodName := ''p1''\<rparr>" "dcalls st0 = []" by (simp_all add: st0_def)
  have wake: "wakeUp ?env st0 ''n1'' ''u1'' directRequester directProvider 8000 =
      (modServer ''n1'' ''u1'' (\<lambda>sd. sd\<lparr>Sleeping := Some False\<rparr>) (st0\<lparr>dcalls := [Http ?req (Inr (200, ''ok''))]\<rparr>), None)"
    by (simp add: wakeUp_def doHTTP_def st0 Let_def)
  have "\<exists>post. dcalls (fst (serveBound ?env st0 ''n1'' ''u1'' directRequester directProvider False 8000 False)) = Http ?req (Inr (200, ''ok'')) # post"
    by (simp add: serveBound_def st0 wake ensureSleepingLabel_def updatePod_def strconv_FormatBool_def ensureReqState_def relayReadiness_def
        IsPodReady_iff prDone_def getContainerStatus_def SliceGetByFeature_find Let_def)
  then show ?thesis
    by (auto simp: infSvrItem_process_def directState_present infSvrPods_def idx processPair_def maybeRemoveRequesterFinalizer_def
      getContainerStatus_def SliceGetByFeature_find slices_Index_neg_iff processLive_def deleteOnUnschedulable_def fetchGPUs_def processBound_def st0 blank_defs Let_def simp flip: st0_def intro!: exI [of _ ?req])
qed

theorem awake_implies_bound_witness:
  "\<exists>req post. hrPurpose req = ''wake'' \<and>
     dcalls (fst (infSvrItem_process (dpExampleEnv [directRequester, directProvider]) directState ''n1'' ''u1'' ''r1'')) =
       Http req (Inr (200, ''ok'')) # post \<and>
     (\<exists>p. sentTo p req \<and> p \<in> set (byIndex (dpExampleEnv [directRequester, directProvider]) requesterIndexFunc ''u1''))"
proof -
  let ?env = "dpExampleEnv [directRequester, directProvider]"
  obtain req post where run: "hrPurpose req = ''wake''" "dcalls (fst (infSvrItem_process ?env directState ''n1'' ''u1'' ''r1'')) =
      dcalls directState @ [] @ Http req (Inr (200, ''ok'')) # post"
    using direct_wakes by blast
  have inv: "serverInv ?env ''r1'' ''n1'' ''u1'' directState" by (rule direct_inv) simp
  have "\<forall>r. podGet ?env ''r1'' = Inr r \<longrightarrow> r \<in> set (podCache ?env)" by simp
  from awake_implies_bound [OF inv this prod.collapse [symmetric] run(2)] run show ?thesis by auto
qed

text \<open>Without a provider, one is created from the nominal Pod.\<close>

lemma direct_creates:
  "\<exists>post. dcalls (fst (infSvrItem_process (dpExampleEnv [directRequester]) directState ''n1'' ''u1'' ''r1'')) =
     dcalls directState @ [] @ CreatePodD directProvider (Inr directProvider) # post"
proof -
  let ?env = "dpExampleEnv [directRequester]"
  let ?st1 = "modServer ''n1'' ''u1'' (\<lambda>sd. sd\<lparr>Sleeping := Some False\<rparr>) (directState\<lparr>dcalls := [CreatePodD directProvider (Inr directProvider)]\<rparr>)"
  have idx: "byIndex ?env requesterIndexFunc ''u1'' = []" "byIndex ?env nominalHashIndexFunc ''h'' = []" by (simp_all add: byIndex_def)
  have "provideDirect ?env directState ''n1'' ''u1'' directRequester = ensureReqStatus ?env ?st1 ''n1'' ''u1'' directRequester []"
    by (simp add: provideDirect_def getNominalServerProvidingPod_def idx enforceSleeperBudget_def createPod_def Let_def)
  moreover have "\<exists>post. dcalls (fst (ensureReqStatus ?env ?st1 ''n1'' ''u1'' directRequester [])) = dcalls ?st1 @ post"
    by (rule follows_grows [OF lw.lenient_reports(2) [OF follows_refl]]) simp
  ultimately show ?thesis
    by (simp add: infSvrItem_process_def directState_present infSvrPods_def idx processPair_def maybeRemoveRequesterFinalizer_def
      slices_Index_neg_iff processLive_def deleteOnUnschedulable_def fetchGPUs_def blank_defs Let_def)
qed

theorem binds_at_most_one_provider_witness:
  "\<exists>post. dcalls (fst (infSvrItem_process (dpExampleEnv [directRequester]) directState ''n1'' ''u1'' ''r1'')) =
     CreatePodD directProvider (Inr directProvider) # post \<and>
   byIndex (dpExampleEnv [directRequester]) requesterIndexFunc ''u1'' = []"
proof -
  let ?env = "dpExampleEnv [directRequester]"
  obtain post where run: "dcalls (fst (infSvrItem_process ?env directState ''n1'' ''u1'' ''r1'')) =
      dcalls directState @ [] @ CreatePodD directProvider (Inr directProvider) # post"
    using direct_creates by blast
  have inv: "serverInv ?env ''r1'' ''n1'' ''u1'' directState" by (rule direct_inv) simp
  have "\<forall>r. podGet ?env ''r1'' = Inr r \<longrightarrow> r \<in> set (podCache ?env)" by simp
  from binds_at_most_one_provider [OF inv this prod.collapse [symmetric] run] run show ?thesis by auto
qed

theorem run_keeps_server_data_witness:
  "serverInv (dpExampleEnv [directRequester]) ''r1'' ''n1'' ''u1''
     (fst (infSvrItem_process (dpExampleEnv [directRequester]) directState ''n1'' ''u1'' ''r1''))"
proof -
  let ?env = "dpExampleEnv [directRequester]"
  have "serverInv ?env ''r1'' ''n1'' ''u1'' directState" by (rule direct_inv) simp
  moreover have "\<forall>r. podGet ?env ''r1'' = Inr r \<longrightarrow> r \<in> set (podCache ?env)" by simp
  ultimately show ?thesis using run_keeps_server_data by blast
qed

text \<open>On a Node that takes no Pods the requester is deleted.\<close>

definition unschedulableEnv :: dpEnv where
  "unschedulableEnv = (dpExampleEnv [directRequester])\<lparr>nodeGetD := (\<lambda>n. Inr (blankNode\<lparr>Name := n, Unschedulable := True\<rparr>))\<rparr>"

lemma unschedulable_fields [simp]:
  "podCache unschedulableEnv = [directRequester]" "podGet unschedulableEnv ''r1'' = Inr directRequester"
  "nodeGetD unschedulableEnv n = Inr (blankNode\<lparr>Name := n, Unschedulable := True\<rparr>)" "podDeleteD unschedulableEnv h n uu rv = None"
  by (simp_all add: unschedulableEnv_def)

theorem run_deletes_only_witness:
  "dcalls (fst (infSvrItem_process unschedulableEnv directState ''n1'' ''u1'' ''r1'')) = [DeletePodD ''r1'' None None None] \<and>
   byIndex unschedulableEnv requesterIndexFunc ''u1'' = []"
proof -
  have idx: "byIndex unschedulableEnv requesterIndexFunc ''u1'' = []" by (simp add: byIndex_def)
  have run: "dcalls (fst (infSvrItem_process unschedulableEnv directState ''n1'' ''u1'' ''r1'')) =
      dcalls directState @ [] @ DeletePodD ''r1'' None None None # []"
    by (simp add: infSvrItem_process_def directState_present infSvrPods_def idx processPair_def maybeRemoveRequesterFinalizer_def
      slices_Index_neg_iff processLive_def deleteOnUnschedulable_def fetchGPUs_def deletePodPre_def blank_defs Let_def)
  have inv: "serverInv unschedulableEnv ''r1'' ''n1'' ''u1'' directState" by (rule direct_inv) simp
  have "\<forall>r. podGet unschedulableEnv ''r1'' = Inr r \<longrightarrow> r \<in> set (podCache unschedulableEnv)" by simp
  from run_deletes_only [OF inv this prod.collapse [symmetric] run] run idx show ?thesis by simp
qed

end
