(* ===== verification/Node_Run.thy ===== *)
theory Node_Run
  imports Server_Run
begin

text \<open>
  The passes over a Node with the real processing of its items (\<^verbatim>\<open>process\<close>): no item is taken from the queue by
  the processing of another, so an item that asks to be retried is retried; and the deletion of obsolete instances.
\<close>

subsection \<open>Processing leaves the queues alone\<close>

lemma follows_prod_state [follows_rules]:
  "follows ok I st (fst x) \<Longrightarrow> (\<And>a b. x = (a, b) \<Longrightarrow> follows ok I st a \<Longrightarrow> follows ok I st (f a b)) \<Longrightarrow>
   follows ok I st (case x of (a, b) \<Rightarrow> f a b)"
  by (cases x) simp

lemma follows_pair_state [follows_rules]:
  "(\<And>a b. x = (a, b) \<Longrightarrow> follows ok I st (f a b)) \<Longrightarrow> follows ok I st (case x of (a :: vllmConfig, b) \<Rightarrow> f a b)"
  by (cases x) simp

lemma follows_fold: "follows ok I st s \<Longrightarrow> (\<And>x s. x \<in> set xs \<Longrightarrow> follows ok I st s \<Longrightarrow> follows ok I st (f x s)) \<Longrightarrow> follows ok I st (fold f xs s)"
  by (induction xs arbitrary: s) simp_all

text \<open>A server whose instance is known has the configuration of it.\<close>

definition configured :: "string \<Rightarrow> string \<Rightarrow> dpState \<Rightarrow> bool" where
  "configured nn uid s \<longleftrightarrow> (InstanceID (serverOf s nn uid) \<noteq> [] \<longrightarrow> InstanceConfig (serverOf s nn uid) \<noteq> None)"

lemma configured_core: "configured nn uid s \<Longrightarrow> core (serverOf s' nn uid) = core (serverOf s nn uid) \<Longrightarrow> configured nn uid s'"
  by (simp add: configured_def core_def)

interpretation cf: lenient_policy "\<lambda>_ _. True" "configured nn uid" nn uid env "\<lambda>_. True"
  for nn uid env
proof
  show "configured nn uid (modServer nn uid (\<lambda>_. sd) s)"
    if "configured nn uid s" "recoverInstanceStateFromLauncherPod env (serverOf s nn uid) p = Inr sd" for s p sd
    using that recover_keeps(2,3) [OF that(2)] by (cases "InstanceID (serverOf s nn uid) = []") (auto simp: configured_def)
qed (auto intro: configured_core)

text \<open>
  An invariant that a run keeps whatever it calls: besides the bookkeeping, a run recovers or commits the state of the
  instance, remembers the nominal provider, and clears the data of its own server.
\<close>

locale keeper_policy = lenient_policy "\<lambda>_ _. True" I nn uid env "\<lambda>_. True"
  for I :: "dpState \<Rightarrow> bool" and nn uid :: string and env :: dpEnv +
  assumes commits: "I s \<Longrightarrow> (\<And>sd. core (f sd) = core (commitInstanceState sd ls)) \<Longrightarrow> I (modServer nn uid f s)"
    and remembers: "I s \<Longrightarrow>
      I (modServer nn uid (\<lambda>sd. sd\<lparr>ServerPort := port, NominalProvidingPod := Some q, NominalProvidingPodHash := h\<rparr>) s)"
    and clears: "I s \<Longrightarrow> I (clearServerData s nn uid)"
begin

lemma keeps_commit:
  "follows (\<lambda>_ _. True) I st s \<Longrightarrow> follows (\<lambda>_ _. True) I st (modServer nn uid (\<lambda>sd. commitInstanceState sd ls) s)"
  "follows (\<lambda>_ _. True) I st s \<Longrightarrow> follows (\<lambda>_ _. True) I st
     (modServer nn uid (\<lambda>sd. (commitInstanceState (sd\<lparr>Sleeping := None\<rparr>) ls)\<lparr>ProvidingPodName := pn\<rparr>) s)"
  by (erule follows_same, simp, erule commits, simp add: commitInstanceState_def core_def)+

lemma keeps_nominal:
  "follows (\<lambda>_ _. True) I st s \<Longrightarrow> follows (\<lambda>_ _. True) I st
     (modServer nn uid (\<lambda>sd. sd\<lparr>ServerPort := port, NominalProvidingPod := Some q, NominalProvidingPodHash := h\<rparr>) s)"
  by (erule follows_same, simp, erule remembers)

lemma keeps_clear [follows_rules]:
  "follows (\<lambda>_ _. True) I st s \<Longrightarrow> follows (\<lambda>_ _. True) I st (clearServerData s nn uid)"
  by (erule follows_same) (auto simp: clearServerData_cleared(1) intro: clears)

lemmas keeps_own = keeps_commit keeps_nominal lenient_recovered

lemmas keeps_calls = follows_deletePodPre follows_createPod follows_updatePod follows_doHTTP follows_fullDo TrueI core_update

lemma keeps_rousing [follows_rules]:
  assumes "follows (\<lambda>_ _. True) I st s"
  shows "follows (\<lambda>_ _. True) I st (fst (wakeUp env s nn uid r p port))"
    "follows (\<lambda>_ _. True) I st (fst (CreateNamedInstance env s base i cfg))"
  unfolding wakeUp_def CreateNamedInstance_def createInst_def by (rule keeps_own follows_rules keeps_calls assms | assumption)+

lemma keeps_labels [follows_rules]:
  assumes "follows (\<lambda>_ _. True) I st s"
  shows "follows (\<lambda>_ _. True) I st (fst (applyBoundLauncherLabels env s nn uid r p))"
  unfolding applyBoundLauncherLabels_def by (rule keeps_own follows_rules keeps_calls assms | assumption)+

lemma keeps_ensureInstance [follows_rules]:
  assumes "follows (\<lambda>_ _. True) I st s"
  shows "follows (\<lambda>_ _. True) I st (fst (ensureInstance env s nn uid r p))"
  unfolding ensureInstance_def by (rule keeps_own follows_rules keeps_calls assms | assumption)+

lemma keeps_serveBound [follows_rules]:
  assumes "follows (\<lambda>_ _. True) I st s"
  shows "follows (\<lambda>_ _. True) I st (fst (serveBound env s nn uid r p launcherBased port shouldAdd))"
  unfolding serveBound_def by (rule keeps_own follows_rules keeps_calls assms | assumption)+

lemma keeps_processBound [follows_rules]:
  assumes "follows (\<lambda>_ _. True) I st s"
  shows "follows (\<lambda>_ _. True) I st (fst (processBound env s nn uid r p launcherBased shouldAdd))"
  unfolding processBound_def by (rule keeps_own follows_rules keeps_calls assms | assumption)+

lemma keeps_sleepers [follows_rules]:
  "follows (\<lambda>_ _. True) I st s \<Longrightarrow> follows (\<lambda>_ _. True) I st (fst (deleteSleepers env ps s goners))"
proof (induction ps arbitrary: s goners)
  case (Cons p ps)
  show ?case unfolding deleteSleepers.simps by (rule keeps_own follows_rules keeps_calls Cons.IH Cons.prems | assumption)+
qed simp

lemma keeps_budget [follows_rules]:
  "follows (\<lambda>_ _. True) I st s \<Longrightarrow> follows (\<lambda>_ _. True) I st (fst (budgetLoop env node now limit gpus s goners))"
proof (induction gpus arbitrary: s goners)
  case (Cons g gpus)
  show ?case unfolding budgetLoop.simps by (rule keeps_own follows_rules Cons.IH Cons.prems | assumption)+
qed simp

lemma keeps_bind [follows_rules]:
  assumes "follows (\<lambda>_ _. True) I st s"
  shows "follows (\<lambda>_ _. True) I st (fst (bind env s nn uid r p launcherState skipWake))"
  unfolding bind_def by (rule keeps_own follows_rules keeps_calls assms | assumption)+

lemma keeps_provideDirect [follows_rules]:
  assumes "follows (\<lambda>_ _. True) I st s"
  shows "follows (\<lambda>_ _. True) I st (fst (provideDirect env s nn uid r))"
  unfolding provideDirect_def getNominalServerProvidingPod_def enforceSleeperBudget_def createFailed_def
  by (rule keeps_own follows_rules keeps_calls assms | assumption)+

lemma keeps_provideLauncherBased [follows_rules]:
  assumes "follows (\<lambda>_ _. True) I st s"
  shows "follows (\<lambda>_ _. True) I st (fst (provideLauncherBased env s nn uid r isc ls))"
  unfolding provideLauncherBased_def createLauncher_def createFailed_def
  by (rule keeps_own follows_rules keeps_calls assms | assumption)+

lemma keeps_live [follows_rules]:
  assumes "follows (\<lambda>_ _. True) I st s"
  shows "follows (\<lambda>_ _. True) I st (fst (processLive env s nn uid r provider shouldAdd))"
  unfolding processLive_def deleteOnUnschedulable_def by (rule keeps_own follows_rules keeps_calls assms | assumption)+

lemma keeps_pair [follows_rules]:
  assumes "follows (\<lambda>_ _. True) I st s"
  shows "follows (\<lambda>_ _. True) I st (fst (processPair env s nn uid req provider))"
  unfolding processPair_def providerGoing_def requesterGoing_def by (rule keeps_own follows_rules keeps_calls assms | assumption)+

lemma keeps_run: "follows (\<lambda>_ _. True) I st (fst (infSvrItem_process env st nn uid rn))"
  unfolding infSvrItem_process_def infSvrPods_def by (rule keeps_own follows_rules follows_refl core_update | assumption)+

lemma keeps_gc: "follows (\<lambda>_ _. True) I st (fst (instanceGCItem_process env st nn iscName))"
  unfolding instanceGCItem_process_def gcLauncher_def gcInstance_def
  by (rule follows_fold follows_rules follows_refl | assumption)+

end

interpretation kq: keeper_policy "\<lambda>s. \<forall>m. LocalQueue (nodeOf s m) = q m" nn uid env for q nn uid env
  by unfold_locales auto

text \<open>A run keeps the state well formed, and leaves the data of the other servers as they are.\<close>

interpretation kw: keeper_policy wfState nn uid env for nn uid env
  by unfold_locales (auto intro: wfState_maps)

definition coreElsewhere :: "string \<Rightarrow> string \<Rightarrow> (string \<Rightarrow> string \<Rightarrow> pod option \<times> string \<times> string \<times> vllmConfig option) \<Rightarrow> dpState \<Rightarrow> bool" where
  "coreElsewhere nn uid c s \<longleftrightarrow> (\<forall>m v. (m, v) \<noteq> (nn, uid) \<longrightarrow> core (serverOf s m v) = c m v)"

lemma serverOf_clearServerData:
  "serverOf (clearServerData s mm v) nn uid = (if mm = nn \<and> v = uid then newServerData [] else serverOf s nn uid)"
  by (auto simp: clearServerData_def serverOf_def nodeOf_modNode gomap_simps)

lemma elsewhere_own:
  "coreElsewhere nn uid c (modServer nn uid f s) = coreElsewhere nn uid c s"
  "coreElsewhere nn uid c (clearServerData s nn uid) = coreElsewhere nn uid c s"
  by (auto simp: coreElsewhere_def serverOf_other serverOf_clearServerData)

interpretation ke: keeper_policy "coreElsewhere nn uid c" nn uid env for nn uid c env
  by unfold_locales (simp_all add: elsewhere_own, simp add: coreElsewhere_def)

text \<open>A run keeps a configuration for the instance that it knows.\<close>

interpretation kc: keeper_policy "configured nn uid" nn uid env for nn uid env
proof
  show "configured nn uid (modServer nn uid f s)"
    if "configured nn uid s" "\<And>sd. core (f sd) = core (commitInstanceState sd ls)" for s f ls
    using that(2) [of "serverOf s nn uid"] by (simp add: configured_def core_def commitInstanceState_def)
qed (simp_all add: configured_def clearServerData_cleared serverOf_other newServerData_def)

text \<open>The queue of a Node grows, or stays as it is.\<close>

definition growsQueue :: "string \<Rightarrow> dpState \<Rightarrow> dpState \<Rightarrow> bool" where
  "growsQueue nn st st' \<longleftrightarrow> (queuePos st nn \<longrightarrow> queuePos st' nn) \<and>
     (\<forall>j. dueOn (nodeOf st nn) j \<noteq> None \<longrightarrow> dueOn (nodeOf st' nn) j \<noteq> None)"

lemma growsQueue_same: "LocalQueue (nodeOf st' nn) = LocalQueue (nodeOf st nn) \<Longrightarrow> growsQueue nn st st'"
  by (simp add: growsQueue_def queuePos_def dueOn_def)

lemma growsQueue_trans: "growsQueue nn st st1 \<Longrightarrow> growsQueue nn st1 st2 \<Longrightarrow> growsQueue nn st st2"
  by (simp add: growsQueue_def)

lemma growsQueue_follows:
  assumes "\<And>q. follows (\<lambda>_ _. True) (\<lambda>s. \<forall>m. LocalQueue (nodeOf s m) = q m) st st'"
  shows "growsQueue nn st st'"
  using follows_keeps [OF assms [of "\<lambda>m. LocalQueue (nodeOf st m)"]] by (auto intro: growsQueue_same)

lemma growsQueue_addItem:
  assumes "clockOk env"
  shows "growsQueue nn st (addItem env mm i st)"
proof -
  have "dueOn (nodeOf st nn) j \<noteq> None \<Longrightarrow> dueOn (nodeOf (addItem env mm i st) nn) j \<noteq> None" for j
    using addItem_due(1) [of st env mm i] unfolding keepsDue_def by blast
  moreover have "queuePos (addItem env mm i st) nn" if pos: "queuePos st nn"
  proof (cases "mm = nn")
    case True
    then show ?thesis using queuePos_add [of "getNodeData st nn" nn "nowD env st"] pos nowD_pos [OF assms]
      by (simp add: addItem_def add_def queuePos_def)
  next
    case False
    then show ?thesis using pos by (simp add: addItem_def queuePos_def nodeOf_modNode)
  qed
  ultimately show ?thesis by (simp add: growsQueue_def)
qed

lemma growsQueue_enqueueEach:
  assumes "clockOk env"
  shows "growsQueue nn st (fst (enqueueUnboundEach env mm pods st k))"
proof (induction pods arbitrary: st k)
  case (Cons p pods)
  let ?s = "getServerData st mm (Name p) (UID p)"
  have get: "growsQueue nn st ?s" by (rule growsQueue_same) simp
  have add: "growsQueue nn st (addItem env mm i ?s)" for i
    by (rule growsQueue_trans [OF get growsQueue_addItem [OF assms]])
  show ?case
    using growsQueue_trans [OF get Cons.IH] growsQueue_trans [OF add Cons.IH] Cons.IH
    by (auto simp: Let_def split_beta split: option.split)
qed (simp add: growsQueue_same)

lemma process_keepsQueue:
  assumes "clockOk env"
  shows "keepsQueue (process env) nn"
proof -
  have "growsQueue nn st (fst (process env st nn i))" for st i
  proof (cases i)
    case (InfSvrItem uid rn)
    then show ?thesis by (simp add: growsQueue_follows [OF kq.keeps_run])
  next
    case (InstanceGCItem iscName)
    then show ?thesis by (simp add: growsQueue_follows [OF kq.keeps_gc])
  next
    case (UnboundLauncherPodItem launcher mm)
    have enq: "growsQueue nn s (enqueueUnboundInfSvrItemsOnNode env mm s)" for s
    proof -
      have "growsQueue nn s (getNodeData s mm)" by (rule growsQueue_same) simp
      from growsQueue_trans [OF this growsQueue_enqueueEach [OF assms]]
      show ?thesis by (auto simp: enqueueUnboundInfSvrItemsOnNode_def Let_def split_beta growsQueue_def)
    qed
    have sync: "growsQueue nn st (fst (syncLauncherInstances env st nn None p))" for p
      by (rule growsQueue_follows) (rule kq.lenient_sync [OF follows_refl])
    have "growsQueue nn st (clearLauncherData st nn launcher)" "growsQueue nn st st" by (rule growsQueue_same, simp)+
    with growsQueue_trans [OF sync enq] growsQueue_trans [OF _ enq] show ?thesis
      by (auto simp: UnboundLauncherPodItem unboundLauncherPodItem_process_def split_beta split: sum.split)
  qed
  then show ?thesis by (simp add: keepsQueue_def growsQueue_def)
qed

text \<open>
  C27: a pass over a Node loses no item that still has work to do.  An item that was queued, and that was not ready or
  whose processing asked to be retried, is in the Node's local queue when the pass is over, and the Node itself is
  scheduled to be processed again no later than that item is due.
\<close>

theorem retry_is_not_lost:
  assumes "clockOk env" and "queuePos st nn" and "mok (LocalQueue (nodeOf st nn))" and "dueOn (nodeOf st nn) i \<noteq> None"
    and "nodeItem_process env (process env) st nn = (st', None, again)"
  defines "ready \<equiv> snd (pullReady (nowD env st) (nodeOf st nn))"
    and "st1 \<equiv> modNode nn (\<lambda>_. fst (pullReady (nowD env st) (nodeOf st nn))) (getNodeData st nn)"
  assumes "i \<in> set ready \<longrightarrow> retries env (process env) nn ready st1 i"
  shows "\<exists>t d. dueOn (nodeOf st' nn) i = Some t \<and> QAddAfter (NodeItem nn) d \<in> set (dqueue st') \<and>
    nowD env st' + d \<le> max t (nowD env st')"
  using retry_kept [OF assms(1) process_keepsQueue [OF assms(1)] assms(2-5)] assms(8) unfolding ready_def st1_def by blast

text \<open>An environment in which no HTTP call succeeds: the requester's GPUs cannot be learnt, which is retried.\<close>

definition offlineEnv :: dpEnv where
  "offlineEnv = (dpExampleEnv [directRequester])\<lparr>httpDo := (\<lambda>_ _. Inl ''refused'')\<rparr>"

lemma offline_fields [simp]:
  "podCache offlineEnv = [directRequester]" "podGet offlineEnv ''r1'' = Inr directRequester" "nodeGetD offlineEnv n = Inr (blankNode\<lparr>Name := n\<rparr>)"
  "urlParse offlineEnv u = None" "httpDo offlineEnv h req = Inl ''refused''" "timeNow offlineEnv h = 10 + int (length h)" "rateWhen offlineEnv h i = 3"
  by (simp_all add: offlineEnv_def) (simp_all add: dpExampleEnv_def)

lemma offline_run:
  assumes "mget (InferenceServers (nodeOf s ''n1'')) ''u1'' = None"
  shows "\<exists>s' e. infSvrItem_process offlineEnv s ''n1'' ''u1'' ''r1'' = (s', prRetryErr (Joined e))"
proof -
  let ?s = "getServerData s ''n1'' ''r1'' ''u1''"
  have idx: "byIndex offlineEnv requesterIndexFunc ''u1'' = []" by (simp add: byIndex_def)
  have sd: "serverOf ?s ''n1'' ''u1'' = newServerData ''r1''" using assms by (simp add: serverOf_getServerData)
  have "GPUIDsStr (newServerData ''r1'') = None" "\<not> RequesterDeleteRequested (newServerData ''r1'')" by (simp_all add: newServerData_def)
  then show ?thesis
    by (simp add: infSvrItem_process_def infSvrPods_def idx processPair_def maybeRemoveRequesterFinalizer_def
      slices_Index_neg_iff processLive_def deleteOnUnschedulable_def fetchGPUs_def sd getGPUUUIDs_def doHTTP_def blank_defs Let_def split_beta)
      blast
qed

theorem retry_is_not_lost_witness:
  "\<exists>st' t d. nodeItem_process offlineEnv (process offlineEnv) dpExampleState ''n1'' = (st', None, False) \<and>
     dueOn (nodeOf st' ''n1'') (InfSvrItem ''u1'' ''r1'') = Some t \<and> QAddAfter (NodeItem ''n1'') d \<in> set (dqueue st')"
proof -
  let ?i = "InfSvrItem ''u1'' ''r1''"
  let ?nd = "nodeOf dpExampleState ''n1''"
  let ?st1 = "modNode ''n1'' (\<lambda>_. fst (pullReady (nowD offlineEnv dpExampleState) ?nd)) (getNodeData dpExampleState ''n1'')"
  have nd: "?nd = (newNodeData ''n1'')\<lparr>LocalQueue := [(?i, \<lparr>addTime = 4, processAfter = 5\<rparr>)]\<rparr>"
    by (simp add: nodeOf_def dpExampleState_def)
  have ready: "snd (pullReady (nowD offlineEnv dpExampleState) ?nd) = [?i]"
    by (simp add: nd pullReady_def takeReadyItems_def nowD_def)
  have "mget (InferenceServers (nodeOf ?st1 ''n1'')) ''u1'' = None" by (simp add: nd pullReady_def takeReadyItems_def newNodeData_def)
  then obtain s' e where run: "process offlineEnv ?st1 ''n1'' ?i = (s', prRetryErr (Joined e))" using offline_run [of ?st1] by auto
  have pass: "\<exists>st'. nodeItem_process offlineEnv (process offlineEnv) dpExampleState ''n1'' = (st', None, False)"
    using ready run unfolding nodeItem_process_def
    by (simp add: pullReady_def Let_def split_beta nowD_def panicked_def prRetryErr_def)
  then obtain st' where st': "nodeItem_process offlineEnv (process offlineEnv) dpExampleState ''n1'' = (st', None, False)" by blast
  have "retries offlineEnv (process offlineEnv) ''n1'' [?i] ?st1 ?i"
    using run by (auto simp: retries_def prRetryErr_def intro!: exI [of _ "[]"])
  moreover have "clockOk offlineEnv" "queuePos dpExampleState ''n1''" "mok (LocalQueue ?nd)" "dueOn ?nd ?i \<noteq> None"
    by (simp_all add: clockOk_def queuePos_def nd mok_def dueOn_def)
  ultimately show ?thesis
    using retry_is_not_lost [OF _ _ _ _ st', of ?i] st' by (auto simp: ready)
qed


subsection \<open>Obsolete instances\<close>

text \<open>
  A launcher has reported an instance of the InferenceServerConfig whose identifier is not the one the current
  configuration gives, and the last answer so far says that this instance sleeps.
\<close>

definition obsoleteAt :: "dpEnv \<Rightarrow> inferenceServerConfig \<Rightarrow> dpCall list \<Rightarrow> pod \<Rightarrow> instanceState \<Rightarrow> int \<Rightarrow> bool" where
  "obsoleteAt env isc h p inst port \<longleftrightarrow> (\<exists>all. (\<exists>c \<in> set h. listedAt env p all c) \<and> inst \<in> set (Instances all)) \<and>
     instAnnot inst VllmConfigISCNameAnnotationKey = Name isc \<and> getVLLMInstancePort inst = Inr port \<and>
     (\<exists>cfg hash. configInferenceServer env isc (vcGpuUUIDs (instConfig inst)) = Inr (cfg, hash) \<and> hash \<noteq> instID inst)"

definition saysSleeping :: "dpEnv \<Rightarrow> pod \<Rightarrow> int \<Rightarrow> dpCall \<Rightarrow> bool" where
  "saysSleeping env p port c \<longleftrightarrow> (\<exists>req code body. c = Http req (Inr (code, body)) \<and> hrURL req = serverURL p port @ ''/is_sleeping'' \<and>
     200 \<le> code \<and> code < 300 \<and> decodeSleepState env body = Inr True)"

definition gcAllowed :: "dpEnv \<Rightarrow> inferenceServerConfig \<Rightarrow> nat \<Rightarrow> dpCall list \<Rightarrow> dpCall \<Rightarrow> bool" where
  "gcAllowed env isc n h c \<longleftrightarrow> (\<exists>req resp. c = Http req resp \<and> (hrPurpose req \<in> {''list_instances'', ''query_sleeping''} \<or>
     hrPurpose req = ''delete_instance'' \<and> (\<exists>p inst port. hrURL req = launcherURL p @ ''/'' @ instID inst \<and>
        obsoleteAt env isc (drop n h) p inst port \<and> drop n h \<noteq> [] \<and> saysSleeping env p port (last (drop n h)))))"

interpretation gc: core_policy "gcAllowed env isc n" "\<lambda>_. True" nn uid for env isc n nn uid
  by unfold_locales simp

lemma obsoleteAt_mono: "obsoleteAt env isc h p inst port \<Longrightarrow> obsoleteAt env isc (h @ h') p inst port"
  unfolding obsoleteAt_def by auto

lemma querySleeping_says:
  assumes "querySleeping env s p port = (s', Inr True)"
  shows "\<exists>c. dcalls s' = dcalls s @ [c] \<and> saysSleeping env p port c"
  using assms by (auto simp: querySleeping_def doHTTP_def saysSleeping_def Let_def split: option.splits sum.splits prod.splits if_splits)

lemma gc_query:
  "follows (gcAllowed env isc n) (\<lambda>_. True) st s \<Longrightarrow> follows (gcAllowed env isc n) (\<lambda>_. True) st (fst (querySleeping env s p port))"
  "follows (gcAllowed env isc n) (\<lambda>_. True) st s \<Longrightarrow> follows (gcAllowed env isc n) (\<lambda>_. True) st (fst (ListInstances env s base))"
  unfolding querySleeping_def ListInstances_def
  by (rule follows_rules gc.follows_doHTTP gc.follows_fullDo | assumption | (simp add: gcAllowed_def; fail))+

lemma gc_instance:
  assumes run: "follows (gcAllowed env isc (length (dcalls st))) (\<lambda>_. True) st s"
    and listed: "c \<in> set (drop (length (dcalls st)) (dcalls s))" "listedAt env p all c" and inst: "inst \<in> set (Instances all)"
  shows "follows (gcAllowed env isc (length (dcalls st))) (\<lambda>_. True) st (gcInstance env nn isc p (launcherBaseURL p) inst s)"
proof -
  let ?n = "length (dcalls st)"
  have del: "follows (gcAllowed env isc ?n) (\<lambda>_. True) st (fst (DeleteInstance env (fst (querySleeping env s p port)) (launcherBaseURL p) (instID inst)))"
    if q: "snd (querySleeping env s p port) = Inr True" and port: "getVLLMInstancePort inst = Inr port"
      and isc: "instAnnot inst VllmConfigISCNameAnnotationKey = Name isc"
      and cfg: "configInferenceServer env isc (vcGpuUUIDs (instConfig inst)) = Inr (cfg, hash)" "instID inst \<noteq> hash" for port cfg hash
  proof -
    define s1 where "s1 = fst (querySleeping env s p port)"
    have q: "querySleeping env s p port = (s1, Inr True)" using q by (simp add: s1_def prod_eq_iff)
    obtain d where d: "dcalls s1 = dcalls s @ [d]" "saysSleeping env p port d" using querySleeping_says [OF q] by blast
    obtain cs where cs: "dcalls s = dcalls st @ cs" using follows_grows [OF run] by blast
    have "obsoleteAt env isc (drop ?n (dcalls s)) p inst port"
      using listed inst port isc cfg by (auto simp: obsoleteAt_def)
    then have "obsoleteAt env isc (drop ?n (dcalls s1)) p inst port" using obsoleteAt_mono [of env isc cs p inst port "[d]"] d(1) cs by simp
    then have "gcAllowed env isc ?n (dcalls s1) (Http req resp)"
      if "hrPurpose req = ''delete_instance''" "hrURL req = launcherBaseURL p @ instancesPath @ ''/'' @ instID inst" for req resp
      unfolding gcAllowed_def using that d cs by (intro exI conjI disjI2) (auto simp: launcherURL_def)
    moreover have "follows (gcAllowed env isc ?n) (\<lambda>_. True) st s1" using gc_query(1) [OF run, of p port] q by simp
    ultimately show ?thesis unfolding DeleteInstance_def s1_def [symmetric] by (intro gc.follows_fullDo)
  qed
  show ?thesis unfolding gcInstance_def
    using run gc_query(1) [OF run, of p] del
    by (auto intro!: follows_rules gc.follows_state simp: split_beta split: sum.split)
qed

lemma gc_instances:
  assumes "follows (gcAllowed env isc (length (dcalls st))) (\<lambda>_. True) st s"
    and "c \<in> set (drop (length (dcalls st)) (dcalls s))" and "listedAt env p all c" and "set insts \<subseteq> set (Instances all)"
  shows "follows (gcAllowed env isc (length (dcalls st))) (\<lambda>_. True) st (fold (gcInstance env nn isc p (launcherBaseURL p)) insts s)"
  using assms(1,2,4)
proof (induction insts arbitrary: s)
  case (Cons inst insts)
  let ?s = "gcInstance env nn isc p (launcherBaseURL p) inst s"
  have "follows (gcAllowed env isc (length (dcalls st))) (\<lambda>_. True) st ?s"
    using Cons.prems by (intro gc_instance [OF _ _ assms(3)]) auto
  moreover have "\<exists>cs. dcalls ?s = dcalls s @ cs"
    by (rule follows_grows [where ok = "\<lambda>_ _. True" and I = "\<lambda>s. \<forall>m. LocalQueue (nodeOf s m) = undefined m"], unfold gcInstance_def)
      (rule follows_rules follows_refl | assumption)+
  ultimately show ?case using Cons by auto
qed simp

lemma gc_launcher:
  assumes "follows (gcAllowed env isc (length (dcalls st))) (\<lambda>_. True) st s"
  shows "follows (gcAllowed env isc (length (dcalls st))) (\<lambda>_. True) st (gcLauncher env nn isc name s)"
proof -
  let ?P = "follows (gcAllowed env isc (length (dcalls st))) (\<lambda>_. True) st"
  have insts: "?P (fold (gcInstance env nn isc p base) (Instances all) s1)"
    if base: "NewLauncherClient env (launcherBaseURL p) = Inr base" and l: "ListInstances env s base = (s1, Inr all)" for p base s1 all
  proof -
    have b: "base = launcherBaseURL p" by (rule client_base [OF base])
    obtain cs c where cs: "dcalls s1 = dcalls s @ cs" "c \<in> set cs" "listedAt env p all c"
      using ListInstances_call [OF l [unfolded b]] by auto
    obtain ds where ds: "dcalls s = dcalls st @ ds" using follows_grows [OF assms] by blast
    have "?P s1" using gc_query(2) [OF assms, of base] l by simp
    moreover have "c \<in> set (drop (length (dcalls st)) (dcalls s1))" using cs ds by simp
    ultimately show ?thesis unfolding b by (rule gc_instances [OF _ _ cs(3) order_refl])
  qed
  show ?thesis unfolding gcLauncher_def
    using assms gc_query(2) [OF assms] by (auto intro!: follows_rules insts split: sum.split)
qed

text \<open>
  C28: collecting the obsolete instances of an InferenceServerConfig makes HTTP calls only, and deletes an instance only
  when a launcher has reported it as one of this configuration, its identifier differs from the one the current
  configuration gives for the same GPUs, and the call just before has found it asleep.
\<close>

theorem gc_deletes_only_sleeping_obsolete:
  assumes "iscGet env iscName = Inr isc" and "instanceGCItem_process env st nn iscName = (st', out)"
    and "dcalls st' = dcalls st @ pre @ c # post"
  shows "\<exists>req resp. c = Http req resp \<and> (hrPurpose req \<in> {''list_instances'', ''query_sleeping''} \<or>
    hrPurpose req = ''delete_instance'' \<and> (\<exists>p inst port. hrURL req = launcherURL p @ ''/'' @ instID inst \<and>
      obsoleteAt env isc pre p inst port \<and> pre \<noteq> [] \<and> saysSleeping env p port (last pre)))"
proof -
  have "follows (gcAllowed env isc (length (dcalls st))) (\<lambda>_. True) st (fst (instanceGCItem_process env st nn iscName))"
    unfolding instanceGCItem_process_def assms(1) sum.case fst_conv by (rule follows_fold [OF follows_refl gc_launcher])
  then have "gcAllowed env isc (length (dcalls st)) (dcalls st @ pre) c" using assms(2,3) by (auto simp: follows_def extends_def)
  then show ?thesis by (simp add: gcAllowed_def)
qed

definition obsoleteInstance :: instanceState where
  "obsoleteInstance = \<lparr>instID = ''i1'', instStatus = ''running'', instConfig = \<lparr>vcOptions = [], vcGpuUUIDs = [''g0''], vcEnvVars = [],
     vcAnnotations = [VllmConfigISCNameAnnotationKey \<mapsto> ''isc1'', VllmConfigInferencePortAnnotationKey \<mapsto> ''8000'']\<rparr>\<rparr>"

definition exampleISC :: inferenceServerConfig where
  "exampleISC = \<lparr>Name = ''isc1'', Namespace = ''ns'', GenerateName = [], UID = ''ui'', ResourceVersion = ''1'', Generation = 1, Labels = Map.empty,
     Annotations = Map.empty, Finalizers = [], OwnerReferences = [], CreationTimestamp = 0, DeletionTimestamp = None, ManagedFields = [],
     ModelServerConfig = \<lparr>mscPort = 8000, mscOptions = [], mscEnvVars = [], mscLabels = [], mscAnnotations = []\<rparr>, LauncherConfigName = ''lc1''\<rparr>"

definition gcExampleEnv :: dpEnv where
  "gcExampleEnv = (dpExampleEnv [exampleLauncher])\<lparr>iscGet := (\<lambda>_. Inr exampleISC), decodeAllInstances :=
     (\<lambda>_. Inr \<lparr>TotalInstances = 1, RunningInstances = 1, Instances = [obsoleteInstance]\<rparr>)\<rparr>"

definition gcExampleState :: dpState where
  "gcExampleState = getLauncherData dpExampleState ''n1'' ''l1''"

lemma gcExample_fields [simp]:
  "iscGet gcExampleEnv n = Inr exampleISC" "podGet gcExampleEnv ''l1'' = Inr exampleLauncher" "urlParse gcExampleEnv u = None"
  "httpDo gcExampleEnv h r = Inr (200, ''ok'')" "decodeSleepState gcExampleEnv b = Inr True" "yamlModelServerConfig gcExampleEnv m = Inr ''yaml''"
  "decodeAllInstances gcExampleEnv b = Inr \<lparr>TotalInstances = 1, RunningInstances = 1, Instances = [obsoleteInstance]\<rparr>"
  "decodeActionResult gcExampleEnv b = Inr \<lparr>arStatus = ''ok'', arInstanceID = ''i''\<rparr>" "sha256url gcExampleEnv x = x"
  "mkeys (Launchers (nodeOf gcExampleState ''n1'')) = [''l1'']" "DeletionTimestamp exampleLauncher = None" "dcalls gcExampleState = []"
  by (simp_all add: gcExampleEnv_def exampleLauncher_def blank_defs gcExampleState_def)
    (simp_all add: dpExampleEnv_def exampleLauncher_def blank_defs getLauncherData_def dpExampleState_def nodeOf_def newNodeData_def modNode_def)

lemma obsolete_fields [simp]:
  "instAnnot obsoleteInstance VllmConfigISCNameAnnotationKey = ''isc1''" "vcGpuUUIDs (instConfig obsoleteInstance) = [''g0'']"
  "instID obsoleteInstance = ''i1''" "getVLLMInstancePort obsoleteInstance = Inr 8000" "Name exampleISC = ''isc1''"
  by (simp_all add: obsoleteInstance_def instAnnot_def exampleISC_def VllmConfigISCNameAnnotationKey_def)
    (simp add: getVLLMInstancePort_def VllmConfigInferencePortAnnotationKey_def VllmConfigISCNameAnnotationKey_def, code_simp)

lemma gcExample_run:
  "\<exists>pre req. dcalls (fst (instanceGCItem_process gcExampleEnv gcExampleState ''n1'' ''isc1'')) = dcalls gcExampleState @ pre @ Http req (Inr (200, ''ok'')) # [] \<and>
     hrPurpose req = ''delete_instance''"
  by (simp add: instanceGCItem_process_def gcLauncher_def NewLauncherClient_def ListInstances_def fullDo_def doHTTP_def Let_def gcInstance_def
      configInferenceServer_def querySleeping_def DeleteInstance_def)

theorem gc_deletes_only_sleeping_obsolete_witness:
  "\<exists>pre req p inst port. dcalls (fst (instanceGCItem_process gcExampleEnv gcExampleState ''n1'' ''isc1'')) = pre @ [Http req (Inr (200, ''ok''))] \<and>
     hrPurpose req = ''delete_instance'' \<and> obsoleteAt gcExampleEnv exampleISC pre p inst port"
proof -
  obtain pre req where run: "dcalls (fst (instanceGCItem_process gcExampleEnv gcExampleState ''n1'' ''isc1'')) =
      dcalls gcExampleState @ pre @ Http req (Inr (200, ''ok'')) # []" "hrPurpose req = ''delete_instance''"
    using gcExample_run by blast
  from gc_deletes_only_sleeping_obsolete [OF gcExample_fields(1) prod.collapse [symmetric] run(1)] run
  show ?thesis by auto
qed

end
