(* ===== verification/No_Panic.thy ===== *)
theory No_Panic
  imports Node_Run
begin

text \<open>
  Run-time panics of the dual-pods controller.  The places where the code dereferences a pointer or
  slices without a check are branches of the model that return \<open>GoPanic\<close>; here they are shown not to be
  reached, given what the API server promises of the objects it stores and what the controller is
  started with.
\<close>

subsection \<open>Results that are no panics\<close>

definition isPanic :: "goError \<Rightarrow> bool" where
  "isPanic e \<longleftrightarrow> (\<exists>s. e = GoPanic s)"

definition sound :: "dpState \<times> processResult \<Rightarrow> bool" where
  "sound x \<longleftrightarrow> \<not> panicked (snd x)"

lemma isPanic_simps [simp]:
  "\<not> isPanic (ErrorText s)" "\<not> isPanic (ApiErr a)" "\<not> isPanic (Wrapped s e)" "\<not> isPanic (LauncherError n oe)"
  "\<not> isPanic (Joined es)" "isPanic (GoPanic s)"
  by (simp_all add: isPanic_def)

lemma panicked_simps [simp]:
  "\<not> panicked prDone" "\<not> panicked prRetryOnly" "panicked (prRetryErr e) \<longleftrightarrow> isPanic e" "panicked (prError e) \<longleftrightarrow> isPanic e"
  "panicked \<lparr>prErr = eo, prRetry = r, prRetryAfter = d\<rparr> \<longleftrightarrow> (\<exists>e. eo = Some e \<and> isPanic e)"
  by (auto simp: panicked_def isPanic_def prDone_def prRetryOnly_def prRetryErr_def prError_def)

named_theorems sound_rules \<open>how a branch of a definition returns without a panic\<close>
named_theorems error_dests \<open>the errors that an operation returns are no panics\<close>

lemma sound_leaf [sound_rules]: "\<not> panicked out \<Longrightarrow> sound (st, out)"
  by (simp add: sound_def)

lemma sound_pair [sound_rules]: "(\<And>a b. x = (a, b) \<Longrightarrow> sound (f a b)) \<Longrightarrow> sound (case x of (a, b) \<Rightarrow> f a b)"
  by (cases x) simp

lemma sound_if [sound_rules]: "(c \<Longrightarrow> sound x) \<Longrightarrow> (\<not> c \<Longrightarrow> sound y) \<Longrightarrow> sound (if c then x else y)"
  by simp

lemma sound_let [sound_rules]: "sound (f x) \<Longrightarrow> sound (Let x f)"
  by simp

lemma sound_sum [sound_rules]:
  "(\<And>e. x = Inl e \<Longrightarrow> sound (f e)) \<Longrightarrow> (\<And>y. x = Inr y \<Longrightarrow> sound (g y)) \<Longrightarrow> sound (case x of Inl e \<Rightarrow> f e | Inr y \<Rightarrow> g y)"
  by (cases x) simp_all

lemma sound_option [sound_rules]:
  "(x = None \<Longrightarrow> sound a) \<Longrightarrow> (\<And>y. x = Some y \<Longrightarrow> sound (g y)) \<Longrightarrow> sound (case x of None \<Rightarrow> a | Some y \<Rightarrow> g y)"
  by (cases x) simp_all

lemma sound_list [sound_rules]:
  "(x = [] \<Longrightarrow> sound a) \<Longrightarrow> (\<And>y ys. x = y # ys \<Longrightarrow> sound (g y ys)) \<Longrightarrow> sound (case x of [] \<Rightarrow> a | y # ys \<Rightarrow> g y ys)"
  by (cases x) simp_all

lemma sound_answers [sound_rules]:
  "(\<And>p. l = GoOn p \<Longrightarrow> sound (gp p)) \<Longrightarrow> (\<And>e. l = StopErr e \<Longrightarrow> sound (fe e)) \<Longrightarrow> (l = StopDone \<Longrightarrow> sound d) \<Longrightarrow>
   sound (case l of GoOn p \<Rightarrow> gp p | StopErr e \<Rightarrow> fe e | StopDone \<Rightarrow> d)"
  "(\<And>p b. r = Selected p b \<Longrightarrow> sound (fs p b)) \<Longrightarrow> (r = SelectRetry \<Longrightarrow> sound a1) \<Longrightarrow> (\<And>e. r = SelectFailed e \<Longrightarrow> sound (ff e)) \<Longrightarrow>
   (r = SelectNone \<Longrightarrow> sound a2) \<Longrightarrow> (r = SelectPanics \<Longrightarrow> sound a3) \<Longrightarrow>
   sound (case r of Selected p b \<Rightarrow> fs p b | SelectRetry \<Rightarrow> a1 | SelectFailed e \<Rightarrow> ff e | SelectNone \<Rightarrow> a2 | SelectPanics \<Rightarrow> a3)"
  by (simp_all split: labelsResult.split selectResult.split)

subsection \<open>Operations\<close>

lemma doHTTP_error [error_dests]: "doHTTP env s purpose verb url body decode = (s', n, Inl e) \<Longrightarrow> \<not> isPanic e"
  by (auto simp: doHTTP_def Let_def split: option.splits sum.splits prod.splits if_splits)

lemma NewLauncherClient_error [error_dests]: "NewLauncherClient env url = Inl e \<Longrightarrow> \<not> isPanic e"
  by (auto simp: NewLauncherClient_def split: option.splits)

lemma querySleeping_error [error_dests]: "querySleeping env s p port = (s', Inl e) \<Longrightarrow> \<not> isPanic e"
  by (auto simp: querySleeping_def dest: doHTTP_error split: prod.splits)

lemma gpusLowEnough_error [error_dests]: "gpusLowEnough limit usage gpus = Some e \<Longrightarrow> \<not> isPanic e"
  by (induction limit usage gpus rule: gpusLowEnough.induct) (auto split: option.splits if_splits)

lemma accelMemory_error [error_dests]: "accelMemoryIsLowEnough env s nn uid r = (s', Some e) \<Longrightarrow> \<not> isPanic e"
  by (auto simp: accelMemoryIsLowEnough_def dest: doHTTP_error gpusLowEnough_error split: prod.splits sum.splits)

lemma wakeUp_error [error_dests]: "wakeUp env s nn uid r p port = (s', Some e) \<Longrightarrow> \<not> isPanic e"
  by (auto simp: wakeUp_def dest: accelMemory_error split: prod.splits sum.splits option.splits if_splits)

lemma ensureSleepingLabel_error [error_dests]: "ensureSleepingLabel env s p d = (s', Inl e) \<Longrightarrow> \<not> isPanic e"
  by (auto simp: ensureSleepingLabel_def Let_def split: prod.splits sum.splits if_splits)

lemma finalizer_errors [error_dests]:
  "maybeRemoveRequesterFinalizer env s r pp = (s', Inl e) \<Longrightarrow> \<not> isPanic e"
  "addRequesterFinalizer env s r pn i = (s', Inl e) \<Longrightarrow> \<not> isPanic e"
  "removeProviderFinalizer env s p = (s', Inl e, q) \<Longrightarrow> \<not> isPanic e"
  by (auto simp: maybeRemoveRequesterFinalizer_def addRequesterFinalizer_def removeProviderFinalizer_def Let_def
      split: prod.splits sum.splits if_splits)

lemma recover_error [error_dests]: "recoverInstanceStateFromLauncherPod env sd p = Inl e \<Longrightarrow> \<not> isPanic e"
  by (auto simp: recoverInstanceStateFromLauncherPod_def missingAnnotation_def invalidAnnotation_def Let_def
      split: option.splits sum.splits if_splits)

lemma ensureReqState_sound [sound_rules]:
  "sound (ensureReqState env s nn uid r addF removeF errors)" "sound (ensureReqStatus env s nn uid r errors)"
  by (auto simp: ensureReqStatus_def ensureReqState_def sound_def Let_def split: prod.splits sum.splits)

lemma ensureReqStatus_result [error_dests]: "ensureReqStatus env s nn uid r errors = (s', out) \<Longrightarrow> \<not> panicked out"
  using ensureReqState_sound(2) [of env s nn uid r errors] by (simp add: sound_def)

lemma ensureReqState_error [error_dests]:
  "ensureReqState env s nn uid r addF removeF errors = (s', out) \<Longrightarrow> prErr out = Some e \<Longrightarrow> \<not> isPanic e"
  using ensureReqState_sound(1) [of env s nn uid r addF removeF errors] by (auto simp: sound_def panicked_def isPanic_def)

lemma applyBoundLauncherLabels_error:
  "applyBoundLauncherLabels env s nn uid r p = (s', StopErr e) \<Longrightarrow> Sleeping (serverOf s nn uid) \<noteq> None \<Longrightarrow> \<not> isPanic e"
  by (auto simp: applyBoundLauncherLabels_def Let_def split: prod.splits sum.splits option.splits if_splits)

lemma putToSleep_error [error_dests]: "putToSleep env s nn uid p b = (s', Some e) \<Longrightarrow> \<not> isPanic e"
  by (auto simp: putToSleep_def Let_def split: prod.splits sum.splits if_splits)

lemma removeISCRoutingLabels_error [error_dests]: "removeISCRoutingLabels env s p ls = (s', Inl e) \<Longrightarrow> \<not> isPanic e"
  by (auto simp: removeISCRoutingLabels_def Let_def split: prod.splits sum.splits if_splits)

lemma ensureUnbound_error [error_dests]: "ensureUnbound env s nn uid p b = (s', Some e) \<Longrightarrow> \<not> isPanic e"
  by (auto simp: ensureUnbound_def Let_def dest: error_dests split: prod.splits sum.splits option.splits if_splits)

lemma bind_sound [sound_rules]: "sound (bind env s nn uid r p ls skip)"
  unfolding bind_def by (rule sound_rules | (auto dest: error_dests split: prod.splits sum.splits option.splits if_splits; fail))+

lemma relayReadiness_sound [sound_rules]: "sound (relayReadiness env s nn uid r ready)"
  unfolding relayReadiness_def by (rule sound_rules | (auto dest: error_dests; fail))+

lemma createFailed_sound [sound_rules]: "sound (createFailed env s nn uid r a b e)"
  unfolding createFailed_def by (rule sound_rules | (auto; fail))+


subsection \<open>Launchers\<close>

lemma sortInstances_failed:
  "sortInstances env nn uid p target port insts s acc = (s', Inl (SelectFailed e)) \<Longrightarrow> \<not> isPanic e"
  by (induction env nn uid p target port insts s acc rule: sortInstances.induct)
    (auto split: sum.splits prod.splits if_splits)

lemma considerLaunchers_failed:
  "considerLaunchers env nn uid target port n pods s acc = (s', Inl (SelectFailed e)) \<Longrightarrow> \<not> isPanic e"
proof (induction env nn uid target port n pods s acc rule: considerLaunchers.induct)
  case (2 env nn uid target port n p pods s acc)
  have "considerLauncher env nn uid target port n p s acc = (s1, Inl (SelectFailed e)) \<Longrightarrow> \<not> isPanic e" for s1
    by (auto simp: considerLauncher_def Let_def dest: sortInstances_failed
        split: prod.splits syncAnswer.splits sum.splits if_splits option.splits)
  with 2 show ?case by (auto split: prod.splits sum.splits)
qed simp

lemma deleteVictims_failed: "deleteVictims env nn uid base n victims s = (s', Some e) \<Longrightarrow> \<not> isPanic e"
  by (induction env nn uid base n victims s rule: deleteVictims.induct) (auto split: prod.splits sum.splits if_splits)

lemma select_failed [error_dests]:
  "selectOrReclaimLauncherPod env s nn uid pods target port n = (s', SelectFailed e) \<Longrightarrow> \<not> isPanic e"
  by (auto simp: selectOrReclaimLauncherPod_def Let_def dest: considerLaunchers_failed deleteVictims_failed NewLauncherClient_error
      split: prod.splits sum.splits if_splits option.splits)

text \<open>The data of a server that has an instance keep its configuration.\<close>

interpretation ic: lenient_policy "\<lambda>_ _. True" "\<lambda>s. InstanceConfig (serverOf s nn uid) \<noteq> None" nn uid env "\<lambda>_. True"
  for nn uid env
proof
  show "InstanceConfig (serverOf s' nn uid) \<noteq> None"
    if "InstanceConfig (serverOf s nn uid) \<noteq> None" "\<And>m v. core (serverOf s' m v) = core (serverOf s m v)" for s s'
    using that(1) that(2) [of nn uid] by (simp add: core_def)
  show "InstanceConfig (serverOf (modServer nn uid (\<lambda>_. sd) s) nn uid) \<noteq> None"
    if "InstanceConfig (serverOf s nn uid) \<noteq> None" "recoverInstanceStateFromLauncherPod env (serverOf s nn uid) p = Inr sd" for s p sd
    using that recover_keeps(2,3) [OF that(2)] by (cases "InstanceID (serverOf s nn uid) = []") auto
qed simp_all

lemma sync_keeps_config:
  assumes "syncLauncherInstances env s nn deleter p = (s', r)" "InstanceConfig (serverOf s nn uid) \<noteq> None"
  shows "InstanceConfig (serverOf s' nn uid) \<noteq> None"
  using follows_keeps [OF ic.lenient_sync [OF follows_refl, where nn = nn and uid = uid and env = env and s = s
        and deleter = deleter and p = p]] assms by simp

lemma sync_not_ready:
  "syncLauncherInstances env s nn deleter p = (s', SyncNotReady) \<Longrightarrow> PodIP (Status p) = [] \<or> \<not> IsPodReady p"
  by (auto simp: syncLauncherInstances_def Let_def split: sum.splits prod.splits if_splits)

lemma ensureInstance_sound:
  assumes "ensureInstance env s nn uid r p = (s', Inl out)" "InstanceConfig (serverOf s nn uid) \<noteq> None"
  shows "\<not> panicked out"
  using assms
  by (auto simp: ensureInstance_def Let_def dest: sync_not_ready sync_keeps_config NewLauncherClient_error
      split: prod.splits sum.splits if_splits option.splits syncAnswer.splits)

lemma serveBound_sound: "sound (serveBound env s nn uid r p launcherBased port addF)"
proof -
  have labels: "\<not> isPanic e"
    if "applyBoundLauncherLabels env s2 nn uid r p = (s3, StopErr e)"
      "(if sleeping then wakeUp env s1 nn uid r p port else (s1, None)) = (s2, None)"
      "Sleeping (serverOf s1 nn uid) = Some sleeping" for s1 s2 s3 sleeping e
  proof -
    have "Sleeping (serverOf s2 nn uid) \<noteq> None"
      using that(2,3) by (auto simp: wakeUp_def split: prod.splits sum.splits option.splits if_splits)
    with that(1) show ?thesis by (rule applyBoundLauncherLabels_error)
  qed
  show ?thesis
    unfolding serveBound_def
    by (rule sound_rules | (auto dest: error_dests labels split: option.splits prod.splits sum.splits if_splits; fail))+
qed

lemma processBound_sound:
  assumes "configured nn uid s"
  shows "sound (processBound env s nn uid r p launcherBased addF)"
proof -
  have config: "InstanceConfig (serverOf (assertDuality env nn uid x (modServer nn uid (\<lambda>_. sd) s)) nn uid) \<noteq> None"
    if "recoverInstanceStateFromLauncherPod env (serverOf s nn uid) p = Inr sd" for sd x
    using recover_keeps(2,3) [OF that] assms by (cases "InstanceID (serverOf s nn uid) = []") (auto simp: configured_def)
  show ?thesis
    unfolding processBound_def
    by (rule sound_rules serveBound_sound | (use config in \<open>auto dest: ensureInstance_sound\<close>; fail))+
qed

subsection \<open>Providers\<close>

text \<open>
  What the rest of the system promises: the validation of LauncherConfigs lets no one ask for fewer than
  one instance, the API server records the time of every managed-fields entry, a launcher lists each
  instance once, and the controller is started with a sleeper limit that is not negative.
\<close>

definition promises :: "dpEnv \<Rightarrow> bool" where
  "promises env \<longleftrightarrow>
     distinctIDs env \<and> 0 \<le> sleeperLimit env \<and> (\<forall>n lc. lcGetD env n = Inr lc \<longrightarrow> 1 \<le> MaxInstances lc) \<and>
     (\<forall>p \<in> set (podCache env). \<forall>mf \<in> set (ManagedFields p). mfTime mf \<noteq> None)"

lemma deleteSleepers_error: "deleteSleepers env ps s goners = (s', g', Some e) \<Longrightarrow> \<not> isPanic e"
  by (induction env ps s goners rule: deleteSleepers.induct) (auto split: prod.splits option.splits if_splits)

lemma podAge_known:
  assumes "promises env" "p \<in> set (byIndex env f v)"
  shows "podAge now p \<noteq> None"
proof -
  have "p \<in> set (podCache env)" using assms(2) by (auto simp: byIndex_def)
  with assms(1) show ?thesis
    by (auto simp: promises_def podAge_def find_Some_iff split: option.split)
qed

lemma budgetLoop_error:
  assumes "promises env" "0 \<le> limit"
  shows "budgetLoop env node now limit gpus s goners = (s', g', Some e) \<Longrightarrow> \<not> isPanic e"
proof (induction gpus arbitrary: s goners)
  case (Cons gpu gpus)
  have "\<not> (\<exists>p \<in> set (filter (\<lambda>p. Name p \<notin> goners) (byIndex env GPUIndexFunc (node @ '' '' @ gpu))). podAge now p = None)"
    using podAge_known [OF assms(1)] by auto
  with Cons.prems assms(2) show ?case
    using Cons.IH deleteSleepers_error
    unfolding budgetLoop.simps by (auto simp: Let_def sliceCap_def lenMinus_def split: if_splits prod.splits option.splits)
qed simp

lemma enforceSleeperBudget_error:
  assumes "promises env" "enforceSleeperBudget env s nn uid r (sleeperLimit env) = (s', Some e, again)"
  shows "\<not> isPanic e"
proof -
  have "0 \<le> sleeperLimit env" using assms(1) by (simp add: promises_def)
  from budgetLoop_error [OF assms(1) this] assms(2) show ?thesis
    by (auto simp: enforceSleeperBudget_def split: prod.splits option.splits)
qed

lemma nominal_error:
  "getNominalServerProvidingPod env s nn uid r tmpl = (s', Inl e) \<Longrightarrow> GPUIndicesStr (serverOf s nn uid) \<noteq> None \<Longrightarrow> \<not> isPanic e"
  by (auto simp: getNominalServerProvidingPod_def computeNominal_def Let_def split: option.splits sum.splits prod.splits)

lemma sound_no_panic: "\<not> isPanic e \<Longrightarrow> sound a \<Longrightarrow> sound (case e of GoPanic m \<Rightarrow> f m | _ \<Rightarrow> a)"
  by (cases e) simp_all

lemma provideDirect_sound:
  assumes "promises env" "GPUIndicesStr (serverOf s nn uid) \<noteq> None"
  shows "sound (provideDirect env s nn uid r)"
  unfolding provideDirect_def
  by (rule sound_rules sound_no_panic | (use assms in \<open>auto dest: nominal_error enforceSleeperBudget_error\<close>; fail))+

lemma createLauncher_sound [sound_rules]: "sound (createLauncher env s nn uid r p desired)"
  unfolding createLauncher_def by (rule sound_rules | (auto; fail))+

lemma provideLauncherBased_sound:
  assumes "promises env"
  shows "sound (provideLauncherBased env s nn uid r isc desired)"
proof -
  have room: False
    if "selectOrReclaimLauncherPod env s nn uid pods i port (MaxInstances lc - 1) = (s1, SelectPanics)"
      "lcGetD env n = Inr lc" for pods i port lc s1 n
    using that(2) assms select_outcome [OF _ that(1)] by (force simp: promises_def)
  show ?thesis
    unfolding provideLauncherBased_def
    by (rule sound_rules | (auto dest: room error_dests split: if_splits; fail))+
qed

subsection \<open>Items\<close>

lemma fetchGPUs_sound:
  "fetchGPUs env s nn uid r launcherBased = (s', Inl out) \<Longrightarrow> \<not> panicked out"
  by (auto simp: fetchGPUs_def Let_def dest: ensureReqStatus_result split: prod.splits sum.splits option.splits if_splits)

lemma fetchGPUs_indices:
  "fetchGPUs env s nn uid r False = (s', Inr x) \<Longrightarrow> GPUIndicesStr (serverOf s' nn uid) \<noteq> None"
  by (auto simp: fetchGPUs_def Let_def split: prod.splits sum.splits option.splits if_splits)

lemma fetchGPUs_configured:
  "configured nn uid s \<Longrightarrow> fetchGPUs env s nn uid r launcherBased = (s', x) \<Longrightarrow> configured nn uid s'"
  using follows_keeps [OF cf.lenient_fetchGPUs [OF follows_refl, where nn = nn and uid = uid and env = env and s = s
        and r = r and launcherBased = launcherBased]] by simp

lemma maybeRemove_configured:
  "configured nn uid s \<Longrightarrow> maybeRemoveRequesterFinalizer env s r p = (s', x) \<Longrightarrow> configured nn uid s'"
  using follows_keeps [OF cf.lenient_reports(5) [OF follows_refl, where nn = nn and uid = uid and env = env and s = s
        and p = r and provider = p]] by simp

lemma processLive_sound:
  assumes "promises env" "configured nn uid s"
  shows "sound (processLive env s nn uid r provider addF)"
  unfolding processLive_def deleteOnUnschedulable_def
  by (rule sound_rules provideLauncherBased_sound [OF assms(1)] provideDirect_sound [OF assms(1)] processBound_sound
      | (use assms in \<open>auto dest: fetchGPUs_sound fetchGPUs_indices fetchGPUs_configured\<close>; fail))+

lemma providerGoing_sound [sound_rules]: "sound (providerGoing env s nn uid r p addF)"
  unfolding providerGoing_def
  by (rule sound_rules | (auto dest: error_dests split: option.splits prod.splits sum.splits if_splits; fail))+

lemma requesterGoing_sound [sound_rules]: "sound (requesterGoing env s nn uid r p)"
  unfolding requesterGoing_def
  by (rule sound_rules | (auto dest: error_dests; fail))+

lemma processPair_sound:
  assumes "promises env" "configured nn uid s" "requester \<noteq> None \<or> provider \<noteq> None"
  shows "sound (processPair env s nn uid requester provider)"
  unfolding processPair_def
  by (rule sound_rules processLive_sound [OF assms(1)]
      | (use assms in \<open>auto dest: error_dests maybeRemove_configured split: option.splits\<close>; fail))+

lemma infSvrPods_sound:
  assumes "promises env" "configured nn uid s"
  shows "sound (infSvrPods env s nn uid requester)"
  unfolding infSvrPods_def
  by (rule sound_rules processPair_sound [OF assms(1)]
      | (use assms(2) in \<open>auto simp: configured_def\<close>; fail))+

lemma infSvrItem_sound:
  assumes "promises env" "configured nn uid s"
  shows "sound (infSvrItem_process env s nn uid rn)"
proof -
  have "configured nn uid (getServerData s nn rn uid)"
    using assms(2) by (rule configured_core) simp
  then show ?thesis
    unfolding infSvrItem_process_def
    by (intro sound_rules infSvrPods_sound [OF assms(1)]) simp_all
qed

lemma process_sound:
  assumes "promises env" "\<And>uid rn. item = InfSvrItem uid rn \<Longrightarrow> configured nn uid s"
  shows "sound (process env s nn item)"
proof (cases item)
  case (InfSvrItem uid rn)
  with assms show ?thesis by (simp add: infSvrItem_sound)
next
  case (UnboundLauncherPodItem n m)
  then show ?thesis
    by (auto simp: unboundLauncherPodItem_process_def sound_def split: sum.split prod.split syncAnswer.split)
next
  case (InstanceGCItem n)
  then show ?thesis by (auto simp: instanceGCItem_process_def sound_def split: sum.split)
qed

subsection \<open>Properties\<close>

text \<open>
  Processing an item of a Node never ends in a run-time panic.  Whatever the API server, the
  launchers, the inference servers and the requester answer, no nil pointer is dereferenced and no slice
  is cut beyond its bounds, given that LauncherConfigs allow at least one instance, that managed-fields
  entries carry a time, that a launcher lists each instance once, that the sleeper limit is not
  negative, and that the data of the inference server are as earlier runs leave them.
\<close>

theorem process_never_panics:
  assumes "distinctIDs env" "0 \<le> sleeperLimit env"
    and "\<forall>n lc. lcGetD env n = Inr lc \<longrightarrow> 1 \<le> MaxInstances lc"
    and "\<forall>p \<in> set (podCache env). \<forall>mf \<in> set (ManagedFields p). mfTime mf \<noteq> None"
    and "\<forall>uid rn. item = InfSvrItem uid rn \<longrightarrow> serverInv env rn nn uid st"
  shows "\<not> panicked (snd (process env st nn item))"
proof -
  have "promises env" using assms(1-4) by (simp add: promises_def)
  moreover have "configured nn uid st" if "item = InfSvrItem uid rn" for uid rn
    using assms(5) that by (simp add: configured_def serverInv_def)
  ultimately show ?thesis using process_sound by (simp add: sound_def)
qed

theorem process_never_panics_witness:
  "\<not> panicked (snd (process (dpExampleEnv [directRequester, directProvider]) directState ''n1'' (InfSvrItem ''u1'' ''r1'')))"
proof (rule process_never_panics)
  show "\<forall>uid rn. InfSvrItem ''u1'' ''r1'' = InfSvrItem uid rn \<longrightarrow>
      serverInv (dpExampleEnv [directRequester, directProvider]) rn ''n1'' uid directState"
    using direct_inv by simp
qed (simp_all add: distinctIDs_def dpExampleEnv_def directRequester_def directProvider_def boundPod_def blank_defs)

end
