(* ===== verification/Work_Queue.thy ===== *)
theory Work_Queue
  imports Prelude
begin

text \<open>
  The work queues and worker goroutines of \<^verbatim>\<open>pkg/controller/generic\<close>: \<^verbatim>\<open>queue-work.go\<close> and
  \<^verbatim>\<open>knows-processed-sync.go\<close>.  The goroutines are a step relation over a state that says where each
  worker is, so that every interleaving is covered; the queue itself, which is code of another
  repository, is a record of operations with its documented laws as the hypothesis \<open>fairQueue\<close>.
  The invariant \<open>barrierInv\<close> is that of the barrier which separates the initial items from the rest.
  The locale \<open>sentinels\<close> is what the generic code needs from the controllers that use it.
\<close>

subsection \<open>The work queue\<close>

text \<open>
  \<^verbatim>\<open>workqueue.TypedRateLimitingInterface\<close> belongs to another repository: its operations are the
  fields of a record that is an argument of the model.  \<open>qAdvance\<close> lists the states that the queue may
  reach by itself, when the delay of a rate-limited item has passed.  \<open>qReady\<close>, \<open>qTaken\<close> and
  \<open>qSoon\<close> observe it: the items it will give out, in order; the items given out and not yet done; the
  items it will make ready later.
\<close>

datatype ('i, 'q) getResult = Blocks | ShuttingDown | Got 'i 'q

record ('i, 'q) rateLimitingQueue =
  qAdd :: "'i \<Rightarrow> 'q \<Rightarrow> 'q"
  qGet :: "'q \<Rightarrow> ('i, 'q) getResult"
  qDone :: "'i \<Rightarrow> 'q \<Rightarrow> 'q"
  qAddRateLimited :: "'i \<Rightarrow> 'q \<Rightarrow> 'q"
  qForget :: "'i \<Rightarrow> 'q \<Rightarrow> 'q"
  qAdvance :: "'q \<Rightarrow> 'q list"
  qReady :: "'q \<Rightarrow> 'i list"
  qTaken :: "'q \<Rightarrow> 'i set"
  qSoon :: "'q \<Rightarrow> 'i set"

definition outstanding :: "('i, 'q) rateLimitingQueue \<Rightarrow> 'q \<Rightarrow> 'i set" where
  "outstanding wq q = set (qReady wq q) \<union> qSoon wq q"

text \<open>
  \<open>lengthens wq X q q'\<close>: the queue went from \<open>q\<close> to \<open>q'\<close> by an operation that concerns the items of
  \<open>X\<close>: only those and the ones already waiting inside became ready, behind all the others, and nothing
  was lost.
\<close>

definition lengthens :: "('i, 'q) rateLimitingQueue \<Rightarrow> 'i set \<Rightarrow> 'q \<Rightarrow> 'q \<Rightarrow> bool" where
  "lengthens wq X q q' \<longleftrightarrow>
     (\<exists>ys. qReady wq q' = qReady wq q @ ys \<and> set ys \<subseteq> X \<union> qSoon wq q) \<and>
     qSoon wq q' \<subseteq> X \<union> qSoon wq q \<and>
     outstanding wq q \<subseteq> outstanding wq q'"

text \<open>
  The behaviour that the package documents: items are given out in the order in which they were added
  (fair), an item that is ready is not added a second time and an item that is being processed is
  given out again only after it is done (stingy), and an item added with a rate limit is added later.
\<close>

definition addLaw :: "('i, 'q) rateLimitingQueue \<Rightarrow> bool" where
  "addLaw wq \<longleftrightarrow> (\<forall>x q.
     lengthens wq {x} q (qAdd wq x q) \<and> x \<in> outstanding wq (qAdd wq x q) \<and>
     qTaken wq (qAdd wq x q) = qTaken wq q \<and>
     (x \<notin> set (qReady wq q) \<union> qTaken wq q \<longrightarrow>
        qReady wq (qAdd wq x q) = qReady wq q @ [x] \<and> qSoon wq (qAdd wq x q) = qSoon wq q))"

definition getLaw :: "('i, 'q) rateLimitingQueue \<Rightarrow> bool" where
  "getLaw wq \<longleftrightarrow> (\<forall>q.
     (\<forall>x q'. qGet wq q = Got x q' \<longrightarrow>
        qReady wq q = x # qReady wq q' \<and> qTaken wq q' = insert x (qTaken wq q) \<and>
        qSoon wq q' = qSoon wq q) \<and>
     (qReady wq q \<noteq> [] \<longrightarrow> (\<exists>x q'. qGet wq q = Got x q')))"

definition doneLaw :: "('i, 'q) rateLimitingQueue \<Rightarrow> bool" where
  "doneLaw wq \<longleftrightarrow> (\<forall>x q.
     lengthens wq {} q (qDone wq x q) \<and> qTaken wq (qDone wq x q) = qTaken wq q - {x})"

definition retryLaw :: "('i, 'q) rateLimitingQueue \<Rightarrow> bool" where
  "retryLaw wq \<longleftrightarrow> (\<forall>x q.
     lengthens wq {x} q (qAddRateLimited wq x q) \<and> x \<in> outstanding wq (qAddRateLimited wq x q) \<and>
     qTaken wq (qAddRateLimited wq x q) = qTaken wq q \<and>
     lengthens wq {} q (qForget wq x q) \<and> qTaken wq (qForget wq x q) = qTaken wq q)"

definition advanceLaw :: "('i, 'q) rateLimitingQueue \<Rightarrow> bool" where
  "advanceLaw wq \<longleftrightarrow> (\<forall>q. \<forall>q' \<in> set (qAdvance wq q).
     lengthens wq {} q q' \<and> qTaken wq q' = qTaken wq q)"

definition fairQueue :: "('i, 'q) rateLimitingQueue \<Rightarrow> bool" where
  "fairQueue wq \<longleftrightarrow> addLaw wq \<and> getLaw wq \<and> doneLaw wq \<and> retryLaw wq \<and> advanceLaw wq"

subsection \<open>Workers\<close>

text \<open>
  \<^verbatim>\<open>QueueAndWorkers\<close> and \<^verbatim>\<open>KnowsProcessedSync\<close>: the function that processes an item returns an error,
  if any, and whether to retry; it reads and changes the state of the controller.
\<close>

record ('i, 'q, 's, 'e) queueAndWorkers =
  Queue :: "('i, 'q) rateLimitingQueue"
  NumWorkers :: int
  Process :: "'i \<Rightarrow> 's \<Rightarrow> 's \<times> 'e option \<times> bool"
  makeSentinel :: "int \<Rightarrow> 'i"
  isSentinel :: "'i \<Rightarrow> bool"

text \<open>Where a worker goroutine is: about to call \<^verbatim>\<open>Get\<close>, in \<^verbatim>\<open>Process\<close>, or in \<^verbatim>\<open>wg.Wait\<close>.\<close>

datatype 'i workerPhase = Idle | Processing 'i | AtBarrier 'i

text \<open>
  The state of the goroutines: \<open>nextSentinel\<close> counts the sentinels that \<^verbatim>\<open>StartWorkers\<close> has enqueued,
  \<open>onceCalls\<close> the calls of \<^verbatim>\<open>onceProcessedSync\<close>, and \<open>outcomes\<close> holds the items for which \<^verbatim>\<open>Process\<close>
  returned, with what it returned.
\<close>

record ('i, 'q, 's, 'e) workers =
  wqState :: 'q
  phases :: "'i workerPhase list"
  nextSentinel :: nat
  wg :: int
  processedSync :: bool
  onceCalls :: nat
  ctlState :: 's
  outcomes :: "('i \<times> 'e option \<times> bool) list"

definition HasProcessedSync :: "('i, 'q, 's, 'e) workers \<Rightarrow> bool" where
  "HasProcessedSync st = processedSync st"

text \<open>\<^verbatim>\<open>StartWorkers\<close> up to the loop that enqueues the sentinels; the queue holds the initial items.\<close>

definition startWorkers ::
    "('i, 'q, 's, 'e) queueAndWorkers \<Rightarrow> 'q \<Rightarrow> 's \<Rightarrow> ('i, 'q, 's, 'e) workers" where
  "startWorkers ctl q s =
     \<lparr>wqState = q, phases = replicate (nat (NumWorkers ctl)) Idle, nextSentinel = 0,
      wg = NumWorkers ctl, processedSync = False, onceCalls = 0, ctlState = s, outcomes = []\<rparr>"

text \<open>One round of that loop; the workers are launched after the last one.\<close>

definition addSentinel ::
    "('i, 'q, 's, 'e) queueAndWorkers \<Rightarrow> ('i, 'q, 's, 'e) workers \<Rightarrow> ('i, 'q, 's, 'e) workers option"
where
  "addSentinel ctl st =
     (if int (nextSentinel st) < NumWorkers ctl
      then Some (st\<lparr>wqState := qAdd (Queue ctl) (makeSentinel ctl (int (nextSentinel st))) (wqState st),
                    nextSentinel := Suc (nextSentinel st)\<rparr>)
      else None)"

definition launched :: "('i, 'q, 's, 'e) queueAndWorkers \<Rightarrow> ('i, 'q, 's, 'e) workers \<Rightarrow> bool" where
  "launched ctl st \<longleftrightarrow> NumWorkers ctl \<le> int (nextSentinel st)"

text \<open>\<^verbatim>\<open>earlySync\<close>: a sentinel is counted off and its worker waits; other items are left to \<^verbatim>\<open>Process\<close>.\<close>

definition earlySync ::
    "('i, 'q, 's, 'e) queueAndWorkers \<Rightarrow> nat \<Rightarrow> 'i \<Rightarrow> ('i, 'q, 's, 'e) workers \<Rightarrow>
      ('i, 'q, 's, 'e) workers option" where
  "earlySync ctl w x st =
     (if \<not> isSentinel ctl x then None
      else Some (st\<lparr>wg := wg st - 1, phases := (phases st)[w := AtBarrier x]\<rparr>))"

text \<open>
  The first half of \<^verbatim>\<open>processNextWorkItem\<close>.  A worker blocks in \<^verbatim>\<open>Get\<close> while nothing is ready.  When the
  queue is shut down \<^verbatim>\<open>runWorker\<close> returns and \<^verbatim>\<open>wait.UntilWithContext\<close> calls it again.
\<close>

definition takeItem ::
    "('i, 'q, 's, 'e) queueAndWorkers \<Rightarrow> nat \<Rightarrow> ('i, 'q, 's, 'e) workers \<Rightarrow>
      ('i, 'q, 's, 'e) workers option" where
  "takeItem ctl w st =
     (case qGet (Queue ctl) (wqState st) of
        Got objRef q' \<Rightarrow>
          (case earlySync ctl w objRef (st\<lparr>wqState := q'\<rparr>) of
             Some st' \<Rightarrow> Some st'
           | None \<Rightarrow> Some (st\<lparr>wqState := q', phases := (phases st)[w := Processing objRef]\<rparr>))
      | _ \<Rightarrow> None)"

text \<open>What the deferred function does with the item, then the deferred \<^verbatim>\<open>Done\<close>.\<close>

definition settle ::
    "('i, 'q) rateLimitingQueue \<Rightarrow> 'i \<Rightarrow> 'e option \<Rightarrow> bool \<Rightarrow> 'q \<Rightarrow> 'q" where
  "settle wq objRef err retry q =
     qDone wq objRef
       (if err = None then (if retry then qAddRateLimited wq objRef q else qForget wq objRef q)
        else if retry then qAddRateLimited wq objRef q
        else qForget wq objRef q)"

text \<open>The second half of \<^verbatim>\<open>processNextWorkItem\<close>: the call of \<^verbatim>\<open>Process\<close> and the deferred calls.\<close>

definition finishItem ::
    "('i, 'q, 's, 'e) queueAndWorkers \<Rightarrow> nat \<Rightarrow> 'i \<Rightarrow> ('i, 'q, 's, 'e) workers \<Rightarrow>
      ('i, 'q, 's, 'e) workers" where
  "finishItem ctl w objRef st =
     (let (s', err, retry) = Process ctl objRef (ctlState st)
      in st\<lparr>wqState := settle (Queue ctl) objRef err retry (wqState st), ctlState := s',
            phases := (phases st)[w := Idle], outcomes := outcomes st @ [(objRef, err, retry)]\<rparr>)"

text \<open>\<^verbatim>\<open>wg.Wait\<close> of a worker returns once the counter is zero.\<close>

definition leaveBarrier ::
    "('i, 'q, 's, 'e) queueAndWorkers \<Rightarrow> nat \<Rightarrow> 'i \<Rightarrow> ('i, 'q, 's, 'e) workers \<Rightarrow>
      ('i, 'q, 's, 'e) workers option" where
  "leaveBarrier ctl w objRef st =
     (if wg st = 0
      then Some (st\<lparr>wqState := qDone (Queue ctl) objRef (wqState st), phases := (phases st)[w := Idle]\<rparr>)
      else None)"

text \<open>One step of worker \<open>w\<close>, if it is not blocked.\<close>

definition workerStep ::
    "('i, 'q, 's, 'e) queueAndWorkers \<Rightarrow> nat \<Rightarrow> ('i, 'q, 's, 'e) workers \<Rightarrow>
      ('i, 'q, 's, 'e) workers option" where
  "workerStep ctl w st =
     (if \<not> launched ctl st \<or> length (phases st) \<le> w then None
      else (case phases st ! w of
              Idle \<Rightarrow> takeItem ctl w st
            | Processing x \<Rightarrow> Some (finishItem ctl w x st)
            | AtBarrier x \<Rightarrow> leaveBarrier ctl w x st))"

text \<open>The goroutine of \<^verbatim>\<open>StartWorkers\<close> that waits for all the workers.\<close>

definition announce :: "('i, 'q, 's, 'e) workers \<Rightarrow> ('i, 'q, 's, 'e) workers option" where
  "announce st =
     (if wg st = 0 \<and> \<not> processedSync st
      then Some (st\<lparr>processedSync := True, onceCalls := Suc (onceCalls st)\<rparr>) else None)"

text \<open>
  The interleavings of the goroutines with event handlers, which enqueue items other than sentinels and
  may change the state of the controller, and with the queue's own steps.
\<close>

inductive otherStep ::
    "('i, 'q, 's, 'e) queueAndWorkers \<Rightarrow> ('i, 'q, 's, 'e) workers \<Rightarrow> ('i, 'q, 's, 'e) workers \<Rightarrow> bool"
  for ctl where
  handler: "\<not> isSentinel ctl x \<Longrightarrow>
     otherStep ctl st (st\<lparr>wqState := qAdd (Queue ctl) x (wqState st), ctlState := s'\<rparr>)"
| elapse: "q' \<in> set (qAdvance (Queue ctl) (wqState st)) \<Longrightarrow> otherStep ctl st (st\<lparr>wqState := q'\<rparr>)"

inductive reach ::
    "('i, 'q, 's, 'e) queueAndWorkers \<Rightarrow> ('i, 'q, 's, 'e) workers \<Rightarrow> ('i, 'q, 's, 'e) workers \<Rightarrow> bool"
  for ctl st0 where
  start: "reach ctl st0 st0"
| sentinel: "reach ctl st0 st \<Longrightarrow> addSentinel ctl st = Some st' \<Longrightarrow> reach ctl st0 st'"
| worker: "reach ctl st0 st \<Longrightarrow> workerStep ctl w st = Some st' \<Longrightarrow> reach ctl st0 st'"
| announcement: "reach ctl st0 st \<Longrightarrow> announce st = Some st' \<Longrightarrow> reach ctl st0 st'"
| other: "reach ctl st0 st \<Longrightarrow> otherStep ctl st st' \<Longrightarrow> reach ctl st0 st'"

inductive_cases otherStepE: "otherStep ctl st st'"


subsection \<open>Constructors\<close>

definition NewKnowsProcessedSync ::
    "('i, 'q) rateLimitingQueue \<Rightarrow> int \<Rightarrow> ('i \<Rightarrow> 's \<Rightarrow> 's \<times> 'e option \<times> bool) \<Rightarrow> (int \<Rightarrow> 'i) \<Rightarrow>
      ('i \<Rightarrow> bool) \<Rightarrow> ('i, 'q, 's, 'e) queueAndWorkers" where
  "NewKnowsProcessedSync wq numWorkers process mkSentinel isSent =
     \<lparr>Queue = wq, NumWorkers = numWorkers, Process = process, makeSentinel = mkSentinel,
      isSentinel = isSent\<rparr>"

text \<open>
  \<^verbatim>\<open>NewQueueAndWorkers\<close>, whose \<^verbatim>\<open>noEarlySync\<close> leaves every item to \<^verbatim>\<open>Process\<close>, and its
  \<^verbatim>\<open>StartWorkers\<close>: no sentinels, no barrier, nothing to report.
\<close>

definition noEarlySync :: "'i \<Rightarrow> bool" where
  "noEarlySync x = False"

definition NewQueueAndWorkers ::
    "('i, 'q) rateLimitingQueue \<Rightarrow> int \<Rightarrow> ('i \<Rightarrow> 's \<Rightarrow> 's \<times> 'e option \<times> bool) \<Rightarrow>
      ('i, 'q, 's, 'e) queueAndWorkers" where
  "NewQueueAndWorkers wq numWorkers process =
     NewKnowsProcessedSync wq numWorkers process (\<lambda>_. undefined) noEarlySync"

definition startPlainWorkers ::
    "('i, 'q, 's, 'e) queueAndWorkers \<Rightarrow> 'q \<Rightarrow> 's \<Rightarrow> ('i, 'q, 's, 'e) workers" where
  "startPlainWorkers ctl q s =
     \<lparr>wqState = q, phases = replicate (nat (NumWorkers ctl)) Idle,
      nextSentinel = nat (NumWorkers ctl), wg = 0, processedSync = True, onceCalls = 0, ctlState = s,
      outcomes = []\<rparr>"

subsection \<open>The initial batch\<close>

fun atBarrier :: "'i workerPhase \<Rightarrow> bool" where
  "atBarrier (AtBarrier x) \<longleftrightarrow> True"
| "atBarrier _ \<longleftrightarrow> False"

fun isProcessing :: "'i workerPhase \<Rightarrow> bool" where
  "isProcessing (Processing x) \<longleftrightarrow> True"
| "isProcessing _ \<longleftrightarrow> False"

abbreviation "readyIn ctl st \<equiv> qReady (Queue ctl) (wqState st)"

text \<open>Every sentinel in the queue is one of those enqueued so far; none is on its way in.\<close>

definition sentinelsKnown :: "('i, 'q, 's, 'e) queueAndWorkers \<Rightarrow> nat \<Rightarrow> 'q \<Rightarrow> bool" where
  "sentinelsKnown ctl n q \<longleftrightarrow>
     (\<forall>x \<in> qSoon (Queue ctl) q. \<not> isSentinel ctl x) \<and>
     (\<forall>x \<in> set (qReady (Queue ctl) q) \<union> qTaken (Queue ctl) q.
        isSentinel ctl x \<longrightarrow> x \<in> (\<lambda>i. makeSentinel ctl (int i)) ` {..<n})"

text \<open>What is still to be done of the initial items while the workers are on their way to the barrier.\<close>

definition batchPending :: "('i, 'q, 's, 'e) queueAndWorkers \<Rightarrow> 'i \<Rightarrow> ('i, 'q, 's, 'e) workers \<Rightarrow> bool" where
  "batchPending ctl x st \<longleftrightarrow>
     Processing x \<in> set (phases st) \<or> x \<in> set (takeWhile (\<lambda>y. \<not> isSentinel ctl y) (readyIn ctl st))"

definition countsOff :: "('i, 'q, 's, 'e) queueAndWorkers \<Rightarrow> ('i, 'q, 's, 'e) workers \<Rightarrow> bool" where
  "countsOff ctl st \<longleftrightarrow>
     0 \<le> NumWorkers ctl \<and> length (phases st) = nat (NumWorkers ctl) \<and> nextSentinel st \<le> nat (NumWorkers ctl) \<and>
     wg st = NumWorkers ctl - int (nextSentinel st) +
               int (length (filter (isSentinel ctl) (readyIn ctl st))) \<and>
     (wg st \<noteq> 0 \<longrightarrow> int (length (filter atBarrier (phases st))) = NumWorkers ctl - wg st) \<and>
     (\<forall>x. Processing x \<in> set (phases st) \<longrightarrow> \<not> isSentinel ctl x) \<and>
     (processedSync st \<longrightarrow> wg st = 0) \<and> onceCalls st = (if processedSync st then 1 else 0)"

definition barrierInv ::
    "('i, 'q, 's, 'e) queueAndWorkers \<Rightarrow> 'i set \<Rightarrow> ('i, 'q, 's, 'e) workers \<Rightarrow> bool" where
  "barrierInv ctl init st \<longleftrightarrow>
     sentinelsKnown ctl (nextSentinel st) (wqState st) \<and> countsOff ctl st \<and>
     (\<forall>x \<in> init. x \<in> fst ` set (outcomes st) \<or> (0 < wg st \<and> batchPending ctl x st))"

lemma lengthens_trans:
  assumes "lengthens wq X q q'" "lengthens wq Y q' q''"
  shows "lengthens wq (X \<union> Y) q q''"
  using assms unfolding lengthens_def by (fastforce simp: outstanding_def)

lemma lengthens_mono: "lengthens wq X q q' \<Longrightarrow> X \<subseteq> Y \<Longrightarrow> lengthens wq Y q q'"
  unfolding lengthens_def by blast

lemma fair_add:
  assumes "fairQueue wq"
  shows "lengthens wq {x} q (qAdd wq x q)" "x \<in> outstanding wq (qAdd wq x q)"
    and "qTaken wq (qAdd wq x q) = qTaken wq q"
    and "x \<notin> set (qReady wq q) \<union> qTaken wq q \<Longrightarrow> qReady wq (qAdd wq x q) = qReady wq q @ [x]"
    and "x \<notin> set (qReady wq q) \<union> qTaken wq q \<Longrightarrow> qSoon wq (qAdd wq x q) = qSoon wq q"
  using assms unfolding fairQueue_def addLaw_def by blast+

lemma fair_get:
  assumes "fairQueue wq"
  shows "qGet wq q = Got x q' \<Longrightarrow> qReady wq q = x # qReady wq q'"
    and "qGet wq q = Got x q' \<Longrightarrow> qTaken wq q' = insert x (qTaken wq q)"
    and "qGet wq q = Got x q' \<Longrightarrow> qSoon wq q' = qSoon wq q"
    and "qReady wq q \<noteq> [] \<Longrightarrow> \<exists>x q'. qGet wq q = Got x q'"
  using assms unfolding fairQueue_def getLaw_def by blast+

lemma fair_done:
  assumes "fairQueue wq"
  shows "lengthens wq {} q (qDone wq x q)" "qTaken wq (qDone wq x q) = qTaken wq q - {x}"
  using assms unfolding fairQueue_def doneLaw_def by blast+

lemma fair_retry:
  assumes "fairQueue wq"
  shows "lengthens wq {x} q (qAddRateLimited wq x q)" "x \<in> outstanding wq (qAddRateLimited wq x q)"
    and "qTaken wq (qAddRateLimited wq x q) = qTaken wq q"
    and "lengthens wq {} q (qForget wq x q)" "qTaken wq (qForget wq x q) = qTaken wq q"
  using assms unfolding fairQueue_def retryLaw_def by blast+

lemma fair_advance:
  assumes "fairQueue wq" "q' \<in> set (qAdvance wq q)"
  shows "lengthens wq {} q q'" "qTaken wq q' = qTaken wq q"
  using assms unfolding fairQueue_def advanceLaw_def by blast+

lemma settle_lengthens:
  assumes "fairQueue wq"
  shows "lengthens wq {x} q (settle wq x err retry q)"
    and "qTaken wq (settle wq x err retry q) = qTaken wq q - {x}"
    and "retry \<Longrightarrow> x \<in> outstanding wq (settle wq x err retry q)"
    and "\<not> retry \<Longrightarrow> lengthens wq {} q (settle wq x err retry q)"
proof -
  define q1 where "q1 = (if retry then qAddRateLimited wq x q else qForget wq x q)"
  have settle: "settle wq x err retry q = qDone wq x q1"
    by (simp add: settle_def q1_def)
  have step1: "lengthens wq {x} q q1" "qTaken wq q1 = qTaken wq q" "retry \<Longrightarrow> x \<in> outstanding wq q1"
    using fair_retry [OF assms] lengthens_mono [OF fair_retry(4) [OF assms], of "{x}"]
    by (auto simp: q1_def)
  note step2 = fair_done [OF assms, where q = q1 and x = x]
  show "lengthens wq {x} q (settle wq x err retry q)"
    using lengthens_trans [OF step1(1) step2(1)] by (simp add: settle)
  show "qTaken wq (settle wq x err retry q) = qTaken wq q - {x}"
    by (simp add: settle step1 step2)
  show "retry \<Longrightarrow> x \<in> outstanding wq (settle wq x err retry q)"
    unfolding settle using step1(3) step2(1) by (auto simp: lengthens_def)
  show "\<not> retry \<Longrightarrow> lengthens wq {} q (settle wq x err retry q)"
    using lengthens_trans [OF _ step2(1), of "{}"] fair_retry(4) [OF assms] unfolding settle
    by (simp add: q1_def)
qed

text \<open>
  A change of the queue that concerns no sentinel keeps the sentinels where they are, and the items in
  front of them.
\<close>

lemma lengthens_plain:
  assumes "lengthens (Queue ctl) X q q'" and "\<forall>x \<in> X. \<not> isSentinel ctl x"
    and "sentinelsKnown ctl n q"
  shows "filter (isSentinel ctl) (qReady (Queue ctl) q') = filter (isSentinel ctl) (qReady (Queue ctl) q)"
    and "set (takeWhile (\<lambda>y. \<not> isSentinel ctl y) (qReady (Queue ctl) q))
           \<subseteq> set (takeWhile (\<lambda>y. \<not> isSentinel ctl y) (qReady (Queue ctl) q'))"
    and "qTaken (Queue ctl) q' \<subseteq> X \<union> qTaken (Queue ctl) q \<Longrightarrow> sentinelsKnown ctl n q'"
proof -
  obtain ys where ready: "qReady (Queue ctl) q' = qReady (Queue ctl) q @ ys"
    and ys: "set ys \<subseteq> X \<union> qSoon (Queue ctl) q"
    and soon: "qSoon (Queue ctl) q' \<subseteq> X \<union> qSoon (Queue ctl) q"
    using assms(1) by (auto simp: lengthens_def)
  have plain: "\<forall>y \<in> set ys. \<not> isSentinel ctl y"
    using ys assms(2,3) by (auto simp: sentinelsKnown_def)
  then show "filter (isSentinel ctl) (qReady (Queue ctl) q') = filter (isSentinel ctl) (qReady (Queue ctl) q)"
    by (auto simp: ready filter_empty_conv)
  show "set (takeWhile (\<lambda>y. \<not> isSentinel ctl y) (qReady (Queue ctl) q))
           \<subseteq> set (takeWhile (\<lambda>y. \<not> isSentinel ctl y) (qReady (Queue ctl) q'))"
    unfolding ready by (auto simp: takeWhile_append dest: set_takeWhileD)
  show "sentinelsKnown ctl n q'" if "qTaken (Queue ctl) q' \<subseteq> X \<union> qTaken (Queue ctl) q"
    using that soon plain assms(2,3) by (auto simp: sentinelsKnown_def ready)
qed

lemma barrierInv_lengthens:
  assumes inv: "barrierInv ctl init st" and grows: "lengthens (Queue ctl) X (wqState st) q'"
    and plain: "\<forall>x \<in> X. \<not> isSentinel ctl x"
    and taken: "qTaken (Queue ctl) q' \<subseteq> X \<union> qTaken (Queue ctl) (wqState st)"
  shows "barrierInv ctl init (st\<lparr>wqState := q'\<rparr>)"
proof -
  have known: "sentinelsKnown ctl (nextSentinel st) (wqState st)"
    using inv by (simp add: barrierInv_def)
  note q' = lengthens_plain [OF grows plain known]
  show ?thesis
    using inv q'(1,2) q'(3) [OF taken]
    by (auto simp: barrierInv_def countsOff_def batchPending_def subset_eq)
qed

lemma barrierInv_ctlState: "barrierInv ctl init (st\<lparr>ctlState := s\<rparr>) = barrierInv ctl init st"
  by (simp add: barrierInv_def countsOff_def batchPending_def)


lemma length_filter_update:
  "i < length xs \<Longrightarrow>
     length (filter P (xs[i := y])) + (if P (xs ! i) then 1 else 0)
       = length (filter P xs) + (if P y then 1 else 0)"
proof (induction xs arbitrary: i)
  case (Cons a xs)
  then show ?case using Cons.IH by (cases i) fastforce+
qed simp

lemma in_set_updateD: "x \<in> set (xs[i := y]) \<Longrightarrow> x = y \<or> x \<in> set xs"
  using set_update_subset_insert [of xs i y] by auto

lemma in_set_update_other: "x \<in> set xs \<Longrightarrow> xs ! i \<noteq> x \<Longrightarrow> x \<in> set (xs[i := y])"
  by (metis in_set_conv_nth length_list_update nth_list_update_neq)

text \<open>The steps of a worker.\<close>

lemma barrierInv_processing:
  assumes inv: "barrierInv ctl init st" and w: "w < length (phases st)" "phases st ! w = Idle"
    and get: "qGet (Queue ctl) (wqState st) = Got x q'" "\<not> isSentinel ctl x"
    and fair: "fairQueue (Queue ctl)"
  shows "barrierInv ctl init (st\<lparr>wqState := q', phases := (phases st)[w := Processing x]\<rparr>)"
proof -
  note q = fair_get(1-3) [OF fair get(1)]
  have "length (filter atBarrier ((phases st)[w := Processing x])) = length (filter atBarrier (phases st))"
    using length_filter_update [OF w(1), of atBarrier "Processing x"] w(2) by simp
  moreover have "batchPending ctl y (st\<lparr>wqState := q', phases := (phases st)[w := Processing x]\<rparr>)"
    if "batchPending ctl y st" for y
    using that w get(2) set_update_memI [OF w(1)]
    by (auto simp: batchPending_def q intro: in_set_update_other)
  ultimately show ?thesis
    using inv get(2) by (auto simp: barrierInv_def countsOff_def sentinelsKnown_def q dest: in_set_updateD)
qed

lemma filter_all_length:
  "length (filter P xs) = length xs \<Longrightarrow> x \<in> set xs \<Longrightarrow> P x"
  by (metis filter_True length_filter_less less_irrefl)

lemma barrierInv_barrier:
  assumes inv: "barrierInv ctl init st" and w: "w < length (phases st)" "phases st ! w = Idle"
    and get: "qGet (Queue ctl) (wqState st) = Got x q'" "isSentinel ctl x"
    and fair: "fairQueue (Queue ctl)"
  shows "barrierInv ctl init (st\<lparr>wqState := q', wg := wg st - 1, phases := (phases st)[w := AtBarrier x]\<rparr>)"
    (is "barrierInv ctl init ?st")
proof -
  note q = fair_get(1-3) [OF fair get(1)]
  have counts: "countsOff ctl st" using inv by (simp add: barrierInv_def)
  have bar: "length (filter atBarrier (phases ?st)) = Suc (length (filter atBarrier (phases st)))"
    using length_filter_update [OF w(1), of atBarrier "AtBarrier x"] w(2) by simp
  have wg: "0 < wg st"
    using counts get(2) by (auto simp: countsOff_def q)
  have known: "sentinelsKnown ctl (nextSentinel ?st) (wqState ?st)"
    using inv by (auto simp: barrierInv_def sentinelsKnown_def q)
  have counts': "countsOff ctl ?st"
    using counts get(2) wg bar by (auto simp: countsOff_def q dest: in_set_updateD)
  have "y \<in> fst ` set (outcomes ?st) \<or> (0 < wg ?st \<and> batchPending ctl y ?st)" if "y \<in> init" for y
  proof (cases "y \<in> fst ` set (outcomes st)")
    case False
    with that inv have "Processing y \<in> set (phases st)"
      using get(2) by (auto simp: barrierInv_def batchPending_def q)
    then have proc: "Processing y \<in> set (phases ?st)"
      using w(2) by (auto intro: in_set_update_other)
    have "wg ?st \<noteq> 0"
    proof
      assume "wg ?st = 0"
      with counts wg bar have "length (filter atBarrier (phases ?st)) = length (phases ?st)"
        by (simp add: countsOff_def) linarith
      from filter_all_length [OF this proc] show False by simp
    qed
    with wg proc show ?thesis by (simp add: batchPending_def)
  qed simp
  with known counts' show ?thesis by (simp add: barrierInv_def)
qed

lemma barrierInv_finish:
  assumes inv: "barrierInv ctl init st" and w: "w < length (phases st)" "phases st ! w = Processing x"
    and fair: "fairQueue (Queue ctl)"
  shows "barrierInv ctl init (finishItem ctl w x st)"
proof -
  have x: "\<not> isSentinel ctl x"
    using inv w nth_mem [OF w(1)] by (auto simp: barrierInv_def countsOff_def)
  obtain s' err retry where p: "Process ctl x (ctlState st) = (s', err, retry)"
    by (metis prod_cases3)
  define q' where "q' = settle (Queue ctl) x err retry (wqState st)"
  define st1 where "st1 = st\<lparr>wqState := q'\<rparr>"
  have st1: "barrierInv ctl init st1"
    unfolding st1_def q'_def
    by (rule barrierInv_lengthens [OF inv settle_lengthens(1) [OF fair]])
      (use x settle_lengthens(2) [OF fair, of x err retry] in auto)
  have result: "finishItem ctl w x st =
      st1\<lparr>ctlState := s', phases := (phases st1)[w := Idle], outcomes := outcomes st1 @ [(x, err, retry)]\<rparr>"
    by (simp add: finishItem_def p st1_def q'_def)
  have w1: "w < length (phases st1)" "phases st1 ! w = Processing x"
    using w by (simp_all add: st1_def)
  have bar: "length (filter atBarrier ((phases st1)[w := Idle])) = length (filter atBarrier (phases st1))"
    using length_filter_update [OF w1(1), of atBarrier Idle] w1(2) by simp
  have "batchPending ctl y (finishItem ctl w x st)" if "batchPending ctl y st1" "y \<noteq> x" for y
    using that w1 unfolding result by (auto simp: batchPending_def intro: in_set_update_other)
  then show ?thesis
    using st1 bar unfolding result by (auto simp: barrierInv_def countsOff_def dest: in_set_updateD)
qed

lemma barrierInv_leave:
  assumes inv: "barrierInv ctl init st" and w: "w < length (phases st)"
    and fair: "fairQueue (Queue ctl)" and leave: "leaveBarrier ctl w x st = Some st'"
  shows "barrierInv ctl init st'"
proof -
  have wg: "wg st = 0"
    and st': "st' = st\<lparr>wqState := qDone (Queue ctl) x (wqState st), phases := (phases st)[w := Idle]\<rparr>"
    using leave by (auto simp: leaveBarrier_def split: if_splits)
  have "barrierInv ctl init (st\<lparr>wqState := qDone (Queue ctl) x (wqState st)\<rparr>)"
    by (rule barrierInv_lengthens [OF inv fair_done(1) [OF fair]])
      (use fair_done(2) [OF fair] in auto)
  with wg show ?thesis by (auto simp: st' barrierInv_def countsOff_def dest: in_set_updateD)
qed


lemma barrierInv_worker:
  assumes inv: "barrierInv ctl init st" and fair: "fairQueue (Queue ctl)"
    and step: "workerStep ctl w st = Some st'"
  shows "barrierInv ctl init st'"
proof -
  have w: "w < length (phases st)"
    using step by (auto simp: workerStep_def split: if_splits)
  show ?thesis
  proof (cases "phases st ! w")
    case Idle
    with step obtain x q' where get: "qGet (Queue ctl) (wqState st) = Got x q'"
      by (auto simp: workerStep_def takeItem_def split: if_splits getResult.splits)
    with step Idle show ?thesis
      using barrierInv_processing [OF inv w Idle get _ fair] barrierInv_barrier [OF inv w Idle get _ fair]
      by (auto simp: workerStep_def takeItem_def earlySync_def split: if_splits)
  next
    case (Processing x)
    with step barrierInv_finish [OF inv w Processing fair] show ?thesis
      by (auto simp: workerStep_def split: if_splits)
  next
    case (AtBarrier x)
    with step barrierInv_leave [OF inv w fair] show ?thesis
      by (auto simp: workerStep_def split: if_splits)
  qed
qed

lemma barrierInv_other:
  assumes "barrierInv ctl init st" "fairQueue (Queue ctl)" "otherStep ctl st st'"
  shows "barrierInv ctl init st'"
  using assms(3)
proof (cases rule: otherStep.cases)
  case (handler x s')
  have "barrierInv ctl init (st\<lparr>wqState := qAdd (Queue ctl) x (wqState st)\<rparr>)"
    by (rule barrierInv_lengthens [OF assms(1) fair_add(1) [OF assms(2)]])
      (use handler fair_add(3) [OF assms(2)] in auto)
  then show ?thesis
    using barrierInv_ctlState [where s = s' and st = "st\<lparr>wqState := qAdd (Queue ctl) x (wqState st)\<rparr>"]
    by (simp add: handler)
next
  case (elapse q')
  show ?thesis unfolding elapse(1)
    by (rule barrierInv_lengthens [OF assms(1) fair_advance(1) [OF assms(2) elapse(2)]])
      (use fair_advance(2) [OF assms(2) elapse(2)] in auto)
qed

lemma barrierInv_announce:
  "barrierInv ctl init st \<Longrightarrow> announce st = Some st' \<Longrightarrow> barrierInv ctl init st'"
  by (auto simp: announce_def barrierInv_def countsOff_def batchPending_def split: if_splits)

text \<open>
  How far the workers are from the barrier: the items up to the last sentinel, each to be taken and to
  be processed, and the items being processed.
\<close>

definition toBarrier :: "('i, 'q, 's, 'e) queueAndWorkers \<Rightarrow> ('i, 'q, 's, 'e) workers \<Rightarrow> nat" where
  "toBarrier ctl st =
     2 * length (dropWhile (\<lambda>y. \<not> isSentinel ctl y) (rev (readyIn ctl st))) +
     length (filter isProcessing (phases st))"

lemma lengthens_toBarrier:
  assumes "lengthens (Queue ctl) X q q'" "\<forall>x \<in> X. \<not> isSentinel ctl x" "sentinelsKnown ctl n q"
  shows "dropWhile (\<lambda>y. \<not> isSentinel ctl y) (rev (qReady (Queue ctl) q'))
           = dropWhile (\<lambda>y. \<not> isSentinel ctl y) (rev (qReady (Queue ctl) q))"
proof -
  obtain ys where ready: "qReady (Queue ctl) q' = qReady (Queue ctl) q @ ys"
    and ys: "set ys \<subseteq> X \<union> qSoon (Queue ctl) q"
    using assms(1) by (auto simp: lengthens_def)
  have "\<forall>y \<in> set ys. \<not> isSentinel ctl y"
    using ys assms(2,3) by (auto simp: sentinelsKnown_def)
  then show ?thesis unfolding ready rev_append by (subst dropWhile_append2) auto
qed

lemma dropWhile_rev_Cons:
  "\<exists>y \<in> set (x # xs). P y \<Longrightarrow>
     length (dropWhile (\<lambda>y. \<not> P y) (rev (x # xs))) = Suc (length (dropWhile (\<lambda>y. \<not> P y) (rev xs)))"
  by (cases "\<exists>y \<in> set xs. P y") (auto simp: dropWhile_append1 dropWhile_append2 dropWhile_append3)

text \<open>Until the counter is zero every step of a worker brings the barrier closer, and one is possible.\<close>

lemma worker_progress:
  assumes inv: "barrierInv ctl init st" and fair: "fairQueue (Queue ctl)" and wg: "wg st \<noteq> 0"
    and step: "workerStep ctl w st = Some st'"
  shows "toBarrier ctl st' < toBarrier ctl st"
proof -
  have w: "w < length (phases st)" and up: "launched ctl st"
    using step by (auto simp: workerStep_def split: if_splits)
  have known: "sentinelsKnown ctl (nextSentinel st) (wqState st)" and counts: "countsOff ctl st"
    using inv by (auto simp: barrierInv_def)
  have some: "\<exists>y \<in> set (readyIn ctl st). isSentinel ctl y"
    using counts wg up filter_empty_conv [of "isSentinel ctl" "readyIn ctl st"]
    by (auto simp: countsOff_def launched_def)
  note procs = length_filter_update [OF w, of isProcessing]
  show ?thesis
  proof (cases "phases st ! w")
    case Idle
    with step obtain x q' where get: "qGet (Queue ctl) (wqState st) = Got x q'"
      by (auto simp: workerStep_def takeItem_def split: if_splits getResult.splits)
    have ready: "readyIn ctl st = x # qReady (Queue ctl) q'" by (rule fair_get(1) [OF fair get])
    with step Idle get show ?thesis
      using dropWhile_rev_Cons [of x "qReady (Queue ctl) q'" "isSentinel ctl"] some
        procs [of "Processing x"] procs [of "AtBarrier x"]
      by (auto simp: workerStep_def takeItem_def earlySync_def toBarrier_def split: if_splits)
  next
    case (Processing x)
    obtain s' err retry where p: "Process ctl x (ctlState st) = (s', err, retry)"
      by (metis prod_cases3)
    have "\<not> isSentinel ctl x"
      using counts Processing nth_mem [OF w] by (auto simp: countsOff_def)
    with step Processing p show ?thesis
      using procs [of Idle]
        lengthens_toBarrier [OF settle_lengthens(1) [OF fair, of x "wqState st" err retry] _ known]
      by (auto simp: workerStep_def finishItem_def toBarrier_def split: if_splits)
  next
    case (AtBarrier x)
    with step wg show ?thesis by (auto simp: workerStep_def leaveBarrier_def split: if_splits)
  qed
qed

lemma other_progress:
  assumes "barrierInv ctl init st" "fairQueue (Queue ctl)" "otherStep ctl st st'"
  shows "toBarrier ctl st' = toBarrier ctl st" "wg st' = wg st" "phases st' = phases st"
    "nextSentinel st' = nextSentinel st"
proof -
  have known: "sentinelsKnown ctl (nextSentinel st) (wqState st)"
    using assms(1) by (auto simp: barrierInv_def)
  show "wg st' = wg st" "phases st' = phases st" "nextSentinel st' = nextSentinel st"
    using assms(3) by (auto elim!: otherStepE)
  show "toBarrier ctl st' = toBarrier ctl st"
    using assms(3)
  proof (cases rule: otherStep.cases)
    case (handler x s')
    then show ?thesis
      using lengthens_toBarrier [OF fair_add(1) [OF assms(2), of x "wqState st"] _ known]
      by (simp add: toBarrier_def)
  next
    case (elapse q')
    then show ?thesis
      using lengthens_toBarrier [OF fair_advance(1) [OF assms(2) elapse(2)] _ known]
      by (simp add: toBarrier_def)
  qed
qed

lemma worker_not_stuck:
  assumes inv: "barrierInv ctl init st" and fair: "fairQueue (Queue ctl)" and wg: "wg st \<noteq> 0"
    and up: "launched ctl st"
  shows "\<exists>w st'. workerStep ctl w st = Some st'"
proof -
  have counts: "countsOff ctl st" using inv by (auto simp: barrierInv_def)
  have pos: "0 < wg st" using counts wg by (auto simp: countsOff_def)
  have some: "readyIn ctl st \<noteq> []"
    using counts wg up by (auto simp: countsOff_def launched_def)
  have "length (filter atBarrier (phases st)) < length (phases st)"
    using counts pos by (auto simp: countsOff_def)
  then obtain w where w: "w < length (phases st)" "\<not> atBarrier (phases st ! w)"
    by (metis filter_True in_set_conv_nth less_irrefl)
  obtain x q' where get: "qGet (Queue ctl) (wqState st) = Got x q'"
    using fair_get(4) [OF fair some] by auto
  have "\<exists>st'. workerStep ctl w st = Some st'"
    using w up get
    by (cases "phases st ! w") (auto simp: workerStep_def takeItem_def earlySync_def split: option.split)
  then show ?thesis by blast
qed

subsection \<open>Sentinels\<close>

text \<open>
  What the constructors of the controllers promise of the two functions that they pass: sentinels for
  different workers are different items, so that the queue keeps them apart, and every one is
  recognised.
\<close>

locale sentinels =
  fixes mkSentinel :: "int \<Rightarrow> 'i" and isSent :: "'i \<Rightarrow> bool"
  assumes sentinel_inj: "0 \<le> i \<Longrightarrow> 0 \<le> j \<Longrightarrow> mkSentinel i = mkSentinel j \<Longrightarrow> i = j"
    and sentinel_known: "0 \<le> i \<Longrightarrow> isSent (mkSentinel i)"
begin

lemma barrierInv_addSentinel:
  assumes inv: "barrierInv ctl init st" and fair: "fairQueue (Queue ctl)"
    and ctl: "makeSentinel ctl = mkSentinel" "isSentinel ctl = isSent"
    and step: "addSentinel ctl st = Some st'"
  shows "barrierInv ctl init st'"
proof -
  define x where "x = makeSentinel ctl (int (nextSentinel st))"
  define q' where "q' = qAdd (Queue ctl) x (wqState st)"
  have st': "st' = st\<lparr>wqState := q', nextSentinel := Suc (nextSentinel st)\<rparr>"
    and n: "int (nextSentinel st) < NumWorkers ctl"
    using step by (auto simp: addSentinel_def x_def q'_def split: if_splits)
  have x: "isSentinel ctl x" by (simp add: x_def ctl sentinel_known)
  have known: "sentinelsKnown ctl (nextSentinel st) (wqState st)" using inv by (simp add: barrierInv_def)
  have fresh: "x \<notin> set (readyIn ctl st) \<union> qTaken (Queue ctl) (wqState st)"
  proof
    assume "x \<in> set (readyIn ctl st) \<union> qTaken (Queue ctl) (wqState st)"
    with known x obtain i where "i < nextSentinel st" "x = makeSentinel ctl (int i)"
      by (auto simp: sentinelsKnown_def)
    then show False using sentinel_inj [of "int (nextSentinel st)" "int i"] by (simp add: x_def ctl)
  qed
  have ready: "qReady (Queue ctl) q' = readyIn ctl st @ [x]"
    unfolding q'_def by (rule fair_add(4) [OF fair fresh])
  have taken: "qTaken (Queue ctl) q' = qTaken (Queue ctl) (wqState st)"
    unfolding q'_def by (rule fair_add(3) [OF fair])
  have soon: "qSoon (Queue ctl) q' = qSoon (Queue ctl) (wqState st)"
    unfolding q'_def by (rule fair_add(5) [OF fair fresh])
  have "sentinelsKnown ctl (Suc (nextSentinel st)) q'"
    using known x by (auto simp: sentinelsKnown_def ready taken soon x_def less_Suc_eq)
  moreover have "countsOff ctl st'"
    using inv n x by (auto simp: barrierInv_def countsOff_def st' ready)
  moreover have "batchPending ctl y st'" if "batchPending ctl y st" for y
    using that by (auto simp: batchPending_def st' ready takeWhile_append dest: set_takeWhileD)
  ultimately show ?thesis
    using inv by (auto simp: barrierInv_def st')
qed

lemma barrierInv_start:
  assumes "1 \<le> NumWorkers ctl" "\<forall>x \<in> outstanding (Queue ctl) q. \<not> isSentinel ctl x"
    and "qTaken (Queue ctl) q = {}"
  shows "barrierInv ctl (set (qReady (Queue ctl) q)) (startWorkers ctl q s)"
proof -
  have none: "\<forall>x \<in> set (qReady (Queue ctl) q). \<not> isSentinel ctl x"
    using assms(2) by (simp add: outstanding_def)
  then have "set (takeWhile (\<lambda>y. \<not> isSentinel ctl y) (qReady (Queue ctl) q)) = set (qReady (Queue ctl) q)"
    by (metis takeWhile_eq_all_conv)
  with none assms show ?thesis
    by (auto simp: barrierInv_def startWorkers_def sentinelsKnown_def countsOff_def batchPending_def
        outstanding_def filter_empty_conv)
qed

text \<open>The invariant holds in every reachable state.\<close>

lemma reach_inv:
  assumes "reach ctl (startWorkers ctl q s) st" "fairQueue (Queue ctl)"
    and "makeSentinel ctl = mkSentinel" "isSentinel ctl = isSent" "1 \<le> NumWorkers ctl"
    and "\<forall>x \<in> outstanding (Queue ctl) q. \<not> isSentinel ctl x" "qTaken (Queue ctl) q = {}"
  shows "barrierInv ctl (set (qReady (Queue ctl) q)) st"
  using assms(1)
proof (induction rule: reach.induct)
  case start
  show ?case by (rule barrierInv_start [OF assms(5-7)])
next
  case (sentinel st st')
  then show ?case using barrierInv_addSentinel assms(2-4) by blast
next
  case (worker st w st')
  then show ?case using barrierInv_worker assms(2) by blast
next
  case (announcement st st')
  then show ?case using barrierInv_announce by blast
next
  case (other st st')
  then show ?case using barrierInv_other assms(2) by blast
qed

text \<open>
  Nothing is reported before every initial item has been processed, and the report is made once.
\<close>

lemma batch_processed_before_sync:
  assumes "reach ctl (startWorkers ctl q s) st" "fairQueue (Queue ctl)"
    and "makeSentinel ctl = mkSentinel" "isSentinel ctl = isSent" "1 \<le> NumWorkers ctl"
    and "\<forall>x \<in> outstanding (Queue ctl) q. \<not> isSentinel ctl x" "qTaken (Queue ctl) q = {}"
  shows "0 \<le> wg st \<and> onceCalls st = (if HasProcessedSync st then 1 else 0) \<and>
    (wg st = 0 \<longrightarrow> set (qReady (Queue ctl) q) \<subseteq> fst ` set (outcomes st)) \<and>
    (HasProcessedSync st \<longrightarrow> wg st = 0)"
  using reach_inv [OF assms]
  by (auto simp: barrierInv_def countsOff_def HasProcessedSync_def)

text \<open>The workers get to the barrier.\<close>

lemma batch_terminates:
  assumes "reach ctl (startWorkers ctl q s) st" "fairQueue (Queue ctl)"
    and "makeSentinel ctl = mkSentinel" "isSentinel ctl = isSent" "1 \<le> NumWorkers ctl"
    and "\<forall>x \<in> outstanding (Queue ctl) q. \<not> isSentinel ctl x" "qTaken (Queue ctl) q = {}"
    and "launched ctl st" "wg st \<noteq> 0"
  shows "(\<exists>w st'. workerStep ctl w st = Some st') \<and>
    (\<forall>w st'. workerStep ctl w st = Some st' \<longrightarrow> toBarrier ctl st' < toBarrier ctl st) \<and>
    (\<forall>st'. otherStep ctl st st' \<longrightarrow> toBarrier ctl st' = toBarrier ctl st)"
  using reach_inv [OF assms(1-7)] worker_not_stuck worker_progress other_progress(1) assms(2,8,9)
  by blast

end

subsection \<open>Executing a schedule\<close>

datatype goroutine = Starter | Worker nat | Announcer

fun runOne :: "('i, 'q, 's, 'e) queueAndWorkers \<Rightarrow> goroutine \<Rightarrow> ('i, 'q, 's, 'e) workers \<Rightarrow>
    ('i, 'q, 's, 'e) workers option" where
  "runOne ctl Starter st = addSentinel ctl st"
| "runOne ctl (Worker w) st = workerStep ctl w st"
| "runOne ctl Announcer st = announce st"

fun runSchedule :: "('i, 'q, 's, 'e) queueAndWorkers \<Rightarrow> goroutine list \<Rightarrow> ('i, 'q, 's, 'e) workers \<Rightarrow>
    ('i, 'q, 's, 'e) workers option" where
  "runSchedule ctl [] st = Some st"
| "runSchedule ctl (g # gs) st = Option.bind (runOne ctl g st) (runSchedule ctl gs)"

lemma runSchedule_reach:
  "runSchedule ctl gs st = Some st' \<Longrightarrow> reach ctl st0 st \<Longrightarrow> reach ctl st0 st'"
proof (induction gs arbitrary: st)
  case (Cons g gs)
  then obtain st1 where g: "runOne ctl g st = Some st1" and gs: "runSchedule ctl gs st1 = Some st'"
    by (auto simp: bind_eq_Some_conv)
  have "reach ctl st0 st1"
    using g Cons.prems(2) by (cases g) (auto intro: reach.intros)
  with gs show ?case by (rule Cons.IH)
qed simp

subsection \<open>A queue that obeys the laws\<close>

text \<open>
  Items ready, items taken, and items to be made ready later, for concrete examples: an item that is
  added while it is being processed waits until it is done, and the delay of a rate-limited item may
  end at any time.
\<close>

type_synonym 'i listQueue = "'i list \<times> 'i list \<times> 'i list"

fun lqAdd :: "'i \<Rightarrow> 'i listQueue \<Rightarrow> 'i listQueue" where
  "lqAdd x (r, t, l) =
     (if x \<in> set r then (r, t, l) else if x \<in> set t then (r, t, x # l) else (r @ [x], t, l))"

fun lqGet :: "'i listQueue \<Rightarrow> ('i, 'i listQueue) getResult" where
  "lqGet ([], t, l) = Blocks"
| "lqGet (x # r, t, l) = Got x (r, x # t, l)"

fun lqDone :: "'i \<Rightarrow> 'i listQueue \<Rightarrow> 'i listQueue" where
  "lqDone x (r, t, l) = (if x \<in> set l then r @ [x] else r, removeAll x t, removeAll x l)"

fun lqRetry :: "'i \<Rightarrow> 'i listQueue \<Rightarrow> 'i listQueue" where
  "lqRetry x (r, t, l) = (r, t, x # l)"

fun lqAdvance :: "'i listQueue \<Rightarrow> 'i listQueue list" where
  "lqAdvance (r, t, l) =
     [(r @ filter (\<lambda>x. x \<notin> set r \<union> set t) (remdups l), t, filter (\<lambda>x. x \<in> set t) l)]"

definition listQueue :: "('i, 'i listQueue) rateLimitingQueue" where
  "listQueue = \<lparr>qAdd = lqAdd, qGet = lqGet, qDone = lqDone, qAddRateLimited = lqRetry,
     qForget = (\<lambda>_ q. q), qAdvance = lqAdvance, qReady = fst, qTaken = (\<lambda>q. set (fst (snd q))),
     qSoon = (\<lambda>q. set (snd (snd q)))\<rparr>"

lemma listQueue_fair: "fairQueue listQueue"
proof -
  have "addLaw (listQueue :: ('i, 'i listQueue) rateLimitingQueue)"
    by (auto simp: addLaw_def listQueue_def lengthens_def outstanding_def)
  moreover have "getLaw (listQueue :: ('i, 'i listQueue) rateLimitingQueue)"
    unfolding getLaw_def
  proof (intro allI)
    fix q :: "'i listQueue"
    obtain r t l where "q = (r, t, l)" by (cases q)
    then show "(\<forall>x q'. qGet listQueue q = Got x q' \<longrightarrow>
        qReady listQueue q = x # qReady listQueue q' \<and> qTaken listQueue q' = insert x (qTaken listQueue q) \<and>
        qSoon listQueue q' = qSoon listQueue q) \<and>
      (qReady listQueue q \<noteq> [] \<longrightarrow> (\<exists>x q'. qGet listQueue q = Got x q'))"
      by (cases r) (auto simp: listQueue_def)
  qed
  moreover have "doneLaw (listQueue :: ('i, 'i listQueue) rateLimitingQueue)"
    by (auto simp: doneLaw_def listQueue_def lengthens_def outstanding_def)
  moreover have "retryLaw (listQueue :: ('i, 'i listQueue) rateLimitingQueue)"
    by (auto simp: retryLaw_def listQueue_def lengthens_def outstanding_def)
  moreover have "advanceLaw (listQueue :: ('i, 'i listQueue) rateLimitingQueue)"
    by (auto simp: advanceLaw_def listQueue_def lengthens_def outstanding_def)
  ultimately show ?thesis by (simp add: fairQueue_def)
qed

subsection \<open>Properties\<close>

text \<open>
  When a worker finishes an item, the item is enqueued again exactly when \<^verbatim>\<open>Process\<close> asked for a
  retry, with or without an error; whatever was waiting in the queue still is; the worker is free for
  the next item, and the outcome is the one that \<^verbatim>\<open>Process\<close> returned.
\<close>

theorem requeued_iff_retry:
  assumes "fairQueue (Queue ctl)" "launched ctl st" "w < length (phases st)"
    and "phases st ! w = Processing x" "x \<notin> outstanding (Queue ctl) (wqState st)"
    and "Process ctl x (ctlState st) = (s', err, retry)"
  shows "\<exists>st'. workerStep ctl w st = Some st' \<and> phases st' ! w = Idle \<and> ctlState st' = s' \<and>
    outcomes st' = outcomes st @ [(x, err, retry)] \<and>
    (x \<in> outstanding (Queue ctl) (wqState st') \<longleftrightarrow> retry) \<and>
    outstanding (Queue ctl) (wqState st) \<subseteq> outstanding (Queue ctl) (wqState st')"
proof -
  define q' where "q' = settle (Queue ctl) x err retry (wqState st)"
  note grows = settle_lengthens [OF assms(1), where q = "wqState st" and x = x and err = err
      and retry = retry, folded q'_def]
  have "\<not> retry \<Longrightarrow> x \<notin> outstanding (Queue ctl) q'"
    using grows(4) assms(5) by (auto simp: lengthens_def outstanding_def)
  with grows(3) have "x \<in> outstanding (Queue ctl) q' \<longleftrightarrow> retry" by blast
  moreover have "outstanding (Queue ctl) (wqState st) \<subseteq> outstanding (Queue ctl) q'"
    using grows(1) by (simp add: lengthens_def)
  ultimately show ?thesis
    using assms(2-4,6) by (auto simp: workerStep_def finishItem_def q'_def)
qed

definition retryExample :: "(nat, nat listQueue, nat, string) queueAndWorkers" where
  "retryExample = NewQueueAndWorkers listQueue 1 (\<lambda>x s. (s + x, Some ''busy'', True))"

definition busyWorker :: "(nat, nat listQueue, nat, string) workers" where
  "busyWorker = (startPlainWorkers retryExample ([5], [7], []) 0)\<lparr>phases := [Processing 7]\<rparr>"

theorem requeued_iff_retry_witness:
  "\<exists>st'. workerStep retryExample 0 busyWorker = Some st' \<and> (7::nat) \<in> outstanding listQueue (wqState st')"
proof -
  have q: "Queue retryExample = listQueue"
    by (simp add: retryExample_def NewQueueAndWorkers_def NewKnowsProcessedSync_def)
  have "\<exists>st'. workerStep retryExample 0 busyWorker = Some st' \<and> phases st' ! 0 = Idle \<and> ctlState st' = 7 \<and>
    outcomes st' = outcomes busyWorker @ [(7, Some ''busy'', True)] \<and>
    (7 \<in> outstanding (Queue retryExample) (wqState st') \<longleftrightarrow> True) \<and>
    outstanding (Queue retryExample) (wqState busyWorker) \<subseteq> outstanding (Queue retryExample) (wqState st')"
    by (rule requeued_iff_retry)
      (simp_all add: q listQueue_fair, simp_all add: retryExample_def busyWorker_def launched_def
        startPlainWorkers_def NewQueueAndWorkers_def NewKnowsProcessedSync_def outstanding_def listQueue_def)
  then show ?thesis unfolding q by blast
qed

end
