(* ===== verification/Expectations.thy ===== *)
theory Expectations
  imports Kube
begin

text \<open>
  \<^verbatim>\<open>pkg/controller/launcher-populator/node-launcher-key.go\<close> and \<^verbatim>\<open>pending_expectations.go\<close>: the
  record of Pod creations and deletions that the apiserver has confirmed and the informer cache may
  not show yet.

  Each operation holds the one mutex for its whole body, so operations are atomic steps; the result
  of \<^verbatim>\<open>time.Now()\<close> is an argument.  The locale \<open>expectation_tracker\<close> is the interface the reconciler
  relies on; it is interpreted on the operations below.
\<close>

subsection \<open>Keys\<close>

record NodeLauncherKey =
  kLauncherConfigName :: string
  kNodeName :: string

definition mkKey :: "string \<Rightarrow> string \<Rightarrow> NodeLauncherKey" where
  "mkKey nodeName lcName = \<lparr>kLauncherConfigName = lcName, kNodeName = nodeName\<rparr>"

definition NodeLauncherKey_String :: "NodeLauncherKey \<Rightarrow> string" where
  "NodeLauncherKey_String k = kLauncherConfigName k @ ''/'' @ kNodeName k"

lemma mkKey_inject [simp]: "mkKey n l = mkKey n' l' \<longleftrightarrow> n = n' \<and> l = l'"
  by (auto simp: mkKey_def)

lemma mkKey_sel [simp]: "kNodeName (mkKey n l) = n" "kLauncherConfigName (mkKey n l) = l"
  by (simp_all add: mkKey_def)

subsection \<open>State and operations\<close>

definition DefaultExpectationTimeout :: duration where
  "DefaultExpectationTimeout = 5 * 1000000000"

datatype ExpectationStatus = ExpectationsSatisfied | ExpectationsWaiting | ExpectationsTimedOut

record expectationEntry =
  pendingCreations :: "string set"
  pendingDeletions :: "string set"
  deadline :: time

record pendingExpectations =
  entries :: "(NodeLauncherKey, expectationEntry) gomap"
  timeout :: duration

definition newPendingExpectations :: "duration \<Rightarrow> pendingExpectations" where
  "newPendingExpectations tmo = \<lparr>entries = [], timeout = tmo\<rparr>"

definition getOrCreate ::
  "pendingExpectations \<Rightarrow> NodeLauncherKey \<Rightarrow> pendingExpectations \<times> expectationEntry" where
  "getOrCreate pe key =
     (case mget (entries pe) key of
        Some e \<Rightarrow> (pe, e)
      | None \<Rightarrow>
          (let e = \<lparr>pendingCreations = {}, pendingDeletions = {}, deadline = zeroTime\<rparr>
           in (pe\<lparr>entries := mput key e (entries pe)\<rparr>, e)))"

definition expectCreation ::
  "time \<Rightarrow> pendingExpectations \<Rightarrow> NodeLauncherKey \<Rightarrow> string \<Rightarrow> pendingExpectations" where
  "expectCreation now pe key uid =
     (let (pe1, e) = getOrCreate pe key;
          e' = e\<lparr>pendingCreations := insert uid (pendingCreations e), deadline := now + timeout pe1\<rparr>
      in pe1\<lparr>entries := mput key e' (entries pe1)\<rparr>)"

definition expectDeletion ::
  "time \<Rightarrow> pendingExpectations \<Rightarrow> NodeLauncherKey \<Rightarrow> string \<Rightarrow> pendingExpectations" where
  "expectDeletion now pe key uid =
     (let (pe1, e) = getOrCreate pe key;
          e' = e\<lparr>pendingDeletions := insert uid (pendingDeletions e), deadline := now + timeout pe1\<rparr>
      in pe1\<lparr>entries := mput key e' (entries pe1)\<rparr>)"

definition check ::
  "time \<Rightarrow> pendingExpectations \<Rightarrow> NodeLauncherKey \<Rightarrow> string set \<Rightarrow> pendingExpectations \<times> ExpectationStatus" where
  "check now pe key presentUIDs =
     (case mget (entries pe) key of
        None \<Rightarrow> (pe, ExpectationsSatisfied)
      | Some e \<Rightarrow>
          (let e' = e\<lparr>pendingCreations := Set.filter (\<lambda>uid. uid \<notin> presentUIDs) (pendingCreations e),
                      pendingDeletions := Set.filter (\<lambda>uid. uid \<in> presentUIDs) (pendingDeletions e)\<rparr>
           in if pendingCreations e' = {} \<and> pendingDeletions e' = {}
              then (pe\<lparr>entries := mdel key (entries pe)\<rparr>, ExpectationsSatisfied)
              else (pe\<lparr>entries := mput key e' (entries pe)\<rparr>,
                    if now > deadline e' then ExpectationsTimedOut else ExpectationsWaiting)))"

definition reset :: "pendingExpectations \<Rightarrow> NodeLauncherKey \<Rightarrow> pendingExpectations" where
  "reset pe key = pe\<lparr>entries := mdel key (entries pe)\<rparr>"

subsection \<open>The interface\<close>

text \<open>
  What a client may rely on: \<open>creations\<close>, \<open>deletions\<close> and \<open>due\<close> are the abstract state of a key, the
  creations and deletions not yet seen and the instant after which waiting is over.
\<close>

locale expectation_tracker =
  fixes expC :: "time \<Rightarrow> 's \<Rightarrow> 'k \<Rightarrow> string \<Rightarrow> 's"
    and expD :: "time \<Rightarrow> 's \<Rightarrow> 'k \<Rightarrow> string \<Rightarrow> 's"
    and chk :: "time \<Rightarrow> 's \<Rightarrow> 'k \<Rightarrow> string set \<Rightarrow> 's \<times> ExpectationStatus"
    and rst :: "'s \<Rightarrow> 'k \<Rightarrow> 's"
    and creations :: "'s \<Rightarrow> 'k \<Rightarrow> string set"
    and deletions :: "'s \<Rightarrow> 'k \<Rightarrow> string set"
    and due :: "'s \<Rightarrow> 'k \<Rightarrow> time"
    and patience :: "'s \<Rightarrow> duration"
  assumes creations_expC: "creations (expC now s k u) = (creations s)(k := insert u (creations s k))"
    and deletions_expC: "deletions (expC now s k u) = deletions s"
    and creations_expD: "creations (expD now s k u) = creations s"
    and deletions_expD: "deletions (expD now s k u) = (deletions s)(k := insert u (deletions s k))"
    and due_expC: "due (expC now s k u) k = now + patience s"
    and due_expD: "due (expD now s k u) k = now + patience s"
    and patience_expC: "patience (expC now s k u) = patience s"
    and patience_expD: "patience (expD now s k u) = patience s"
    and chk_status: "snd (chk now s k present) =
      (if creations s k \<subseteq> present \<and> deletions s k \<inter> present = {} then ExpectationsSatisfied
       else if now > due s k then ExpectationsTimedOut else ExpectationsWaiting)"
    and creations_chk: "creations (fst (chk now s k present)) =
      (creations s)(k := creations s k - present)"
    and deletions_chk: "deletions (fst (chk now s k present)) =
      (deletions s)(k := deletions s k \<inter> present)"
    and creations_rst: "creations (rst s k) = (creations s)(k := {})"
    and deletions_rst: "deletions (rst s k) = (deletions s)(k := {})"
begin

lemma creations_folded: "creations (fold (\<lambda>u s. expC now s k u) us s) k = creations s k \<union> set us"
  by (induction us arbitrary: s) (auto simp: creations_expC)

lemma deletions_fold_expC: "deletions (fold (\<lambda>u s. expC now s k u) us s) = deletions s"
  by (induction us arbitrary: s) (auto simp: deletions_expC)

lemma deletions_folded: "deletions (fold (\<lambda>u s. expD now s k u) us s) k = deletions s k \<union> set us"
  by (induction us arbitrary: s) (auto simp: deletions_expD)

lemma creations_fold_expD: "creations (fold (\<lambda>u s. expD now s k u) us s) = creations s"
  by (induction us arbitrary: s) (auto simp: creations_expD)

lemma patience_fold:
  "patience (fold (\<lambda>u s. expC now s k u) us s) = patience s"
  "patience (fold (\<lambda>u s. expD now s k u) us s) = patience s"
  by (induction us arbitrary: s) (auto simp: patience_expC patience_expD)

lemma due_folded:
  "us \<noteq> [] \<Longrightarrow> due (fold (\<lambda>u s. expC now s k u) us s) k = now + patience s"
  "us \<noteq> [] \<Longrightarrow> due (fold (\<lambda>u s. expD now s k u) us s) k = now + patience s"
proof (induction us arbitrary: s)
  case (Cons u us)
  {
    case 1
    from Cons.IH(1) show ?case by (cases us) (auto simp: due_expC patience_expC)
  next
    case 2
    from Cons.IH(2) show ?case by (cases us) (auto simp: due_expD patience_expD)
  }
qed auto

text \<open>
  Whatever the cache shows, as long as the deadline has not passed a check is satisfied exactly when
  the cache shows every creation recorded and none of the deletions, and otherwise says to wait.
\<close>

lemma guarded:
  assumes "set cs \<union> set ds \<noteq> {}" and "now' \<le> now + patience s"
    and "creations s k = {}" and "deletions s k = {}"
  shows "snd (chk now' (fold (\<lambda>u s. expD now s k u) ds (fold (\<lambda>u s. expC now s k u) cs s)) k present) =
    (if set cs \<subseteq> present \<and> set ds \<inter> present = {} then ExpectationsSatisfied else ExpectationsWaiting)"
proof -
  let ?s1 = "fold (\<lambda>u s. expC now s k u) cs s"
  let ?s2 = "fold (\<lambda>u s. expD now s k u) ds ?s1"
  have "due ?s2 k = now + patience s"
    using assms(1) due_folded(1) [of cs now k s] due_folded(2) [of ds now k ?s1]
    by (cases ds) (auto simp: patience_fold)
  moreover have "creations ?s2 k = set cs" and "deletions ?s2 k = set ds"
    using assms(3,4)
    by (auto simp: creations_fold_expD creations_folded deletions_folded deletions_fold_expC)
  ultimately show ?thesis using assms(2) by (simp add: chk_status)
qed

lemma after_reset: "snd (chk now (rst s k) k present) = ExpectationsSatisfied"
  by (simp add: chk_status creations_rst deletions_rst)

end

subsection \<open>The operations satisfy the interface\<close>

definition pendC :: "pendingExpectations \<Rightarrow> NodeLauncherKey \<Rightarrow> string set" where
  "pendC pe k = (case mget (entries pe) k of None \<Rightarrow> {} | Some e \<Rightarrow> pendingCreations e)"

definition pendD :: "pendingExpectations \<Rightarrow> NodeLauncherKey \<Rightarrow> string set" where
  "pendD pe k = (case mget (entries pe) k of None \<Rightarrow> {} | Some e \<Rightarrow> pendingDeletions e)"

definition dueAt :: "pendingExpectations \<Rightarrow> NodeLauncherKey \<Rightarrow> time" where
  "dueAt pe k = (case mget (entries pe) k of None \<Rightarrow> zeroTime | Some e \<Rightarrow> deadline e)"

lemmas expectation_defs = expectCreation_def expectDeletion_def check_def reset_def getOrCreate_def
  pendC_def pendD_def dueAt_def Let_def

interpretation pe: expectation_tracker expectCreation expectDeletion check reset pendC pendD dueAt timeout
proof (unfold_locales, goal_cases)
  case (9 now s k present)
  show ?case
    by (cases "mget (entries s) k") (auto simp: expectation_defs)
next
  case (10 now s k present)
  show ?case
    by (cases "mget (entries s) k") (auto simp: expectation_defs gomap_simps fun_eq_iff)
next
  case (11 now s k present)
  show ?case
    by (cases "mget (entries s) k") (auto simp: expectation_defs gomap_simps fun_eq_iff)
qed (auto simp: expectation_defs gomap_simps fun_eq_iff split: option.splits)

lemma check_satisfied_forgets:
  "(mget (entries (fst (check now pe key present))) key = None) \<longleftrightarrow>
   snd (check now pe key present) = ExpectationsSatisfied"
  by (auto simp: check_def Let_def gomap_simps split: option.splits if_splits)

subsection \<open>Properties\<close>

text \<open>
  C22: after a reconcile recorded its creations and deletions for a key, every check of that key
  before the deadline is satisfied exactly when the informer cache shows all the created Pods and
  none of the deleted ones, and says to wait otherwise: no decision is taken on a cache that is
  behind, and none is held up by one that is not.
\<close>

theorem expectations_guard_stale_cache:
  assumes "mget (entries s) k = None" and "set cs \<union> set ds \<noteq> {}" and "now' \<le> now + timeout s"
  shows "snd (check now' (fold (\<lambda>u s. expectDeletion now s k u) ds
                            (fold (\<lambda>u s. expectCreation now s k u) cs s)) k present) =
    (if set cs \<subseteq> present \<and> set ds \<inter> present = {} then ExpectationsSatisfied else ExpectationsWaiting)"
  by (rule pe.guarded) (use assms in \<open>auto simp: pendC_def pendD_def\<close>)

definition exampleKey :: NodeLauncherKey where
  "exampleKey = mkKey ''n1'' ''lc1''"

theorem expectations_guard_stale_cache_witness:
  "snd (check 7 (expectCreation 5 (newPendingExpectations 10) exampleKey ''u1'') exampleKey {}) =
     ExpectationsWaiting \<and>
   snd (check 7 (expectCreation 5 (newPendingExpectations 10) exampleKey ''u1'') exampleKey {''u1''}) =
     ExpectationsSatisfied"
proof -
  have "mget (entries (newPendingExpectations 10)) exampleKey = None"
    and "7 \<le> 5 + timeout (newPendingExpectations 10)"
    by (simp_all add: newPendingExpectations_def)
  from expectations_guard_stale_cache [OF this(1) _ this(2), of "[''u1'']" "[]" "{}"]
    expectations_guard_stale_cache [OF this(1) _ this(2), of "[''u1'']" "[]" "{''u1''}"]
  show ?thesis by simp
qed

text \<open>
  A check answers "satisfied" exactly when nothing is outstanding against the cache, and then, and
  only then, keeps no entry for the key; what is outstanding turns into "timed out" exactly when the deadline has passed;
  and no check changes what is recorded for another key.
\<close>

theorem check_status_exact:
  "snd (check now pe key present) =
     (if pendC pe key \<subseteq> present \<and> pendD pe key \<inter> present = {} then ExpectationsSatisfied
      else if now > dueAt pe key then ExpectationsTimedOut else ExpectationsWaiting) \<and>
   (mget (entries (fst (check now pe key present))) key = None) =
     (snd (check now pe key present) = ExpectationsSatisfied) \<and>
   (key' = key \<or>
      pendC (fst (check now pe key present)) key' = pendC pe key' \<and>
      pendD (fst (check now pe key present)) key' = pendD pe key')"
  using check_satisfied_forgets [of now pe key present]
  by (simp add: pe.chk_status pe.creations_chk pe.deletions_chk)

end
