(* ===== verification/Phases.thy ===== *)
theory Phases
  imports Expectations Pod_Helper
begin

text \<open>
  \<^verbatim>\<open>pkg/controller/launcher-populator/metrics.go\<close>: the phase of a launcher Pod, the tallies per
  (node, LauncherConfig) key, and the gauge \<^verbatim>\<open>fma_launcher_pod_count\<close> they feed.

  The gauge vector is part of the model's state, as the map from label values to the number shown:
  \<^verbatim>\<open>WithLabelValues(..).Set\<close> assigns and \<^verbatim>\<open>DeleteLabelValues\<close> removes.  The operations of
  \<^verbatim>\<open>metricsState\<close> hold its mutex, so they are atomic.
\<close>

subsection \<open>Bound launchers\<close>

text \<open>\<^verbatim>\<open>isLauncherBoundToServerRequestingPod\<close> of \<^verbatim>\<open>helpers.go\<close>.\<close>

definition isLauncherBoundToServerRequestingPod :: "pod \<Rightarrow> bool \<times> string" where
  "isLauncherBoundToServerRequestingPod launcherPod =
     (case Annotations launcherPod RequesterAnnotationKey of
        None \<Rightarrow> (False, [])
      | Some v \<Rightarrow>
          (let parts = strings_Split CHR '' '' v
           in if length parts \<noteq> 2 then (False, []) else (True, parts ! 1)))"

abbreviation isBound :: "pod \<Rightarrow> bool" where
  "isBound p \<equiv> fst (isLauncherBoundToServerRequestingPod p)"

subsection \<open>Phases\<close>

datatype launcherPhase =
  phaseBound | phaseUnbound | phaseStuckScheduling | phaseStuckStarting | phaseStale

definition isStuck :: "launcherPhase \<Rightarrow> bool" where
  "isStuck p = (p = phaseStuckScheduling \<or> p = phaseStuckStarting)"

definition phaseByAge :: "time \<Rightarrow> duration \<Rightarrow> launcherPhase \<Rightarrow> time \<Rightarrow> launcherPhase \<times> time" where
  "phaseByAge ref threshold overduePhase now =
     (let overdueAt = ref + threshold
      in if \<not> now < overdueAt then (overduePhase, zeroTime) else (phaseUnbound, overdueAt))"

definition launcherPhaseOf ::
  "pod \<Rightarrow> string \<Rightarrow> duration \<Rightarrow> duration \<Rightarrow> time \<Rightarrow> launcherPhase \<times> time" where
  "launcherPhaseOf p currentTemplateHash stuckSchedulingThreshold stuckStartingThreshold now =
     (if isBound p then (phaseBound, zeroTime)
      else if annot p LauncherTemplateHashAnnotationKey \<noteq> currentTemplateHash then (phaseStale, zeroTime)
      else if IsPodReady p then (phaseUnbound, zeroTime)
      else (case GetPodCondition p PodScheduled of
              Some cond \<Rightarrow>
                if condStatus cond = ConditionTrue
                then phaseByAge (LastTransitionTime cond) stuckStartingThreshold phaseStuckStarting now
                else phaseByAge (CreationTimestamp p) stuckSchedulingThreshold phaseStuckScheduling now
            | None \<Rightarrow> phaseByAge (CreationTimestamp p) stuckSchedulingThreshold phaseStuckScheduling now))"

subsection \<open>Tallies\<close>

record phaseCounts =
  bound :: int
  unbound :: int
  stuckScheduling :: int
  stuckStarting :: int
  stale :: int

definition zeroCounts :: phaseCounts where
  "zeroCounts = \<lparr>bound = 0, unbound = 0, stuckScheduling = 0, stuckStarting = 0, stale = 0\<rparr>"

definition total :: "phaseCounts \<Rightarrow> int" where
  "total pc = bound pc + unbound pc + stuckScheduling pc + stuckStarting pc + stale pc"

definition addDelta :: "phaseCounts \<Rightarrow> phaseCounts \<Rightarrow> phaseCounts \<Rightarrow> phaseCounts" where
  "addDelta pc counts oldCounts =
     pc\<lparr>bound := bound pc + (bound counts - bound oldCounts),
        unbound := unbound pc + (unbound counts - unbound oldCounts),
        stuckScheduling := stuckScheduling pc + (stuckScheduling counts - stuckScheduling oldCounts),
        stuckStarting := stuckStarting pc + (stuckStarting counts - stuckStarting oldCounts),
        stale := stale pc + (stale counts - stale oldCounts)\<rparr>"

fun increment :: "phaseCounts \<Rightarrow> launcherPhase \<Rightarrow> phaseCounts" where
  "increment pc phaseBound = pc\<lparr>bound := bound pc + 1\<rparr>"
| "increment pc phaseUnbound = pc\<lparr>unbound := unbound pc + 1\<rparr>"
| "increment pc phaseStuckScheduling = pc\<lparr>stuckScheduling := stuckScheduling pc + 1\<rparr>"
| "increment pc phaseStuckStarting = pc\<lparr>stuckStarting := stuckStarting pc + 1\<rparr>"
| "increment pc phaseStale = pc\<lparr>stale := stale pc + 1\<rparr>"

text \<open>\<^verbatim>\<open>forEach\<close>: the phases in the order of the calls of \<^verbatim>\<open>yield\<close>, each with its count.\<close>

definition forEach :: "phaseCounts \<Rightarrow> (launcherPhase \<times> int) list" where
  "forEach pc =
     [(phaseBound, bound pc), (phaseUnbound, unbound pc), (phaseStuckScheduling, stuckScheduling pc),
      (phaseStuckStarting, stuckStarting pc), (phaseStale, stale pc)]"

fun computeKeyPhases_loop ::
  "duration \<Rightarrow> duration \<Rightarrow> string \<Rightarrow> time \<Rightarrow> pod list \<Rightarrow> phaseCounts \<times> time \<Rightarrow> phaseCounts \<times> time" where
  "computeKeyPhases_loop thSched thStart templateHash now [] acc = acc"
| "computeKeyPhases_loop thSched thStart templateHash now (p # ps) (counts, earliest) =
     (let (phase, becomesOverdueAt) = launcherPhaseOf p templateHash thSched thStart now;
          counts' = increment counts phase;
          earliest' = (if DeletionTimestamp p = None \<and> becomesOverdueAt > now \<and>
                          (earliest = zeroTime \<or> becomesOverdueAt < earliest)
                       then becomesOverdueAt else earliest)
      in computeKeyPhases_loop thSched thStart templateHash now ps (counts', earliest'))"

definition computeKeyPhases ::
  "duration \<Rightarrow> duration \<Rightarrow> pod list \<Rightarrow> string \<Rightarrow> time \<Rightarrow> phaseCounts \<times> time" where
  "computeKeyPhases thSched thStart pods templateHash now =
     computeKeyPhases_loop thSched thStart templateHash now pods (zeroCounts, zeroTime)"

subsection \<open>The gauge\<close>

record metricsState =
  perLCFG :: "(string, (string, phaseCounts) gomap) gomap"
  agg :: "(string, phaseCounts) gomap"
  lcExists :: "string set"
  gauge :: "string \<times> launcherPhase \<rightharpoonup> int"

definition newMetricsState :: metricsState where
  "newMetricsState = \<lparr>perLCFG = [], agg = [], lcExists = {}, gauge = Map.empty\<rparr>"

definition countsIn :: "(string, phaseCounts) gomap \<Rightarrow> string \<Rightarrow> phaseCounts" where
  "countsIn m k = (case mget m k of None \<Rightarrow> zeroCounts | Some c \<Rightarrow> c)"

definition nodesOf :: "metricsState \<Rightarrow> string \<Rightarrow> (string, phaseCounts) gomap" where
  "nodesOf ms lcfg = (case mget (perLCFG ms) lcfg of None \<Rightarrow> [] | Some m \<Rightarrow> m)"

definition republishLocked :: "metricsState \<Rightarrow> string \<Rightarrow> metricsState" where
  "republishLocked ms lcfg =
     (if lcfg \<notin> lcExists ms \<and> nodesOf ms lcfg = []
      then ms\<lparr>agg := mdel lcfg (agg ms),
              gauge := fold (\<lambda>(phase, _) g. g((lcfg, phase) := None)) (forEach zeroCounts) (gauge ms)\<rparr>
      else ms\<lparr>gauge := fold (\<lambda>(phase, count) g. g((lcfg, phase) \<mapsto> count))
                        (forEach (countsIn (agg ms) lcfg)) (gauge ms)\<rparr>)"

definition publish :: "metricsState \<Rightarrow> NodeLauncherKey \<Rightarrow> phaseCounts \<Rightarrow> metricsState" where
  "publish ms key counts =
     (let lcfg = kLauncherConfigName key;
          nodeName = kNodeName key;
          countsByNode = nodesOf ms lcfg;
          oldCounts = countsIn countsByNode nodeName;
          agg' = (if total counts \<noteq> 0 \<or> total oldCounts \<noteq> 0
                  then mput lcfg (addDelta (countsIn (agg ms) lcfg) counts oldCounts) (agg ms)
                  else agg ms);
          perLCFG' = (if total counts = 0
                      then (let cbn = mdel nodeName countsByNode
                            in if cbn = [] then mdel lcfg (perLCFG ms)
                               else mput lcfg cbn (perLCFG ms))
                      else mput lcfg (mput nodeName counts countsByNode) (perLCFG ms))
      in republishLocked (ms\<lparr>agg := agg', perLCFG := perLCFG'\<rparr>) lcfg)"

definition setLCExists :: "metricsState \<Rightarrow> string \<Rightarrow> bool \<Rightarrow> metricsState" where
  "setLCExists ms lcfg exists =
     republishLocked
       (ms\<lparr>lcExists := (if exists then insert lcfg (lcExists ms) else lcExists ms - {lcfg})\<rparr>) lcfg"

text \<open>
  \<^verbatim>\<open>recordLauncherPhases\<close>: the new metrics state, and the delay with which the key is to be
  reconciled again, if any.
\<close>

definition recordLauncherPhases ::
  "duration \<Rightarrow> duration \<Rightarrow> time \<Rightarrow> metricsState \<Rightarrow> NodeLauncherKey \<Rightarrow> pod list \<Rightarrow> string \<Rightarrow>
   metricsState \<times> duration option" where
  "recordLauncherPhases thSched thStart now ms key pods templateHash =
     (let (counts, earliestTransition) = computeKeyPhases thSched thStart pods templateHash now
      in (publish ms key counts,
          if earliestTransition \<noteq> zeroTime then Some (earliestTransition - now) else None))"

subsection \<open>Counting\<close>

definition phaseCount :: "phaseCounts \<Rightarrow> launcherPhase \<Rightarrow> int" where
  "phaseCount pc ph = (case ph of phaseBound \<Rightarrow> bound pc | phaseUnbound \<Rightarrow> unbound pc
     | phaseStuckScheduling \<Rightarrow> stuckScheduling pc | phaseStuckStarting \<Rightarrow> stuckStarting pc
     | phaseStale \<Rightarrow> stale pc)"

definition nonneg :: "phaseCounts \<Rightarrow> bool" where
  "nonneg pc \<longleftrightarrow> 0 \<le> bound pc \<and> 0 \<le> unbound pc \<and> 0 \<le> stuckScheduling pc \<and>
     0 \<le> stuckStarting pc \<and> 0 \<le> stale pc"

lemma phaseCount_zeroCounts [simp]: "phaseCount zeroCounts ph = 0"
  by (cases ph) (simp_all add: phaseCount_def zeroCounts_def)

lemma phaseCount_increment:
  "phaseCount (increment pc ph) ph' = phaseCount pc ph' + (if ph' = ph then 1 else 0)"
  by (cases ph; cases ph') (simp_all add: phaseCount_def)

lemma phaseCount_addDelta:
  "phaseCount (addDelta pc c d) ph = phaseCount pc ph + (phaseCount c ph - phaseCount d ph)"
  by (cases ph) (simp_all add: phaseCount_def addDelta_def)

lemma nonneg_iff: "nonneg pc \<longleftrightarrow> (\<forall>ph. 0 \<le> phaseCount pc ph)"
  unfolding nonneg_def
  by (auto simp: phaseCount_def split: launcherPhase.splits)

lemma total_zero: "nonneg pc \<Longrightarrow> total pc = 0 \<longleftrightarrow> pc = zeroCounts"
  by (cases pc) (auto simp: nonneg_def total_def zeroCounts_def)

lemma set_forEach: "set (forEach pc) = {(ph, phaseCount pc ph) | ph. True}"
proof (intro set_eqI)
  fix x :: "launcherPhase \<times> int"
  obtain ph c where "x = (ph, c)" by (cases x)
  then show "x \<in> set (forEach pc) \<longleftrightarrow> x \<in> {(ph, phaseCount pc ph) | ph. True}"
    by (cases ph) (auto simp: forEach_def phaseCount_def)
qed

lemma computeKeyPhases_loop_count:
  "phaseCount (fst (computeKeyPhases_loop s t h now ps (c, e))) ph =
   phaseCount c ph + int (length (filter (\<lambda>p. fst (launcherPhaseOf p h s t now) = ph) ps))"
  by (induction ps arbitrary: c e)
    (auto simp: Let_def phaseCount_increment split: prod.splits)

lemma computeKeyPhases_count:
  "phaseCount (fst (computeKeyPhases s t ps h now)) ph =
   int (length (filter (\<lambda>p. fst (launcherPhaseOf p h s t now) = ph) ps))"
  by (simp add: computeKeyPhases_def computeKeyPhases_loop_count)

lemma nonneg_computeKeyPhases: "nonneg (fst (computeKeyPhases s t ps h now))"
  by (simp add: nonneg_iff computeKeyPhases_count)

subsection \<open>When a phase changes\<close>

text \<open>The instant at which the phase of a launcher changes by the mere passing of time.\<close>

definition overdueAt :: "pod \<Rightarrow> string \<Rightarrow> duration \<Rightarrow> duration \<Rightarrow> time option" where
  "overdueAt p h s t =
     (if isBound p \<or> annot p LauncherTemplateHashAnnotationKey \<noteq> h \<or> IsPodReady p then None
      else case GetPodCondition p PodScheduled of
             Some cond \<Rightarrow> if condStatus cond = ConditionTrue then Some (LastTransitionTime cond + t)
                          else Some (CreationTimestamp p + s)
           | None \<Rightarrow> Some (CreationTimestamp p + s))"

lemma launcherPhaseOf_overdue:
  "isStuck (fst (launcherPhaseOf p h s t now)) \<longleftrightarrow> (\<exists>at. overdueAt p h s t = Some at \<and> at \<le> now)"
  "snd (launcherPhaseOf p h s t now) =
     (case overdueAt p h s t of Some at \<Rightarrow> if now < at then at else zeroTime | None \<Rightarrow> zeroTime)"
  by (auto simp: launcherPhaseOf_def overdueAt_def phaseByAge_def isStuck_def Let_def
      split: option.splits if_splits)

lemma launcherPhaseOf_changes:
  assumes "now \<le> now'"
  shows "fst (launcherPhaseOf p h s t now') \<noteq> fst (launcherPhaseOf p h s t now) \<longleftrightarrow>
    (\<exists>at. overdueAt p h s t = Some at \<and> now < at \<and> at \<le> now')"
  using assms
  by (auto simp: launcherPhaseOf_def overdueAt_def phaseByAge_def Let_def
      split: option.splits if_splits)

definition transitions :: "pod list \<Rightarrow> string \<Rightarrow> duration \<Rightarrow> duration \<Rightarrow> time \<Rightarrow> time set" where
  "transitions ps h s t now =
     {at. now < at \<and> (\<exists>p \<in> set ps. DeletionTimestamp p = None \<and> overdueAt p h s t = Some at)}"

lemma transitions_Cons:
  "transitions (p # ps) h s t now =
   (case overdueAt p h s t of
      Some at \<Rightarrow> (if DeletionTimestamp p = None \<and> now < at then {at} else {}) | None \<Rightarrow> {}) \<union>
   transitions ps h s t now"
  by (auto simp: transitions_def split: option.splits)

definition isEarliest :: "time set \<Rightarrow> time \<Rightarrow> bool" where
  "isEarliest T e \<longleftrightarrow> (if e = zeroTime then T = {} else e \<in> T \<and> (\<forall>at \<in> T. e \<le> at))"

lemma isEarliest_insert:
  assumes "isEarliest T e" and "0 \<le> now" and "now < at"
  shows "isEarliest (insert at T) (if e = zeroTime \<or> at < e then at else e)"
  using assms by (auto simp: isEarliest_def split: if_splits)

lemma computeKeyPhases_loop_earliest:
  assumes "0 \<le> now" and "isEarliest T e"
  shows "isEarliest (T \<union> transitions ps h s t now)
           (snd (computeKeyPhases_loop s t h now ps (c, e)))"
  using assms(2)
proof (induction ps arbitrary: c e T)
  case Nil
  then show ?case by (simp add: transitions_def)
next
  case (Cons p ps)
  let ?c = "increment c (fst (launcherPhaseOf p h s t now))"
  show ?case
  proof (cases "overdueAt p h s t")
    case None
    with assms(1) have "computeKeyPhases_loop s t h now (p # ps) (c, e) =
        computeKeyPhases_loop s t h now ps (?c, e)"
      by (simp add: Let_def split_beta launcherPhaseOf_overdue(2))
    with None Cons.IH [OF Cons.prems] show ?thesis by (simp add: transitions_Cons)
  next
    case (Some at)
    show ?thesis
    proof (cases "DeletionTimestamp p = None \<and> now < at")
      case True
      with Some have "computeKeyPhases_loop s t h now (p # ps) (c, e) =
          computeKeyPhases_loop s t h now ps (?c, if e = zeroTime \<or> at < e then at else e)"
        by (simp add: Let_def split_beta launcherPhaseOf_overdue(2))
      moreover have "T \<union> transitions (p # ps) h s t now = insert at T \<union> transitions ps h s t now"
        using Some True by (auto simp: transitions_Cons)
      ultimately show ?thesis
        using Cons.IH [OF isEarliest_insert [OF Cons.prems assms(1)]] True by simp
    next
      case False
      with Some assms(1) have "computeKeyPhases_loop s t h now (p # ps) (c, e) =
          computeKeyPhases_loop s t h now ps (?c, e)"
        by (auto simp add: Let_def split_beta launcherPhaseOf_overdue(2))
      moreover have "transitions (p # ps) h s t now = transitions ps h s t now"
        using Some False by (auto simp: transitions_Cons)
      ultimately show ?thesis using Cons.IH [OF Cons.prems] by simp
    qed
  qed
qed

lemma computeKeyPhases_earliest:
  "0 \<le> now \<Longrightarrow> isEarliest (transitions ps h s t now) (snd (computeKeyPhases s t ps h now))"
  using computeKeyPhases_loop_earliest [of now "{}" zeroTime ps h s t zeroCounts]
  by (simp add: computeKeyPhases_def isEarliest_def)

subsection \<open>The gauge as a function of what was published\<close>

text \<open>
  The specification of the metrics state: the tally last published for each LauncherConfig and Node,
  and which LauncherConfigs exist.  A LauncherConfig has series on display exactly when it exists or
  has launchers, and the series shows the sum over the Nodes.
\<close>

datatype metricsOp = PublishOp NodeLauncherKey phaseCounts | LCExistsOp string bool

fun metricsStep :: "metricsState \<Rightarrow> metricsOp \<Rightarrow> metricsState" where
  "metricsStep ms (PublishOp key counts) = publish ms key counts"
| "metricsStep ms (LCExistsOp lcfg ex) = setLCExists ms lcfg ex"

fun specTally :: "metricsOp list \<Rightarrow> string \<Rightarrow> string \<Rightarrow> phaseCounts" where
  "specTally [] lcfg n = zeroCounts"
| "specTally (PublishOp key counts # earlier) lcfg n =
     (if key = mkKey n lcfg then counts else specTally earlier lcfg n)"
| "specTally (LCExistsOp _ _ # earlier) lcfg n = specTally earlier lcfg n"

fun specExists :: "metricsOp list \<Rightarrow> string \<Rightarrow> bool" where
  "specExists [] lcfg = False"
| "specExists (PublishOp _ _ # earlier) lcfg = specExists earlier lcfg"
| "specExists (LCExistsOp l ex # earlier) lcfg = (if l = lcfg then ex else specExists earlier lcfg)"

fun okOp :: "metricsOp \<Rightarrow> bool" where
  "okOp (PublishOp key counts) = nonneg counts"
| "okOp (LCExistsOp l ex) = True"

definition sumCounts :: "(string, phaseCounts) gomap \<Rightarrow> launcherPhase \<Rightarrow> int" where
  "sumCounts m ph = (\<Sum>c \<leftarrow> map snd m. phaseCount c ph)"

lemma sumCounts_mput:
  "sumCounts (mput k v m) ph = sumCounts m ph + phaseCount v ph - phaseCount (countsIn m k) ph"
  by (induction m) (auto simp: sumCounts_def countsIn_def)

lemma sumCounts_mdel:
  "mok m \<Longrightarrow> sumCounts (mdel k m) ph = sumCounts m ph - phaseCount (countsIn m k) ph"
proof (induction m)
  case (Cons p m)
  obtain j c where p: "p = (j, c)" by (cases p)
  have "k \<notin> fst ` set m \<Longrightarrow> mdel k m = m" by (simp add: AList.delete_id)
  with Cons p show ?case by (auto simp: sumCounts_def countsIn_def mok_Cons)
qed (simp add: sumCounts_def countsIn_def)

lemma sumCounts_sum:
  "mok m \<Longrightarrow> sumCounts m ph = (\<Sum>n \<in> fst ` set m. phaseCount (countsIn m n) ph)"
proof (induction m)
  case (Cons p m)
  obtain j c where p: "p = (j, c)" by (cases p)
  with Cons.prems have j: "j \<notin> fst ` set m" by (simp add: mok_Cons)
  have "(\<Sum>n \<in> fst ` set m. phaseCount (countsIn (p # m) n) ph) =
        (\<Sum>n \<in> fst ` set m. phaseCount (countsIn m n) ph)"
    using j p by (intro sum.cong) (auto simp: countsIn_def)
  with Cons j p show ?case by (auto simp: sumCounts_def countsIn_def mok_Cons)
qed (simp add: sumCounts_def)

text \<open>The relation between the state and the history, newest operation first.\<close>

definition tallyWf :: "(string, phaseCounts) gomap \<Rightarrow> bool" where
  "tallyWf m \<longleftrightarrow> mok m \<and> (\<forall>(n, c) \<in> set m. nonneg c \<and> c \<noteq> zeroCounts)"

definition metricsRel :: "metricsState \<Rightarrow> metricsOp list \<Rightarrow> bool" where
  "metricsRel ms ops \<longleftrightarrow>
     (\<forall>l. tallyWf (nodesOf ms l)) \<and>
     (\<forall>l n. countsIn (nodesOf ms l) n = specTally ops l n) \<and>
     (\<forall>l. l \<in> lcExists ms \<longleftrightarrow> specExists ops l) \<and>
     (\<forall>l ph. phaseCount (countsIn (agg ms) l) ph = sumCounts (nodesOf ms l) ph) \<and>
     (\<forall>l ph. gauge ms (l, ph) =
        (if l \<in> lcExists ms \<or> nodesOf ms l \<noteq> [] then Some (sumCounts (nodesOf ms l) ph) else None))"

lemma gauge_republish:
  "gauge (republishLocked ms l) (l', ph) =
     (if l' \<noteq> l then gauge ms (l', ph)
      else if l \<notin> lcExists ms \<and> nodesOf ms l = [] then None
      else Some (phaseCount (countsIn (agg ms) l) ph))"
  by (cases ph) (auto simp: republishLocked_def forEach_def phaseCount_def)

lemma agg_republish:
  "countsIn (agg (republishLocked ms l)) l' =
     (if l' = l \<and> l \<notin> lcExists ms \<and> nodesOf ms l = [] then zeroCounts
      else countsIn (agg ms) l')"
  by (auto simp: republishLocked_def countsIn_def gomap_simps)

lemma nodesOf_republish [simp]: "nodesOf (republishLocked ms l) = nodesOf ms"
  by (auto simp: republishLocked_def nodesOf_def fun_eq_iff)

lemma lcExists_republish [simp]: "lcExists (republishLocked ms l) = lcExists ms"
  by (simp add: republishLocked_def)

lemma sumCounts_Nil [simp]: "sumCounts [] ph = 0"
  by (simp add: sumCounts_def)

text \<open>Republishing one LauncherConfig restores the relation when everything else already fits.\<close>

lemma metricsRel_republish:
  assumes "\<And>l'. tallyWf (nodesOf ms l')"
    and "\<And>l' n. countsIn (nodesOf ms l') n = specTally ops l' n"
    and "\<And>l'. l' \<in> lcExists ms \<longleftrightarrow> specExists ops l'"
    and "\<And>l' ph. phaseCount (countsIn (agg ms) l') ph = sumCounts (nodesOf ms l') ph"
    and "\<And>l' ph. l' \<noteq> l \<Longrightarrow> gauge ms (l', ph) =
        (if l' \<in> lcExists ms \<or> nodesOf ms l' \<noteq> [] then Some (sumCounts (nodesOf ms l') ph) else None)"
  shows "metricsRel (republishLocked ms l) ops"
  unfolding metricsRel_def using assms by (auto simp: gauge_republish agg_republish)

lemma nodesOf_publish:
  "nodesOf (publish ms key counts) l =
     (if l = kLauncherConfigName key
      then (if total counts = 0 then mdel (kNodeName key) (nodesOf ms l)
            else mput (kNodeName key) counts (nodesOf ms l))
      else nodesOf ms l)"
  by (auto simp: publish_def Let_def nodesOf_def gomap_simps split: option.splits)

lemma tallyWf_mput: "tallyWf m \<Longrightarrow> nonneg c \<Longrightarrow> c \<noteq> zeroCounts \<Longrightarrow> tallyWf (mput n c m)"
  by (auto simp: tallyWf_def intro!: mok_mput dest: in_set_mput)

lemma tallyWf_mdel: "tallyWf m \<Longrightarrow> tallyWf (mdel n m)"
  by (auto simp: tallyWf_def AList.delete_eq mok_def distinct_map_filter intro!: mok_mdel)

lemma countsIn_nonneg: "tallyWf m \<Longrightarrow> nonneg (countsIn m n)"
  by (auto simp: tallyWf_def countsIn_def mget_Some_iff nonneg_iff split: option.splits)

lemma tallyWf_nodes: "tallyWf m \<Longrightarrow> fst ` set m = {n. countsIn m n \<noteq> zeroCounts}"
  by (auto simp: tallyWf_def countsIn_def mget_Some_iff mget_None_iff image_iff
      split: option.splits)

lemma metricsRel_publish:
  assumes rel: "metricsRel ms ops" and nn: "nonneg counts"
  shows "metricsRel (publish ms key counts) (PublishOp key counts # ops)"
proof -
  let ?l = "kLauncherConfigName key" and ?n = "kNodeName key"
  let ?old = "countsIn (nodesOf ms ?l) ?n"
  define ms1 where "ms1 = ms\<lparr>
      agg := (if total counts \<noteq> 0 \<or> total ?old \<noteq> 0
              then mput ?l (addDelta (countsIn (agg ms) ?l) counts ?old) (agg ms) else agg ms),
      perLCFG := (if total counts = 0
                  then (if mdel ?n (nodesOf ms ?l) = [] then mdel ?l (perLCFG ms)
                        else mput ?l (mdel ?n (nodesOf ms ?l)) (perLCFG ms))
                  else mput ?l (mput ?n counts (nodesOf ms ?l)) (perLCFG ms))\<rparr>"
  have pub: "publish ms key counts = republishLocked ms1 ?l"
    by (simp add: publish_def ms1_def Let_def)
  have wf: "\<And>l. tallyWf (nodesOf ms l)"
    and T: "\<And>l n. countsIn (nodesOf ms l) n = specTally ops l n"
    and A: "\<And>l ph. phaseCount (countsIn (agg ms) l) ph = sumCounts (nodesOf ms l) ph"
    and G: "\<And>l ph. gauge ms (l, ph) = (if l \<in> lcExists ms \<or> nodesOf ms l \<noteq> []
        then Some (sumCounts (nodesOf ms l) ph) else None)"
    and E: "\<And>l. l \<in> lcExists ms \<longleftrightarrow> specExists ops l"
    using rel by (simp_all add: metricsRel_def)
  have nodes: "nodesOf ms1 l = (if l = ?l
      then (if counts = zeroCounts then mdel ?n (nodesOf ms l) else mput ?n counts (nodesOf ms l))
      else nodesOf ms l)" for l
    using nodesOf_publish [of ms key counts l] nn by (simp add: pub total_zero)
  have old0: "total ?old = 0 \<longleftrightarrow> ?old = zeroCounts"
    using wf by (intro total_zero countsIn_nonneg)
  have agg1: "phaseCount (countsIn (agg ms1) l) ph = phaseCount (countsIn (agg ms) l) ph +
      (if l = ?l then phaseCount counts ph - phaseCount ?old ph else 0)" for l ph
    using total_zero [OF nn] old0
    by (auto simp: ms1_def countsIn_def mget_mput phaseCount_addDelta)
  have key: "key = mkKey n l \<longleftrightarrow> n = ?n \<and> l = ?l" for n l
    by (auto simp: mkKey_def)
  have "metricsRel (republishLocked ms1 ?l) (PublishOp key counts # ops)"
  proof (rule metricsRel_republish)
    show "tallyWf (nodesOf ms1 l)" for l
      using wf nn by (auto simp: nodes intro: tallyWf_mput tallyWf_mdel)
    show "countsIn (nodesOf ms1 l) n = specTally (PublishOp key counts # ops) l n" for l n
      by (auto simp: nodes key T [symmetric] countsIn_def gomap_simps)
    show "l \<in> lcExists ms1 \<longleftrightarrow> specExists (PublishOp key counts # ops) l" for l
      by (simp add: ms1_def E)
    show "phaseCount (countsIn (agg ms1) l) ph = sumCounts (nodesOf ms1 l) ph" for l ph
      using wf [of ?l] by (auto simp: agg1 A nodes sumCounts_mput sumCounts_mdel tallyWf_def)
    show "gauge ms1 (l, ph) = (if l \<in> lcExists ms1 \<or> nodesOf ms1 l \<noteq> []
        then Some (sumCounts (nodesOf ms1 l) ph) else None)" if "l \<noteq> ?l" for l ph
      using that G [of l ph] nodes [of l] by (simp add: ms1_def)
  qed
  then show ?thesis by (simp add: pub)
qed

lemma metricsRel_setLCExists:
  "metricsRel ms ops \<Longrightarrow> metricsRel (setLCExists ms l ex) (LCExistsOp l ex # ops)"
  unfolding setLCExists_def
  by (rule metricsRel_republish) (auto simp: metricsRel_def nodesOf_def)

lemma metricsRel_new: "metricsRel newMetricsState []"
  by (simp add: metricsRel_def newMetricsState_def nodesOf_def countsIn_def tallyWf_def)

lemma metricsRel_run:
  "list_all okOp ops \<Longrightarrow> metricsRel (foldl metricsStep newMetricsState ops) (rev ops)"
proof (induction ops rule: rev_induct)
  case (snoc op ops)
  then have "metricsRel (foldl metricsStep newMetricsState ops) (rev ops)" and "okOp op" by simp_all
  then show ?case
    by (cases op) (auto intro: metricsRel_publish metricsRel_setLCExists)
qed (simp add: metricsRel_new)

subsection \<open>Properties\<close>

text \<open>
  C18: whatever tallies are published and whichever LauncherConfigs appear and disappear, in any
  order, the incrementally maintained gauge shows for every LauncherConfig and phase exactly the sum
  over the Nodes of the tally last published for that Node; and it shows a LauncherConfig at all
  exactly when its object exists or some Node still has launchers of it.
\<close>

theorem gauge_shows_sum_over_nodes:
  assumes "list_all okOp ops"
  shows "gauge (foldl metricsStep newMetricsState ops) (lcfg, ph) =
    (if specExists (rev ops) lcfg \<or> (\<exists>n. specTally (rev ops) lcfg n \<noteq> zeroCounts)
     then Some (\<Sum>n | specTally (rev ops) lcfg n \<noteq> zeroCounts. phaseCount (specTally (rev ops) lcfg n) ph)
     else None)"
proof -
  let ?ms = "foldl metricsStep newMetricsState ops"
  have rel: "metricsRel ?ms (rev ops)" using assms by (rule metricsRel_run)
  then have wf: "tallyWf (nodesOf ?ms lcfg)"
    and T: "countsIn (nodesOf ?ms lcfg) n = specTally (rev ops) lcfg n" for n
    by (simp_all add: metricsRel_def)
  note keys = tallyWf_nodes [OF wf, unfolded T]
  have "sumCounts (nodesOf ?ms lcfg) ph =
      (\<Sum>n | specTally (rev ops) lcfg n \<noteq> zeroCounts. phaseCount (specTally (rev ops) lcfg n) ph)"
    using sumCounts_sum [of "nodesOf ?ms lcfg" ph] wf by (simp add: tallyWf_def T keys)
  moreover have "nodesOf ?ms lcfg \<noteq> [] \<longleftrightarrow> (\<exists>n. specTally (rev ops) lcfg n \<noteq> zeroCounts)"
    using keys by (cases "nodesOf ?ms lcfg") auto
  ultimately show ?thesis using rel by (simp add: metricsRel_def)
qed

theorem gauge_shows_sum_over_nodes_witness:
  "gauge (foldl metricsStep newMetricsState
     [PublishOp (mkKey ''n1'' ''lc'') (zeroCounts\<lparr>bound := 2\<rparr>),
      LCExistsOp ''lc'' True,
      PublishOp (mkKey ''n1'' ''lc'') zeroCounts]) (''lc'', phaseBound) = Some 0"
proof -
  let ?ops = "[PublishOp (mkKey ''n1'' ''lc'') (zeroCounts\<lparr>bound := 2\<rparr>),
      LCExistsOp ''lc'' True, PublishOp (mkKey ''n1'' ''lc'') zeroCounts]"
  have ok: "list_all okOp ?ops" by (simp add: nonneg_def zeroCounts_def)
  have "specTally (rev ?ops) ''lc'' n = zeroCounts" for n by simp
  with gauge_shows_sum_over_nodes [OF ok, of "''lc''" phaseBound] show ?thesis by simp
qed

text \<open>
  Every launcher Pod of a key is counted in exactly one phase: the tally of a phase is the number
  of Pods in that phase, and the tallies add up to the number of Pods.
\<close>

theorem key_phases_partition_pods:
  "phaseCount (fst (computeKeyPhases s t pods h now)) ph =
     int (length (filter (\<lambda>p. fst (launcherPhaseOf p h s t now) = ph) pods)) \<and>
   total (fst (computeKeyPhases s t pods h now)) = int (length pods)"
proof -
  have "total (fst (computeKeyPhases_loop s t h now ps (c, e))) = total c + int (length ps)" for ps c e
  proof (induction ps arbitrary: c e)
    case (Cons p ps)
    have "total (increment c ph') = total c + 1" for c ph'
      by (cases ph') (simp_all add: total_def)
    with Cons show ?case by (simp add: Let_def split_beta)
  qed simp
  then show ?thesis
    by (simp add: computeKeyPhases_count) (simp add: computeKeyPhases_def total_def zeroCounts_def)
qed

text \<open>
  C19: the delay with which a key is queued again is exact.  By a later instant the phase of some
  launcher that is not being deleted has changed through the passing of time if and only if a delay
  was asked for and has elapsed by then; so the gauge is never behind, and no reconcile is wasted.
\<close>

theorem requeue_at_exact_transition:
  assumes "0 \<le> now" and "now \<le> now'"
  shows "(\<exists>p \<in> set pods. DeletionTimestamp p = None \<and>
            fst (launcherPhaseOf p h s t now') \<noteq> fst (launcherPhaseOf p h s t now)) \<longleftrightarrow>
         (\<exists>d. snd (recordLauncherPhases s t now ms key pods h) = Some d \<and> 0 < d \<and> now + d \<le> now')"
proof -
  let ?e = "snd (computeKeyPhases s t pods h now)"
  have early: "isEarliest (transitions pods h s t now) ?e"
    using assms(1) by (rule computeKeyPhases_earliest)
  have "(\<exists>p \<in> set pods. DeletionTimestamp p = None \<and>
            fst (launcherPhaseOf p h s t now') \<noteq> fst (launcherPhaseOf p h s t now)) \<longleftrightarrow>
        (\<exists>at \<in> transitions pods h s t now. at \<le> now')"
    using launcherPhaseOf_changes [OF assms(2)] by (auto simp: transitions_def)
  also have "\<dots> \<longleftrightarrow> ?e \<noteq> zeroTime \<and> ?e \<in> transitions pods h s t now \<and> ?e \<le> now'"
    using early by (auto simp: isEarliest_def split: if_splits)
  also have "\<dots> \<longleftrightarrow> (\<exists>d. snd (recordLauncherPhases s t now ms key pods h) = Some d \<and> 0 < d \<and> now + d \<le> now')"
    using early by (auto simp: recordLauncherPhases_def split_beta isEarliest_def transitions_def
        split: if_splits)
  finally show ?thesis .
qed

theorem requeue_at_exact_transition_witness:
  "\<exists>d. snd (recordLauncherPhases 10 20 5 newMetricsState exampleKey [blankPod\<lparr>CreationTimestamp := 1\<rparr>] '''')
     = Some d \<and> 0 < d \<and> 5 + d \<le> 11"
proof -
  have "\<exists>p \<in> set [blankPod\<lparr>CreationTimestamp := 1\<rparr>]. DeletionTimestamp p = None \<and>
    fst (launcherPhaseOf p '''' 10 20 11) \<noteq> fst (launcherPhaseOf p '''' 10 20 5)"
    by (simp add: blank_defs launcherPhaseOf_def phaseByAge_def isLauncherBoundToServerRequestingPod_def
        annot_def IsPodReady_def GetPodCondition_def SliceGetByFeature_find)
  then show ?thesis
    using requeue_at_exact_transition [of 5 11 "[blankPod\<lparr>CreationTimestamp := 1\<rparr>]" "''''" 10 20
        newMetricsState exampleKey] by simp
qed

end
