(* ===== verification/Digest.thy ===== *)
theory Digest
  imports Phases
begin

text \<open>
  \<^verbatim>\<open>digested-policy.go\<close>, \<^verbatim>\<open>digest-updater.go\<close>, \<^verbatim>\<open>node-matcher.go\<close>, \<^verbatim>\<open>populator_status_handler.go\<close>
  and \<^verbatim>\<open>getMatchingNodeNames\<close> of \<^verbatim>\<open>helpers.go\<close>: the digest of LauncherPopulationPolicies (LPPs) and
  LauncherConfigs (LCs) into a desired number of launchers for each Node and LauncherConfig.

  The digest worker is the only writer and holds the lock for one item, so each update is one step.
  Pointers to digest entries are modelled by reading the entry and writing it back.  What the code
  calls but does not define is the record \<open>digestEnv\<close>: the informer caches' listers, label selector
  evaluation, JSON and SHA-256, and the apiserver's answers to status updates.  Items added to the
  two work queues and status updates sent are recorded in the order in which the code issues them.
\<close>

subsection \<open>Data\<close>

definition HandsOff :: int where
  "HandsOff = -1"

record digestEntry =
  deDesiredCount :: int
  deLpps :: "(string, (string, int) gomap) gomap"

record lcDigest =
  lcdObject :: "launcherConfig option"
  lcdTemplateErr :: string
  lcdNodeIndependent :: "pod option"
  lcdTemplateHash :: string

text \<open>
  \<^verbatim>\<open>lppDigest\<close>: the one place that builds it stores a non-nil object.  The selector is present exactly
  when there is no selector error.
\<close>

record 'sel lppDigest =
  lppdObject :: "'sel launcherPopulationPolicy"
  lppdSelector :: "string + (strmap \<Rightarrow> bool)"
  lppdDigested :: "(string, int) gomap"

record 'sel digestedPolicy =
  digest :: "(string, (string, digestEntry) gomap) gomap"
  lcs :: "(string, lcDigest) gomap"
  lpps :: "(string, 'sel lppDigest) gomap"

record keySnapshot =
  snapExists :: bool
  snapDesiredCount :: int
  snapTemplateHash :: string
  snapTemplate :: "pod option"

datatype resourceKind = kindLPP | kindLC | kindNode | kindSentinel

record funcItem =
  fiKind :: resourceKind
  fiName :: string

datatype 'sel statusCall =
  LCStatusCall launcherConfig
| LPPStatusCall "'sel launcherPopulationPolicy"

record 'sel digestEnv =
  marshalJSON :: "pod \<Rightarrow> string + string"
  sha256b64 :: "string \<Rightarrow> string"
  asSelector :: "'sel \<Rightarrow> string + (strmap \<Rightarrow> bool)"
  lcGet :: "string \<Rightarrow> apiError + launcherConfig"
  lppGet :: "string \<Rightarrow> apiError + 'sel launcherPopulationPolicy"
  nodeGet :: "string \<Rightarrow> apiError + node"
  nodeList :: "(strmap \<Rightarrow> bool) \<Rightarrow> apiError + node list"
  updateLCStatus :: "launcherConfig \<Rightarrow> apiError option"
  updateLPPStatus :: "'sel launcherPopulationPolicy \<Rightarrow> apiError option"

record 'sel digestState =
  policy :: "'sel digestedPolicy"
  metrics :: metricsState
  digestAdds :: "funcItem list"
  keyAdds :: "NodeLauncherKey list"
  statusCalls :: "'sel statusCall list"

subsection \<open>Reading and changing the digest\<close>

definition newDigestedPolicy :: "'sel digestedPolicy" where
  "newDigestedPolicy = \<lparr>digest = [], lcs = [], lpps = []\<rparr>"

definition lcDigestFor :: "'sel digestedPolicy \<Rightarrow> string \<Rightarrow> lcDigest option" where
  "lcDigestFor dp lcName = mget (lcs dp) lcName"

text \<open>
  \<^verbatim>\<open>nodeNamesRefingLPP\<close>.  The consumer removes digest entries of the Node it is given while the
  enumeration goes on; a Go map range never visits a removed key again and the enumeration has left
  that Node's inner map by then, so the names are those found in the digest at the start.
\<close>

definition nodeNamesRefingLPP :: "'sel digestedPolicy \<Rightarrow> string \<Rightarrow> string list" where
  "nodeNamesRefingLPP dp lppName =
     map fst (filter (\<lambda>(nodeName, nodeMap). list_ex (\<lambda>(_, de). mget (deLpps de) lppName \<noteq> None) nodeMap)
                (digest dp))"

definition lppNamesRefByLC :: "'sel digestedPolicy \<Rightarrow> string \<Rightarrow> string list" where
  "lppNamesRefByLC dp lcName =
     map fst (filter (\<lambda>(name, lppd). list_ex (\<lambda>cr. cflLauncherConfigName cr = lcName)
                                        (lppCountForLauncher (lppdObject lppd)))
                (lpps dp))"

definition getEntry ::
  "'sel digestedPolicy \<Rightarrow> string \<Rightarrow> string \<Rightarrow> bool \<Rightarrow> 'sel digestedPolicy \<times> digestEntry option" where
  "getEntry dp nodeName lcName addIfMissing =
     (case mget (digest dp) nodeName of
        None \<Rightarrow>
          if \<not> addIfMissing then (dp, None)
          else (let entry = \<lparr>deDesiredCount = 0, deLpps = []\<rparr>
                in (dp\<lparr>digest := mput nodeName [(lcName, entry)] (digest dp)\<rparr>, Some entry))
      | Some nodeMap \<Rightarrow>
          (case mget nodeMap lcName of
             Some entry \<Rightarrow> (dp, Some entry)
           | None \<Rightarrow>
               if \<not> addIfMissing then (dp, None)
               else (let entry = \<lparr>deDesiredCount = 0, deLpps = []\<rparr>
                     in (dp\<lparr>digest := mput nodeName (mput lcName entry nodeMap) (digest dp)\<rparr>, Some entry))))"

text \<open>Writing through the pointer to an entry that is in the digest.\<close>

definition putEntry ::
  "'sel digestedPolicy \<Rightarrow> string \<Rightarrow> string \<Rightarrow> digestEntry \<Rightarrow> 'sel digestedPolicy" where
  "putEntry dp nodeName lcName entry =
     (case mget (digest dp) nodeName of
        None \<Rightarrow> dp
      | Some nodeMap \<Rightarrow> dp\<lparr>digest := mput nodeName (mput lcName entry nodeMap) (digest dp)\<rparr>)"

definition deleteEntry :: "'sel digestedPolicy \<Rightarrow> string \<Rightarrow> string \<Rightarrow> 'sel digestedPolicy" where
  "deleteEntry dp nodeName lcName =
     (case mget (digest dp) nodeName of
        None \<Rightarrow> dp
      | Some nodeMap \<Rightarrow>
          (let nodeMap' = mdel lcName nodeMap
           in if nodeMap' = [] then dp\<lparr>digest := mdel nodeName (digest dp)\<rparr>
              else dp\<lparr>digest := mput nodeName nodeMap' (digest dp)\<rparr>))"

definition snapshotForKey :: "'sel digestedPolicy \<Rightarrow> NodeLauncherKey \<Rightarrow> keySnapshot" where
  "snapshotForKey dp key =
     (let entry = snd (getEntry dp (kNodeName key) (kLauncherConfigName key) False);
          lcd = mget (lcs dp) (kLauncherConfigName key)
      in \<lparr>snapExists = (entry \<noteq> None),
          snapDesiredCount = (case entry of None \<Rightarrow> 0 | Some e \<Rightarrow> deDesiredCount e),
          snapTemplateHash = (case lcd of None \<Rightarrow> [] | Some d \<Rightarrow> lcdTemplateHash d),
          snapTemplate = (case lcd of None \<Rightarrow> None | Some d \<Rightarrow> lcdNodeIndependent d)\<rparr>)"

subsection \<open>Selecting Nodes\<close>

fun matchesResourceConditions :: "resourceList \<Rightarrow> (string, resourceRange) gomap \<Rightarrow> bool" where
  "matchesResourceConditions allocatable [] = True"
| "matchesResourceConditions allocatable ((resourceName, rr) # ranges) =
     (case allocatable resourceName of
        None \<Rightarrow> False
      | Some qty \<Rightarrow>
          if (case rrMin rr of Some m \<Rightarrow> qty < m | None \<Rightarrow> False) then False
          else if (case rrMax rr of Some m \<Rightarrow> qty > m | None \<Rightarrow> False) then False
          else matchesResourceConditions allocatable ranges)"

definition getMatchingNodeNames ::
  "'sel digestEnv \<Rightarrow> (strmap \<Rightarrow> bool) \<Rightarrow> (string, resourceRange) gomap \<Rightarrow> goError + string list" where
  "getMatchingNodeNames env labelSelector allocatableResources =
     (case nodeList env labelSelector of
        Inl err \<Rightarrow> Inl (Wrapped ''failed to list nodes using nodeLister'' (ApiErr err))
      | Inr nodes \<Rightarrow>
          Inr (fold (\<lambda>n ans. if matchesResourceConditions (Allocatable n) allocatableResources
                             then List.insert (Name n) ans else ans) nodes []))"

definition nonNilSlice :: "string \<Rightarrow> string list" where
  "nonNilSlice s = (if s = [] then [] else [s])"

subsection \<open>Status\<close>

definition setLPPStatusErrors ::
  "'sel digestEnv \<Rightarrow> 'sel digestState \<Rightarrow> 'sel launcherPopulationPolicy \<Rightarrow> string list \<Rightarrow>
   'sel digestState \<times> apiError option" where
  "setLPPStatusErrors env st lpp desiredErrors =
     (if lppObservedGeneration lpp = Generation lpp \<and> lppErrors lpp = desiredErrors then (st, None)
      else (let lppCopy = lpp\<lparr>lppObservedGeneration := Generation lpp, lppErrors := desiredErrors\<rparr>
            in (st\<lparr>statusCalls := statusCalls st @ [LPPStatusCall lppCopy]\<rparr>, updateLPPStatus env lppCopy)))"

definition setLCStatusErrors ::
  "'sel digestEnv \<Rightarrow> 'sel digestState \<Rightarrow> launcherConfig \<Rightarrow> string list \<Rightarrow>
   'sel digestState \<times> apiError option" where
  "setLCStatusErrors env st lc desiredErrors =
     (if lcObservedGeneration lc = Generation lc \<and> lcErrors lc = desiredErrors then (st, None)
      else (let lcCopy = lc\<lparr>lcObservedGeneration := Generation lc, lcErrors := desiredErrors\<rparr>
            in (st\<lparr>statusCalls := statusCalls st @ [LCStatusCall lcCopy]\<rparr>, updateLCStatus env lcCopy)))"

subsection \<open>Updating the digest\<close>

text \<open>\<^verbatim>\<open>recomputeEntryFromLPPs\<close>: the entry afterwards, and whether it changed.\<close>

definition lcUsable :: "(string, lcDigest) gomap \<Rightarrow> string \<Rightarrow> bool" where
  "lcUsable lcMap lcName =
     (case mget lcMap lcName of
        None \<Rightarrow> False
      | Some lcd \<Rightarrow> lcdObject lcd \<noteq> None \<and> lcdTemplateErr lcd = [])"

definition recomputeEntryFromLPPs ::
  "(string, lcDigest) gomap \<Rightarrow> digestEntry \<Rightarrow> string \<Rightarrow> digestEntry \<times> bool" where
  "recomputeEntryFromLPPs lcMap entry lcName =
     (let oldDesired = deDesiredCount entry;
          newDesired =
            (if deLpps entry \<noteq> []
             then (if \<not> lcUsable lcMap lcName then HandsOff
                   else fold (\<lambda>(_, lcToCount) d. case mget lcToCount lcName of
                                                    Some thisCount \<Rightarrow> max d thisCount
                                                  | None \<Rightarrow> d) (deLpps entry) 0)
             else 0)
      in if oldDesired = newDesired then (entry, False)
         else (entry\<lparr>deDesiredCount := newDesired\<rparr>, True))"

definition enqueueKey :: "'sel digestState \<Rightarrow> bool \<Rightarrow> string \<Rightarrow> string \<Rightarrow> 'sel digestState" where
  "enqueueKey st changed nodeName lcName =
     (if changed then st\<lparr>keyAdds := keyAdds st @ [mkKey nodeName lcName]\<rparr> else st)"

definition applyWanted ::
  "string \<Rightarrow> (string, int) gomap \<Rightarrow> string \<Rightarrow> string \<Rightarrow> 'sel digestState \<Rightarrow> 'sel digestState" where
  "applyWanted lppName lcToCount nodeName lcName st =
     (case getEntry (policy st) nodeName lcName True of
        (dp, None) \<Rightarrow> st
      | (dp, Some entry) \<Rightarrow>
          (let entry1 = entry\<lparr>deLpps := mput lppName lcToCount (deLpps entry)\<rparr>;
               (entry2, changed) = recomputeEntryFromLPPs (lcs dp) entry1 lcName
           in enqueueKey (st\<lparr>policy := putEntry dp nodeName lcName entry2\<rparr>) changed nodeName lcName))"

definition applyUnwanted ::
  "string \<Rightarrow> (string, int) gomap \<Rightarrow> string \<Rightarrow> string \<times> digestEntry \<Rightarrow> 'sel digestState \<Rightarrow> 'sel digestState" where
  "applyUnwanted lppName lcToCount nodeName le st =
     (let (lcName, entry) = le
      in if mget lcToCount lcName \<noteq> None then st
         else if mget (deLpps entry) lppName = None then st
         else (let entry1 = entry\<lparr>deLpps := mdel lppName (deLpps entry)\<rparr>;
                   (entry2, changed) = recomputeEntryFromLPPs (lcs (policy st)) entry1 lcName;
                   dp = (if deLpps entry1 = [] then deleteEntry (policy st) nodeName lcName
                         else putEntry (policy st) nodeName lcName entry2)
               in enqueueKey (st\<lparr>policy := dp\<rparr>) changed nodeName lcName))"

definition applyLPPToDigestForNode ::
  "'sel digestState \<Rightarrow> string \<Rightarrow> (string, int) gomap \<Rightarrow> string \<Rightarrow> 'sel digestState" where
  "applyLPPToDigestForNode st lppName lcToCount nodeName =
     (let st1 = fold (applyWanted lppName lcToCount nodeName) (mkeys lcToCount) st;
          nodeMap = (case mget (digest (policy st1)) nodeName of None \<Rightarrow> [] | Some m \<Rightarrow> m)
      in fold (applyUnwanted lppName lcToCount nodeName) nodeMap st1)"

definition recomputeDigestForNode :: "'sel digestState \<Rightarrow> node \<Rightarrow> 'sel digestState" where
  "recomputeDigestForNode st n =
     (let st1 = fold (\<lambda>(lppName, lppd) st.
                   (let ok = (case lppdSelector lppd of
                                Inl _ \<Rightarrow> False
                              | Inr matches \<Rightarrow> matches (Labels n) \<and>
                                  matchesResourceConditions (Allocatable n)
                                    (lppAllocatableResources (lppdObject lppd)))
                    in applyLPPToDigestForNode st lppName (if ok then lppdDigested lppd else []) (Name n)))
                (lpps (policy st)) st
      in if mget (digest (policy st1)) (Name n) = None \<or> mget (digest (policy st1)) (Name n) = Some []
         then st1\<lparr>policy := (policy st1)\<lparr>digest := mdel (Name n) (digest (policy st1))\<rparr>\<rparr>
         else st1)"

definition updateDigestForNode ::
  "'sel digestEnv \<Rightarrow> 'sel digestState \<Rightarrow> string \<Rightarrow> 'sel digestState \<times> goError option" where
  "updateDigestForNode env st nodeName =
     (case nodeGet env nodeName of
        Inl err \<Rightarrow>
          if isNotFound err
          then (st\<lparr>policy := (policy st)\<lparr>digest := mdel nodeName (digest (policy st))\<rparr>\<rparr>, None)
          else (st, Some (Wrapped (''failed to get node '' @ nodeName) (ApiErr err)))
      | Inr n \<Rightarrow> (recomputeDigestForNode st n, None))"

definition digestCounts :: "countForLauncher list \<Rightarrow> (string, int) gomap" where
  "digestCounts cfls =
     fold (\<lambda>cfl digested. mput (cflLauncherConfigName cfl)
             (max (mget0 digested (cflLauncherConfigName cfl)) (cflLauncherCount cfl)) digested) cfls []"

definition lcRefErrors :: "(string, lcDigest) gomap \<Rightarrow> countForLauncher list \<Rightarrow> string list" where
  "lcRefErrors lcMap cfls =
     concat (map (\<lambda>cr. let lcName = cflLauncherConfigName cr in
        (case mget lcMap lcName of
           None \<Rightarrow> [''LauncherConfig '' @ strconv_Quote lcName @
                     '' referenced in CountForLauncher does not exist'']
         | Some lcd \<Rightarrow>
             if lcdObject lcd = None
             then [''LauncherConfig '' @ strconv_Quote lcName @
                   '' referenced in CountForLauncher does not exist'']
             else if lcdTemplateErr lcd \<noteq> []
             then [''LauncherConfig '' @ strconv_Quote lcName @
                   '' referenced in CountForLauncher is malformed: '' @ lcdTemplateErr lcd]
             else [])) cfls)"

text \<open>
  \<^verbatim>\<open>updateDigestForLPP\<close>, first the part that evaluates the LPP afresh: the new state with
  the per-LPP digest recorded, the matched Nodes and the digested counts, or an error.
\<close>

definition evaluateLPP ::
  "'sel digestEnv \<Rightarrow> 'sel digestState \<Rightarrow> string \<Rightarrow>
   'sel digestState \<times> (goError + string list \<times> (string, int) gomap)" where
  "evaluateLPP env st lppName =
     (let prevDigest = mget (lpps (policy st)) lppName
      in (case lppGet env lppName of
            Inl err \<Rightarrow>
              if \<not> isNotFound err
              then (st, Inl (Wrapped (''failed to get LPP '' @ lppName) (ApiErr err)))
              else (st\<lparr>policy := (policy st)\<lparr>lpps := mdel lppName (lpps (policy st))\<rparr>\<rparr>, Inr ([], []))
          | Inr lpp \<Rightarrow>
              (let selector = asSelector env (lppLabelSelector lpp);
                   digested =
                     (case selector of
                        Inl _ \<Rightarrow> []
                      | Inr _ \<Rightarrow>
                          (case prevDigest of
                             Some prev \<Rightarrow>
                               if Generation (lppdObject prev) = Generation lpp then lppdDigested prev
                               else digestCounts (lppCountForLauncher lpp)
                           | None \<Rightarrow> digestCounts (lppCountForLauncher lpp)));
                   matched =
                     (case selector of
                        Inl _ \<Rightarrow> Inr []
                      | Inr sel \<Rightarrow> getMatchingNodeNames env sel (lppAllocatableResources lpp))
               in (case matched of
                     Inl matchErr \<Rightarrow>
                       (st, Inl (Wrapped (''failed to get matching nodes for policy '' @ Name lpp) matchErr))
                   | Inr matchedNodes \<Rightarrow>
                       (let selectorErrs = (case selector of Inl e \<Rightarrow> [e] | Inr _ \<Rightarrow> []);
                            allErrs = selectorErrs @ lcRefErrors (lcs (policy st)) (lppCountForLauncher lpp);
                            (st1, statusErr) = setLPPStatusErrors env st lpp allErrs
                        in (case statusErr of
                              Some err \<Rightarrow>
                                (st1, Inl (Wrapped (''failed to set Status for policy '' @ Name lpp) (ApiErr err)))
                            | None \<Rightarrow>
                                (st1\<lparr>policy := (policy st1)\<lparr>lpps := mput lppName
                                    \<lparr>lppdObject = lpp, lppdSelector = selector, lppdDigested = digested\<rparr>
                                    (lpps (policy st1))\<rparr>\<rparr>,
                                 Inr (matchedNodes, digested))))))))"

definition updateDigestForLPP ::
  "'sel digestEnv \<Rightarrow> 'sel digestState \<Rightarrow> string \<Rightarrow> 'sel digestState \<times> goError option" where
  "updateDigestForLPP env st lppName =
     (case evaluateLPP env st lppName of
        (st1, Inl err) \<Rightarrow> (st1, Some err)
      | (st1, Inr (matchedNodes, digested)) \<Rightarrow>
          (let st2 = fold (\<lambda>nodeName st. if nodeName \<in> set matchedNodes then st
                                         else applyLPPToDigestForNode st lppName [] nodeName)
                       (nodeNamesRefingLPP (policy st1) lppName) st1;
               st3 = fold (\<lambda>nodeName st. applyLPPToDigestForNode st lppName digested nodeName)
                       matchedNodes st2
           in (st3, None)))"

definition updateDigestForLC ::
  "'sel digestEnv \<Rightarrow> 'sel digestState \<Rightarrow> string \<Rightarrow> 'sel digestState \<times> goError option" where
  "updateDigestForLC env st name =
     (let prevDigest = mget (lcs (policy st)) name;
          prevExists = (case prevDigest of None \<Rightarrow> False | Some d \<Rightarrow> lcdObject d \<noteq> None);
          prevTemplateHash = (case prevDigest of None \<Rightarrow> [] | Some d \<Rightarrow> lcdTemplateHash d);
          prevGood = (case prevDigest of None \<Rightarrow> False | Some d \<Rightarrow> prevExists \<and> lcdTemplateErr d = []);
          finish = (\<lambda>st exists good templateHash.
             (if prevExists \<noteq> exists \<or> prevGood \<noteq> good \<or> good \<and> prevTemplateHash \<noteq> templateHash
              then st\<lparr>digestAdds := digestAdds st @
                       map (\<lambda>lppName. \<lparr>fiKind = kindLPP, fiName = lppName\<rparr>) (lppNamesRefByLC (policy st) name)\<rparr>
              else st, None))
      in (case lcGet env name of
            Inl err \<Rightarrow>
              if \<not> isNotFound err then (st, Some (Wrapped (''failed to get LC '' @ name) (ApiErr err)))
              else if \<not> prevExists then (st, None)
              else finish (st\<lparr>policy := (policy st)\<lparr>lcs := mdel name (lcs (policy st))\<rparr>,
                              metrics := setLCExists (metrics st) name False\<rparr>) False False []
          | Inr lc \<Rightarrow>
              (let built = BuildNodeIndependentLauncherTemplate (marshalJSON env) (sha256b64 env) lc;
                   templateErr = (case built of Inl e \<Rightarrow> e | Inr _ \<Rightarrow> []);
                   templateHash = (case built of Inl _ \<Rightarrow> [] | Inr (_, h) \<Rightarrow> h);
                   nodeIndep = (case built of Inl _ \<Rightarrow> None | Inr (p, _) \<Rightarrow> Some p);
                   good = (case built of Inl _ \<Rightarrow> False | Inr _ \<Rightarrow> True);
                   (st1, statusErr) = setLCStatusErrors env st lc (nonNilSlice templateErr)
               in (case statusErr of
                     Some err \<Rightarrow> (st1, Some (Wrapped (''failed to set Status for LC '' @ name) (ApiErr err)))
                   | None \<Rightarrow>
                       finish (st1\<lparr>policy := (policy st1)\<lparr>lcs := mput name
                                 \<lparr>lcdObject = Some lc, lcdTemplateErr = templateErr,
                                  lcdNodeIndependent = nodeIndep, lcdTemplateHash = templateHash\<rparr>
                                 (lcs (policy st1))\<rparr>,
                               metrics := setLCExists (metrics st1) name True\<rparr>) True good templateHash))))"

text \<open>\<^verbatim>\<open>processDigestItem\<close> of \<^verbatim>\<open>populator.go\<close>; every element of the queue is a \<^verbatim>\<open>funcItem\<close>.\<close>

definition processDigestItem ::
  "'sel digestEnv \<Rightarrow> 'sel digestState \<Rightarrow> funcItem \<Rightarrow> 'sel digestState \<times> workResult" where
  "processDigestItem env st f =
     (case fiKind f of
        kindSentinel \<Rightarrow> (st, (Some (ErrorText ''unknown funcItem kind: 3''), False))
      | kindLPP \<Rightarrow> (case updateDigestForLPP env st (fiName f) of (st', e) \<Rightarrow> (st', (e, e \<noteq> None)))
      | kindLC \<Rightarrow> (case updateDigestForLC env st (fiName f) of (st', e) \<Rightarrow> (st', (e, e \<noteq> None)))
      | kindNode \<Rightarrow> (case updateDigestForNode env st (fiName f) of (st', e) \<Rightarrow> (st', (e, e \<noteq> None))))"

subsection \<open>Event handlers\<close>

text \<open>
  \<^verbatim>\<open>OnAdd\<close>, \<^verbatim>\<open>OnUpdate\<close> and \<^verbatim>\<open>OnDelete\<close> of \<^verbatim>\<open>populator.go\<close>, which the informers call: they only
  enqueue.  A deletion may arrive wrapped in \<^verbatim>\<open>cache.DeletedFinalStateUnknown\<close>.
\<close>

datatype 'sel watchedObject =
  WPod pod | WNode node | WLPP "'sel launcherPopulationPolicy" | WLC launcherConfig | WOther

datatype 'sel deletedObject = PlainObject "'sel watchedObject" | DeletedFinalStateUnknown "'sel watchedObject"

definition isLauncherPod :: "pod \<Rightarrow> bool" where
  "isLauncherPod p \<longleftrightarrow> Labels p LauncherConfigNameLabelKey \<noteq> None"

definition addDigestItem :: "'sel digestState \<Rightarrow> resourceKind \<Rightarrow> string \<Rightarrow> 'sel digestState" where
  "addDigestItem st k nm = st\<lparr>digestAdds := digestAdds st @ [\<lparr>fiKind = k, fiName = nm\<rparr>]\<rparr>"

definition OnAdd :: "'sel digestState \<Rightarrow> 'sel watchedObject \<Rightarrow> 'sel digestState" where
  "OnAdd st obj =
     (case obj of
        WPod p \<Rightarrow>
          if \<not> isLauncherPod p then st
          else st\<lparr>keyAdds := keyAdds st @ [mkKey (lbl p NodeNameLabelKey) (lbl p LauncherConfigNameLabelKey)]\<rparr>
      | WNode x \<Rightarrow> addDigestItem st kindNode (Name x)
      | WLPP x \<Rightarrow> addDigestItem st kindLPP (Name x)
      | WLC x \<Rightarrow> addDigestItem st kindLC (Name x)
      | WOther \<Rightarrow> st)"

definition OnUpdate :: "'sel digestState \<Rightarrow> 'sel watchedObject \<Rightarrow> 'sel watchedObject \<Rightarrow> 'sel digestState" where
  "OnUpdate st prev obj =
     (case obj of
        WPod p \<Rightarrow>
          if \<not> isLauncherPod p then st
          else st\<lparr>keyAdds := keyAdds st @ [mkKey (lbl p NodeNameLabelKey) (lbl p LauncherConfigNameLabelKey)]\<rparr>
      | WNode x \<Rightarrow> addDigestItem st kindNode (Name x)
      | WLPP x \<Rightarrow> addDigestItem st kindLPP (Name x)
      | WLC x \<Rightarrow> addDigestItem st kindLC (Name x)
      | WOther \<Rightarrow> st)"

definition OnDelete :: "'sel digestState \<Rightarrow> 'sel deletedObject \<Rightarrow> 'sel digestState" where
  "OnDelete st dobj =
     (let obj = (case dobj of DeletedFinalStateUnknown x \<Rightarrow> x | PlainObject x \<Rightarrow> x)
      in (case obj of
            WPod p \<Rightarrow>
              if \<not> isLauncherPod p then st
              else st\<lparr>keyAdds := keyAdds st @ [mkKey (lbl p NodeNameLabelKey) (lbl p LauncherConfigNameLabelKey)]\<rparr>
          | WNode x \<Rightarrow> addDigestItem st kindNode (Name x)
          | WLPP x \<Rightarrow> addDigestItem st kindLPP (Name x)
          | WLC x \<Rightarrow> addDigestItem st kindLC (Name x)
          | WOther \<Rightarrow> st))"

subsection \<open>The digest as a map from Node and LauncherConfig\<close>

definition nodeMapOf :: "'sel digestedPolicy \<Rightarrow> string \<Rightarrow> (string, digestEntry) gomap" where
  "nodeMapOf dp n = (case mget (digest dp) n of None \<Rightarrow> [] | Some m \<Rightarrow> m)"

definition ent :: "'sel digestedPolicy \<Rightarrow> string \<Rightarrow> string \<Rightarrow> digestEntry option" where
  "ent dp n l = mget (nodeMapOf dp n) l"

definition desiredOf :: "digestEntry option \<Rightarrow> int" where
  "desiredOf e = (case e of None \<Rightarrow> 0 | Some e \<Rightarrow> deDesiredCount e)"

definition listedLpps :: "digestEntry option \<Rightarrow> (string, (string, int) gomap) gomap" where
  "listedLpps e = (case e of None \<Rightarrow> [] | Some e \<Rightarrow> deLpps e)"

text \<open>The desired count that the policies listed in an entry ask for.\<close>

definition wantedCount ::
  "(string, lcDigest) gomap \<Rightarrow> (string, (string, int) gomap) gomap \<Rightarrow> string \<Rightarrow> int" where
  "wantedCount lcMap lp l =
     (if lp = [] then 0 else if \<not> lcUsable lcMap l then HandsOff
      else fold (\<lambda>(_, m) d. case mget m l of Some c \<Rightarrow> max d c | None \<Rightarrow> d) lp 0)"

text \<open>
  The invariant the source states: an outer key exists exactly when its inner map is not empty; and
  no entry outlives the last policy that refers to it.
\<close>

definition digestWf :: "'sel digestedPolicy \<Rightarrow> bool" where
  "digestWf dp \<longleftrightarrow> mok (digest dp) \<and>
     (\<forall>n m. mget (digest dp) n = Some m \<longrightarrow> m \<noteq> [] \<and> mok m) \<and>
     (\<forall>n l e. ent dp n l = Some e \<longrightarrow> deLpps e \<noteq> [] \<and> mok (deLpps e))"

lemma mput_mput [simp]: "mput k v (mput k w m) = mput k v m"
  by (induction m) auto

lemma recompute_eq:
  "recomputeEntryFromLPPs lcMap e l =
     (e\<lparr>deDesiredCount := wantedCount lcMap (deLpps e) l\<rparr>, deDesiredCount e \<noteq> wantedCount lcMap (deLpps e) l)"
  by (auto simp: recomputeEntryFromLPPs_def wantedCount_def Let_def)

definition setNode ::
  "string \<Rightarrow> (string, digestEntry) gomap \<Rightarrow> 'sel digestedPolicy \<Rightarrow> 'sel digestedPolicy" where
  "setNode n m dp = dp\<lparr>digest := (if m = [] then mdel n (digest dp) else mput n m (digest dp))\<rparr>"

lemma setNode_keeps [simp]: "lcs (setNode n m dp) = lcs dp" "lpps (setNode n m dp) = lpps dp"
  by (simp_all add: setNode_def)

lemma nodeMapOf_setNode: "nodeMapOf (setNode n m dp) n' = (if n' = n then m else nodeMapOf dp n')"
  by (auto simp: setNode_def nodeMapOf_def gomap_simps)

lemma ent_setNode: "ent (setNode n m dp) n' l = (if n' = n then mget m l else ent dp n' l)"
  by (simp add: ent_def nodeMapOf_setNode)

lemma digestWf_setNode:
  assumes "digestWf dp" and "mok m"
    and "\<And>l e. mget m l = Some e \<Longrightarrow> deLpps e \<noteq> [] \<and> mok (deLpps e)"
  shows "digestWf (setNode n m dp)"
proof -
  have "mok (digest (setNode n m dp))"
    using assms(1) by (auto simp: setNode_def digestWf_def intro: mok_mput mok_mdel)
  moreover have "m' \<noteq> [] \<and> mok m'" if "mget (digest (setNode n m dp)) n' = Some m'" for n' m'
    using that assms(1,2) by (auto simp: setNode_def digestWf_def gomap_simps split: if_splits)
  moreover have "deLpps e \<noteq> [] \<and> mok (deLpps e)" if "ent (setNode n m dp) n' l = Some e" for n' l e
    using that assms(1,3) by (auto simp: ent_setNode digestWf_def split: if_splits)
  ultimately show ?thesis by (auto simp: digestWf_def)
qed

lemma digestWf_nodeMap: "digestWf dp \<Longrightarrow> mok (nodeMapOf dp n)"
  by (auto simp: digestWf_def nodeMapOf_def split: option.splits)

lemma digestWf_entry: "digestWf dp \<Longrightarrow> ent dp n l = Some e \<Longrightarrow> deLpps e \<noteq> [] \<and> mok (deLpps e)"
  by (simp add: digestWf_def)

lemma digestWf_put [wf_intros]:
  assumes "digestWf dp" and "deLpps e \<noteq> []" and "mok (deLpps e)"
  shows "digestWf (setNode n (mput l e (nodeMapOf dp n)) dp)"
  using digestWf_nodeMap [OF assms(1)] digestWf_entry [OF assms(1)] assms
  by (auto simp: mget_mput ent_def split: if_splits intro!: digestWf_setNode mok_mput)

lemma digestWf_del [wf_intros]:
  assumes "digestWf dp"
  shows "digestWf (setNode n (mdel l (nodeMapOf dp n)) dp)"
  using digestWf_nodeMap [OF assms] digestWf_entry [OF assms] assms
  by (auto simp: mget_mdel ent_def split: if_splits intro!: digestWf_setNode mok_mdel)

text \<open>One turn of each loop of \<^verbatim>\<open>applyLPPToDigestForNode\<close>, in closed form.\<close>

definition withLpps :: "(string, lcDigest) gomap \<Rightarrow> (string, (string, int) gomap) gomap \<Rightarrow> string \<Rightarrow> digestEntry" where
  "withLpps lcMap lp l = \<lparr>deDesiredCount = wantedCount lcMap lp l, deLpps = lp\<rparr>"

lemma recompute_withLpps:
  "recomputeEntryFromLPPs lcMap (e\<lparr>deLpps := lp\<rparr>) l =
     (withLpps lcMap lp l, deDesiredCount e \<noteq> wantedCount lcMap lp l)"
  by (cases e) (simp add: recompute_eq withLpps_def)

lemma withLpps_sel [simp]:
  "deDesiredCount (withLpps lcMap lp l) = wantedCount lcMap lp l" "deLpps (withLpps lcMap lp l) = lp"
  by (simp_all add: withLpps_def)

lemma recompute_fresh:
  "recomputeEntryFromLPPs lcMap \<lparr>deDesiredCount = 0, deLpps = lp\<rparr> l =
     (withLpps lcMap lp l, 0 \<noteq> wantedCount lcMap lp l)"
  using recompute_withLpps [of lcMap lp "\<lparr>deDesiredCount = 0, deLpps = lp\<rparr>" l] by simp

lemma applyWanted_eq:
  "applyWanted p m n l st =
     (let dp = policy st; lp = mput p m (listedLpps (ent dp n l)); e = withLpps (lcs dp) lp l
      in enqueueKey (st\<lparr>policy := setNode n (mput l e (nodeMapOf dp n)) dp\<rparr>)
           (desiredOf (ent dp n l) \<noteq> deDesiredCount e) n l)"
proof (cases "mget (digest (policy st)) n")
  case None
  then show ?thesis
    by (simp add: applyWanted_def getEntry_def putEntry_def recompute_withLpps recompute_fresh Let_def gomap_simps
        setNode_def nodeMapOf_def ent_def listedLpps_def desiredOf_def)
next
  case (Some M)
  then show ?thesis
    by (cases "mget M l")
      (simp_all add: applyWanted_def getEntry_def putEntry_def recompute_withLpps recompute_fresh Let_def gomap_simps
        setNode_def nodeMapOf_def ent_def listedLpps_def desiredOf_def)
qed

lemma applyUnwanted_eq:
  assumes "ent (policy st) n l = Some e"
  shows "applyUnwanted p m n (l, e) st =
     (if mget m l \<noteq> None \<or> mget (deLpps e) p = None then st
      else (let dp = policy st; lp = mdel p (deLpps e); M = nodeMapOf dp n
            in enqueueKey (st\<lparr>policy := setNode n (if lp = [] then mdel l M
                                                   else mput l (withLpps (lcs dp) lp l) M) dp\<rparr>)
                 (deDesiredCount e \<noteq> wantedCount (lcs dp) lp l) n l))"
proof -
  obtain M where M: "mget (digest (policy st)) n = Some M"
    using assms by (cases "mget (digest (policy st)) n") (auto simp: ent_def nodeMapOf_def)
  then have "mdel p (deLpps e) \<noteq> [] \<Longrightarrow> putEntry (policy st) n l (withLpps (lcs (policy st)) (mdel p (deLpps e)) l)
     = setNode n (mput l (withLpps (lcs (policy st)) (mdel p (deLpps e)) l) M) (policy st)"
    by (simp add: putEntry_def setNode_def)
  moreover have "deleteEntry (policy st) n l = setNode n (mdel l M) (policy st)"
    using M by (simp add: deleteEntry_def setNode_def)
  ultimately show ?thesis
    using M by (auto simp: applyUnwanted_def recompute_withLpps Let_def nodeMapOf_def)
qed

lemma enqueueKey_keeps [simp]:
  "policy (enqueueKey st b n l) = policy st" "metrics (enqueueKey st b n l) = metrics st"
  "digestAdds (enqueueKey st b n l) = digestAdds st" "statusCalls (enqueueKey st b n l) = statusCalls st"
  "keyAdds (enqueueKey st b n l) = keyAdds st @ (if b then [mkKey n l] else [])"
  by (simp_all add: enqueueKey_def)

text \<open>What applying an LPP does to the entry of one LauncherConfig on the Node.\<close>

definition appliedEntry ::
  "(string, lcDigest) gomap \<Rightarrow> string \<Rightarrow> (string, int) gomap \<Rightarrow> string \<Rightarrow> digestEntry option \<Rightarrow> digestEntry option" where
  "appliedEntry lcMap p m l e =
     (if mget m l \<noteq> None then Some (withLpps lcMap (mput p m (listedLpps e)) l)
      else if mget (listedLpps e) p = None then e
      else (let lp = mdel p (listedLpps e)
            in if lp = [] then None else Some (withLpps lcMap lp l)))"

text \<open>
  What a change of the state of one Node does, seen from outside: entries of the LauncherConfigs
  already visited have their new value, and the keys queued are those whose count changed.
\<close>

definition appliedUpTo ::
  "string \<Rightarrow> (string \<Rightarrow> digestEntry option \<Rightarrow> digestEntry option) \<Rightarrow> string set \<Rightarrow>
   'sel digestState \<Rightarrow> 'sel digestState \<Rightarrow> bool" where
  "appliedUpTo n f visited st st' \<longleftrightarrow>
     digestWf (policy st') \<and>
     (\<forall>n' l. ent (policy st') n' l =
        (if n' = n \<and> l \<in> visited then f l (ent (policy st) n l) else ent (policy st) n' l)) \<and>
     lcs (policy st') = lcs (policy st) \<and> lpps (policy st') = lpps (policy st) \<and>
     metrics st' = metrics st \<and> digestAdds st' = digestAdds st \<and> statusCalls st' = statusCalls st \<and>
     (\<exists>ks. keyAdds st' = keyAdds st @ ks \<and>
        set ks = {mkKey n l | l. l \<in> visited \<and> desiredOf (f l (ent (policy st) n l)) \<noteq> desiredOf (ent (policy st) n l)})"

lemma appliedUpTo_refl: "digestWf (policy st) \<Longrightarrow> appliedUpTo n f {} st st"
  by (simp add: appliedUpTo_def)

lemma appliedUpTo_keys_insert:
  assumes "appliedUpTo n f V st0 st" and "l \<notin> V"
    and "digestWf (policy st')"
    and "\<And>n' l'. ent (policy st') n' l' =
      (if n' = n \<and> l' = l then f l (ent (policy st0) n l) else ent (policy st) n' l')"
    and "lcs (policy st') = lcs (policy st)" and "lpps (policy st') = lpps (policy st)"
    and "metrics st' = metrics st" and "digestAdds st' = digestAdds st"
    and "statusCalls st' = statusCalls st"
    and "keyAdds st' = keyAdds st @
      (if desiredOf (f l (ent (policy st0) n l)) \<noteq> desiredOf (ent (policy st0) n l) then [mkKey n l] else [])"
  shows "appliedUpTo n f (insert l V) st0 st'"
proof -
  from assms(1) obtain ks where ks: "keyAdds st = keyAdds st0 @ ks"
    "set ks = {mkKey n l | l. l \<in> V \<and> desiredOf (f l (ent (policy st0) n l)) \<noteq> desiredOf (ent (policy st0) n l)}"
    by (auto simp: appliedUpTo_def)
  let ?k = "if desiredOf (f l (ent (policy st0) n l)) \<noteq> desiredOf (ent (policy st0) n l) then [mkKey n l] else []"
  have "keyAdds st' = keyAdds st0 @ (ks @ ?k)" using assms(10) ks(1) by simp
  moreover have "set (ks @ ?k) = {mkKey n l' | l'. l' \<in> insert l V \<and>
      desiredOf (f l' (ent (policy st0) n l')) \<noteq> desiredOf (ent (policy st0) n l')}"
    using ks(2) by auto
  ultimately have "\<exists>ks. keyAdds st' = keyAdds st0 @ ks \<and> set ks = {mkKey n l' | l'. l' \<in> insert l V \<and>
      desiredOf (f l' (ent (policy st0) n l')) \<noteq> desiredOf (ent (policy st0) n l')}" by blast
  with assms show ?thesis by (auto simp: appliedUpTo_def)
qed

lemma entryWf_mput: "mok lp \<Longrightarrow> mput p m lp \<noteq> [] \<and> mok (mput p m lp)"
  by (simp add: mok_mput)

lemma applyWanted_step:
  assumes up: "appliedUpTo n (appliedEntry (lcs (policy st0)) p m) V st0 st"
    and l: "l \<notin> V" "mget m l \<noteq> None"
  shows "appliedUpTo n (appliedEntry (lcs (policy st0)) p m) (insert l V) st0 (applyWanted p m n l st)"
proof (rule appliedUpTo_keys_insert [OF up l(1)])
  let ?dp = "policy st" and ?lp = "mput p m (listedLpps (ent (policy st) n l))"
  let ?e = "withLpps (lcs (policy st)) ?lp l"
  have wf: "digestWf ?dp" and same: "ent ?dp n l = ent (policy st0) n l" "lcs ?dp = lcs (policy st0)"
    using up l(1) by (simp_all add: appliedUpTo_def)
  have e: "Some ?e = appliedEntry (lcs (policy st0)) p m l (ent (policy st0) n l)"
    using l(2) same by (simp add: appliedEntry_def)
  have lp: "mok (listedLpps (ent ?dp n l))"
    using wf by (auto simp: digestWf_def listedLpps_def split: option.splits)
  show "digestWf (policy (applyWanted p m n l st))"
    using wf entryWf_mput [OF lp] by (auto simp: applyWanted_eq Let_def intro!: wf_intros)
  show "ent (policy (applyWanted p m n l st)) n' l' =
      (if n' = n \<and> l' = l then appliedEntry (lcs (policy st0)) p m l (ent (policy st0) n l)
       else ent (policy st) n' l')" for n' l'
    using e by (auto simp: applyWanted_eq Let_def ent_setNode mget_mput) (simp add: ent_def)
  show "keyAdds (applyWanted p m n l st) = keyAdds st @
      (if desiredOf (appliedEntry (lcs (policy st0)) p m l (ent (policy st0) n l)) \<noteq>
          desiredOf (ent (policy st0) n l) then [mkKey n l] else [])"
    using same e [symmetric] by (auto simp: applyWanted_eq Let_def desiredOf_def)
qed (simp_all add: applyWanted_eq Let_def)

lemma applyUnwanted_step:
  assumes up: "appliedUpTo n (appliedEntry (lcs (policy st0)) p m) V st0 st"
    and l: "l \<notin> V" "mget m l = None" and e: "ent (policy st) n l = Some e"
  shows "appliedUpTo n (appliedEntry (lcs (policy st0)) p m) (insert l V) st0 (applyUnwanted p m n (l, e) st)"
proof (rule appliedUpTo_keys_insert [OF up l(1)])
  let ?dp = "policy st" and ?lp = "mdel p (deLpps e)"
  have wf: "digestWf ?dp" and same: "ent (policy st0) n l = Some e" "lcs ?dp = lcs (policy st0)"
    using up l(1) e by (simp_all add: appliedUpTo_def)
  have f: "appliedEntry (lcs (policy st0)) p m l (Some e) =
      (if mget (deLpps e) p = None then Some e else if ?lp = [] then None
       else Some (withLpps (lcs ?dp) ?lp l))"
    using l(2) same by (simp add: appliedEntry_def listedLpps_def Let_def)
  note eq = applyUnwanted_eq [OF e, of p m] and fe = f same(1) l(2)
  have lp: "mok (deLpps e)" using wf e by (simp add: digestWf_def)
  show "digestWf (policy (applyUnwanted p m n (l, e) st))"
    using wf mok_mdel [OF lp] by (auto simp: eq Let_def intro!: wf_intros)
  show "ent (policy (applyUnwanted p m n (l, e) st)) n' l' =
      (if n' = n \<and> l' = l then appliedEntry (lcs (policy st0)) p m l (ent (policy st0) n l)
       else ent (policy st) n' l')" for n' l'
    using e by (auto simp: eq fe Let_def ent_setNode gomap_simps) (simp_all add: ent_def)
  show "keyAdds (applyUnwanted p m n (l, e) st) = keyAdds st @
      (if desiredOf (appliedEntry (lcs (policy st0)) p m l (ent (policy st0) n l)) \<noteq>
          desiredOf (ent (policy st0) n l) then [mkKey n l] else [])"
    by (auto simp: eq fe Let_def desiredOf_def wantedCount_def)
qed (simp_all add: applyUnwanted_eq [OF e] Let_def)

lemma applyWanted_loop:
  assumes "appliedUpTo n (appliedEntry (lcs (policy st0)) p m) V st0 st"
    and "distinct ls" and "set ls \<inter> V = {}" and "\<forall>l \<in> set ls. mget m l \<noteq> None"
  shows "appliedUpTo n (appliedEntry (lcs (policy st0)) p m) (V \<union> set ls) st0
           (fold (applyWanted p m n) ls st)"
  using assms
proof (induction ls arbitrary: V st)
  case (Cons l ls)
  have "appliedUpTo n (appliedEntry (lcs (policy st0)) p m) (insert l V \<union> set ls) st0
           (fold (applyWanted p m n) ls (applyWanted p m n l st))"
    by (rule Cons.IH) (use Cons.prems in \<open>auto intro: applyWanted_step\<close>)
  then show ?case by simp
qed simp

lemma applyUnwanted_loop:
  assumes "appliedUpTo n (appliedEntry (lcs (policy st0)) p m) V st0 st"
    and "mok les" and "{l. mget m l \<noteq> None} \<subseteq> V" and "fst ` set les \<inter> V \<subseteq> {l. mget m l \<noteq> None}"
    and "\<forall>(l, e) \<in> set les. mget m l = None \<longrightarrow> ent (policy st) n l = Some e"
  shows "appliedUpTo n (appliedEntry (lcs (policy st0)) p m) (V \<union> fst ` set les) st0
           (fold (applyUnwanted p m n) les st)"
  using assms
proof (induction les arbitrary: V st)
  case (Cons le les)
  obtain l e where le: "le = (l, e)" by (cases le)
  show ?case
  proof (cases "mget m l")
    case (Some c)
    then have "applyUnwanted p m n le st = st" by (simp add: applyUnwanted_def le)
    moreover have "appliedUpTo n (appliedEntry (lcs (policy st0)) p m) (V \<union> fst ` set les) st0
           (fold (applyUnwanted p m n) les st)"
      by (rule Cons.IH) (use Cons.prems le in \<open>auto simp: mok_Cons\<close>)
    moreover have "l \<in> V" using Some Cons.prems(3) by auto
    ultimately show ?thesis using le by (simp add: insert_absorb)
  next
    case None
    with Cons.prems le have l: "l \<notin> V" and e: "ent (policy st) n l = Some e" by auto
    have up: "appliedUpTo n (appliedEntry (lcs (policy st0)) p m) (insert l V) st0 (applyUnwanted p m n (l, e) st)"
      using Cons.prems(1) l None e by (rule applyUnwanted_step)
    have same: "ent (policy (applyUnwanted p m n (l, e) st)) n l' = ent (policy st) n l'" if "l' \<noteq> l" for l'
      using up Cons.prems(1) that by (simp add: appliedUpTo_def)
    have "ent (policy (applyUnwanted p m n (l, e) st)) n l' = Some e'"
      if "(l', e') \<in> set les" and "mget m l' = None" for l' e'
    proof -
      have "l' \<noteq> l" using that(1) Cons.prems(2) le by (force simp: mok_Cons)
      with that Cons.prems(5) show ?thesis by (auto simp: same)
    qed
    then have "appliedUpTo n (appliedEntry (lcs (policy st0)) p m) (insert l V \<union> fst ` set les) st0
           (fold (applyUnwanted p m n) les (applyUnwanted p m n (l, e) st))"
      by (intro Cons.IH up) (use Cons.prems le None in \<open>auto simp: mok_Cons\<close>)
    with le show ?thesis by simp
  qed
qed simp

lemma appliedUpTo_all:
  assumes "appliedUpTo n f V st0 st" and "\<And>l. l \<notin> V \<Longrightarrow> f l (ent (policy st0) n l) = ent (policy st0) n l"
  shows "appliedUpTo n f UNIV st0 st"
proof -
  have "{mkKey n l | l. l \<in> V \<and> desiredOf (f l (ent (policy st0) n l)) \<noteq> desiredOf (ent (policy st0) n l)} =
     {mkKey n l | l. l \<in> UNIV \<and> desiredOf (f l (ent (policy st0) n l)) \<noteq> desiredOf (ent (policy st0) n l)}"
    using assms(2) by force
  with assms show ?thesis by (simp add: appliedUpTo_def)
qed

text \<open>Applying an LPP to a Node changes that Node's entries as specified, and nothing else.\<close>

lemma applyLPP_applied:
  assumes wf: "digestWf (policy st)" and m: "mok m"
  shows "appliedUpTo n (appliedEntry (lcs (policy st)) p m) UNIV st (applyLPPToDigestForNode st p m n)"
proof -
  let ?f = "appliedEntry (lcs (policy st)) p m"
  let ?st1 = "fold (applyWanted p m n) (mkeys m) st"
  let ?M = "nodeMapOf (policy ?st1) n"
  have keys: "mget m l \<noteq> None \<longleftrightarrow> l \<in> set (mkeys m)" for l
    using mget_None_iff [of m l] by auto
  have up1: "appliedUpTo n ?f (set (mkeys m)) st ?st1"
    using applyWanted_loop [OF appliedUpTo_refl [OF wf], of "mkeys m"] m keys
    by (simp add: mok_def)
  have wf1: "digestWf (policy ?st1)" using up1 by (simp add: appliedUpTo_def)
  have M: "mok ?M" using wf1 by (rule digestWf_nodeMap)
  have "appliedUpTo n ?f (set (mkeys m) \<union> fst ` set ?M) st (fold (applyUnwanted p m n) ?M ?st1)"
    by (rule applyUnwanted_loop [OF up1 M])
      (use keys M in \<open>auto simp: ent_def mget_Some_iff\<close>)
  moreover have "?f l (ent (policy st) n l) = ent (policy st) n l"
    if "l \<notin> set (mkeys m) \<union> fst ` set ?M" for l
  proof -
    have "ent (policy ?st1) n l = None" using that by (simp add: ent_def mget_None_iff)
    then have "ent (policy st) n l = None" using up1 that by (simp add: appliedUpTo_def)
    with that keys [of l] show ?thesis by (auto simp: appliedEntry_def listedLpps_def)
  qed
  ultimately have "appliedUpTo n ?f UNIV st (fold (applyUnwanted p m n) ?M ?st1)"
    by (rule appliedUpTo_all)
  then show ?thesis by (simp add: applyLPPToDigestForNode_def Let_def nodeMapOf_def)
qed

subsection \<open>What the updates do to the policies listed for a key\<close>

definition look :: "'sel digestedPolicy \<Rightarrow> string \<Rightarrow> string \<Rightarrow> string \<Rightarrow> (string, int) gomap option" where
  "look dp n l p = mget (listedLpps (ent dp n l)) p"

definition consistent :: "'sel digestedPolicy \<Rightarrow> string \<Rightarrow> string \<Rightarrow> bool" where
  "consistent dp n l \<longleftrightarrow> desiredOf (ent dp n l) = wantedCount (lcs dp) (listedLpps (ent dp n l)) l"

definition sameRest :: "'sel digestState \<Rightarrow> 'sel digestState \<Rightarrow> bool" where
  "sameRest st st' \<longleftrightarrow> lcs (policy st') = lcs (policy st) \<and> lpps (policy st') = lpps (policy st) \<and>
     metrics st' = metrics st \<and> digestAdds st' = digestAdds st \<and> statusCalls st' = statusCalls st"

lemma sameRest_refl [simp]: "sameRest st st"
  by (simp add: sameRest_def)

lemma sameRest_trans: "sameRest a b \<Longrightarrow> sameRest b c \<Longrightarrow> sameRest a c"
  by (simp add: sameRest_def)

lemma listed_applied:
  "mget (listedLpps (appliedEntry lcMap p m l e)) q =
     (if q = p then (if mget m l \<noteq> None then Some m else None) else mget (listedLpps e) q)"
proof -
  have "q \<noteq> p \<Longrightarrow> mdel p (listedLpps e) = [] \<Longrightarrow> mget (listedLpps e) q = None"
    using mget_mdel [of p "listedLpps e" q] by simp
  then show ?thesis
    by (auto simp: appliedEntry_def Let_def gomap_simps listedLpps_def split: option.splits)
qed

lemma consistent_applied:
  assumes "mget m l \<noteq> None \<or> mget (listedLpps e) p \<noteq> None"
  shows "desiredOf (appliedEntry lcMap p m l e) =
    wantedCount lcMap (listedLpps (appliedEntry lcMap p m l e)) l"
  using assms by (auto simp: appliedEntry_def Let_def desiredOf_def listedLpps_def wantedCount_def)

lemma applied_untouched:
  "mget m l = None \<Longrightarrow> mget (listedLpps e) p = None \<Longrightarrow> appliedEntry lcMap p m l e = e"
  by (simp add: appliedEntry_def)

text \<open>
  The effect of an update on the listed policies: policy \<open>p\<close> is listed for the keys and with the map
  that \<open>g\<close> says, the others stay, and a key is recomputed when \<open>p\<close> was or is now listed for it.
\<close>

definition relisted ::
  "(string \<Rightarrow> bool) \<Rightarrow> (string \<Rightarrow> bool) \<Rightarrow>
   (string \<Rightarrow> string \<Rightarrow> string \<Rightarrow> (string, int) gomap option) \<Rightarrow> 'sel digestState \<Rightarrow> 'sel digestState \<Rightarrow> bool" where
  "relisted N Q g st st' \<longleftrightarrow>
     digestWf (policy st') \<and> sameRest st st' \<and>
     (\<forall>n l q. look (policy st') n l q = (if N n \<and> Q q then g n l q else look (policy st) n l q)) \<and>
     (\<forall>n l. consistent (policy st') n l \<or>
        ent (policy st') n l = ent (policy st) n l \<and>
        (N n \<longrightarrow> (\<forall>q. Q q \<longrightarrow> look (policy st) n l q = None \<and> g n l q = None)))"

lemma relisted_apply:
  assumes "digestWf (policy st)" and "mok m"
  shows "relisted (\<lambda>n'. n' = n) (\<lambda>q. q = p) (\<lambda>n l q. if mget m l \<noteq> None then Some m else None)
           st (applyLPPToDigestForNode st p m n)"
proof -
  let ?st' = "applyLPPToDigestForNode st p m n"
  have up: "appliedUpTo n (appliedEntry (lcs (policy st)) p m) UNIV st ?st'"
    using assms by (rule applyLPP_applied)
  have ent: "ent (policy ?st') n' l = (if n' = n then appliedEntry (lcs (policy st)) p m l (ent (policy st) n l)
      else ent (policy st) n' l)" and lcs: "lcs (policy ?st') = lcs (policy st)" for n' l
    using up by (simp_all add: appliedUpTo_def)
  have "consistent (policy ?st') n' l \<or> ent (policy ?st') n' l = ent (policy st) n' l \<and>
      (n' = n \<longrightarrow> (\<forall>q. q = p \<longrightarrow> look (policy st) n' l q = None \<and> (if mget m l \<noteq> None then Some m else None) = None))"
    for n' l
    using consistent_applied [of m l "ent (policy st) n l" p "lcs (policy st)"]
      applied_untouched [of m l "ent (policy st) n l" p "lcs (policy st)"]
    by (cases "n' = n"; cases "mget m l"; cases "look (policy st) n l p")
      (simp_all add: consistent_def ent lcs look_def)
  moreover have "sameRest st ?st'" "digestWf (policy ?st')"
    using up by (simp_all add: appliedUpTo_def sameRest_def)
  ultimately show ?thesis
    by (auto simp: relisted_def look_def ent listed_applied)
qed

lemma relisted_stale:
  assumes "relisted N Q g st st'" and "\<not> consistent (policy st') n l"
  shows "ent (policy st') n l = ent (policy st) n l"
    and "N n \<Longrightarrow> Q q \<Longrightarrow> look (policy st) n l q = None \<and> g n l q = None"
    and "\<not> consistent (policy st) n l"
proof -
  show e: "ent (policy st') n l = ent (policy st) n l"
    using assms unfolding relisted_def by metis
  show "N n \<Longrightarrow> Q q \<Longrightarrow> look (policy st) n l q = None \<and> g n l q = None"
    using assms unfolding relisted_def by metis
  show "\<not> consistent (policy st) n l"
    using assms e by (simp add: relisted_def sameRest_def consistent_def)
qed

text \<open>Updates of different Nodes, or by different policies on one Node, add up.\<close>

lemma relisted_trans:
  assumes 1: "relisted N Q g st st1" and 2: "relisted N' Q' g st1 st2"
    and disj: "\<And>n q. N n \<and> Q q \<Longrightarrow> \<not> (N' n \<and> Q' q)"
    and M: "\<And>n q. M n \<and> R q \<longleftrightarrow> N n \<and> Q q \<or> N' n \<and> Q' q"
  shows "relisted M R g st st2"
proof -
  have look1: "look (policy st1) n l q = (if N n \<and> Q q then g n l q else look (policy st) n l q)"
    and look2: "look (policy st2) n l q = (if N' n \<and> Q' q then g n l q else look (policy st1) n l q)"
    for n l q using 1 2 by (simp_all add: relisted_def)
  have rest: "sameRest st st2" "digestWf (policy st2)"
    using 1 2 by (auto simp: relisted_def sameRest_def)
  have "consistent (policy st2) n l \<or> ent (policy st2) n l = ent (policy st) n l \<and>
        (M n \<longrightarrow> (\<forall>q. R q \<longrightarrow> look (policy st) n l q = None \<and> g n l q = None))" for n l
  proof (cases "consistent (policy st2) n l")
    case False
    note stale2 = relisted_stale [OF 2 False]
    note stale1 = relisted_stale [OF 1 stale2(3)]
    have "look (policy st) n l q = None \<and> g n l q = None" if "M n" "R q" for q
      using that M [of n q] disj [of n q] stale1(2) [of q] stale2(2) [of q]
      by (auto simp: look1 split: if_splits)
    with stale1(1) stale2(1) show ?thesis by simp
  qed simp
  then show ?thesis using look1 look2 rest M disj by (auto simp: relisted_def)
qed

lemma relisted_none: "digestWf (policy st) \<Longrightarrow> relisted (\<lambda>n. False) Q g st st"
  by (simp add: relisted_def)

lemma relisted_cong:
  "relisted N Q g st st' \<Longrightarrow> (\<And>n. N n \<longleftrightarrow> N' n) \<Longrightarrow> (\<And>n l q. N n \<Longrightarrow> Q q \<Longrightarrow> g n l q = g' n l q) \<Longrightarrow>
   relisted N' Q g' st st'"
  by (simp add: relisted_def)

lemma relisted_nodes:
  assumes "digestWf (policy st)" and "mok m" and "distinct ns"
  shows "relisted (\<lambda>n. n \<in> set ns) (\<lambda>q. q = p) (\<lambda>n l q. if mget m l \<noteq> None then Some m else None)
           st (fold (\<lambda>n st. applyLPPToDigestForNode st p m n) ns st)"
  using assms(3)
proof (induction ns rule: rev_induct)
  case Nil
  then show ?case by (simp add: relisted_none assms(1))
next
  case (snoc n ns)
  let ?st1 = "fold (\<lambda>n st. applyLPPToDigestForNode st p m n) ns st"
  from snoc have IH: "relisted (\<lambda>n. n \<in> set ns) (\<lambda>q. q = p)
      (\<lambda>n l q. if mget m l \<noteq> None then Some m else None) st ?st1" by simp
  then have "digestWf (policy ?st1)" by (simp add: relisted_def)
  note step = relisted_apply [OF this assms(2), of n p]
  have "relisted (\<lambda>n'. n' \<in> set (ns @ [n])) (\<lambda>q. q = p)
      (\<lambda>n l q. if mget m l \<noteq> None then Some m else None) st (applyLPPToDigestForNode ?st1 p m n)"
    by (rule relisted_trans [OF IH step]) (use snoc.prems in auto)
  then show ?case by simp
qed

lemma relisted_all_nodes:
  assumes "relisted N Q g st st'"
    and "\<And>n l q. \<not> N n \<Longrightarrow> Q q \<Longrightarrow> look (policy st) n l q = None \<and> g n l q = None"
  shows "relisted (\<lambda>n. True) Q g st st'"
proof -
  have "consistent (policy st') n l \<or> ent (policy st') n l = ent (policy st) n l \<and>
      (\<forall>q. Q q \<longrightarrow> look (policy st) n l q = None \<and> g n l q = None)" for n l
    using relisted_stale [OF assms(1), of n l] assms(2) [of n _ l] by blast
  with assms show ?thesis by (auto simp: relisted_def)
qed

lemma relisted_lpps:
  assumes "digestWf (policy st)" and "mok ds" and "\<And>p d. (p, d) \<in> set ds \<Longrightarrow> mok (h d)"
  shows "relisted (\<lambda>n'. n' = n) (\<lambda>q. mget ds q \<noteq> None)
           (\<lambda>n l q. case mget ds q of None \<Rightarrow> None | Some d \<Rightarrow> if mget (h d) l \<noteq> None then Some (h d) else None)
           st (fold (\<lambda>(p, d) st. applyLPPToDigestForNode st p (h d) n) ds st)"
  using assms(1-3)
proof (induction ds arbitrary: st)
  case Nil
  then show ?case by (simp add: relisted_def)
next
  case (Cons pd ds)
  obtain p d where pd: "pd = (p, d)" by (cases pd)
  let ?g = "\<lambda>n l q. case mget (pd # ds) q of None \<Rightarrow> None
    | Some d \<Rightarrow> if mget (h d) l \<noteq> None then Some (h d) else None"
  let ?st1 = "applyLPPToDigestForNode st p (h d) n"
  have p: "mget ds p = None" and ds: "mok ds"
    using Cons.prems(2) pd by (simp_all add: mok_Cons mget_None_iff)
  have "relisted (\<lambda>n'. n' = n) (\<lambda>q. q = p) (\<lambda>n l q. if mget (h d) l \<noteq> None then Some (h d) else None) st ?st1"
    using Cons.prems pd by (intro relisted_apply) auto
  then have 1: "relisted (\<lambda>n'. n' = n) (\<lambda>q. q = p) ?g st ?st1"
    by (rule relisted_cong) (simp_all add: pd)
  then have "digestWf (policy ?st1)" by (simp add: relisted_def)
  with Cons.IH [of ?st1] ds Cons.prems(3)
  have "relisted (\<lambda>n'. n' = n) (\<lambda>q. mget ds q \<noteq> None)
      (\<lambda>n l q. case mget ds q of None \<Rightarrow> None | Some d \<Rightarrow> if mget (h d) l \<noteq> None then Some (h d) else None)
      ?st1 (fold (\<lambda>(p, d) st. applyLPPToDigestForNode st p (h d) n) ds ?st1)" by auto
  then have 2: "relisted (\<lambda>n'. n' = n) (\<lambda>q. mget ds q \<noteq> None) ?g
      ?st1 (fold (\<lambda>(p, d) st. applyLPPToDigestForNode st p (h d) n) ds ?st1)"
    by (rule relisted_cong) (use p in \<open>auto simp: pd\<close>)
  have "relisted (\<lambda>n'. n' = n) (\<lambda>q. mget (pd # ds) q \<noteq> None) ?g st
      (fold (\<lambda>(p, d) st. applyLPPToDigestForNode st p (h d) n) ds ?st1)"
    by (rule relisted_trans [OF 1 2]) (use p in \<open>auto simp: pd\<close>)
  then show ?case by (simp add: pd)
qed

text \<open>The whole of the two updates that touch entries.\<close>

definition lppMatches :: "'sel lppDigest \<Rightarrow> node \<Rightarrow> bool" where
  "lppMatches d x \<longleftrightarrow> (case lppdSelector d of Inl _ \<Rightarrow> False
     | Inr f \<Rightarrow> f (Labels x) \<and> matchesResourceConditions (Allocatable x) (lppAllocatableResources (lppdObject d)))"

definition offers :: "'sel lppDigest \<Rightarrow> node \<Rightarrow> string \<Rightarrow> (string, int) gomap option" where
  "offers d x l = (if lppMatches d x \<and> mget (lppdDigested d) l \<noteq> None then Some (lppdDigested d) else None)"

lemma recomputeDigestForNode_relists:
  assumes wf: "digestWf (policy st)" and "mok (lpps (policy st))"
    and "\<And>p d. mget (lpps (policy st)) p = Some d \<Longrightarrow> mok (lppdDigested d)"
  shows "relisted (\<lambda>n'. n' = Name x) (\<lambda>q. mget (lpps (policy st)) q \<noteq> None)
           (\<lambda>n l q. Option.bind (mget (lpps (policy st)) q) (\<lambda>d. offers d x l))
           st (recomputeDigestForNode st x)"
proof -
  let ?h = "\<lambda>d. if lppMatches d x then lppdDigested d else []"
  let ?st1 = "fold (\<lambda>(p, d) st. applyLPPToDigestForNode st p (?h d) (Name x)) (lpps (policy st)) st"
  have rel: "relisted (\<lambda>n'. n' = Name x) (\<lambda>q. mget (lpps (policy st)) q \<noteq> None)
      (\<lambda>n l q. case mget (lpps (policy st)) q of None \<Rightarrow> None
         | Some d \<Rightarrow> if mget (?h d) l \<noteq> None then Some (?h d) else None) st ?st1"
    using assms by (intro relisted_lpps) (auto simp: mget_Some_iff)
  then have rel1: "relisted (\<lambda>n'. n' = Name x) (\<lambda>q. mget (lpps (policy st)) q \<noteq> None)
      (\<lambda>n l q. Option.bind (mget (lpps (policy st)) q) (\<lambda>d. offers d x l)) st ?st1"
    by (rule relisted_cong) (auto simp: offers_def split: option.splits)
  then have wf1: "digestWf (policy ?st1)" by (simp add: relisted_def)
  have "mget (digest (policy ?st1)) (Name x) = None \<Longrightarrow>
      mdel (Name x) (digest (policy ?st1)) = digest (policy ?st1)"
    by (simp add: mget_None_iff AList.delete_id)
  moreover have "mget (digest (policy ?st1)) (Name x) \<noteq> Some []"
    using wf1 by (auto simp: digestWf_def)
  ultimately have "recomputeDigestForNode st x = ?st1"
    by (simp add: recomputeDigestForNode_def Let_def lppMatches_def)
  with rel1 show ?thesis by simp
qed

lemma mem_nodeNamesRefingLPP:
  assumes "digestWf dp"
  shows "n \<in> set (nodeNamesRefingLPP dp p) \<longleftrightarrow> (\<exists>l. look dp n l p \<noteq> None)"
proof -
  have *: "mget (digest dp) n = Some m \<longleftrightarrow> (n, m) \<in> set (digest dp)" for n m
    using assms by (simp add: digestWf_def mget_Some_iff)
  have m: "mok m" if "(n, m) \<in> set (digest dp)" for m
    using assms that by (auto simp: digestWf_def *)
  have "n \<in> set (nodeNamesRefingLPP dp p) \<longleftrightarrow>
      (\<exists>m. (n, m) \<in> set (digest dp) \<and> (\<exists>(l, de) \<in> set m. mget (deLpps de) p \<noteq> None))"
    by (force simp: nodeNamesRefingLPP_def list_ex_iff)
  also have "\<dots> \<longleftrightarrow> (\<exists>m. mget (digest dp) n = Some m \<and> (\<exists>l de. mget m l = Some de \<and> mget (deLpps de) p \<noteq> None))"
    using m by (fastforce simp: * mget_Some_iff)
  also have "\<dots> \<longleftrightarrow> (\<exists>l. look dp n l p \<noteq> None)"
    by (fastforce simp: look_def listedLpps_def ent_def nodeMapOf_def split: option.splits)
  finally show ?thesis .
qed

lemma distinct_nodeNamesRefingLPP: "digestWf dp \<Longrightarrow> distinct (nodeNamesRefingLPP dp p)"
  by (simp add: nodeNamesRefingLPP_def digestWf_def mok_def distinct_map_filter)

lemma updateLPP_relists:
  fixes p :: string
  assumes wf: "digestWf (policy st)" and m: "mok dig" and ns: "distinct ns"
  defines "st2 \<equiv> fold (\<lambda>n st. if n \<in> set ns then st else applyLPPToDigestForNode st p [] n)
                   (nodeNamesRefingLPP (policy st) p) st"
  shows "relisted (\<lambda>n. True) (\<lambda>q. q = p)
           (\<lambda>n l q. if n \<in> set ns \<and> mget dig l \<noteq> None then Some dig else None)
           st (fold (\<lambda>n st. applyLPPToDigestForNode st p dig n) ns st2)"
proof -
  let ?g = "\<lambda>n l q. if n \<in> set ns \<and> mget dig l \<noteq> None then Some dig else None"
  let ?rs = "filter (\<lambda>n. n \<notin> set ns) (nodeNamesRefingLPP (policy st) p)"
  have "fold (\<lambda>n st. if n \<in> set ns then st else applyLPPToDigestForNode st p [] n) xs st =
      fold (\<lambda>n st. applyLPPToDigestForNode st p [] n) (filter (\<lambda>n. n \<notin> set ns) xs) st"
    for xs and st :: "'a digestState"
    by (induction xs arbitrary: st) auto
  then have st2: "st2 = fold (\<lambda>n st. applyLPPToDigestForNode st p [] n) ?rs st" by (simp add: st2_def)
  have "distinct ?rs" using distinct_nodeNamesRefingLPP [OF wf] by simp
  note drop = relisted_nodes [OF wf mok_Nil this, of p]
  have 1: "relisted (\<lambda>n. n \<in> set ?rs) (\<lambda>q. q = p) ?g st st2"
    unfolding st2 by (rule relisted_cong [OF drop]) auto
  then have "digestWf (policy st2)" by (simp add: relisted_def)
  from relisted_nodes [OF this m ns, of p]
  have 2: "relisted (\<lambda>n. n \<in> set ns) (\<lambda>q. q = p) ?g st2
      (fold (\<lambda>n st. applyLPPToDigestForNode st p dig n) ns st2)"
    by (rule relisted_cong) auto
  have "relisted (\<lambda>n. n \<in> set ?rs \<or> n \<in> set ns) (\<lambda>q. q = p) ?g st
      (fold (\<lambda>n st. applyLPPToDigestForNode st p dig n) ns st2)"
    by (rule relisted_trans [OF 1 2]) auto
  then show ?thesis
    by (rule relisted_all_nodes) (use mem_nodeNamesRefingLPP [OF wf] in auto)
qed

end
