(* ===== verification/Populator.thy ===== *)
theory Populator
  imports Digest
begin

text \<open>
  The key worker of the launcher populator: \<^verbatim>\<open>processKey\<close>, \<^verbatim>\<open>reconcileKey\<close> and what they call in
  \<^verbatim>\<open>populator.go\<close> and \<^verbatim>\<open>helpers.go\<close>.

  The apiserver and the informer cache are the record \<open>popEnv\<close>: an answer may depend on the calls made
  before it.  Each call is recorded with its answer in \<open>calls\<close>, in order.  One pass reads the clock
  once.  The result of a pass is what it returns to the work queue, or a panic: specialising the
  template of a LauncherConfig that has none dereferences a nil pointer.
\<close>

subsection \<open>State\<close>

datatype apiCall =
  DeletePod pod "apiError option"
| CreatePod pod "apiError + pod"
| PatchStuckLabel pod string "apiError option"
| ListPods strmap

record popEnv =
  podListCache :: "strmap \<Rightarrow> apiError + pod list"
  podListApi :: "apiCall list \<Rightarrow> strmap \<Rightarrow> apiError + pod list"
  nodeLookup :: "string \<Rightarrow> apiError + node"
  podDelete :: "apiCall list \<Rightarrow> string \<Rightarrow> string \<Rightarrow> string \<Rightarrow> string \<Rightarrow> apiError option"
  podCreate :: "apiCall list \<Rightarrow> pod \<Rightarrow> apiError + pod"
  podPatch :: "apiCall list \<Rightarrow> string \<Rightarrow> string \<Rightarrow> string \<Rightarrow> apiError option"
  sha256b64P :: "string \<Rightarrow> string"
  formatTime :: "time \<Rightarrow> string"
  stuckSchedulingThreshold :: duration
  stuckStartingThreshold :: duration
  clockNow :: time

record popState =
  expectations :: pendingExpectations
  pmetrics :: metricsState
  calls :: "apiCall list"
  events :: "(pod \<times> string) list"
  keyAddAfters :: "(NodeLauncherKey \<times> duration) list"

subsection \<open>Listing launchers\<close>

definition launcherLabels :: "NodeLauncherKey \<Rightarrow> strmap" where
  "launcherLabels key =
     [ComponentLabelKey \<mapsto> LauncherComponentLabelValue,
      LauncherConfigNameLabelKey \<mapsto> kLauncherConfigName key,
      NodeNameLabelKey \<mapsto> kNodeName key]"

definition listPodsFromCache :: "popEnv \<Rightarrow> NodeLauncherKey \<Rightarrow> goError + pod list" where
  "listPodsFromCache env key =
     (case podListCache env (launcherLabels key) of
        Inl err \<Rightarrow> Inl (Wrapped ''failed to list pods from cache'' (ApiErr err))
      | Inr pods \<Rightarrow> Inr pods)"

definition listPodsFromApiserver ::
  "popEnv \<Rightarrow> popState \<Rightarrow> NodeLauncherKey \<Rightarrow> popState \<times> (goError + pod list)" where
  "listPodsFromApiserver env st key =
     (st\<lparr>calls := calls st @ [ListPods (launcherLabels key)]\<rparr>,
      case podListApi env (calls st) (launcherLabels key) of
        Inl err \<Rightarrow> Inl (Wrapped ''failed to list pods from apiserver'' (ApiErr err))
      | Inr pods \<Rightarrow> Inr pods)"

definition getCurrentLaunchersOnNode ::
  "popEnv \<Rightarrow> popState \<Rightarrow> NodeLauncherKey \<Rightarrow> pod list \<Rightarrow>
   popState \<times> (goError + pod list \<times> ExpectationStatus)" where
  "getCurrentLaunchersOnNode env st key cachePods =
     (let presentUIDs = set (map UID cachePods);
          (pe, status) = check (clockNow env) (expectations st) key presentUIDs;
          st1 = st\<lparr>expectations := pe\<rparr>
      in (case status of
            ExpectationsSatisfied \<Rightarrow> (st1, Inr (cachePods, status))
          | ExpectationsWaiting \<Rightarrow> (st1, Inr ([], status))
          | ExpectationsTimedOut \<Rightarrow>
              (case listPodsFromApiserver env (st1\<lparr>expectations := reset pe key\<rparr>) key of
                 (st2, Inl err) \<Rightarrow> (st2, Inl err)
               | (st2, Inr pods) \<Rightarrow> (st2, Inr (pods, status)))))"

subsection \<open>One call each\<close>

definition deletePod :: "popEnv \<Rightarrow> popState \<Rightarrow> pod \<Rightarrow> popState \<times> apiError option" where
  "deletePod env st p =
     (let err = podDelete env (calls st) (Namespace p) (Name p) (UID p) (ResourceVersion p)
      in (st\<lparr>calls := calls st @ [DeletePod p err]\<rparr>, err))"

definition expectDel :: "popEnv \<Rightarrow> NodeLauncherKey \<Rightarrow> pod \<Rightarrow> popState \<Rightarrow> popState" where
  "expectDel env key p st =
     st\<lparr>expectations := expectDeletion (clockNow env) (expectations st) key (UID p)\<rparr>"

definition expectCre :: "popEnv \<Rightarrow> NodeLauncherKey \<Rightarrow> pod \<Rightarrow> popState \<Rightarrow> popState" where
  "expectCre env key p st =
     st\<lparr>expectations := expectCreation (clockNow env) (expectations st) key (UID p)\<rparr>"

fun phaseText :: "launcherPhase \<Rightarrow> string" where
  "phaseText phaseBound = ''bound''"
| "phaseText phaseUnbound = ''unbound''"
| "phaseText phaseStuckScheduling = ''stuck_scheduling''"
| "phaseText phaseStuckStarting = ''stuck_starting''"
| "phaseText phaseStale = ''stale''"

definition stuckPatch :: "bool \<Rightarrow> string" where
  "stuckPatch stuck =
     (let q = [CHR 0x22];
          labelValue = (if stuck then q @ ''true'' @ q else ''null'')
      in ''{'' @ q @ ''metadata'' @ q @ '':{'' @ q @ ''labels'' @ q @ '':{'' @
         strconv_Quote LauncherStuckLabelKey @ '':'' @ labelValue @ ''}}}'')"

definition setStuckLabel :: "popEnv \<Rightarrow> popState \<Rightarrow> pod \<Rightarrow> bool \<Rightarrow> popState \<times> goError option" where
  "setStuckLabel env st p stuck =
     (let patch = stuckPatch stuck;
          err = podPatch env (calls st) (Namespace p) (Name p) patch;
          st1 = st\<lparr>calls := calls st @ [PatchStuckLabel p patch err]\<rparr>
      in (case err of
            None \<Rightarrow> (st1, None)
          | Some e \<Rightarrow>
              if isNotFound e then (st1, None)
              else (st1, Some (Wrapped (''failed to patch stuck label on launcher pod '' @ Name p @
                                        '' (started '' @ formatTime env (clockNow env) @ '')'') (ApiErr e)))))"

definition phaseNow :: "popEnv \<Rightarrow> string \<Rightarrow> pod \<Rightarrow> launcherPhase" where
  "phaseNow env templateHash p =
     fst (launcherPhaseOf p templateHash (stuckSchedulingThreshold env) (stuckStartingThreshold env) (clockNow env))"

definition reportEvent :: "popState \<Rightarrow> pod \<Rightarrow> launcherPhase \<Rightarrow> popState" where
  "reportEvent st p phase =
     (if isStuck phase
      then st\<lparr>events := events st @ [(p, ''Launcher is stuck ('' @ phaseText phase @
                 ''); leaving it in place for investigation'')]\<rparr>
      else st)"

fun reportStuckLaunchers :: "popEnv \<Rightarrow> popState \<Rightarrow> pod list \<Rightarrow> string \<Rightarrow> popState \<times> goError option" where
  "reportStuckLaunchers env st [] templateHash = (st, None)"
| "reportStuckLaunchers env st (p # retained) templateHash =
     (let phase = phaseNow env templateHash p;
          labeled = (lbl p LauncherStuckLabelKey = ''true'');
          stuck = isStuck phase
      in if labeled = stuck then reportStuckLaunchers env st retained templateHash
         else (case setStuckLabel env (reportEvent st p phase) p stuck of
                 (st2, Some err) \<Rightarrow> (st2, Some err)
               | (st2, None) \<Rightarrow> reportStuckLaunchers env st2 retained templateHash))"

text \<open>\<^verbatim>\<open>createLaunchers\<close>, by the number of Pods still to create.\<close>

fun createLaunchers ::
  "popEnv \<Rightarrow> popState \<Rightarrow> NodeLauncherKey \<Rightarrow> nat \<Rightarrow> pod \<Rightarrow> popState \<times> goError option" where
  "createLaunchers env st key 0 launcherPodTemplate = (st, None)"
| "createLaunchers env st key (Suc n) launcherPodTemplate =
     (let res = podCreate env (calls st) launcherPodTemplate;
          st1 = st\<lparr>calls := calls st @ [CreatePod launcherPodTemplate res]\<rparr>
      in (case res of
            Inl err \<Rightarrow> (st1, Some (Wrapped ''failed to create launcher pod'' (ApiErr err)))
          | Inr createdPod \<Rightarrow>
              createLaunchers env (expectCre env key createdPod st1) key n launcherPodTemplate))"

subsection \<open>Reconciling a key\<close>

record podSorts =
  liveBoundCount :: nat
  liveUnboundCurrentPods :: "pod list"
  staleUnboundPods :: "pod list"
  deletionInProgress :: bool

definition categorizePod :: "string \<Rightarrow> pod \<Rightarrow> podSorts \<Rightarrow> podSorts" where
  "categorizePod templateHash p acc =
     (if DeletionTimestamp p \<noteq> None then acc\<lparr>deletionInProgress := True\<rparr>
      else if isBound p then acc\<lparr>liveBoundCount := liveBoundCount acc + 1\<rparr>
      else if templateHash \<noteq> annot p LauncherTemplateHashAnnotationKey
      then acc\<lparr>staleUnboundPods := staleUnboundPods acc @ [p]\<rparr>
      else acc\<lparr>liveUnboundCurrentPods := liveUnboundCurrentPods acc @ [p]\<rparr>)"

definition categorize :: "string \<Rightarrow> pod list \<Rightarrow> podSorts" where
  "categorize templateHash currentLaunchers =
     fold (categorizePod templateHash) currentLaunchers
       \<lparr>liveBoundCount = 0, liveUnboundCurrentPods = [], staleUnboundPods = [], deletionInProgress = False\<rparr>"

fun deleteStale ::
  "popEnv \<Rightarrow> NodeLauncherKey \<Rightarrow> pod list \<Rightarrow> popState \<Rightarrow> bool \<Rightarrow> nat \<Rightarrow>
   popState \<times> (goError + bool \<times> nat)" where
  "deleteStale env key [] st didDelete staleNotDeleted = (st, Inr (didDelete, staleNotDeleted))"
| "deleteStale env key (p # ps) st didDelete staleNotDeleted =
     (let (st1, err) = deletePod env st p
      in (case err of
            Some e \<Rightarrow>
              if isNotFound e \<or> isGone e
              then deleteStale env key ps (expectDel env key p st1) didDelete staleNotDeleted
              else if isConflict e
              then deleteStale env key ps st1 didDelete (staleNotDeleted + 1)
              else (st1, Inl (Wrapped (''failed to delete stale launcher pod '' @ Name p) (ApiErr e)))
          | None \<Rightarrow> deleteStale env key ps (expectDel env key p st1) True staleNotDeleted))"

text \<open>The loop over \<^verbatim>\<open>liveUnboundCurrentPods\<close> from its end, with \<^verbatim>\<open>numToDelete\<close> still to delete.\<close>

fun deleteExcess ::
  "popEnv \<Rightarrow> NodeLauncherKey \<Rightarrow> pod list \<Rightarrow> nat \<Rightarrow> popState \<Rightarrow> bool \<Rightarrow> string set \<Rightarrow>
   popState \<times> (goError + bool \<times> string set)" where
  "deleteExcess env key [] numToDelete st didDelete targets = (st, Inr (didDelete, targets))"
| "deleteExcess env key (p # ps) numToDelete st didDelete targets =
     (if numToDelete = 0 then (st, Inr (didDelete, targets))
      else (let targets1 = insert (UID p) targets;
                (st1, err) = deletePod env st p
            in (case err of
                  Some e \<Rightarrow>
                    if isNotFound e \<or> isGone e
                    then deleteExcess env key ps (numToDelete - 1) (expectDel env key p st1) didDelete targets1
                    else if isConflict e
                    then deleteExcess env key ps numToDelete st1 didDelete targets1
                    else (st1, Inl (Wrapped (''failed to delete launcher pod '' @ Name p) (ApiErr e)))
                | None \<Rightarrow> deleteExcess env key ps (numToDelete - 1) (expectDel env key p st1) True targets1)))"

text \<open>From the deletion of stale Pods to the end of \<^verbatim>\<open>reconcileKey\<close>.\<close>

definition adjustLaunchers ::
  "popEnv \<Rightarrow> popState \<Rightarrow> NodeLauncherKey \<Rightarrow> int \<Rightarrow> string \<Rightarrow> pod option \<Rightarrow> node \<Rightarrow> podSorts \<Rightarrow> popState \<times> outcome" where
  "adjustLaunchers env st key desiredCount templateHash template nd sorts =
     (case deleteStale env key (staleUnboundPods sorts) st False 0 of
        (st1, Inl err) \<Rightarrow> (st1, Returns (Some err, True))
      | (st1, Inr (didDelete1, staleNotDeleted)) \<Rightarrow>
          (let effectiveRemaining = liveBoundCount sorts + length (liveUnboundCurrentPods sorts) + staleNotDeleted;
               diff = desiredCount - int effectiveRemaining
           in (case deleteExcess env key (rev (liveUnboundCurrentPods sorts)) (nat (- diff)) st1 didDelete1 {} of
                 (st2, Inl err) \<Rightarrow> (st2, Returns (Some err, True))
               | (st2, Inr (didDelete2, excessDeletionTargets)) \<Rightarrow>
                   (let reported =
                          (case template of
                             None \<Rightarrow> (st2, None)
                           | Some _ \<Rightarrow>
                               reportStuckLaunchers env st2
                                 (SliceFilter (liveUnboundCurrentPods sorts)
                                    (Not1 (\<lambda>p. UID p \<in> excessDeletionTargets))) templateHash)
                    in (case reported of
                          (st3, Some err) \<Rightarrow> (st3, Returns (Some err, True))
                        | (st3, None) \<Rightarrow>
                            if didDelete2 \<or> deletionInProgress sorts then (st3, Returns (None, True))
                            else if diff > 0
                            then (case template of
                                    None \<Rightarrow> (st3, Panics)
                                  | Some t \<Rightarrow>
                                      (case createLaunchers env st3 key (nat diff)
                                              (SpecializeLauncherTemplateToNode (sha256b64P env) t (Name nd)) of
                                         (st4, Some err) \<Rightarrow> (st4, Returns (Some err, True))
                                       | (st4, None) \<Rightarrow> (st4, Returns (None, False))))
                            else (st3, Returns (None, False)))))))"

definition reconcileKey ::
  "popEnv \<Rightarrow> popState \<Rightarrow> NodeLauncherKey \<Rightarrow> int \<Rightarrow> string \<Rightarrow> pod option \<Rightarrow> pod list \<Rightarrow> popState \<times> outcome" where
  "reconcileKey env st key desiredCount templateHash template cachePods =
     (case nodeLookup env (kNodeName key) of
        Inl err \<Rightarrow>
          if isNotFound err then (st, Returns (None, False)) else (st, Returns (Some (ApiErr err), True))
      | Inr nd \<Rightarrow>
          (case getCurrentLaunchersOnNode env st key cachePods of
             (st1, Inl err) \<Rightarrow> (st1, Returns (Some err, True))
           | (st1, Inr (currentLaunchers, expectStatus)) \<Rightarrow>
               if expectStatus = ExpectationsWaiting then (st1, Returns (None, True))
               else adjustLaunchers env st1 key desiredCount templateHash template nd
                      (categorize templateHash currentLaunchers)))"

definition processKey ::
  "popEnv \<Rightarrow> 'sel digestedPolicy \<Rightarrow> popState \<Rightarrow> NodeLauncherKey \<Rightarrow> popState \<times> outcome" where
  "processKey env dp st key =
     (let snap = snapshotForKey dp key
      in (case listPodsFromCache env key of
            Inl err \<Rightarrow>
              (st, Returns (Some (Wrapped (''listing launcher Pods for node '' @ kNodeName key @ '' config '' @
                                           kLauncherConfigName key) err), True))
          | Inr pods \<Rightarrow>
              (let (ms, delay) = recordLauncherPhases (stuckSchedulingThreshold env) (stuckStartingThreshold env)
                                   (clockNow env) (pmetrics st) key pods (snapTemplateHash snap);
                   st1 = st\<lparr>pmetrics := ms,
                            keyAddAfters := keyAddAfters st @ (case delay of None \<Rightarrow> [] | Some d \<Rightarrow> [(key, d)])\<rparr>
               in if \<not> snapExists snap then reconcileKey env st1 key 0 (snapTemplateHash snap) None pods
                  else if snapDesiredCount snap < 0 then (st1, Returns (None, False))
                  else reconcileKey env st1 key (snapDesiredCount snap) (snapTemplateHash snap)
                         (snapTemplate snap) pods)))"

subsection \<open>Sorting the listing\<close>

definition isLive :: "pod \<Rightarrow> bool" where
  "isLive p \<longleftrightarrow> DeletionTimestamp p = None"

definition isCurrent :: "string \<Rightarrow> pod \<Rightarrow> bool" where
  "isCurrent h p \<longleftrightarrow> annot p LauncherTemplateHashAnnotationKey = h"

lemma categorize_loop:
  "fold (categorizePod h) ps acc =
     \<lparr>liveBoundCount = liveBoundCount acc + length (filter (\<lambda>p. isLive p \<and> isBound p) ps),
      liveUnboundCurrentPods = liveUnboundCurrentPods acc @
        filter (\<lambda>p. isLive p \<and> \<not> isBound p \<and> isCurrent h p) ps,
      staleUnboundPods = staleUnboundPods acc @ filter (\<lambda>p. isLive p \<and> \<not> isBound p \<and> \<not> isCurrent h p) ps,
      deletionInProgress = (deletionInProgress acc \<or> (\<exists>p \<in> set ps. \<not> isLive p))\<rparr>"
proof (induction ps arbitrary: acc)
  case (Cons p ps)
  then show ?case
    by (cases "DeletionTimestamp p"; cases "isBound p"; cases "h = annot p LauncherTemplateHashAnnotationKey")
      (simp_all add: categorizePod_def isLive_def isCurrent_def)
qed simp

lemma categorize_eq:
  "categorize h ps =
     \<lparr>liveBoundCount = length (filter (\<lambda>p. isLive p \<and> isBound p) ps),
      liveUnboundCurrentPods = filter (\<lambda>p. isLive p \<and> \<not> isBound p \<and> isCurrent h p) ps,
      staleUnboundPods = filter (\<lambda>p. isLive p \<and> \<not> isBound p \<and> \<not> isCurrent h p) ps,
      deletionInProgress = (\<exists>p \<in> set ps. \<not> isLive p)\<rparr>"
  by (simp add: categorize_def categorize_loop)

subsection \<open>The calls of a pass\<close>

definition newCalls :: "popState \<Rightarrow> popState \<Rightarrow> apiCall list" where
  "newCalls st st' = drop (length (calls st)) (calls st')"

text \<open>
  A part of a pass: which calls it makes, and which creations and deletions it records for the key.
  Deletions are recorded when the apiserver confirms them or says that the Pod is gone already.
\<close>

fun goneBy :: "apiCall \<Rightarrow> string set" where
  "goneBy (DeletePod p None) = {UID p}"
| "goneBy (DeletePod p (Some e)) = (if isNotFound e \<or> isGone e then {UID p} else {})"
| "goneBy _ = {}"

fun madeBy :: "apiCall \<Rightarrow> string set" where
  "madeBy (CreatePod p (Inr q)) = {UID q}"
| "madeBy _ = {}"

definition didCalls :: "popEnv \<Rightarrow> NodeLauncherKey \<Rightarrow> popState \<Rightarrow> apiCall list \<Rightarrow> popState \<Rightarrow> bool" where
  "didCalls env key st cs st' \<longleftrightarrow>
     calls st' = calls st @ cs \<and>
     pendC (expectations st') key = pendC (expectations st) key \<union> \<Union> (set (map madeBy cs)) \<and>
     pendD (expectations st') key = pendD (expectations st) key \<union> \<Union> (set (map goneBy cs)) \<and>
     timeout (expectations st') = timeout (expectations st) \<and>
     dueAt (expectations st') key =
       (if \<Union> (set (map madeBy cs)) \<union> \<Union> (set (map goneBy cs)) = {} then dueAt (expectations st) key
        else clockNow env + timeout (expectations st))"

lemma didCalls_refl: "didCalls env key st [] st"
  by (simp add: didCalls_def)

lemma didCalls_trans: "didCalls env key st cs st1 \<Longrightarrow> didCalls env key st1 cs' st2 \<Longrightarrow> didCalls env key st (cs @ cs') st2"
  by (auto simp: didCalls_def)

lemma didCalls_newCalls: "didCalls env key st cs st' \<Longrightarrow> newCalls st st' = cs"
  by (simp add: didCalls_def newCalls_def)

lemma didCalls_create:
  "didCalls env key st [CreatePod t (Inr q)] (expectCre env key q (st\<lparr>calls := calls st @ [CreatePod t (Inr q)]\<rparr>))"
  "didCalls env key st [CreatePod t (Inl e)] (st\<lparr>calls := calls st @ [CreatePod t (Inl e)]\<rparr>)"
  by (auto simp: expectCre_def didCalls_def pe.creations_expC pe.deletions_expC pe.patience_expC pe.due_expC)

definition deletes :: "apiCall list \<Rightarrow> (pod \<times> apiError option) list" where
  "deletes cs = List.map_filter (\<lambda>c. case c of DeletePod p r \<Rightarrow> Some (p, r) | _ \<Rightarrow> None) cs"

lemma deletes_simps [simp]:
  "deletes [] = []" "deletes (DeletePod p r # cs) = (p, r) # deletes cs"
  "deletes (CreatePod t s # cs) = deletes cs" "deletes (PatchStuckLabel p x e # cs) = deletes cs"
  "deletes (ListPods m # cs) = deletes cs" "deletes (cs @ ds) = deletes cs @ deletes ds"
  by (simp_all add: deletes_def List.map_filter_def)

text \<open>One deletion with the record of its outcome, and the two loops in terms of it.\<close>

definition acked :: "apiError option \<Rightarrow> bool" where
  "acked err \<longleftrightarrow> (case err of None \<Rightarrow> True | Some e \<Rightarrow> isNotFound e \<or> isGone e)"

definition deleteAndExpect :: "popEnv \<Rightarrow> NodeLauncherKey \<Rightarrow> pod \<Rightarrow> popState \<Rightarrow> popState \<times> apiError option" where
  "deleteAndExpect env key p st =
     (case deletePod env st p of (st1, err) \<Rightarrow> (if acked err then expectDel env key p st1 else st1, err))"

lemma didCalls_deleteAndExpect:
  "deleteAndExpect env key p st = (st1, err) \<Longrightarrow> didCalls env key st [DeletePod p err] st1"
  by (auto simp: deleteAndExpect_def acked_def deletePod_def expectDel_def didCalls_def Let_def
      pe.creations_expD pe.deletions_expD pe.patience_expD pe.due_expD split: option.splits)

lemma deleteStale_Cons:
  "deleteStale env key (p # ps) st dd k =
     (case deleteAndExpect env key p st of (st1, err) \<Rightarrow>
        if acked err then deleteStale env key ps st1 (dd \<or> err = None) k
        else if err = Some ErrConflict then deleteStale env key ps st1 dd (k + 1)
        else (st1, Inl (Wrapped (''failed to delete stale launcher pod '' @ Name p) (ApiErr (the err)))))"
  by (auto simp: deleteAndExpect_def acked_def isConflict_def Let_def split: prod.splits option.splits)

lemma deleteExcess_Cons:
  "deleteExcess env key (p # ps) (Suc n) st dd T =
     (case deleteAndExpect env key p st of (st1, err) \<Rightarrow>
        if acked err then deleteExcess env key ps n st1 (dd \<or> err = None) (insert (UID p) T)
        else if err = Some ErrConflict then deleteExcess env key ps (Suc n) st1 dd (insert (UID p) T)
        else (st1, Inl (Wrapped (''failed to delete launcher pod '' @ Name p) (ApiErr (the err)))))"
  by (auto simp: deleteAndExpect_def acked_def isConflict_def Let_def split: prod.splits option.splits)

declare deleteStale.simps(2) [simp del] deleteExcess.simps(2) [simp del]

definition ackedDeletes :: "apiCall list \<Rightarrow> nat" where
  "ackedDeletes cs = length (filter (\<lambda>(p, r). acked r) (deletes cs))"

definition conflicts :: "apiCall list \<Rightarrow> nat" where
  "conflicts cs = length (filter (\<lambda>(p, r). r = Some ErrConflict) (deletes cs))"

lemma tally_simps [simp]:
  "ackedDeletes [] = 0" "ackedDeletes (DeletePod p r # cs) = (if acked r then 1 else 0) + ackedDeletes cs"
  "conflicts [] = 0" "conflicts (DeletePod p r # cs) = (if r = Some ErrConflict then 1 else 0) + conflicts cs"
  "ackedDeletes (cs @ ds) = ackedDeletes cs + ackedDeletes ds" "conflicts (cs @ ds) = conflicts cs + conflicts ds"
  by (simp_all add: ackedDeletes_def conflicts_def)

lemma not_acked_Conflict [simp]: "\<not> acked (Some ErrConflict)" "acked None"
  by (simp_all add: acked_def apiError_defs)

lemma deleteStale_calls:
  assumes "deleteStale env key ps st dd k = (st', res)"
  shows "\<exists>cs. didCalls env key st cs st' \<and> (\<forall>c \<in> set cs. \<exists>p \<in> set ps. \<exists>r. c = DeletePod p r) \<and>
    (case res of Inl _ \<Rightarrow> True
     | Inr (dd', k') \<Rightarrow> map fst (deletes cs) = ps \<and> length (deletes cs) = ackedDeletes cs + conflicts cs \<and>
         (dd' \<longleftrightarrow> dd \<or> (\<exists>p. DeletePod p None \<in> set cs)) \<and> k' = k + conflicts cs)"
  using assms
proof (induction ps arbitrary: st dd k)
  case Nil
  then show ?case by (auto intro!: exI [of _ "[]"] simp: didCalls_refl)
next
  case (Cons p ps)
  obtain st1 err where del: "deleteAndExpect env key p st = (st1, err)" by (cases "deleteAndExpect env key p st")
  note d = didCalls_deleteAndExpect [OF del]
  show ?case
  proof (cases "acked err \<or> err = Some ErrConflict")
    case True
    let ?dd = "dd \<or> err = None" and ?k = "if err = Some ErrConflict then k + 1 else k"
    have "deleteStale env key ps st1 ?dd ?k = (st', res)"
      using Cons.prems True by (auto simp: deleteStale_Cons del split: if_splits)
    from Cons.IH [OF this] obtain cs where cs: "didCalls env key st1 cs st'"
      "\<forall>c \<in> set cs. \<exists>p \<in> set ps. \<exists>r. c = DeletePod p r"
      "case res of Inl _ \<Rightarrow> True | Inr (dd', k') \<Rightarrow> map fst (deletes cs) = ps \<and>
         length (deletes cs) = ackedDeletes cs + conflicts cs \<and>
         (dd' \<longleftrightarrow> ?dd \<or> (\<exists>p. DeletePod p None \<in> set cs)) \<and> k' = ?k + conflicts cs"
      by blast
    show ?thesis
      using didCalls_trans [OF d cs(1)] cs(2,3) True
      by (intro exI [of _ "DeletePod p err # cs"]) (auto split: sum.splits)
  next
    case False
    with Cons.prems d show ?thesis
      by (intro exI [of _ "[DeletePod p err]"]) (auto simp: deleteStale_Cons del)
  qed
qed

lemma deleteExcess_calls:
  assumes "deleteExcess env key ps n st dd T = (st', res)"
  shows "\<exists>cs. didCalls env key st cs st' \<and> (\<forall>c \<in> set cs. \<exists>p \<in> set ps. \<exists>r. c = DeletePod p r) \<and>
    ackedDeletes cs \<le> n \<and>
    (case res of Inl _ \<Rightarrow> True
     | Inr (dd', T') \<Rightarrow> (\<exists>j. map fst (deletes cs) = take j ps) \<and>
         length (deletes cs) = ackedDeletes cs + conflicts cs \<and>
         (ackedDeletes cs = n \<or> map fst (deletes cs) = ps) \<and>
         T' = T \<union> UID ` set (map fst (deletes cs)) \<and>
         (dd' \<longleftrightarrow> dd \<or> (\<exists>p. DeletePod p None \<in> set cs)))"
  using assms
proof (induction ps arbitrary: n st dd T)
  case Nil
  then show ?case by (auto intro!: exI [of _ "[]"] simp: didCalls_refl)
next
  case (Cons p ps)
  show ?case
  proof (cases n)
    case 0
    with Cons.prems show ?thesis
      by (auto simp: deleteExcess.simps(2) didCalls_refl intro!: exI [of _ "[]"] exI [of _ 0])
  next
    case (Suc m)
    obtain st1 err where del: "deleteAndExpect env key p st = (st1, err)" by (cases "deleteAndExpect env key p st")
    note d = didCalls_deleteAndExpect [OF del]
    show ?thesis
    proof (cases "acked err \<or> err = Some ErrConflict")
      case True
      let ?dd = "dd \<or> err = None" and ?n = "if err = Some ErrConflict then n else m"
      have "deleteExcess env key ps ?n st1 ?dd (insert (UID p) T) = (st', res)"
        using Cons.prems True Suc by (auto simp: deleteExcess_Cons del split: if_splits)
      from Cons.IH [OF this] obtain cs where cs: "didCalls env key st1 cs st'"
        "\<forall>c \<in> set cs. \<exists>p \<in> set ps. \<exists>r. c = DeletePod p r" "ackedDeletes cs \<le> ?n"
        "case res of Inl _ \<Rightarrow> True | Inr (dd', T') \<Rightarrow> (\<exists>j. map fst (deletes cs) = take j ps) \<and>
           length (deletes cs) = ackedDeletes cs + conflicts cs \<and>
           (ackedDeletes cs = ?n \<or> map fst (deletes cs) = ps) \<and>
           T' = insert (UID p) T \<union> UID ` set (map fst (deletes cs)) \<and>
           (dd' \<longleftrightarrow> ?dd \<or> (\<exists>p. DeletePod p None \<in> set cs))"
        by blast
      have take: "map fst (deletes cs) = take j ps \<Longrightarrow>
          map fst (deletes (DeletePod p err # cs)) = take (Suc j) (p # ps)" for j by simp
      show ?thesis
        using didCalls_trans [OF d cs(1)] cs(2,3,4) True Suc take
        by (intro exI [of _ "DeletePod p err # cs"])
          (auto split: sum.splits if_splits intro: exI [of _ "Suc _"] simp del: take_Suc_Cons)
    next
      case False
      with Cons.prems d Suc show ?thesis
        by (intro exI [of _ "[DeletePod p err]"]) (auto simp: deleteExcess_Cons del)
    qed
  qed
qed

lemma setStuckLabel_calls:
  "setStuckLabel env (reportEvent st p ph) p b = (st2, e) \<Longrightarrow> \<exists>x r. didCalls env key st [PatchStuckLabel p x r] st2"
  by (auto simp: setStuckLabel_def didCalls_def Let_def reportEvent_def split: option.splits if_splits)

lemma reportStuck_calls:
  assumes "reportStuckLaunchers env st ps h = (st', e)"
  shows "\<exists>cs. didCalls env key st cs st' \<and> (\<forall>c \<in> set cs. \<exists>p \<in> set ps. \<exists>x r. c = PatchStuckLabel p x r)"
  using assms
proof (induction ps arbitrary: st)
  case Nil
  then show ?case by (auto intro!: exI [of _ "[]"] simp: didCalls_refl)
next
  case (Cons p ps)
  let ?ph = "phaseNow env h p"
  show ?case
  proof (cases "(lbl p LauncherStuckLabelKey = ''true'') = isStuck ?ph")
    case True
    with Cons show ?thesis by fastforce
  next
    case False
    obtain st2 e2 where set: "setStuckLabel env (reportEvent st p ?ph) p (isStuck ?ph) = (st2, e2)" by fastforce
    from setStuckLabel_calls [OF this] obtain x r where d: "didCalls env key st [PatchStuckLabel p x r] st2" by blast
    show ?thesis
    proof (cases e2)
      case None
      with False set Cons.prems have "reportStuckLaunchers env st2 ps h = (st', e)" by (simp add: Let_def)
      from Cons.IH [OF this] obtain cs where "didCalls env key st2 cs st'"
        "\<forall>c \<in> set cs. \<exists>p \<in> set ps. \<exists>x r. c = PatchStuckLabel p x r" by blast
      with didCalls_trans [OF d] show ?thesis by (intro exI [of _ "PatchStuckLabel p x r # cs"]) auto
    next
      case (Some err)
      with False set Cons.prems d show ?thesis
        by (intro exI [of _ "[PatchStuckLabel p x r]"]) (auto simp: Let_def)
    qed
  qed
qed

lemma create_calls:
  assumes "createLaunchers env st key n t = (st', e)"
  shows "\<exists>cs. didCalls env key st cs st' \<and> (\<forall>c \<in> set cs. \<exists>r. c = CreatePod t r) \<and> length cs \<le> n \<and>
    (e = None \<longrightarrow> length cs = n \<and> (\<forall>c \<in> set cs. \<exists>q. c = CreatePod t (Inr q)))"
  using assms
proof (induction n arbitrary: st)
  case 0
  then show ?case by (auto intro!: exI [of _ "[]"] simp: didCalls_refl)
next
  case (Suc n)
  show ?case
  proof (cases "podCreate env (calls st) t")
    case (Inl err)
    with Suc.prems didCalls_create(2) [of env key st t err] show ?thesis
      by (intro exI [of _ "[CreatePod t (Inl err)]"]) auto
  next
    case (Inr q)
    let ?st1 = "expectCre env key q (st\<lparr>calls := calls st @ [CreatePod t (Inr q)]\<rparr>)"
    have "createLaunchers env ?st1 key n t = (st', e)" using Suc.prems Inr by simp
    from Suc.IH [OF this] obtain cs where "didCalls env key ?st1 cs st'" "\<forall>c \<in> set cs. \<exists>r. c = CreatePod t r"
      "length cs \<le> n" "e = None \<longrightarrow> length cs = n \<and> (\<forall>c \<in> set cs. \<exists>q. c = CreatePod t (Inr q))" by blast
    with didCalls_trans [OF didCalls_create(1) [of env key st t q]] show ?thesis
      by (intro exI [of _ "CreatePod t (Inr q) # cs"]) auto
  qed
qed

text \<open>A whole adjustment: stale deletions, excess deletions, stuck labels, creations, in that order.\<close>

definition remaining :: "podSorts \<Rightarrow> apiCall list \<Rightarrow> int" where
  "remaining sorts csS = int (liveBoundCount sorts + length (liveUnboundCurrentPods sorts) + conflicts csS)"

definition passSpec ::
  "popEnv \<Rightarrow> NodeLauncherKey \<Rightarrow> int \<Rightarrow> pod option \<Rightarrow> node \<Rightarrow> podSorts \<Rightarrow> popState \<Rightarrow> popState \<Rightarrow> outcome \<Rightarrow>
   apiCall list \<Rightarrow> apiCall list \<Rightarrow> apiCall list \<Rightarrow> apiCall list \<Rightarrow> bool" where
  "passSpec env key desired template nd sorts st st' out csS csE csP csC \<longleftrightarrow>
    didCalls env key st (csS @ csE @ csP @ csC) st' \<and>
    (\<forall>c \<in> set csS. \<exists>p \<in> set (staleUnboundPods sorts). \<exists>r. c = DeletePod p r) \<and>
    (\<forall>c \<in> set csE. \<exists>p \<in> set (liveUnboundCurrentPods sorts). \<exists>r. c = DeletePod p r) \<and>
    (\<forall>c \<in> set csP. \<exists>p \<in> set (liveUnboundCurrentPods sorts). \<exists>x r. c = PatchStuckLabel p x r) \<and>
    (\<forall>c \<in> set csC. \<exists>t r. template = Some t \<and>
       c = CreatePod (SpecializeLauncherTemplateToNode (sha256b64P env) t (Name nd)) r) \<and>
    ackedDeletes csE \<le> nat (remaining sorts csS - desired) \<and>
    length csC \<le> nat (desired - remaining sorts csS) \<and>
    (csC \<noteq> [] \<longrightarrow> \<not> deletionInProgress sorts \<and> (\<forall>p. DeletePod p None \<notin> set (csS @ csE))) \<and>
    (out = Returns (None, False) \<longrightarrow> length csC = nat (desired - remaining sorts csS) \<and>
       (\<forall>c \<in> set csC. \<exists>t q. c = CreatePod t (Inr q)))"

lemma adjust_calls:
  assumes "adjustLaunchers env st key desired h template nd sorts = (st', out)"
  shows "\<exists>csS csE csP csC. passSpec env key desired template nd sorts st st' out csS csE csP csC"
proof -
  obtain st1 res1 where S: "deleteStale env key (staleUnboundPods sorts) st False 0 = (st1, res1)"
    by (cases "deleteStale env key (staleUnboundPods sorts) st False 0")
  from deleteStale_calls [OF S] obtain csS where csS: "didCalls env key st csS st1"
    "\<forall>c \<in> set csS. \<exists>p \<in> set (staleUnboundPods sorts). \<exists>r. c = DeletePod p r"
    "case res1 of Inl _ \<Rightarrow> True | Inr (dd', k') \<Rightarrow> (dd' \<longleftrightarrow> (\<exists>p. DeletePod p None \<in> set csS)) \<and> k' = conflicts csS"
    by (fastforce split: sum.splits)
  show ?thesis
  proof (cases res1)
    case (Inl err)
    with assms S csS(1,2)
      have "passSpec env key desired template nd sorts st st' out csS [] [] []"
        by (auto simp: adjustLaunchers_def passSpec_def)
      then show ?thesis by blast
  next
    case (Inr ddk)
    obtain dd k where dk: "ddk = (dd, k)" by (cases ddk)
    with Inr csS(3) have dd: "dd \<longleftrightarrow> (\<exists>p. DeletePod p None \<in> set csS)" and k: "k = conflicts csS" by auto
    let ?cur = "liveUnboundCurrentPods sorts" and ?diff = "desired - remaining sorts csS"
    have rem: "desired - int (liveBoundCount sorts + length ?cur + k) = ?diff" by (simp add: remaining_def k)
    obtain st2 res2 where E: "deleteExcess env key (rev ?cur) (nat (- ?diff)) st1 dd {} = (st2, res2)"
      by (cases "deleteExcess env key (rev ?cur) (nat (- ?diff)) st1 dd {}")
    from deleteExcess_calls [OF E] obtain csE where csE0: "didCalls env key st1 csE st2"
      "\<forall>c \<in> set csE. \<exists>p \<in> set (rev ?cur). \<exists>r. c = DeletePod p r" "ackedDeletes csE \<le> nat (- ?diff)"
      "case res2 of Inl _ \<Rightarrow> True
       | Inr (dd', T') \<Rightarrow> (\<exists>j. map fst (deletes csE) = take j (rev ?cur)) \<and>
         length (deletes csE) = ackedDeletes csE + conflicts csE \<and>
         (ackedDeletes csE = nat (- ?diff) \<or> map fst (deletes csE) = rev ?cur) \<and>
         T' = {} \<union> UID ` set (map fst (deletes csE)) \<and>
         (dd' \<longleftrightarrow> dd \<or> (\<exists>p. DeletePod p None \<in> set csE))"
      by (elim exE conjE)
    have csE: "didCalls env key st1 csE st2" "\<forall>c \<in> set csE. \<exists>p \<in> set ?cur. \<exists>r. c = DeletePod p r"
      "ackedDeletes csE \<le> nat (- ?diff)" using csE0(1-3) by simp_all
    note dSE = didCalls_trans [OF csS(1) csE(1)]
    show ?thesis
    proof (cases res2)
      case (Inl err)
      have "adjustLaunchers env st key desired h template nd sorts = (st2, Returns (Some err, True))"
        unfolding adjustLaunchers_def S Inr dk prod.case sum.case Let_def rem E Inl by simp
      with assms csS(2) csE(2,3) dSE
      have "passSpec env key desired template nd sorts st st' out csS csE [] []"
        by (auto simp: passSpec_def)
      then show ?thesis by blast
    next
      case R2: (Inr ddT)
      obtain dd2 T where dT: "ddT = (dd2, T)" by (cases ddT)
      with R2 csE0(4) dd have dd2: "dd2 \<longleftrightarrow> (\<exists>p. DeletePod p None \<in> set (csS @ csE))" by auto
      let ?rep = "case template of None \<Rightarrow> (st2, None)
        | Some _ \<Rightarrow> reportStuckLaunchers env st2 (SliceFilter ?cur (Not1 (\<lambda>p. UID p \<in> T))) h"
      obtain st3 e3 where rep: "?rep = (st3, e3)" by (cases ?rep)
      have "\<exists>cs. didCalls env key st2 cs st3 \<and> (\<forall>c \<in> set cs. \<exists>p \<in> set ?cur. \<exists>x r. c = PatchStuckLabel p x r)"
      proof (cases template)
        case (Some t)
        with rep have "reportStuckLaunchers env st2 (SliceFilter ?cur (Not1 (\<lambda>p. UID p \<in> T))) h = (st3, e3)" by simp
        from reportStuck_calls [OF this, of key] show ?thesis by fastforce
      qed (use rep didCalls_refl in \<open>auto intro!: exI [of _ "[]"]\<close>)
      then obtain csP where csP: "didCalls env key st2 csP st3"
        "\<forall>c \<in> set csP. \<exists>p \<in> set ?cur. \<exists>x r. c = PatchStuckLabel p x r" by blast
      note dSEP = didCalls_trans [OF dSE csP(1)]
      have adj: "adjustLaunchers env st key desired h template nd sorts =
        (case e3 of Some err \<Rightarrow> (st3, Returns (Some err, True))
         | None \<Rightarrow> if dd2 \<or> deletionInProgress sorts then (st3, Returns (None, True))
             else if ?diff > 0 then (case template of None \<Rightarrow> (st3, Panics)
                | Some t \<Rightarrow> (case createLaunchers env st3 key (nat ?diff)
                     (SpecializeLauncherTemplateToNode (sha256b64P env) t (Name nd)) of
                       (st4, Some err) \<Rightarrow> (st4, Returns (Some err, True)) | (st4, None) \<Rightarrow> (st4, Returns (None, False))))
             else (st3, Returns (None, False)))"
        unfolding adjustLaunchers_def S Inr dk prod.case sum.case Let_def rem E R2 dT rep by simp
      show ?thesis
      proof (cases "e3 = None \<and> \<not> dd2 \<and> \<not> deletionInProgress sorts \<and> ?diff > 0 \<and> template \<noteq> None")
        case True
        then obtain t where t: "template = Some t" by auto
        let ?t = "SpecializeLauncherTemplateToNode (sha256b64P env) t (Name nd)"
        obtain st4 e4 where C: "createLaunchers env st3 key (nat ?diff) ?t = (st4, e4)"
          by (cases "createLaunchers env st3 key (nat ?diff) ?t")
        from create_calls [OF C] obtain csC where csC: "didCalls env key st3 csC st4"
          "\<forall>c \<in> set csC. \<exists>r. c = CreatePod ?t r" "length csC \<le> nat ?diff"
          "e4 = None \<longrightarrow> length csC = nat ?diff \<and> (\<forall>c \<in> set csC. \<exists>q. c = CreatePod ?t (Inr q))" by blast
        have st4: "st' = st4" "out = Returns (None, False) \<longrightarrow> e4 = None"
          using assms adj True t C by (auto split: option.splits)
        with didCalls_trans [OF dSEP csC(1)] csS(2) csE(2,3) csP(2) csC(2-4) dd2 True t
      have "passSpec env key desired template nd sorts st st' out csS csE csP csC"
        by (auto simp: passSpec_def)
      then show ?thesis by blast
      next
        case False
        then have "st' = st3" and "out = Returns (None, False) \<longrightarrow> ?diff \<le> 0"
          using assms adj by (auto split: option.splits if_splits)
        with dSEP csS(2) csE(2,3) csP(2)
      have "passSpec env key desired template nd sorts st st' out csS csE csP []"
        by (auto simp: passSpec_def)
      then show ?thesis by blast
      qed
    qed
  qed
qed

subsection \<open>A pass over a key\<close>

text \<open>
  The listing a pass decides on: the cache, or the apiserver when expectations have timed out; none
  when the pass stops before it decides.
\<close>

definition decidesOn ::
  "popEnv \<Rightarrow> 'sel digestedPolicy \<Rightarrow> popState \<Rightarrow> NodeLauncherKey \<Rightarrow> pod list option" where
  "decidesOn env dp st key =
     (let snap = snapshotForKey dp key
      in (case (podListCache env (launcherLabels key), nodeLookup env (kNodeName key)) of
            (Inr pods, Inr nd) \<Rightarrow>
              if snapExists snap \<and> snapDesiredCount snap < 0 then None
              else (case snd (check (clockNow env) (expectations st) key (set (map UID pods))) of
                      ExpectationsSatisfied \<Rightarrow> Some pods
                    | ExpectationsWaiting \<Rightarrow> None
                    | ExpectationsTimedOut \<Rightarrow>
                        (case podListApi env (calls st) (launcherLabels key) of
                           Inl _ \<Rightarrow> None | Inr apiPods \<Rightarrow> Some apiPods))
          | _ \<Rightarrow> None))"

definition effDesired :: "keySnapshot \<Rightarrow> int" where
  "effDesired snap = (if snapExists snap then snapDesiredCount snap else 0)"

definition effTemplate :: "keySnapshot \<Rightarrow> pod option" where
  "effTemplate snap = (if snapExists snap then snapTemplate snap else None)"

lemma check_pend:
  "snd (check now s key present) = ExpectationsSatisfied \<Longrightarrow>
     pendC (fst (check now s key present)) key = {} \<and> pendD (fst (check now s key present)) key = {}"
  by (auto simp: pe.chk_status pe.creations_chk pe.deletions_chk split: if_splits)

lemma timeout_check [simp]: "timeout (fst (check now s key present)) = timeout s"
  by (auto simp: check_def Let_def split: option.split)

lemma timeout_reset [simp]: "timeout (reset s key) = timeout s"
  by (simp add: reset_def)

text \<open>A pass that decides is an adjustment from a state in which nothing is pending for the key.\<close>

lemma processKey_decides:
  assumes "decidesOn env dp st key = Some pods"
  obtains st1 pre nd where
    "processKey env dp st key =
       adjustLaunchers env st1 key (effDesired (snapshotForKey dp key)) (snapTemplateHash (snapshotForKey dp key))
         (effTemplate (snapshotForKey dp key)) nd (categorize (snapTemplateHash (snapshotForKey dp key)) pods)"
    and "nodeLookup env (kNodeName key) = Inr nd"
    and "calls st1 = calls st @ pre" and "set pre \<subseteq> {ListPods (launcherLabels key)}"
    and "pendC (expectations st1) key = {}" and "pendD (expectations st1) key = {}"
    and "timeout (expectations st1) = timeout (expectations st)"
proof -
  obtain cpods nd where c: "podListCache env (launcherLabels key) = Inr cpods" "nodeLookup env (kNodeName key) = Inr nd"
    using assms by (auto simp: decidesOn_def Let_def split: sum.splits)
  let ?snap = "snapshotForKey dp key"
  have off: "\<not> (snapExists ?snap \<and> snapDesiredCount ?snap < 0)"
    using assms c by (auto simp: decidesOn_def Let_def)
  define st0 where "st0 = (let (ms, delay) = recordLauncherPhases (stuckSchedulingThreshold env) (stuckStartingThreshold env)
         (clockNow env) (pmetrics st) key cpods (snapTemplateHash ?snap)
    in st\<lparr>pmetrics := ms, keyAddAfters := keyAddAfters st @ (case delay of None \<Rightarrow> [] | Some d \<Rightarrow> [(key, d)])\<rparr>)"
  have st0: "expectations st0 = expectations st" "calls st0 = calls st"
    by (simp_all add: st0_def split_beta)
  have rec: "processKey env dp st key = reconcileKey env st0 key (effDesired ?snap) (snapTemplateHash ?snap) (effTemplate ?snap) cpods"
    using off c by (auto simp: processKey_def listPodsFromCache_def st0_def Let_def split_beta effDesired_def effTemplate_def)
  let ?chk = "check (clockNow env) (expectations st) key (set (map UID cpods))"
  consider (sat) "snd ?chk = ExpectationsSatisfied" "pods = cpods"
    | (out) "snd ?chk = ExpectationsTimedOut" "podListApi env (calls st) (launcherLabels key) = Inr pods"
    using assms c off by (auto simp: decidesOn_def Let_def split: ExpectationStatus.splits sum.splits)
  then show thesis
  proof cases
    case sat
    then have "processKey env dp st key = adjustLaunchers env (st0\<lparr>expectations := fst ?chk\<rparr>) key
        (effDesired ?snap) (snapTemplateHash ?snap) (effTemplate ?snap) nd (categorize (snapTemplateHash ?snap) pods)"
      using c by (simp add: rec reconcileKey_def getCurrentLaunchersOnNode_def st0 Let_def split_beta)
    then show thesis
      by (rule that [of _ _ "[]"]) (use c(2) check_pend [OF sat(1)] st0 in auto)
  next
    case out
    then have "processKey env dp st key =
        adjustLaunchers env (st0\<lparr>expectations := reset (fst ?chk) key, calls := calls st @ [ListPods (launcherLabels key)]\<rparr>) key
        (effDesired ?snap) (snapTemplateHash ?snap) (effTemplate ?snap) nd (categorize (snapTemplateHash ?snap) pods)"
      using c by (simp add: rec reconcileKey_def getCurrentLaunchersOnNode_def listPodsFromApiserver_def st0 Let_def split_beta)
    then show thesis
      by (rule that [of _ _ "[ListPods (launcherLabels key)]"])
        (use c(2) st0 in \<open>auto simp: pe.creations_rst pe.deletions_rst\<close>)
  qed
qed

lemma processKey_not_decides:
  assumes "decidesOn env dp st key = None"
  shows "set (newCalls st (fst (processKey env dp st key))) \<subseteq> {ListPods (launcherLabels key)} \<and>
    snd (processKey env dp st key) \<noteq> Panics"
  using assms
  by (auto simp: decidesOn_def processKey_def listPodsFromCache_def reconcileKey_def getCurrentLaunchersOnNode_def
      listPodsFromApiserver_def newCalls_def Let_def split_beta
      split: sum.splits if_splits ExpectationStatus.splits)

end
