(* ===== verification/Digest_Sync.thy ===== *)
theory Digest_Sync
  imports Digest
begin

text \<open>
  The digest and the cluster it digests.  A step of the system either changes an object in the
  informer cache, which calls the event handlers, or processes one pending item of the digest queue,
  successfully or not.  The theory shows that whenever no item is pending the digest says exactly what
  the policies in the cache ask for.
\<close>

subsection \<open>The system\<close>

record 'sel cluster =
  clNodes :: "(string, node) gomap"
  clLCs :: "(string, launcherConfig) gomap"
  clLPPs :: "(string, 'sel launcherPopulationPolicy) gomap"

text \<open>The listers answer from the informer cache.\<close>

definition answersFrom :: "'sel digestEnv \<Rightarrow> 'sel cluster \<Rightarrow> bool" where
  "answersFrom env c \<longleftrightarrow>
     (\<forall>n. lcGet env n = (case mget (clLCs c) n of None \<Rightarrow> Inl ErrNotFound | Some x \<Rightarrow> Inr x)) \<and>
     (\<forall>n. lppGet env n = (case mget (clLPPs c) n of None \<Rightarrow> Inl ErrNotFound | Some x \<Rightarrow> Inr x)) \<and>
     (\<forall>n. nodeGet env n = (case mget (clNodes c) n of None \<Rightarrow> Inl ErrNotFound | Some x \<Rightarrow> Inr x)) \<and>
     (\<forall>sel. nodeList env sel = Inr (filter (\<lambda>x. sel (Labels x)) (map snd (clNodes c))))"

definition sameCode :: "'sel digestEnv \<Rightarrow> 'sel digestEnv \<Rightarrow> bool" where
  "sameCode env env' \<longleftrightarrow> marshalJSON env = marshalJSON env' \<and> sha256b64 env = sha256b64 env' \<and>
     asSelector env = asSelector env'"

definition item :: "resourceKind \<Rightarrow> string \<Rightarrow> funcItem" where
  "item k n = \<lparr>fiKind = k, fiName = n\<rparr>"

definition newItems :: "'sel digestState \<Rightarrow> 'sel digestState \<Rightarrow> funcItem set" where
  "newItems st st' = set (drop (length (digestAdds st)) (digestAdds st'))"

text \<open>
  The code takes a policy for unchanged when its \<^verbatim>\<open>metadata.generation\<close> is the one it has digested.  A policy
  that appears in the cache is told apart from the digested one of its name when equal generations
  mean equal selectors and counts.  The API server sees to that for the versions of one object; it does not for
  a policy that is deleted and created again under its name, whose generation starts at 1 again.
\<close>

definition generationsTell :: "'sel digestState \<Rightarrow> 'sel launcherPopulationPolicy \<Rightarrow> string \<Rightarrow> bool" where
  "generationsTell st lpp p \<longleftrightarrow>
     (case mget (lpps (policy st)) p of
        None \<Rightarrow> True
      | Some d \<Rightarrow> Generation (lppdObject d) = Generation lpp \<longrightarrow>
          lppCountForLauncher (lppdObject d) = lppCountForLauncher lpp \<and>
          lppLabelSelector (lppdObject d) = lppLabelSelector lpp)"

text \<open>
  The steps of the system.  The predicate \<open>ok\<close> says which versions of a policy may appear in the cache: all of
  them when it is constantly true, and only such as are told apart when it is \<open>generationsTell\<close>.
\<close>

type_synonym 'sel digestSystem = "'sel cluster \<times> 'sel digestState \<times> funcItem set"

inductive digestStep :: "('sel digestState \<Rightarrow> 'sel launcherPopulationPolicy \<Rightarrow> string \<Rightarrow> bool) \<Rightarrow> 'sel digestEnv \<Rightarrow>
    'sel digestSystem \<Rightarrow> 'sel digestSystem \<Rightarrow> bool"
  for ok :: "'sel digestState \<Rightarrow> 'sel launcherPopulationPolicy \<Rightarrow> string \<Rightarrow> bool" and env0 :: "'sel digestEnv" where
  putNode: "st' = OnAdd st (WNode x) \<or> st' = OnUpdate st prev (WNode x) \<Longrightarrow>
     digestStep ok env0 (c, st, P) (c\<lparr>clNodes := mput (Name x) x (clNodes c)\<rparr>, st', P \<union> newItems st st')"
| delNode: "mget (clNodes c) (Name x) \<noteq> None \<Longrightarrow>
     st' = OnDelete st (PlainObject (WNode x)) \<or> st' = OnDelete st (DeletedFinalStateUnknown (WNode x)) \<Longrightarrow>
     digestStep ok env0 (c, st, P) (c\<lparr>clNodes := mdel (Name x) (clNodes c)\<rparr>, st', P \<union> newItems st st')"
| putLC: "st' = OnAdd st (WLC lc) \<or> st' = OnUpdate st prev (WLC lc) \<Longrightarrow>
     digestStep ok env0 (c, st, P) (c\<lparr>clLCs := mput (Name lc) lc (clLCs c)\<rparr>, st', P \<union> newItems st st')"
| delLC: "st' = OnDelete st (PlainObject (WLC lc)) \<or> st' = OnDelete st (DeletedFinalStateUnknown (WLC lc)) \<Longrightarrow>
     digestStep ok env0 (c, st, P) (c\<lparr>clLCs := mdel (Name lc) (clLCs c)\<rparr>, st', P \<union> newItems st st')"
| putLPP: "ok st lpp (Name lpp) \<Longrightarrow>
     st' = OnAdd st (WLPP lpp) \<or> st' = OnUpdate st prev (WLPP lpp) \<Longrightarrow>
     digestStep ok env0 (c, st, P) (c\<lparr>clLPPs := mput (Name lpp) lpp (clLPPs c)\<rparr>, st', P \<union> newItems st st')"
| delLPP: "st' = OnDelete st (PlainObject (WLPP lpp)) \<or> st' = OnDelete st (DeletedFinalStateUnknown (WLPP lpp)) \<Longrightarrow>
     digestStep ok env0 (c, st, P) (c\<lparr>clLPPs := mdel (Name lpp) (clLPPs c)\<rparr>, st', P \<union> newItems st st')"
| processed: "f \<in> P \<Longrightarrow> answersFrom env c \<Longrightarrow> sameCode env env0 \<Longrightarrow>
     processDigestItem env st f = (st', (None, retry)) \<Longrightarrow>
     digestStep ok env0 (c, st, P) (c, st', P - {f} \<union> newItems st st')"
| failed: "f \<in> P \<Longrightarrow> answersFrom env c \<Longrightarrow> sameCode env env0 \<Longrightarrow>
     processDigestItem env st f = (st', (Some err, retry)) \<Longrightarrow>
     digestStep ok env0 (c, st, P) (c, st', P \<union> newItems st st')"

definition digestInit :: "'sel digestSystem" where
  "digestInit = (\<lparr>clNodes = [], clLCs = [], clLPPs = []\<rparr>,
     \<lparr>policy = newDigestedPolicy, metrics = newMetricsState, digestAdds = [], keyAdds = [], statusCalls = []\<rparr>,
     {})"

inductive digestReach :: "('sel digestState \<Rightarrow> 'sel launcherPopulationPolicy \<Rightarrow> string \<Rightarrow> bool) \<Rightarrow> 'sel digestEnv \<Rightarrow>
    'sel digestSystem \<Rightarrow> bool" for ok env0 where
  init: "digestReach ok env0 digestInit"
| step: "digestReach ok env0 s \<Longrightarrow> digestStep ok env0 s s' \<Longrightarrow> digestReach ok env0 s'"

subsection \<open>What the policies in the cache ask for\<close>

definition digestLC :: "'sel digestEnv \<Rightarrow> launcherConfig \<Rightarrow> lcDigest" where
  "digestLC env lc =
     (case BuildNodeIndependentLauncherTemplate (marshalJSON env) (sha256b64 env) lc of
        Inl e \<Rightarrow> \<lparr>lcdObject = Some lc, lcdTemplateErr = e, lcdNodeIndependent = None, lcdTemplateHash = []\<rparr>
      | Inr (p, h) \<Rightarrow> \<lparr>lcdObject = Some lc, lcdTemplateErr = [], lcdNodeIndependent = Some p, lcdTemplateHash = h\<rparr>)"

definition digestLPP :: "'sel digestEnv \<Rightarrow> 'sel launcherPopulationPolicy \<Rightarrow> 'sel lppDigest" where
  "digestLPP env lpp =
     \<lparr>lppdObject = lpp, lppdSelector = asSelector env (lppLabelSelector lpp),
      lppdDigested = (case asSelector env (lppLabelSelector lpp) of Inl _ \<Rightarrow> []
                      | Inr _ \<Rightarrow> digestCounts (lppCountForLauncher lpp))\<rparr>"

text \<open>The counts that the LPPs matching a Node give for a LauncherConfig.\<close>

definition demands :: "'sel digestEnv \<Rightarrow> 'sel cluster \<Rightarrow> string \<Rightarrow> string \<Rightarrow> int set" where
  "demands env c n l =
     {cflLauncherCount cfl | cfl lpp p x.
        mget (clNodes c) n = Some x \<and> mget (clLPPs c) p = Some lpp \<and>
        (case asSelector env (lppLabelSelector lpp) of Inl _ \<Rightarrow> False
         | Inr f \<Rightarrow> f (Labels x) \<and> matchesResourceConditions (Allocatable x) (lppAllocatableResources lpp)) \<and>
        cfl \<in> set (lppCountForLauncher lpp) \<and> cflLauncherConfigName cfl = l}"

text \<open>
  What the policies ask for.  A key that no matching policy lists is to have no launchers, also when its LauncherConfig is
  missing or malformed, since \<^verbatim>\<open>processKey\<close> (\<^verbatim>\<open>populator.go\<close>, lines 417 to 422) removes the launchers of such a key
  without looking at the LauncherConfig; \<^verbatim>\<open>docs/dual-pods.md\<close>, lines 176 to 178, says that nothing is deleted then.
\<close>

definition specSnapshot :: "'sel digestEnv \<Rightarrow> 'sel cluster \<Rightarrow> string \<Rightarrow> string \<Rightarrow> keySnapshot" where
  "specSnapshot env c n l =
     (let built = (case mget (clLCs c) l of None \<Rightarrow> Inl []
                   | Some lc \<Rightarrow> BuildNodeIndependentLauncherTemplate (marshalJSON env) (sha256b64 env) lc)
      in \<lparr>snapExists = (demands env c n l \<noteq> {}),
          snapDesiredCount = (if demands env c n l = {} then 0
                              else case built of Inl _ \<Rightarrow> HandsOff
                                   | Inr _ \<Rightarrow> Max (insert 0 (demands env c n l))),
          snapTemplateHash = (case built of Inl _ \<Rightarrow> [] | Inr (_, h) \<Rightarrow> h),
          snapTemplate = (case built of Inl _ \<Rightarrow> None | Inr (p, _) \<Rightarrow> Some p)\<rparr>)"

subsection \<open>Counts\<close>

lemma mok_digestCounts [simp]: "mok (digestCounts cfls)"
proof -
  have "mok m \<Longrightarrow> mok (fold (\<lambda>cfl digested. mput (cflLauncherConfigName cfl)
      (max (mget0 digested (cflLauncherConfigName cfl)) (cflLauncherCount cfl)) digested) cfls m)" for m
    by (induction cfls arbitrary: m) (auto intro: mok_mput)
  then show ?thesis by (simp add: digestCounts_def)
qed

definition countsFor :: "countForLauncher list \<Rightarrow> string \<Rightarrow> int set" where
  "countsFor cfls l = cflLauncherCount ` {cfl \<in> set cfls. cflLauncherConfigName cfl = l}"

lemma countsFor_snoc:
  "countsFor (cfls @ [cfl]) l =
     (if cflLauncherConfigName cfl = l then insert (cflLauncherCount cfl) (countsFor cfls l) else countsFor cfls l)"
  by (auto simp: countsFor_def)

lemma finite_countsFor [simp]: "finite (countsFor cfls l)"
  by (simp add: countsFor_def)

lemma mget_digestCounts:
  "mget (digestCounts cfls) l =
     (if countsFor cfls l = {} then None else Some (Max (insert 0 (countsFor cfls l))))"
proof (induction cfls rule: rev_induct)
  case Nil
  then show ?case by (simp add: digestCounts_def countsFor_def)
next
  case (snoc cfl cfls)
  have "digestCounts (cfls @ [cfl]) = mput (cflLauncherConfigName cfl)
      (max (mget0 (digestCounts cfls) (cflLauncherConfigName cfl)) (cflLauncherCount cfl)) (digestCounts cfls)"
    by (simp add: digestCounts_def)
  with snoc show ?case
    by (auto simp: countsFor_snoc mget_mput mget0_def insert_commute [of 0] max.commute)
qed

lemma Max_insert_max: "finite A \<Longrightarrow> Max (insert (max d c) A) = Max (insert d (insert c A))"
  for c d :: int
  by (cases "A = {}") (auto simp: max.assoc)

lemma fold_max_Max:
  "fold (\<lambda>(_, m) d. case mget m l of Some c \<Rightarrow> max d c | None \<Rightarrow> d) lp (d::int) =
   Max (insert d {c. \<exists>(p, m) \<in> set lp. mget m l = Some c})"
proof (induction lp arbitrary: d)
  case (Cons pm lp)
  obtain p m where pm: "pm = (p, m)" by (cases pm)
  have fin: "finite {c. \<exists>(p, m) \<in> set lp. mget m l = Some c}"
  proof -
    have "{c. \<exists>(p, m) \<in> set lp. mget m l = Some c} \<subseteq> (\<lambda>(p, m). the (mget m l)) ` set lp" by force
    then show ?thesis by (rule finite_subset) simp
  qed
  have split: "{c. \<exists>(p, m) \<in> set (pm # lp). mget m l = Some c} =
      {c. mget m l = Some c} \<union> {c. \<exists>(p, m) \<in> set lp. mget m l = Some c}"
    by (auto simp: pm)
  show ?case
  proof (cases "mget m l")
    case None
    with Cons split show ?thesis by (simp add: pm)
  next
    case (Some c)
    then have "{c. mget m l = Some c} = {c}" by auto
    with Some show ?thesis
      unfolding split by (simp add: pm Cons Max_insert_max [OF fin])
  qed
qed simp

subsection \<open>Effects of processing one item\<close>

lemma ent_None_iff: "digestWf dp \<Longrightarrow> ent dp n l = None \<longleftrightarrow> (\<forall>q. look dp n l q = None)"
proof (cases "ent dp n l")
  case (Some e)
  assume "digestWf dp"
  with Some have "deLpps e \<noteq> []" by (simp add: digestWf_def)
  with Some show ?thesis using mget_Nil_iff [of "deLpps e"] by (auto simp: look_def listedLpps_def)
qed (simp add: look_def listedLpps_def)

lemma same_digest:
  assumes "digest dp' = digest dp"
  shows "ent dp' = ent dp" "look dp' = look dp" "digestWf dp' = digestWf dp"
proof -
  show *: "ent dp' = ent dp" using assms by (simp add: ent_def nodeMapOf_def fun_eq_iff)
  show "look dp' = look dp" using * by (simp add: look_def fun_eq_iff)
  show "digestWf dp' = digestWf dp" using assms * by (simp add: digestWf_def)
qed

lemma newItems_same: "digestAdds st' = digestAdds st \<Longrightarrow> newItems st st' = {}"
  by (simp add: newItems_def)

lemma newItems_append: "digestAdds st' = digestAdds st @ is \<Longrightarrow> newItems st st' = set is"
  by (simp add: newItems_def)

lemma setStatus_keeps:
  "policy (fst (setLCStatusErrors env st lc errs)) = policy st"
  "digestAdds (fst (setLCStatusErrors env st lc errs)) = digestAdds st"
  "policy (fst (setLPPStatusErrors env st lpp errs)) = policy st"
  "digestAdds (fst (setLPPStatusErrors env st lpp errs)) = digestAdds st"
  by (simp_all add: setLCStatusErrors_def setLPPStatusErrors_def Let_def)

lemma Build_error_text: "BuildNodeIndependentLauncherTemplate mj sha lc = Inl e \<Longrightarrow> e \<noteq> []"
  by (auto simp: BuildNodeIndependentLauncherTemplate_def GetInferenceServerContainerIndex_def Let_def
      split: sum.splits if_splits)

lemma lcUsable_digestLC:
  "lcdObject (digestLC env lc) \<noteq> None \<and>
   (lcdTemplateErr (digestLC env lc) = [] \<longleftrightarrow>
     (\<exists>r. BuildNodeIndependentLauncherTemplate (marshalJSON env) (sha256b64 env) lc = Inr r))"
  by (auto simp: digestLC_def dest: Build_error_text split: sum.splits)

lemma mem_lppNamesRefByLC:
  "mok (lpps dp) \<Longrightarrow> p \<in> set (lppNamesRefByLC dp l) \<longleftrightarrow>
   (\<exists>d. mget (lpps dp) p = Some d \<and> countsFor (lppCountForLauncher (lppdObject d)) l \<noteq> {})"
  by (force simp: lppNamesRefByLC_def countsFor_def mget_Some_iff list_ex_iff)

lemma lppNamesRefByLC_lcs [simp]: "lppNamesRefByLC (dp\<lparr>lcs := m\<rparr>) l = lppNamesRefByLC dp l"
  by (simp add: lppNamesRefByLC_def)

lemma updateLC_error:
  "updateDigestForLC env st l = (st', Some e) \<Longrightarrow> policy st' = policy st \<and> digestAdds st' = digestAdds st"
  using setStatus_keeps(1,2) [of env st]
  by (fastforce simp: updateDigestForLC_def Let_def split_beta split: sum.splits if_splits option.splits)

lemma updateLC_ok:
  assumes up: "updateDigestForLC env st l = (st', None)" and ans: "answersFrom env c"
    and obj: "\<And>d. mget (lcs (policy st)) l = Some d \<Longrightarrow> lcdObject d \<noteq> None"
  shows "digest (policy st') = digest (policy st)" "lpps (policy st') = lpps (policy st)"
    and "mget (lcs (policy st')) l' =
      (if l' = l then map_option (digestLC env) (mget (clLCs c) l) else mget (lcs (policy st)) l')"
    and "lcUsable (lcs (policy st')) l \<noteq> lcUsable (lcs (policy st)) l \<Longrightarrow>
      p \<in> set (lppNamesRefByLC (policy st) l) \<Longrightarrow> item kindLPP p \<in> newItems st st'"
proof (atomize (full), goal_cases)
  case 1
  show ?case
  proof (cases "mget (clLCs c) l")
    case None
    then have get: "lcGet env l = Inl ErrNotFound" using ans by (simp add: answersFrom_def)
    show ?thesis
    proof (cases "mget (lcs (policy st)) l")
      case (Some d)
      with up get None obj show ?thesis
        by (auto simp: updateDigestForLC_def Let_def isNotFound_def gomap_simps lcUsable_def
            newItems_def item_def)
    qed (use up get None in \<open>auto simp: updateDigestForLC_def isNotFound_def\<close>)
  next
    case (Some lc)
    then have get: "lcGet env l = Inr lc" using ans by (simp add: answersFrom_def)
    let ?b = "BuildNodeIndependentLauncherTemplate (marshalJSON env) (sha256b64 env) lc"
    let ?s = "setLCStatusErrors env st lc (nonNilSlice (case ?b of Inl e \<Rightarrow> e | Inr _ \<Rightarrow> []))"
    have ok: "snd ?s = None"
      using up get by (cases "snd ?s") (auto simp: updateDigestForLC_def Let_def split_beta)
    have usable: "lcUsable (mput l (digestLC env lc) m) l \<longleftrightarrow> (\<exists>r. ?b = Inr r)" for m
      using lcUsable_digestLC [of env lc] by (simp add: lcUsable_def mget_mput)
    have prev: "lcUsable (lcs (policy st)) l = (case mget (lcs (policy st)) l of None \<Rightarrow> False
        | Some d \<Rightarrow> lcdTemplateErr d = [])"
      using obj by (auto simp: lcUsable_def split: option.splits)
    have pol: "policy st' = (policy st)\<lparr>lcs := mput l (digestLC env lc) (lcs (policy st))\<rparr>"
      using up get ok setStatus_keeps(1) [of env st]
      by (cases ?b) (auto simp: updateDigestForLC_def Let_def split_beta digestLC_def split: if_splits)
    have "digestAdds st' = digestAdds st @ map (item kindLPP) (lppNamesRefByLC (policy st) l)"
      if "lcUsable (lcs (policy st)) l \<noteq> (\<exists>r. ?b = Inr r)"
      using up get ok that setStatus_keeps(1,2) [of env st] prev obj
      by (cases ?b; cases "mget (lcs (policy st)) l")
        (auto simp: updateDigestForLC_def Let_def split_beta item_def split: if_splits)
    then have "lcUsable (lcs (policy st')) l \<noteq> lcUsable (lcs (policy st)) l \<Longrightarrow>
        p \<in> set (lppNamesRefByLC (policy st) l) \<Longrightarrow> item kindLPP p \<in> newItems st st'"
      using newItems_append [of st' st] by (auto simp: pol usable)
    with pol Some show ?thesis by (auto simp: gomap_simps)
  qed
qed

lemma fold_matching:
  "set (fold (\<lambda>x ans. if Q x then List.insert (h x) ans else ans) xs acc) = set acc \<union> h ` {x \<in> set xs. Q x}"
  "distinct acc \<Longrightarrow> distinct (fold (\<lambda>x ans. if Q x then List.insert (h x) ans else ans) xs acc)"
  by (induction xs arbitrary: acc) auto

lemma evaluateLPP_error:
  "evaluateLPP env st p = (st1, Inl e) \<Longrightarrow> policy st1 = policy st \<and> digestAdds st1 = digestAdds st"
  using setStatus_keeps(3,4) [of env st]
  by (fastforce simp: evaluateLPP_def Let_def split_beta split: sum.splits if_splits option.splits)

lemma evaluateLPP_ok:
  assumes ev: "evaluateLPP env st p = (st1, Inr (ns, dig))" and ans: "answersFrom env c"
    and nodes: "mok (clNodes c)" "\<And>n x. mget (clNodes c) n = Some x \<Longrightarrow> Name x = n"
    and gen: "\<And>lpp. mget (clLPPs c) p = Some lpp \<Longrightarrow> generationsTell st lpp p"
    and digs: "\<And>d. mget (lpps (policy st)) p = Some d \<Longrightarrow> d = digestLPP env (lppdObject d)"
  shows "digest (policy st1) = digest (policy st)" "lcs (policy st1) = lcs (policy st)"
    and "digestAdds st1 = digestAdds st" and "mok dig" and "distinct ns"
    and "lpps (policy st1) = (case mget (clLPPs c) p of None \<Rightarrow> mdel p (lpps (policy st))
           | Some lpp \<Rightarrow> mput p (digestLPP env lpp) (lpps (policy st)))"
    and "(if n \<in> set ns \<and> mget dig l \<noteq> None then Some dig else None) =
      Option.bind (mget (clLPPs c) p) (\<lambda>lpp. Option.bind (mget (clNodes c) n) (\<lambda>x. offers (digestLPP env lpp) x l))"
proof (atomize (full), goal_cases)
  case 1
  show ?case
  proof (cases "mget (clLPPs c) p")
    case None
    then have "lppGet env p = Inl ErrNotFound" using ans by (simp add: answersFrom_def)
    with ev None show ?thesis by (auto simp: evaluateLPP_def isNotFound_def)
  next
    case (Some lpp)
    then have get: "lppGet env p = Inr lpp" using ans by (simp add: answersFrom_def)
    let ?sel = "asSelector env (lppLabelSelector lpp)"
    let ?xs = "\<lambda>f. filter (\<lambda>x. f (Labels x)) (map snd (clNodes c))"
    let ?ns = "\<lambda>f. fold (\<lambda>x ans. if matchesResourceConditions (Allocatable x) (lppAllocatableResources lpp)
        then List.insert (Name x) ans else ans) (?xs f) []"
    have match: "getMatchingNodeNames env f (lppAllocatableResources lpp) = Inr (?ns f)" for f
      using ans by (simp add: getMatchingNodeNames_def answersFrom_def)
    have dig: "dig = lppdDigested (digestLPP env lpp)"
      using ev get match gen [OF Some] digs
      by (auto simp: evaluateLPP_def Let_def split_beta digestLPP_def generationsTell_def
          split: sum.splits option.splits if_splits)
        (metis (no_types, lifting) lppDigest.select_convs(3) old.sum.simps(6))+
    have pol: "policy st1 = (policy st)\<lparr>lpps := mput p (digestLPP env lpp) (lpps (policy st))\<rparr>"
      using ev get match dig setStatus_keeps(3) [of env st]
      by (auto simp: evaluateLPP_def Let_def split_beta digestLPP_def split: sum.splits option.splits)
    have adds: "digestAdds st1 = digestAdds st"
      using ev get match setStatus_keeps(4) [of env st]
      by (auto simp: evaluateLPP_def Let_def split_beta split: sum.splits option.splits)
    have ns: "ns = (case ?sel of Inl _ \<Rightarrow> [] | Inr f \<Rightarrow> ?ns f)"
      using ev get match
      by (auto simp: evaluateLPP_def Let_def split_beta split: sum.splits option.splits)
    have mem: "n \<in> set ns \<longleftrightarrow> (\<exists>x. mget (clNodes c) n = Some x \<and> lppMatches (digestLPP env lpp) x)"
      using nodes
      by (force simp: ns fold_matching(1) lppMatches_def digestLPP_def mget_Some_iff split: sum.splits)
    have "distinct ns" by (auto simp: ns fold_matching(2) split: sum.splits)
    moreover have "mok dig" by (auto simp: dig digestLPP_def split: sum.splits)
    ultimately show ?thesis
      using pol adds Some dig mem by (cases "mget (clNodes c) n") (auto simp: offers_def)
  qed
qed

lemma sameCode_eq: "sameCode env env0 \<Longrightarrow> digestLC env = digestLC env0 \<and> digestLPP env = digestLPP env0"
  by (auto simp: sameCode_def digestLC_def [abs_def] digestLPP_def [abs_def])

lemma lppdObject_digestLPP [simp]: "lppdObject (digestLPP env lpp) = lpp"
  by (simp add: digestLPP_def)

subsection \<open>The invariant\<close>

definition clusterOk :: "'sel cluster \<Rightarrow> bool" where
  "clusterOk c \<longleftrightarrow> mok (clNodes c) \<and> (\<forall>n x. mget (clNodes c) n = Some x \<longrightarrow> Name x = n)"

definition countOk :: "int \<Rightarrow> bool" where
  "countOk k \<longleftrightarrow> k = HandsOff \<or> 0 \<le> k"

lemma countOk_wanted: "countOk (wantedCount lcMap lp l)"
proof -
  have "0 \<le> d \<Longrightarrow> 0 \<le> fold (\<lambda>(_, m) d. case mget m l of Some c \<Rightarrow> max d c | None \<Rightarrow> d) lp (d::int)" for d
  proof (induction lp arbitrary: d)
    case (Cons pm lp)
    then show ?case by (cases pm; cases "mget (snd pm) l") simp_all
  qed simp
  then show ?thesis by (simp add: wantedCount_def countOk_def)
qed

lemma countOk_relisted:
  assumes "relisted N Q g st st'" and "\<And>n l. countOk (desiredOf (ent (policy st) n l))"
  shows "countOk (desiredOf (ent (policy st') n l))"
  using relisted_stale(1) [OF assms(1), of n l] assms(2) [of n l] countOk_wanted
  by (cases "consistent (policy st') n l") (auto simp: consistent_def)

text \<open>What holds of the digest alone.\<close>

definition digestOk :: "'sel digestEnv \<Rightarrow> 'sel digestedPolicy \<Rightarrow> bool" where
  "digestOk env dp \<longleftrightarrow> digestWf dp \<and> mok (lpps dp) \<and>
     (\<forall>l d. mget (lcs dp) l = Some d \<longrightarrow> lcdObject d \<noteq> None) \<and>
     (\<forall>p d. mget (lpps dp) p = Some d \<longrightarrow> d = digestLPP env (lppdObject d)) \<and>
     (\<forall>n l p m. look dp n l p = Some m \<longrightarrow>
        (\<exists>d. mget (lpps dp) p = Some d \<and> m = lppdDigested d \<and> mget m l \<noteq> None)) \<and>
     (\<forall>n l. countOk (desiredOf (ent dp n l)))"

text \<open>What holds between digest, cache and pending items.\<close>

definition lcCurrent :: "'sel digestEnv \<Rightarrow> 'sel cluster \<Rightarrow> 'sel digestedPolicy \<Rightarrow> string \<Rightarrow> bool" where
  "lcCurrent env c dp l \<longleftrightarrow> mget (lcs dp) l = map_option (digestLC env) (mget (clLCs c) l)"

definition lppCurrent :: "'sel digestEnv \<Rightarrow> 'sel cluster \<Rightarrow> 'sel digestedPolicy \<Rightarrow> string \<Rightarrow> bool" where
  "lppCurrent env c dp p \<longleftrightarrow> mget (lpps dp) p = map_option (digestLPP env) (mget (clLPPs c) p)"

definition listingCurrent :: "'sel digestedPolicy \<Rightarrow> node \<Rightarrow> string \<Rightarrow> string \<Rightarrow> bool" where
  "listingCurrent dp x n p \<longleftrightarrow>
     (\<forall>l. look dp n l p = Option.bind (mget (lpps dp) p) (\<lambda>d. offers d x l))"

definition syncInv :: "'sel digestEnv \<Rightarrow> 'sel cluster \<Rightarrow> 'sel digestState \<Rightarrow> funcItem set \<Rightarrow> bool" where
  "syncInv env c st P \<longleftrightarrow>
     clusterOk c \<and> digestOk env (policy st) \<and>
     (\<forall>p lpp. mget (clLPPs c) p = Some lpp \<longrightarrow> generationsTell st lpp p) \<and>
     (\<forall>l. item kindLC l \<notin> P \<longrightarrow> lcCurrent env c (policy st) l) \<and>
     (\<forall>p. item kindLPP p \<notin> P \<longrightarrow> lppCurrent env c (policy st) p) \<and>
     (\<forall>n x p. mget (clNodes c) n = Some x \<longrightarrow> item kindNode n \<notin> P \<longrightarrow> item kindLPP p \<notin> P \<longrightarrow>
        listingCurrent (policy st) x n p) \<and>
     (\<forall>n l. mget (clNodes c) n = None \<longrightarrow> item kindNode n \<notin> P \<longrightarrow> ent (policy st) n l = None) \<and>
     (\<forall>n l. \<not> consistent (policy st) n l \<longrightarrow> (\<exists>p. look (policy st) n l p \<noteq> None \<and> item kindLPP p \<in> P))"

lemma item_inject [simp]: "item k n = item k' n' \<longleftrightarrow> k = k' \<and> n = n'"
  by (simp add: item_def)

lemma syncInvD:
  assumes "syncInv env c st P"
  shows "clusterOk c" "digestOk env (policy st)"
    and "mget (clLPPs c) p = Some lpp \<Longrightarrow> generationsTell st lpp p"
    and "item kindLC l \<notin> P \<Longrightarrow> lcCurrent env c (policy st) l"
    and "item kindLPP p \<notin> P \<Longrightarrow> lppCurrent env c (policy st) p"
    and "mget (clNodes c) n = Some x \<Longrightarrow> item kindNode n \<notin> P \<Longrightarrow> item kindLPP p \<notin> P \<Longrightarrow>
        listingCurrent (policy st) x n p"
    and "mget (clNodes c) n = None \<Longrightarrow> item kindNode n \<notin> P \<Longrightarrow> ent (policy st) n l = None"
    and "\<not> consistent (policy st) n l \<Longrightarrow> \<exists>p. look (policy st) n l p \<noteq> None \<and> item kindLPP p \<in> P"
  using assms by (simp_all add: syncInv_def)

lemma digestOkD:
  assumes "digestOk env dp"
  shows "digestWf dp" "mok (lpps dp)"
    and "mget (lcs dp) l = Some d \<Longrightarrow> lcdObject d \<noteq> None"
    and "mget (lpps dp) p = Some e \<Longrightarrow> e = digestLPP env (lppdObject e)"
    and "look dp n l p = Some m \<Longrightarrow> \<exists>d. mget (lpps dp) p = Some d \<and> m = lppdDigested d \<and> mget m l \<noteq> None"
    and "countOk (desiredOf (ent dp n l))"
  using assms by (simp_all add: digestOk_def)

lemma syncInv_init: "(c, st, P) = digestInit \<Longrightarrow> syncInv env c st P"
  by (auto simp: syncInv_def digestInit_def newDigestedPolicy_def clusterOk_def digestOk_def digestWf_def
      ent_def nodeMapOf_def look_def listedLpps_def lcCurrent_def lppCurrent_def listingCurrent_def
      consistent_def desiredOf_def wantedCount_def countOk_def)

text \<open>A change in the cache, with the item that its event handler enqueues.\<close>

lemma syncInv_change:
  assumes "syncInv env c st P" and "policy st' = policy st" and "P \<subseteq> P'" and "clusterOk c'"
    and "\<And>l. item kindLC l \<notin> P' \<Longrightarrow> mget (clLCs c') l = mget (clLCs c) l"
    and "\<And>p. item kindLPP p \<notin> P' \<Longrightarrow> mget (clLPPs c') p = mget (clLPPs c) p"
    and "\<And>n. item kindNode n \<notin> P' \<Longrightarrow> mget (clNodes c') n = mget (clNodes c) n"
    and "\<And>p lpp. mget (clLPPs c') p = Some lpp \<Longrightarrow> generationsTell st lpp p"
  shows "syncInv env c' st' P'"
proof -
  note D = syncInvD [OF assms(1)]
  have mem: "i \<notin> P'  \<Longrightarrow> i \<notin> P" for i using assms(3) by auto
  have 1: "lcCurrent env c' (policy st') l" if "item kindLC l \<notin> P'" for l
    using D(4) [OF mem [OF that]] assms(5) [OF that] assms(2) by (simp add: lcCurrent_def)
  have 2: "lppCurrent env c' (policy st') p" if "item kindLPP p \<notin> P'" for p
    using D(5) [OF mem [OF that]] assms(6) [OF that] assms(2) by (simp add: lppCurrent_def)
  have 3: "listingCurrent (policy st') x n p"
    if "mget (clNodes c') n = Some x" "item kindNode n \<notin> P'" "item kindLPP p \<notin> P'" for n x p
    using D(6) [of n x p] that assms(7) [OF that(2)] mem assms(2) by simp
  have 4: "ent (policy st') n l = None" if "mget (clNodes c') n = None" "item kindNode n \<notin> P'" for n l
    using D(7) [of n l] that assms(7) [OF that(2)] mem assms(2) by simp
  have 5: "\<exists>p. look (policy st') n l p \<noteq> None \<and> item kindLPP p \<in> P'"
    if "\<not> consistent (policy st') n l" for n l
    using D(8) [of n l] that assms(2,3) by (simp, blast)
  show ?thesis
    using 1 2 3 4 5 D(2) assms(2,4,8) unfolding syncInv_def generationsTell_def by simp
qed

lemma syncInv_same_policy:
  assumes "syncInv env c st P" and "policy st' = policy st" and "P \<subseteq> P'"
  shows "syncInv env c st' P'"
  using assms syncInvD(1,3) [OF assms(1)] by (intro syncInv_change [OF assms]) auto

text \<open>Processing an LC, an LPP or a Node item.\<close>

lemma syncInv_LC:
  assumes inv: "syncInv env c st P" and ans: "answersFrom env c"
    and up: "updateDigestForLC env st l = (st', None)"
  shows "syncInv env c st' (P - {item kindLC l} \<union> newItems st st')"
proof -
  note D = syncInvD [OF inv] and ok = digestOkD [OF syncInvD(2) [OF inv]]
  have obj: "\<And>d. mget (lcs (policy st)) l = Some d \<Longrightarrow> lcdObject d \<noteq> None" using ok(3) by blast
  note U = updateLC_ok [OF up ans obj]
  note same = same_digest [OF U(1)]
  have lc: "lcCurrent env c (policy st') l'" if "l' = l \<or> item kindLC l' \<notin> P" for l'
    using that D(4) [of l'] U(3) [of l'] by (auto simp: lcCurrent_def)
  have "digestOk env (policy st')"
  proof -
    have "lcdObject d \<noteq> None" if "mget (lcs (policy st')) l' = Some d" for l' d
      using that ok(3) U(3) [of l'] lcUsable_digestLC [of env] by (auto split: if_splits)
    with ok same U(2) show ?thesis by (simp add: digestOk_def)
  qed
  moreover have "\<exists>p. look (policy st') n l' p \<noteq> None \<and> item kindLPP p \<in> P - {item kindLC l} \<union> newItems st st'"
    if bad: "\<not> consistent (policy st') n l'" for n l'
  proof (cases "consistent (policy st) n l'")
    case False
    with D(8) [OF False] show ?thesis by (auto simp: same)
  next
    case True
    have "lcUsable (lcs (policy st')) l' \<noteq> lcUsable (lcs (policy st)) l'"
      using True bad by (auto simp: consistent_def same wantedCount_def split: if_splits)
    moreover from this have "l' = l" using U(3) [of l'] by (auto simp: lcUsable_def split: if_splits)
    moreover have "ent (policy st) n l' \<noteq> None"
    proof
      assume "ent (policy st) n l' = None"
      then have "consistent (policy st') n l'"
        by (simp add: consistent_def same desiredOf_def listedLpps_def wantedCount_def)
      with bad show False by simp
    qed
    then obtain p m where p: "look (policy st) n l' p = Some m" using ent_None_iff [OF ok(1), of n l'] by auto
    then obtain d where d: "mget (lpps (policy st)) p = Some d" "m = lppdDigested d" "mget m l' \<noteq> None"
      using ok(5) by blast
    with ok(4) [of p d] have "countsFor (lppCountForLauncher (lppdObject d)) l' \<noteq> {}"
      by (cases "asSelector env (lppLabelSelector (lppdObject d))")
        (auto simp: digestLPP_def mget_digestCounts dest!: arg_cong [where f = lppdDigested] split: if_splits)
    with d have "p \<in> set (lppNamesRefByLC (policy st) l')" using mem_lppNamesRefByLC [OF ok(2)] by blast
    ultimately show ?thesis using U(4) [of p] p by (auto simp: same)
  qed
  ultimately show ?thesis
    using D(1,3,5-7) lc U(2)
    by (auto simp: syncInv_def same generationsTell_def lppCurrent_def listingCurrent_def)
qed

lemma syncInv_LPP:
  assumes inv: "syncInv env c st P" and ans: "answersFrom env c"
    and up: "updateDigestForLPP env st p = (st', None)"
  shows "syncInv env c st' (P - {item kindLPP p} \<union> newItems st st')"
proof -
  note D = syncInvD [OF inv] and ok = digestOkD [OF syncInvD(2) [OF inv]]
  obtain st1 ns dig where ev: "evaluateLPP env st p = (st1, Inr (ns, dig))"
    using up by (auto simp: updateDigestForLPP_def split: prod.splits sum.splits)
  have nodes: "mok (clNodes c)" "\<And>n x. mget (clNodes c) n = Some x \<Longrightarrow> Name x = n"
    using D(1) by (auto simp: clusterOk_def)
  have gen: "\<And>lpp. mget (clLPPs c) p = Some lpp \<Longrightarrow> generationsTell st lpp p" using D(3) by blast
  have digs: "\<And>d. mget (lpps (policy st)) p = Some d \<Longrightarrow> d = digestLPP env (lppdObject d)" using ok(4) by blast
  note E = evaluateLPP_ok [OF ev ans nodes gen digs]
  note same = same_digest [OF E(1)]
  let ?g = "\<lambda>n l. Option.bind (mget (clLPPs c) p)
    (\<lambda>lpp. Option.bind (mget (clNodes c) n) (\<lambda>x. offers (digestLPP env lpp) x l))"
  have rel: "relisted (\<lambda>n. True) (\<lambda>q. q = p) (\<lambda>n l q. ?g n l) st1 st'"
    using updateLPP_relists [of st1 dig ns p] ok(1) same E(4,5) up ev
    by (simp add: updateDigestForLPP_def Let_def E(7) [symmetric])
  have look: "look (policy st') n l q = (if q = p then ?g n l else look (policy st) n l q)"
    and wf: "digestWf (policy st')" and lcs: "lcs (policy st') = lcs (policy st)"
    and lpps: "lpps (policy st') = lpps (policy st1)" and adds: "newItems st st' = {}" for n l q
    using rel same E(2,3) by (simp_all add: relisted_def sameRest_def newItems_def)
  have mlpps: "mget (lpps (policy st')) q =
      (if q = p then map_option (digestLPP env) (mget (clLPPs c) p) else mget (lpps (policy st)) q)" for q
    by (auto simp: lpps E(6) gomap_simps split: option.splits)
  have "mok (lpps (policy st'))" using ok(2) by (auto simp: lpps E(6) intro: wf_intros split: option.splits)
  moreover have "\<exists>d. mget (lpps (policy st')) q = Some d \<and> m = lppdDigested d \<and> mget m l \<noteq> None"
    if "look (policy st') n l q = Some m" for n l q m
    using that ok(5) [of n l q m]
    by (auto simp: look mlpps offers_def bind_eq_Some_conv split: if_splits)
  moreover have "d = digestLPP env (lppdObject d)" if "mget (lpps (policy st')) q = Some d" for q d
    using that ok(4) [of q d] by (auto simp: mlpps split: if_splits)
  ultimately have "digestOk env (policy st')"
    using wf lcs ok(3) countOk_relisted [OF rel] ok(6) by (simp add: digestOk_def same)
  moreover have "generationsTell st' lpp q" if "mget (clLPPs c) q = Some lpp" for q lpp
    using D(3) [OF that] that by (auto simp: generationsTell_def mlpps split: option.splits)
  moreover have "lppCurrent env c (policy st') q" if "item kindLPP q \<notin> P - {item kindLPP p}" for q
    using that D(5) [of q] by (auto simp: lppCurrent_def mlpps)
  moreover have "listingCurrent (policy st') x n q"
    if "mget (clNodes c) n = Some x" "item kindNode n \<notin> P" "item kindLPP q \<notin> P - {item kindLPP p}" for n x q
  proof (cases "q = p")
    case True
    with that show ?thesis
      by (simp add: listingCurrent_def look mlpps) (simp add: Option.bind_map_option o_def)
  next
    case False
    with that D(6) [of n x q] show ?thesis by (auto simp: listingCurrent_def look mlpps)
  qed
  moreover have "ent (policy st') n l = None" if "mget (clNodes c) n = None" "item kindNode n \<notin> P" for n l
    using D(7) [OF that, of l] that ent_None_iff [OF wf] ent_None_iff [OF ok(1)]
    by (auto simp: look bind_eq_None_conv split: option.splits)
  moreover have "\<exists>q. look (policy st') n l q \<noteq> None \<and> item kindLPP q \<in> P - {item kindLPP p}"
    if bad: "\<not> consistent (policy st') n l" for n l
  proof -
    note stale = relisted_stale [OF rel bad]
    have "\<not> consistent (policy st) n l" using stale(3) same E(2) by (simp add: consistent_def)
    with D(8) obtain q where "look (policy st) n l q \<noteq> None" "item kindLPP q \<in> P" by blast
    with stale(2) [of p] same show ?thesis by (cases "q = p") (auto simp: look intro!: exI [of _ q])
  qed
  ultimately show ?thesis
    using D(1,4) by (auto simp: syncInv_def adds lcCurrent_def lcs)
qed

lemma syncInv_Node:
  assumes inv: "syncInv env c st P" and ans: "answersFrom env c"
    and up: "updateDigestForNode env st n = (st', None)"
  shows "syncInv env c st' (P - {item kindNode n} \<union> newItems st st')"
proof (cases "mget (clNodes c) n")
  case None
  note D = syncInvD [OF inv] and ok = digestOkD [OF syncInvD(2) [OF inv]]
  have "nodeGet env n = Inl ErrNotFound" using ans None by (simp add: answersFrom_def)
  with up have st': "st' = st\<lparr>policy := setNode n [] (policy st)\<rparr>"
    by (auto simp: updateDigestForNode_def isNotFound_def setNode_def)
  have ent: "ent (policy st') n' l = (if n' = n then None else ent (policy st) n' l)" for n' l
    by (simp add: st' ent_setNode)
  then have look: "look (policy st') n' l q = (if n' = n then None else look (policy st) n' l q)" for n' l q
    by (simp add: look_def listedLpps_def)
  have wf: "digestWf (policy st')" using ok(1) by (auto simp: st' intro: digestWf_setNode)
  have rest: "lcs (policy st') = lcs (policy st)" "lpps (policy st') = lpps (policy st)"
    and adds: "newItems st st' = {}"
    by (simp_all add: st' newItems_def)
  have cons: "consistent (policy st') n' l \<longleftrightarrow> n' = n \<or> consistent (policy st) n' l" for n' l
    by (cases "n' = n") (simp_all add: consistent_def ent rest desiredOf_def listedLpps_def wantedCount_def)
  have "digestOk env (policy st')"
    using ok wf by (auto simp: digestOk_def look rest ent desiredOf_def countOk_def)
  then show ?thesis
    using D None
    by (auto simp: syncInv_def generationsTell_def lcCurrent_def lppCurrent_def listingCurrent_def
        look ent cons rest adds)
next
  case (Some x)
  note D = syncInvD [OF inv] and ok = digestOkD [OF syncInvD(2) [OF inv]]
  have name: "Name x = n" using D(1) Some by (simp add: clusterOk_def)
  have "nodeGet env n = Inr x" using ans Some by (simp add: answersFrom_def)
  with up have st': "st' = recomputeDigestForNode st x" by (simp add: updateDigestForNode_def)
  have "mok (lppdDigested d)" if "mget (lpps (policy st)) p = Some d" for p d
    using ok(4) [OF that] by (auto simp: digestLPP_def split: sum.splits dest!: arg_cong [where f = lppdDigested])
  then have rel: "relisted (\<lambda>n'. n' = n) (\<lambda>q. mget (lpps (policy st)) q \<noteq> None)
     (\<lambda>n l q. Option.bind (mget (lpps (policy st)) q) (\<lambda>d. offers d x l)) st st'"
    unfolding st' name [symmetric] by (rule recomputeDigestForNode_relists [OF ok(1,2)])
  have none: "mget (lpps (policy st)) q = None \<Longrightarrow> look (policy st) n' l q = None" for n' l q
    using ok(5) [of n' l q] by (cases "look (policy st) n' l q") auto
  have look: "look (policy st') n' l q =
      (if n' = n then Option.bind (mget (lpps (policy st)) q) (\<lambda>d. offers d x l) else look (policy st) n' l q)"
    and wf: "digestWf (policy st')" and rest: "lcs (policy st') = lcs (policy st)"
      "lpps (policy st') = lpps (policy st)" and adds: "newItems st st' = {}" for n' l q
    using rel none [of q n l] by (simp_all add: relisted_def sameRest_def newItems_def)
  have "digestOk env (policy st')"
    using ok wf countOk_relisted [OF rel]
    by (auto simp: digestOk_def look rest offers_def bind_eq_Some_conv split: if_splits)
  moreover have "listingCurrent (policy st') y n' q"
    if "mget (clNodes c) n' = Some y" "item kindNode n' \<notin> P - {item kindNode n}" "item kindLPP q \<notin> P" for n' y q
    using that Some D(6) [of n' y q] by (auto simp: listingCurrent_def look rest)
  moreover have "ent (policy st') n' l = None"
    if "mget (clNodes c) n' = None" "item kindNode n' \<notin> P - {item kindNode n}" for n' l
    using D(7) [of n' l] that Some ent_None_iff [OF wf] ent_None_iff [OF ok(1)] by (auto simp: look)
  moreover have "\<exists>q. look (policy st') n' l q \<noteq> None \<and> item kindLPP q \<in> P"
    if bad: "\<not> consistent (policy st') n' l" for n' l
  proof -
    note stale = relisted_stale [OF rel bad]
    from D(8) [OF stale(3)] obtain q where q: "look (policy st) n' l q \<noteq> None" "item kindLPP q \<in> P" by blast
    have "mget (lpps (policy st)) q \<noteq> None" using none [of q n' l] q(1) by auto
    then have "n' \<noteq> n" using stale(2) [of q] q(1) by auto
    with q show ?thesis by (auto simp: look)
  qed
  ultimately show ?thesis
    using D(1,3,4,5)
    by (auto simp: syncInv_def generationsTell_def lcCurrent_def lppCurrent_def rest adds)
qed

text \<open>The event handlers.\<close>

definition itemsOf :: "'sel watchedObject \<Rightarrow> funcItem set" where
  "itemsOf w = (case w of WNode x \<Rightarrow> {item kindNode (Name x)} | WLPP x \<Rightarrow> {item kindLPP (Name x)}
      | WLC x \<Rightarrow> {item kindLC (Name x)} | _ \<Rightarrow> {})"

lemma handler_items:
  "policy (OnAdd st w) = policy st" "newItems st (OnAdd st w) = itemsOf w"
  "policy (OnUpdate st prev w) = policy st" "newItems st (OnUpdate st prev w) = itemsOf w"
  "policy (OnDelete st (PlainObject w)) = policy st" "newItems st (OnDelete st (PlainObject w)) = itemsOf w"
  "policy (OnDelete st (DeletedFinalStateUnknown w)) = policy st"
  "newItems st (OnDelete st (DeletedFinalStateUnknown w)) = itemsOf w"
  by (cases w; simp add: OnAdd_def OnUpdate_def OnDelete_def addDigestItem_def newItems_def item_def
      itemsOf_def Let_def)+

lemma processDigestItem_cases:
  "processDigestItem env st f = (st', (e, retry)) \<Longrightarrow>
   \<exists>n. f = item kindLPP n \<and> updateDigestForLPP env st n = (st', e) \<or>
       f = item kindLC n \<and> updateDigestForLC env st n = (st', e) \<or>
       f = item kindNode n \<and> updateDigestForNode env st n = (st', e) \<or>
       st' = st \<and> e \<noteq> None"
  by (cases f; cases "fiKind f") (auto simp: processDigestItem_def item_def split: prod.splits)

lemma process_error:
  assumes "processDigestItem env st f = (st', (Some e, retry))"
  shows "policy st' = policy st"
proof -
  have lpp: "updateDigestForLPP env st p = (st', Some e) \<Longrightarrow> policy st' = policy st" for p
    by (auto simp: updateDigestForLPP_def dest: evaluateLPP_error split: prod.splits sum.splits)
  have nod: "updateDigestForNode env st n = (st', Some e) \<Longrightarrow> policy st' = policy st" for n
    by (auto simp: updateDigestForNode_def split: sum.splits if_splits)
  have lc: "updateDigestForLC env st l = (st', Some e) \<Longrightarrow> policy st' = policy st" for l
    using updateLC_error by blast
  show ?thesis using processDigestItem_cases [OF assms] lpp nod lc by auto
qed

lemma sameCode_syncInv: "sameCode env env0 \<Longrightarrow> syncInv env c st P = syncInv env0 c st P"
  by (simp add: syncInv_def digestOk_def lcCurrent_def lppCurrent_def sameCode_eq)

lemma syncInv_nodes:
  assumes "syncInv env c st P" and "policy st' = policy st" and "mok (clNodes c) \<Longrightarrow> mok ns"
    and "\<And>n. n \<noteq> nm \<Longrightarrow> mget ns n = mget (clNodes c) n" and "\<And>x. mget ns nm = Some x \<Longrightarrow> Name x = nm"
  shows "syncInv env (c\<lparr>clNodes := ns\<rparr>) st' (P \<union> {item kindNode nm})"
proof (rule syncInv_change [OF assms(1,2)])
  have "Name x = n" if "mget ns n = Some x" for n x
    using that assms(4,5) syncInvD(1) [OF assms(1)] by (cases "n = nm") (auto simp: clusterOk_def)
  then show "clusterOk (c\<lparr>clNodes := ns\<rparr>)" using assms(3) syncInvD(1) [OF assms(1)] by (simp add: clusterOk_def)
qed (use assms(4) syncInvD(3) [OF assms(1)] in auto)

lemma syncInv_lcs:
  assumes "syncInv env c st P" and "policy st' = policy st"
    and "\<And>n. n \<noteq> nm \<Longrightarrow> mget m n = mget (clLCs c) n"
  shows "syncInv env (c\<lparr>clLCs := m\<rparr>) st' (P \<union> {item kindLC nm})"
  by (rule syncInv_change [OF assms(1,2)])
    (use assms(3) syncInvD(1,3) [OF assms(1)] in \<open>auto simp: clusterOk_def\<close>)

lemma syncInv_lpps:
  assumes "syncInv env c st P" and "policy st' = policy st"
    and "\<And>n. n \<noteq> nm \<Longrightarrow> mget m n = mget (clLPPs c) n"
    and "\<And>lpp. mget m nm = Some lpp \<Longrightarrow> generationsTell st lpp nm"
  shows "syncInv env (c\<lparr>clLPPs := m\<rparr>) st' (P \<union> {item kindLPP nm})"
proof (rule syncInv_change [OF assms(1,2)])
  show "generationsTell st lpp p" if "mget (clLPPs (c\<lparr>clLPPs := m\<rparr>)) p = Some lpp" for p lpp
    using that assms(3,4) syncInvD(3) [OF assms(1)] by (cases "p = nm") auto
qed (use assms(3) syncInvD(1) [OF assms(1)] in \<open>auto simp: clusterOk_def\<close>)

definition sysInv :: "'sel digestEnv \<Rightarrow> 'sel digestSystem \<Rightarrow> bool" where
  "sysInv env s = (case s of (c, st, P) \<Rightarrow> syncInv env c st P)"

lemma sysInv_step: "digestStep generationsTell env0 s s' \<Longrightarrow> sysInv env0 s \<Longrightarrow> sysInv env0 s'"
proof (induction rule: digestStep.induct)
  case (putNode st' st x prev c P)
  have "policy st' = policy st" "newItems st st' = {item kindNode (Name x)}"
    using putNode.hyps by (auto simp: handler_items itemsOf_def)
  then show ?case using putNode.prems
    by (simp only: sysInv_def prod.case)
      (rule syncInv_nodes, auto simp: gomap_simps intro: wf_intros)
next
  case (delNode c x st' st P)
  have "policy st' = policy st" "newItems st st' = {item kindNode (Name x)}"
    using delNode.hyps by (auto simp: handler_items itemsOf_def)
  then show ?case using delNode.prems
    by (simp only: sysInv_def prod.case)
      (rule syncInv_nodes, auto simp: gomap_simps intro: wf_intros)
next
  case (putLC st' st lc prev c P)
  have "policy st' = policy st" "newItems st st' = {item kindLC (Name lc)}"
    using putLC.hyps by (auto simp: handler_items itemsOf_def)
  then show ?case using putLC.prems
    by (simp only: sysInv_def prod.case) (rule syncInv_lcs, auto simp: gomap_simps)
next
  case (delLC st' st lc c P)
  have "policy st' = policy st" "newItems st st' = {item kindLC (Name lc)}"
    using delLC.hyps by (auto simp: handler_items itemsOf_def)
  then show ?case using delLC.prems
    by (simp only: sysInv_def prod.case) (rule syncInv_lcs, auto simp: gomap_simps)
next
  case (putLPP st lpp st' prev c P)
  have "policy st' = policy st" "newItems st st' = {item kindLPP (Name lpp)}"
    using putLPP.hyps by (auto simp: handler_items itemsOf_def)
  then show ?case using putLPP.prems putLPP.hyps(1)
    by (simp only: sysInv_def prod.case) (rule syncInv_lpps, auto simp: gomap_simps)
next
  case (delLPP st' st lpp c P)
  have "policy st' = policy st" "newItems st st' = {item kindLPP (Name lpp)}"
    using delLPP.hyps by (auto simp: handler_items itemsOf_def)
  then show ?case using delLPP.prems
    by (simp only: sysInv_def prod.case) (rule syncInv_lpps, auto simp: gomap_simps)
next
  case (processed f P env c st st' retry)
  have inv: "syncInv env c st P"
    using processed.prems sameCode_syncInv [OF processed.hyps(3)] by (simp add: sysInv_def)
  have "syncInv env c st' (P - {f} \<union> newItems st st')"
    using processDigestItem_cases [OF processed.hyps(4)] syncInv_LPP [OF inv processed.hyps(2)]
      syncInv_LC [OF inv processed.hyps(2)] syncInv_Node [OF inv processed.hyps(2)] by auto
  then show ?case using sameCode_syncInv [OF processed.hyps(3)] by (simp add: sysInv_def)
next
  case (failed f P env c st st' err retry)
  have "policy st' = policy st" using failed.hyps(4) by (rule process_error)
  with failed.prems show ?case by (auto simp: sysInv_def intro: syncInv_same_policy)
qed

lemma sysInv_reach: "digestReach generationsTell env0 s \<Longrightarrow> sysInv env0 s"
proof (induction rule: digestReach.induct)
  case init
  obtain c :: "'a cluster" and st P where eq: "(c, st, P) = digestInit" by (metis prod_cases3)
  show ?case using syncInv_init [OF eq] by (simp add: sysInv_def eq [symmetric])
qed (rule sysInv_step)

subsection \<open>Quiescence\<close>

lemma Max_Union:
  assumes "finite I" and "\<And>i. i \<in> I \<Longrightarrow> finite (A i)"
  shows "Max (insert 0 {Max (insert 0 (A i)) | i. i \<in> I \<and> A i \<noteq> {}}) = Max (insert (0::int) (\<Union>i \<in> I. A i))"
    (is "?L = ?R")
proof (rule antisym)
  have fin1: "finite {Max (insert 0 (A i)) | i. i \<in> I \<and> A i \<noteq> {}}" using assms(1) by simp
  have fin2: "finite (\<Union>i \<in> I. A i)" using assms by blast
  show "?L \<le> ?R"
  proof (rule Max.boundedI)
    fix a assume "a \<in> insert 0 {Max (insert 0 (A i)) | i. i \<in> I \<and> A i \<noteq> {}}"
    then consider "a = 0" | i where "i \<in> I" "a = Max (insert 0 (A i))" by auto
    then show "a \<le> ?R"
    proof cases
      case 2
      have "Max (insert 0 (A i)) \<le> ?R"
        by (rule Max_mono) (use 2 fin2 in auto)
      with 2 show ?thesis by simp
    qed (use fin2 in simp)
  qed (use fin1 in auto)
  show "?R \<le> ?L"
  proof (rule Max.boundedI)
    fix a assume "a \<in> insert 0 (\<Union>i \<in> I. A i)"
    then consider "a = 0" | i where "i \<in> I" "a \<in> A i" by auto
    then show "a \<le> ?L"
    proof cases
      case 2
      then have "a \<le> Max (insert 0 (A i))" using assms by (intro Max_ge) auto
      also have "\<dots> \<le> ?L" using 2 fin1 by (intro Max_ge) auto
      finally show ?thesis .
    qed (use fin1 in simp)
  qed (use fin2 in auto)
qed

definition demandsBy :: "'sel digestEnv \<Rightarrow> 'sel cluster \<Rightarrow> string \<Rightarrow> string \<Rightarrow> string \<Rightarrow> int set" where
  "demandsBy env c n l p =
     (case (mget (clNodes c) n, mget (clLPPs c) p) of
        (Some x, Some lpp) \<Rightarrow> if lppMatches (digestLPP env lpp) x then countsFor (lppCountForLauncher lpp) l else {}
      | _ \<Rightarrow> {})"

lemma lppMatches_digestLPP:
  "lppMatches (digestLPP env lpp) x \<longleftrightarrow> (case asSelector env (lppLabelSelector lpp) of Inl _ \<Rightarrow> False
     | Inr f \<Rightarrow> f (Labels x) \<and> matchesResourceConditions (Allocatable x) (lppAllocatableResources lpp))"
  by (simp add: lppMatches_def digestLPP_def split: sum.split)

lemma demands_Union: "demands env c n l = (\<Union>p \<in> fst ` set (clLPPs c). demandsBy env c n l p)"
proof -
  have "demandsBy env c n l p \<noteq> {} \<Longrightarrow> p \<in> fst ` set (clLPPs c)" for p
    using mget_None_iff [of "clLPPs c" p] by (auto simp: demandsBy_def split: option.splits)
  then have "(\<Union>p \<in> fst ` set (clLPPs c). demandsBy env c n l p) = (\<Union>p. demandsBy env c n l p)" by blast
  also have "\<dots> = demands env c n l"
    unfolding demands_def lppMatches_digestLPP [symmetric]
    by (auto simp: demandsBy_def countsFor_def split: option.splits if_splits) force+
  finally show ?thesis by simp
qed

lemma finite_demandsBy: "finite (demandsBy env c n l p)"
  by (simp add: demandsBy_def split: option.split)

text \<open>In a quiescent state the policies listed for a key are those that match, with their counts.\<close>

lemma quiescent_look:
  assumes "syncInv env c st {}"
  shows "look (policy st) n l p =
    (if demandsBy env c n l p = {} then None
     else map_option (\<lambda>lpp. digestCounts (lppCountForLauncher lpp)) (mget (clLPPs c) p))"
proof (cases "mget (clNodes c) n")
  case None
  with syncInvD(7) [OF assms None] show ?thesis by (simp add: look_def listedLpps_def demandsBy_def)
next
  case (Some x)
  have "lppCurrent env c (policy st) p" using syncInvD(5) [OF assms] by simp
  then have cur: "mget (lpps (policy st)) p = map_option (digestLPP env) (mget (clLPPs c) p)"
    by (simp add: lppCurrent_def)
  have "listingCurrent (policy st) x n p" using syncInvD(6) [OF assms Some] by simp
  then have "look (policy st) n l p = Option.bind (mget (lpps (policy st)) p) (\<lambda>d. offers d x l)"
    by (simp add: listingCurrent_def)
  then show ?thesis using Some
    by (cases "mget (clLPPs c) p")
      (auto simp: cur demandsBy_def offers_def lppMatches_def digestLPP_def mget_digestCounts split: sum.splits)
qed

lemma quiescent_wanted:
  assumes inv: "syncInv env c st {}" and e: "ent (policy st) n l = Some e"
  shows "deDesiredCount e = (if lcUsable (lcs (policy st)) l then Max (insert 0 (demands env c n l)) else HandsOff)"
proof -
  have wf: "digestWf (policy st)" using digestOkD(1) [OF syncInvD(2) [OF inv]] .
  then have lp: "deLpps e \<noteq> []" "mok (deLpps e)" using e by (auto simp: digestWf_def)
  have "consistent (policy st) n l" using syncInvD(8) [OF inv] by auto
  then have "deDesiredCount e = wantedCount (lcs (policy st)) (deLpps e) l"
    using e by (simp add: consistent_def desiredOf_def listedLpps_def)
  also have "\<dots> = (if lcUsable (lcs (policy st)) l
      then Max (insert 0 {k. \<exists>(p, m) \<in> set (deLpps e). mget m l = Some k}) else HandsOff)"
    using lp(1) by (simp add: wantedCount_def fold_max_Max)
  also have "{k. \<exists>(p, m) \<in> set (deLpps e). mget m l = Some k} =
      {Max (insert 0 (demandsBy env c n l p)) | p. p \<in> fst ` set (clLPPs c) \<and> demandsBy env c n l p \<noteq> {}}"
  proof -
    have mem: "(p, m) \<in> set (deLpps e) \<longleftrightarrow>
        (\<exists>lpp. demandsBy env c n l p \<noteq> {} \<and> mget (clLPPs c) p = Some lpp \<and> m = digestCounts (lppCountForLauncher lpp))"
      for p m
      using quiescent_look [OF inv, of n l p] e lp(2)
      by (auto simp: look_def listedLpps_def mget_Some_iff [symmetric])
    have cnt: "demandsBy env c n l p \<noteq> {} \<Longrightarrow> mget (clLPPs c) p = Some lpp \<Longrightarrow>
        mget (digestCounts (lppCountForLauncher lpp)) l = Some (Max (insert 0 (demandsBy env c n l p)))" for p lpp
      by (auto simp: demandsBy_def mget_digestCounts split: option.splits if_splits)
    have dom: "demandsBy env c n l p \<noteq> {} \<Longrightarrow> \<exists>lpp. mget (clLPPs c) p = Some lpp" for p
      by (auto simp: demandsBy_def split: option.splits)
    have key: "mget (clLPPs c) p = Some lpp \<Longrightarrow> p \<in> fst ` set (clLPPs c)" for p lpp
      using mget_None_iff [of "clLPPs c" p] by auto
    have "(\<exists>(p, m) \<in> set (deLpps e). mget m l = Some k) \<longleftrightarrow>
        (\<exists>p. k = Max (insert 0 (demandsBy env c n l p)) \<and> p \<in> fst ` set (clLPPs c) \<and> demandsBy env c n l p \<noteq> {})" for k
    proof
      assume "\<exists>(p, m) \<in> set (deLpps e). mget m l = Some k"
      then obtain p m where pm: "(p, m) \<in> set (deLpps e)" "mget m l = Some k" by blast
      then obtain lpp where "demandsBy env c n l p \<noteq> {}" "mget (clLPPs c) p = Some lpp"
        "mget (digestCounts (lppCountForLauncher lpp)) l = Some k"
        using mem [of p m] by auto
      with cnt key show "\<exists>p. k = Max (insert 0 (demandsBy env c n l p)) \<and> p \<in> fst ` set (clLPPs c) \<and> demandsBy env c n l p \<noteq> {}"
        by (metis option.inject)
    next
      assume "\<exists>p. k = Max (insert 0 (demandsBy env c n l p)) \<and> p \<in> fst ` set (clLPPs c) \<and> demandsBy env c n l p \<noteq> {}"
      then obtain p where p: "k = Max (insert 0 (demandsBy env c n l p))" "demandsBy env c n l p \<noteq> {}" by blast
      with dom obtain lpp where lpp: "mget (clLPPs c) p = Some lpp" by blast
      with p mem [of p] have "(p, digestCounts (lppCountForLauncher lpp)) \<in> set (deLpps e)" by auto
      with cnt [OF p(2) lpp] p(1) show "\<exists>(p, m) \<in> set (deLpps e). mget m l = Some k" by auto
    qed
    then show ?thesis by (intro set_eqI) (simp only: mem_Collect_eq)
  qed
  also have "Max (insert 0 \<dots>) = Max (insert 0 (demands env c n l))"
    unfolding demands_Union by (rule Max_Union) (simp_all add: finite_demandsBy)
  finally show ?thesis .
qed

lemma quiescent_exists:
  assumes inv: "syncInv env c st {}"
  shows "ent (policy st) n l = None \<longleftrightarrow> demands env c n l = {}"
proof -
  have wf: "digestWf (policy st)" using digestOkD(1) [OF syncInvD(2) [OF inv]] .
  have "look (policy st) n l p = None \<longleftrightarrow> demandsBy env c n l p = {}" for p
    using quiescent_look [OF inv, of n l p]
    by (cases "mget (clLPPs c) p") (auto simp: demandsBy_def split: option.splits)
  then have "(\<forall>p. look (policy st) n l p = None) \<longleftrightarrow> (\<forall>p. demandsBy env c n l p = {})" by simp
  moreover have "(\<forall>p. demandsBy env c n l p = {}) \<longleftrightarrow> demands env c n l = {}"
  proof -
    have "demandsBy env c n l p \<noteq> {} \<Longrightarrow> p \<in> fst ` set (clLPPs c)" for p
      using mget_None_iff [of "clLPPs c" p] by (auto simp: demandsBy_def split: option.splits)
    then show ?thesis unfolding demands_Union SUP_bot_conv by metis
  qed
  ultimately show ?thesis using ent_None_iff [OF wf] by simp
qed

lemma snapshot_ent:
  "snapshotForKey dp (mkKey n l) =
     \<lparr>snapExists = (ent dp n l \<noteq> None), snapDesiredCount = desiredOf (ent dp n l),
      snapTemplateHash = (case mget (lcs dp) l of None \<Rightarrow> [] | Some d \<Rightarrow> lcdTemplateHash d),
      snapTemplate = (case mget (lcs dp) l of None \<Rightarrow> None | Some d \<Rightarrow> lcdNodeIndependent d)\<rparr>"
proof -
  have "snd (getEntry dp n l False) = ent dp n l"
    by (simp add: getEntry_def ent_def nodeMapOf_def split: option.split)
  then show ?thesis by (simp add: snapshotForKey_def Let_def desiredOf_def)
qed

lemma quiescent_snapshot:
  assumes "digestReach generationsTell env0 (c, st, {})"
  shows "snapshotForKey (policy st) (mkKey n l) = specSnapshot env0 c n l"
proof -
  have inv: "syncInv env0 c st {}" using sysInv_reach [OF assms] by (simp add: sysInv_def)
  have lc: "mget (lcs (policy st)) l = map_option (digestLC env0) (mget (clLCs c) l)"
    using syncInvD(4) [OF inv] by (simp add: lcCurrent_def)
  have usable: "lcUsable (lcs (policy st)) l \<longleftrightarrow> (\<exists>lc r. mget (clLCs c) l = Some lc \<and>
      BuildNodeIndependentLauncherTemplate (marshalJSON env0) (sha256b64 env0) lc = Inr r)"
    using lcUsable_digestLC [of env0] by (auto simp: lcUsable_def lc split: option.splits)
  have "desiredOf (ent (policy st) n l) = (if demands env0 c n l = {} then 0
      else if lcUsable (lcs (policy st)) l then Max (insert 0 (demands env0 c n l)) else HandsOff)"
    using quiescent_exists [OF inv, of n l] quiescent_wanted [OF inv, of n l]
    by (cases "ent (policy st) n l") (auto simp: desiredOf_def)
  then show ?thesis
    using quiescent_exists [OF inv, of n l] usable
    by (auto simp: snapshot_ent specSnapshot_def lc digestLC_def Let_def split: option.splits sum.splits)
qed

subsection \<open>Properties\<close>

text \<open>
  C1: in every history in which a policy that appears in the cache is told apart by its Generation from the one digested
  under its name, whatever changes to Nodes, LauncherConfigs and LauncherPopulationPolicies the
  controller has seen, and however processing was ordered, repeated or failed, once no item of the
  digest queue is pending the snapshot of every key is what the current objects ask for: the key
  exists exactly when some policy that matches the Node mentions the LauncherConfig; the desired count
  is the largest that such a policy gives, or hands-off when the LauncherConfig is missing or
  malformed, and 0 when no such policy mentions it; and the template and its hash are those of the LauncherConfig.
\<close>

theorem digest_quiescent_is_policy:
  assumes "digestReach generationsTell env0 (c, st, {})"
  shows "snapshotForKey (policy st) (mkKey n l) = specSnapshot env0 c n l"
  using assms by (rule quiescent_snapshot)

text \<open>A cluster with one LauncherConfig, one Node and one policy, for concrete examples.\<close>

definition cacheEnv :: "unit cluster \<Rightarrow> unit digestEnv" where
  "cacheEnv c = \<lparr>marshalJSON = (\<lambda>_. Inr ''json''), sha256b64 = (\<lambda>_. ''hash''), asSelector = (\<lambda>_. Inr (\<lambda>_. True)),
     lcGet = (\<lambda>n. case mget (clLCs c) n of None \<Rightarrow> Inl ErrNotFound | Some x \<Rightarrow> Inr x),
     lppGet = (\<lambda>n. case mget (clLPPs c) n of None \<Rightarrow> Inl ErrNotFound | Some x \<Rightarrow> Inr x),
     nodeGet = (\<lambda>n. case mget (clNodes c) n of None \<Rightarrow> Inl ErrNotFound | Some x \<Rightarrow> Inr x),
     nodeList = (\<lambda>sel. Inr (filter (\<lambda>x. sel (Labels x)) (map snd (clNodes c)))),
     updateLCStatus = (\<lambda>_. None), updateLPPStatus = (\<lambda>_. None)\<rparr>"

lemma cacheEnv_answers: "answersFrom (cacheEnv c) c" "sameCode (cacheEnv c) (cacheEnv c')"
  by (simp_all add: answersFrom_def sameCode_def cacheEnv_def)

definition exampleNode :: node where
  "exampleNode = blankNode\<lparr>Name := ''n1''\<rparr>"

definition exampleLPP :: "unit launcherPopulationPolicy" where
  "exampleLPP = \<lparr>Name = ''p1'', Namespace = ''ns'', GenerateName = '''', UID = ''u'', ResourceVersion = ''1'',
     Generation = 1, Labels = Map.empty, Annotations = Map.empty, Finalizers = [], OwnerReferences = [],
     CreationTimestamp = 0, DeletionTimestamp = None, ManagedFields = [],
     lppLabelSelector = (), lppAllocatableResources = [],
     lppCountForLauncher = [\<lparr>cflLauncherConfigName = Name exampleLC, cflLauncherCount = 2\<rparr>,
                            \<lparr>cflLauncherConfigName = Name exampleLC, cflLauncherCount = 3\<rparr>],
     lppObservedGeneration = 0, lppErrors = []\<rparr>"

lemma example_names [simp]: "Name exampleNode = ''n1''" "Name exampleLPP = ''p1''"
  by (simp_all add: exampleNode_def exampleLPP_def blank_defs)

definition exC1 :: "unit cluster" where
  "exC1 = \<lparr>clNodes = [], clLCs = [(Name exampleLC, exampleLC)], clLPPs = []\<rparr>"
definition exC2 :: "unit cluster" where
  "exC2 = exC1\<lparr>clNodes := [(''n1'', exampleNode)]\<rparr>"
definition exC3 :: "unit cluster" where
  "exC3 = exC2\<lparr>clLPPs := [(''p1'', exampleLPP)]\<rparr>"

definition exS0 :: "unit digestState" where
  "exS0 = \<lparr>policy = newDigestedPolicy, metrics = newMetricsState, digestAdds = [], keyAdds = [], statusCalls = []\<rparr>"
definition exS1 :: "unit digestState" where
  "exS1 = fst (processDigestItem (cacheEnv exC1) (OnAdd exS0 (WLC exampleLC)) (item kindLC (Name exampleLC)))"
definition exS2 :: "unit digestState" where
  "exS2 = fst (processDigestItem (cacheEnv exC2) (OnAdd exS1 (WNode exampleNode)) (item kindNode ''n1''))"
definition exS3 :: "unit digestState" where
  "exS3 = fst (processDigestItem (cacheEnv exC3) (OnAdd exS2 (WLPP exampleLPP)) (item kindLPP ''p1''))"

text \<open>One change of the cache followed by the processing of its item.\<close>

lemma reach_item:
  assumes "digestReach ok env0 (c, st, {})" and "digestStep ok env0 (c, st, {}) (c', st1, {} \<union> newItems st st1)"
    and "newItems st st1 = {f}" and "answersFrom env c'" and "sameCode env env0"
    and "snd (processDigestItem env st1 f) = (None, False)" and "newItems st1 (fst (processDigestItem env st1 f)) = {}"
  shows "digestReach ok env0 (c', fst (processDigestItem env st1 f), {})"
proof -
  have 1: "digestReach ok env0 (c', st1, {f})" using digestReach.step [OF assms(1,2)] assms(3) by simp
  have "processDigestItem env st1 f = (fst (processDigestItem env st1 f), (None, False))"
    using assms(6) by (simp add: prod_eq_iff)
  from digestStep.processed [OF _ assms(4,5) this, of "{f}"]
  have "digestStep ok env0 (c', st1, {f}) (c', fst (processDigestItem env st1 f),
      {f} - {f} \<union> newItems st1 (fst (processDigestItem env st1 f)))" by simp
  with 1 assms(7) show ?thesis using digestReach.step by fastforce
qed

lemma cacheEnv_succeeds:
  "fiKind f \<noteq> kindSentinel \<Longrightarrow> snd (processDigestItem (cacheEnv c) st f) = (None, False)"
  by (cases "fiKind f")
    (auto simp: processDigestItem_def updateDigestForLPP_def evaluateLPP_def getMatchingNodeNames_def
      updateDigestForLC_def updateDigestForNode_def setLCStatusErrors_def setLPPStatusErrors_def
      cacheEnv_def isNotFound_def Let_def split_beta split: option.splits)

lemma digestAdds_apply [simp]: "digestAdds (applyLPPToDigestForNode st p m n) = digestAdds st"
proof -
  have "digestAdds (fold (applyWanted p m n) ls st) = digestAdds st" for ls and st :: "'a digestState"
    by (induction ls arbitrary: st) (auto simp: applyWanted_eq Let_def)
  moreover have "digestAdds (fold (applyUnwanted p m n) les st) = digestAdds st" for les and st :: "'a digestState"
    by (induction les arbitrary: st) (auto simp: applyUnwanted_def Let_def split_beta)
  ultimately show ?thesis by (simp add: applyLPPToDigestForNode_def Let_def)
qed

lemma digestAdds_fold:
  "(\<And>x st. digestAdds (g x st) = digestAdds st) \<Longrightarrow> digestAdds (fold g xs st) = digestAdds st"
  by (induction xs arbitrary: st) auto

lemma process_no_items:
  assumes "fiKind f \<noteq> kindLC \<or> lpps (policy st) = []"
  shows "newItems st (fst (processDigestItem env st f)) = {}"
proof -
  have "digestAdds (fst (updateDigestForNode env st n)) = digestAdds st" for n
    by (auto simp: updateDigestForNode_def recomputeDigestForNode_def Let_def split_beta digestAdds_fold
        split: sum.split)
  moreover have "digestAdds (fst (updateDigestForLPP env st p)) = digestAdds st" for p
  proof -
    have "digestAdds (fst (evaluateLPP env st p)) = digestAdds st"
      using setStatus_keeps(4) [of env st]
      by (auto simp: evaluateLPP_def Let_def split_beta split: sum.split option.split)
    then show ?thesis
      by (auto simp: updateDigestForLPP_def Let_def digestAdds_fold split: prod.split sum.split)
  qed
  moreover have "lpps (policy st) = [] \<Longrightarrow> digestAdds (fst (updateDigestForLC env st l)) = digestAdds st" for l
    using setStatus_keeps(1,2) [of env st]
    by (auto simp: updateDigestForLC_def Let_def split_beta lppNamesRefByLC_def split: sum.split option.split)
  ultimately show ?thesis
    using assms by (cases "fiKind f") (auto simp: processDigestItem_def split_beta newItems_same)
qed

lemma lpps_exS1: "lpps (policy exS1) = []"
  using setStatus_keeps(1) [of "cacheEnv exC1" "OnAdd exS0 (WLC exampleLC)"] handler_items(1) [of exS0 "WLC exampleLC"]
  by (auto simp: exS1_def processDigestItem_def item_def updateDigestForLC_def Let_def split_beta
      exS0_def newDigestedPolicy_def split: sum.split option.split)

lemma exS3_reachable: "digestReach generationsTell (cacheEnv exC3) (exC3, exS3, {})"
proof -
  have 0: "digestReach generationsTell (cacheEnv exC3) (\<lparr>clNodes = [], clLCs = [], clLPPs = []\<rparr>, exS0, {})"
    using digestReach.init [of generationsTell "cacheEnv exC3"] by (simp add: digestInit_def exS0_def)
  have "digestReach generationsTell (cacheEnv exC3) (exC1, exS1, {})" unfolding exS1_def
  proof (rule reach_item [OF 0])
    show "digestStep generationsTell (cacheEnv exC3) (\<lparr>clNodes = [], clLCs = [], clLPPs = []\<rparr>, exS0, {})
        (exC1, OnAdd exS0 (WLC exampleLC), {} \<union> newItems exS0 (OnAdd exS0 (WLC exampleLC)))"
      using digestStep.putLC [of "OnAdd exS0 (WLC exampleLC)" exS0 exampleLC undefined generationsTell "cacheEnv exC3"
          "\<lparr>clNodes = [], clLCs = [], clLPPs = []\<rparr>" "{}"] by (simp add: exC1_def)
    show "newItems (OnAdd exS0 (WLC exampleLC)) (fst (processDigestItem (cacheEnv exC1)
        (OnAdd exS0 (WLC exampleLC)) (item kindLC (Name exampleLC)))) = {}"
      by (rule process_no_items) (simp add: handler_items exS0_def newDigestedPolicy_def)
  qed (simp_all add: handler_items itemsOf_def cacheEnv_answers cacheEnv_succeeds item_def)
  then have "digestReach generationsTell (cacheEnv exC3) (exC2, exS2, {})" unfolding exS2_def
  proof (rule reach_item)
    show "digestStep generationsTell (cacheEnv exC3) (exC1, exS1, {})
        (exC2, OnAdd exS1 (WNode exampleNode), {} \<union> newItems exS1 (OnAdd exS1 (WNode exampleNode)))"
      using digestStep.putNode [of "OnAdd exS1 (WNode exampleNode)" exS1 exampleNode undefined generationsTell "cacheEnv exC3"
          exC1 "{}"] by (simp add: exC2_def exC1_def)
  qed (simp_all add: handler_items itemsOf_def cacheEnv_answers cacheEnv_succeeds process_no_items item_def)
  then show ?thesis unfolding exS3_def
  proof (rule reach_item)
    have "lpps (policy exS2) = []"
      using lpps_exS1
      by (simp add: exS2_def processDigestItem_def item_def updateDigestForNode_def cacheEnv_def exC2_def
          handler_items recomputeDigestForNode_def Let_def)
    then show "digestStep generationsTell (cacheEnv exC3) (exC2, exS2, {})
        (exC3, OnAdd exS2 (WLPP exampleLPP), {} \<union> newItems exS2 (OnAdd exS2 (WLPP exampleLPP)))"
      using digestStep.putLPP [of generationsTell exS2 exampleLPP "OnAdd exS2 (WLPP exampleLPP)" undefined "cacheEnv exC3" exC2 "{}"]
      by (simp add: generationsTell_def exC3_def exC2_def exC1_def)
  qed (simp_all add: handler_items itemsOf_def cacheEnv_answers cacheEnv_succeeds process_no_items item_def)
qed

theorem digest_quiescent_is_policy_witness:
  "snapDesiredCount (snapshotForKey (policy exS3) (mkKey ''n1'' (Name exampleLC))) = 3"
proof -
  have "demands (cacheEnv exC3) exC3 ''n1'' (Name exampleLC) = {2, 3}"
    by (force simp: demands_def cacheEnv_def exC3_def exC2_def exC1_def exampleLPP_def)
  moreover have "\<exists>r. BuildNodeIndependentLauncherTemplate (marshalJSON (cacheEnv exC3)) (sha256b64 (cacheEnv exC3)) exampleLC = Inr r"
    unfolding Build_ok_iff by (simp add: cacheEnv_def exampleLC_def blank_defs)
  ultimately have "snapDesiredCount (specSnapshot (cacheEnv exC3) exC3 ''n1'' (Name exampleLC)) = 3"
    by (auto simp: specSnapshot_def Let_def exC3_def exC2_def exC1_def)
  then show ?thesis
    using digest_quiescent_is_policy [OF exS3_reachable, of "''n1''" "Name exampleLC"] by simp
qed

text \<open>What holds of the digest whatever policies appear in the cache, told apart or not.\<close>

definition looseOk :: "'sel digestedPolicy \<Rightarrow> bool" where
  "looseOk dp \<longleftrightarrow> digestWf dp \<and> mok (lpps dp) \<and> (\<forall>p d. mget (lpps dp) p = Some d \<longrightarrow> mok (lppdDigested d)) \<and>
     (\<forall>n l. countOk (desiredOf (ent dp n l)))"

lemma looseOkD:
  assumes "looseOk dp"
  shows "digestWf dp" "mok (lpps dp)" "mget (lpps dp) p = Some d \<Longrightarrow> mok (lppdDigested d)" "countOk (desiredOf (ent dp n l))"
  using assms by (simp_all add: looseOk_def)

lemma loose_relisted:
  assumes "relisted N Q g st st'" "looseOk (policy st)"
  shows "looseOk (policy st')"
  using assms countOk_relisted [OF assms(1)] by (simp add: looseOk_def relisted_def sameRest_def)

lemma loose_digest:
  assumes "looseOk dp" "digest dp' = digest dp" "mok (lpps dp')" "\<And>p d. mget (lpps dp') p = Some d \<Longrightarrow> mok (lppdDigested d)"
  shows "looseOk dp'"
  using assms same_digest [OF assms(2)] by (simp add: looseOk_def)

lemma loose_LC: "looseOk (policy st) \<Longrightarrow> looseOk (policy (fst (updateDigestForLC env st l)))"
proof -
  assume "looseOk (policy st)"
  moreover have "digest (policy (fst (updateDigestForLC env st l))) = digest (policy st)" "lpps (policy (fst (updateDigestForLC env st l))) = lpps (policy st)"
    using setStatus_keeps(1) [of env st]
    by (auto simp: updateDigestForLC_def Let_def split_beta split: sum.split option.split)
  ultimately show ?thesis by (auto intro: loose_digest simp: looseOkD)
qed

lemma loose_evaluate:
  assumes "looseOk (policy st)" "evaluateLPP env st p = (st1, Inr (ns, dig))"
  shows "looseOk (policy st1)" "mok dig" "distinct ns"
proof -
  have prev: "mget (lpps (policy st)) q = Some d \<Longrightarrow> mok (lppdDigested d)" for q d using assms(1) by (rule looseOkD(3))
  have st1: "digest (policy st1) = digest (policy st) \<and> mok dig \<and> mok (lpps (policy st1)) \<and>
      (\<forall>q d. mget (lpps (policy st1)) q = Some d \<longrightarrow> mok (lppdDigested d))"
    using assms(2) setStatus_keeps(3) [of env st] prev looseOkD(2) [OF assms(1)]
    by (auto simp: evaluateLPP_def Let_def split_beta gomap_simps intro: wf_intros split: sum.splits if_splits option.splits)
  then show "mok dig" by blast
  from st1 show "looseOk (policy st1)" by (intro loose_digest [OF assms(1)]) auto
  have "distinct ns'" if "getMatchingNodeNames env f rs = Inr ns'" for f rs ns'
    using that by (auto simp: getMatchingNodeNames_def fold_matching(2) split: sum.splits)
  with assms(2) show "distinct ns"
    by (auto simp: evaluateLPP_def Let_def split_beta split: sum.splits if_splits option.splits)
qed

lemma loose_LPP: "looseOk (policy st) \<Longrightarrow> updateDigestForLPP env st p = (st', e) \<Longrightarrow> looseOk (policy st')"
  by (auto simp: updateDigestForLPP_def Let_def evaluateLPP_error looseOkD loose_evaluate
      intro: loose_relisted [OF updateLPP_relists] split: prod.splits sum.splits dest!: evaluateLPP_error)

lemma loose_Node:
  assumes "looseOk (policy st)"
  shows "looseOk (policy (fst (updateDigestForNode env st n)))"
proof -
  have "looseOk (policy (recomputeDigestForNode st x))" for x
    by (rule loose_relisted [OF recomputeDigestForNode_relists assms]) (use looseOkD [OF assms] in auto)
  moreover have "looseOk (setNode n [] (policy st))"
    using looseOkD [OF assms] by (auto simp: looseOk_def ent_setNode desiredOf_def countOk_def intro: digestWf_setNode)
  ultimately show ?thesis using assms by (auto simp: updateDigestForNode_def setNode_def split: sum.split)
qed

lemma loose_reach:
  assumes "digestReach ok env0 s"
  shows "looseOk (policy (fst (snd s)))"
  using assms
proof (induction rule: digestReach.induct)
  case init
  show ?case by (simp add: digestInit_def newDigestedPolicy_def looseOk_def digestWf_def ent_def nodeMapOf_def desiredOf_def countOk_def)
next
  case (step s s')
  have process: "looseOk (policy st')" if "looseOk (policy st)" "processDigestItem env st f = (st', (e, retry))" for env st st' f e retry
    using processDigestItem_cases [OF that(2)] that(1) loose_LPP loose_LC loose_Node by (metis fst_conv)
  from step.hyps(2) step.IH show ?case
    by (cases rule: digestStep.cases) (auto simp: handler_items dest: process)
qed

text \<open>
  C17: in every state the controller can be in, pending items or not, and whatever policies appear in the cache, a Node
  has an inner map in the digest exactly when that map is not empty, no entry is left without a policy that refers to
  it, and every desired count is hands-off or at least zero.
\<close>

theorem digest_invariant:
  assumes "digestReach ok env0 (c, st, P)"
  shows "digestWf (policy st) \<and>
    (snapDesiredCount (snapshotForKey (policy st) key) = HandsOff \<or>
     0 \<le> snapDesiredCount (snapshotForKey (policy st) key))"
proof -
  have good: "looseOk (policy st)" using loose_reach [OF assms] by simp
  have "key = mkKey (kNodeName key) (kLauncherConfigName key)" by (simp add: mkKey_def)
  then obtain n l where key: "key = mkKey n l" by blast
  show ?thesis
    using looseOkD(1,4) [OF good] by (auto simp: key snapshot_ent countOk_def)
qed

theorem digest_invariant_witness:
  "digestWf (policy exS3) \<and>
   (snapDesiredCount (snapshotForKey (policy exS3) exampleKey) = HandsOff \<or>
    0 \<le> snapDesiredCount (snapshotForKey (policy exS3) exampleKey))"
  using digest_invariant [OF exS3_reachable] .

text \<open>
  Applying a policy to a Node enqueues the key of a LauncherConfig if and only if the desired
  count of that key changed, and touches no other Node, so that no reconcile is missed or wasted.
\<close>

theorem apply_enqueues_exactly_changes:
  fixes n p :: string
  assumes "digestWf (policy st)" and "mok m"
  defines "st' \<equiv> applyLPPToDigestForNode st p m n"
  shows "\<exists>ks. keyAdds st' = keyAdds st @ ks \<and>
    set ks = {mkKey n' l | n' l. snapDesiredCount (snapshotForKey (policy st') (mkKey n' l)) \<noteq>
                                 snapDesiredCount (snapshotForKey (policy st) (mkKey n' l))}"
proof -
  have up: "appliedUpTo n (appliedEntry (lcs (policy st)) p m) UNIV st st'"
    unfolding st'_def using assms(1,2) by (rule applyLPP_applied)
  then have "ent (policy st') n' l = (if n' = n then appliedEntry (lcs (policy st)) p m l (ent (policy st) n l)
      else ent (policy st) n' l)" for n' l
    by (simp add: appliedUpTo_def)
  then have "{mkKey n' l | n' l. desiredOf (ent (policy st') n' l) \<noteq> desiredOf (ent (policy st) n' l)} =
      {mkKey n l | l. l \<in> UNIV \<and>
        desiredOf (appliedEntry (lcs (policy st)) p m l (ent (policy st) n l)) \<noteq> desiredOf (ent (policy st) n l)}"
    by auto
  with up show ?thesis by (simp add: snapshot_ent appliedUpTo_def)
qed

theorem apply_enqueues_exactly_changes_witness:
  "\<exists>ks. keyAdds (applyLPPToDigestForNode exS0 ''p'' [(''lc'', 2)] ''n'') = keyAdds exS0 @ ks \<and>
    set ks = {mkKey n' l | n' l.
      snapDesiredCount (snapshotForKey (policy (applyLPPToDigestForNode exS0 ''p'' [(''lc'', 2)] ''n'')) (mkKey n' l)) \<noteq>
      snapDesiredCount (snapshotForKey (policy exS0) (mkKey n' l))}"
proof -
  have "digestWf (policy exS0)"
    by (simp add: exS0_def newDigestedPolicy_def digestWf_def ent_def nodeMapOf_def)
  moreover have "mok [(''lc'', 2 :: int)]" by (simp add: mok_def)
  ultimately show ?thesis by (rule apply_enqueues_exactly_changes)
qed

subsection \<open>A policy that is created again\<close>

lemma digestReach_any: "digestReach ok env0 s \<Longrightarrow> digestReach (\<lambda>_ _ _. True) env0 s"
proof (induction rule: digestReach.induct)
  case (step s s')
  from step.hyps(2) have "digestStep (\<lambda>_ _ _. True) env0 s s'" by (cases rule: digestStep.cases) (blast intro: digestStep.intros)+
  with step.IH show ?case by (rule digestReach.step)
qed (rule digestReach.init)

text \<open>
  The policy of the example is deleted and created again, with the same Generation, for another LauncherConfig, before its
  item is processed.
\<close>

definition secondLPP :: "unit launcherPopulationPolicy" where
  "secondLPP = exampleLPP\<lparr>UID := ''u2'', lppCountForLauncher := [\<lparr>cflLauncherConfigName = ''lc2'', cflLauncherCount = 1\<rparr>]\<rparr>"

definition exC4 :: "unit cluster" where
  "exC4 = exC3\<lparr>clLPPs := [(''p1'', secondLPP)]\<rparr>"
definition exC5 :: "unit cluster" where
  "exC5 = exC4\<lparr>clLCs := []\<rparr>"

definition exS4 :: "unit digestState" where
  "exS4 = fst (processDigestItem (cacheEnv exC4) (OnAdd (OnDelete exS3 (PlainObject (WLPP exampleLPP))) (WLPP secondLPP)) (item kindLPP ''p1''))"
definition exS5 :: "unit digestState" where
  "exS5 = fst (processDigestItem (cacheEnv exC5) (OnDelete exS4 (PlainObject (WLC exampleLC))) (item kindLC (Name exampleLC)))"

text \<open>The digest along this history.\<close>

definition exampleLCD :: lcDigest where
  "exampleLCD = digestLC (cacheEnv exC3) exampleLC"

lemma exampleLC_built: "\<exists>t h. BuildNodeIndependentLauncherTemplate (\<lambda>_. Inr ''json'') (\<lambda>_. ''hash'') exampleLC = Inr (t, h)"
proof -
  have "\<exists>r. BuildNodeIndependentLauncherTemplate (\<lambda>_. Inr ''json'') (\<lambda>_. ''hash'') exampleLC = Inr r"
    unfolding Build_ok_iff by (simp add: exampleLC_def blank_defs)
  then show ?thesis by auto
qed

lemma exampleLCD_usable: "lcdObject exampleLCD \<noteq> None" "lcdTemplateErr exampleLCD = []"
  using lcUsable_digestLC [of "cacheEnv exC3" exampleLC] exampleLC_built by (auto simp: exampleLCD_def cacheEnv_def)

lemma exampleLC_name [simp]: "Name exampleLC = ''lc1''"
  by (simp add: exampleLC_def blank_defs)

lemma policy_exS1: "policy exS1 = \<lparr>digest = [], lcs = [(''lc1'', exampleLCD)], lpps = []\<rparr>"
proof -
  obtain t h where "BuildNodeIndependentLauncherTemplate (\<lambda>_. Inr ''json'') (\<lambda>_. ''hash'') exampleLC = Inr (t, h)" using exampleLC_built by blast
  then show ?thesis
    by (simp add: exS1_def processDigestItem_def item_def updateDigestForLC_def cacheEnv_def exC1_def handler_items exS0_def newDigestedPolicy_def
        setLCStatusErrors_def exampleLCD_def digestLC_def Let_def split_beta)
qed

lemma policy_exS2: "policy exS2 = policy exS1"
  by (simp add: exS2_def processDigestItem_def item_def updateDigestForNode_def cacheEnv_def exC2_def handler_items
      recomputeDigestForNode_def policy_exS1 Let_def)

definition firstDigest :: "string \<Rightarrow> unit launcherPopulationPolicy \<Rightarrow> unit digestedPolicy" where
  "firstDigest p lpp = \<lparr>digest = [(''n1'', [(''lc1'', \<lparr>deDesiredCount = 3, deLpps = [(p, [(''lc1'', 3)])]\<rparr>)])], lcs = [(''lc1'', exampleLCD)],
     lpps = [(p, \<lparr>lppdObject = lpp, lppdSelector = Inr (\<lambda>_. True), lppdDigested = [(''lc1'', 3)]\<rparr>)]\<rparr>"

lemma example_matching: "clNodes c = clNodes exC3 \<Longrightarrow> getMatchingNodeNames (cacheEnv c) (\<lambda>_. True) [] = Inr [''n1'']"
  by (simp add: getMatchingNodeNames_def cacheEnv_def exC3_def exC2_def exC1_def)

lemma example_evaluated:
  assumes "clNodes c = clNodes exC3" "mget (clLPPs c) ''p1'' = Some lpp" "lppAllocatableResources lpp = []"
    and "digested = (case mget (lpps (policy st)) ''p1'' of
        Some prev \<Rightarrow> if Generation (lppdObject prev) = Generation lpp then lppdDigested prev else digestCounts (lppCountForLauncher lpp)
      | None \<Rightarrow> digestCounts (lppCountForLauncher lpp))"
  shows "\<exists>st1. evaluateLPP (cacheEnv c) st ''p1'' = (st1, Inr ([''n1''], digested)) \<and>
    policy st1 = (policy st)\<lparr>lpps := mput ''p1'' \<lparr>lppdObject = lpp, lppdSelector = Inr (\<lambda>_. True), lppdDigested = digested\<rparr> (lpps (policy st))\<rparr>"
proof -
  have "lppGet (cacheEnv c) ''p1'' = Inr lpp" "asSelector (cacheEnv c) x = Inr (\<lambda>_. True)" "updateLPPStatus (cacheEnv c) y = None" for x y
    using assms(2) by (simp_all add: cacheEnv_def)
  then show ?thesis
    using example_matching [OF assms(1)] assms(3,4) setStatus_keeps(3) [of "cacheEnv c" st]
    by (auto simp: evaluateLPP_def setLPPStatusErrors_def Let_def split: option.splits)
qed

lemma exampleLPP_applied:
  assumes "policy st = \<lparr>digest = d, lcs = [(''lc1'', exampleLCD)], lpps = ls\<rparr>"
    and "d = [] \<or> d = digest (firstDigest ''p1'' exampleLPP)"
  shows "policy (applyLPPToDigestForNode st ''p1'' [(''lc1'', 3)] ''n1'') = \<lparr>digest = digest (firstDigest ''p1'' exampleLPP), lcs = [(''lc1'', exampleLCD)], lpps = ls\<rparr>"
  using assms(2) exampleLCD_usable
  by (auto simp: applyLPPToDigestForNode_def applyWanted_def applyUnwanted_def getEntry_def putEntry_def recomputeEntryFromLPPs_def lcUsable_def
      enqueueKey_def firstDigest_def assms(1) Let_def)

lemma policy_exS3: "policy exS3 = firstDigest ''p1'' exampleLPP"
proof -
  let ?st = "OnAdd exS2 (WLPP exampleLPP)"
  have "digestCounts (lppCountForLauncher exampleLPP) = [(''lc1'', 3)]" by (simp add: exampleLPP_def digestCounts_def mget0_def)
  then obtain st1 where st1: "evaluateLPP (cacheEnv exC3) ?st ''p1'' = (st1, Inr ([''n1''], [(''lc1'', 3)]))"
    "policy st1 = (policy exS1)\<lparr>lpps := [(''p1'', \<lparr>lppdObject = exampleLPP, lppdSelector = Inr (\<lambda>_. True), lppdDigested = [(''lc1'', 3)]\<rparr>)]\<rparr>"
    using example_evaluated [of exC3 exampleLPP "[(''lc1'', 3)]" ?st] by (auto simp: handler_items policy_exS2 policy_exS1 exC3_def exampleLPP_def)
  have "nodeNamesRefingLPP (policy st1) ''p1'' = []" by (simp add: nodeNamesRefingLPP_def st1 policy_exS1)
  with exampleLPP_applied [of st1] show ?thesis
    by (simp add: exS3_def processDigestItem_def item_def updateDigestForLPP_def st1 policy_exS1 firstDigest_def)
qed

text \<open>The counts digested for the first policy are kept for the second.\<close>

lemma policy_exS4: "policy exS4 = firstDigest ''p1'' secondLPP"
proof -
  let ?st = "OnAdd (OnDelete exS3 (PlainObject (WLPP exampleLPP))) (WLPP secondLPP)"
  have st: "policy ?st = firstDigest ''p1'' exampleLPP" by (simp add: handler_items policy_exS3)
  then obtain st1 where st1: "evaluateLPP (cacheEnv exC4) ?st ''p1'' = (st1, Inr ([''n1''], [(''lc1'', 3)]))"
    "policy st1 = firstDigest ''p1'' secondLPP"
    using example_evaluated [of exC4 secondLPP "[(''lc1'', 3)]" ?st] by (auto simp: firstDigest_def exC4_def secondLPP_def exampleLPP_def)
  have "nodeNamesRefingLPP (policy st1) ''p1'' = [''n1'']" by (simp add: nodeNamesRefingLPP_def st1 firstDigest_def)
  with exampleLPP_applied [of st1] show ?thesis
    by (simp add: exS4_def processDigestItem_def item_def updateDigestForLPP_def st1 firstDigest_def)
qed

lemma policy_exS5: "policy exS5 = (firstDigest ''p1'' secondLPP)\<lparr>lcs := []\<rparr>"
  using exampleLCD_usable
  by (auto simp: exS5_def processDigestItem_def item_def updateDigestForLC_def cacheEnv_def exC5_def handler_items policy_exS4 isNotFound_def Let_def)
    (simp_all add: firstDigest_def)

text \<open>Nothing is pending at the end, because the second policy does not refer to the LauncherConfig that was deleted.\<close>

lemma exS5_reachable: "digestReach (\<lambda>_ _ _. True) (cacheEnv exC3) (exC5, exS5, {})"
proof -
  let ?any = "\<lambda>_ _ _. True" and ?gone = "OnDelete exS3 (PlainObject (WLPP exampleLPP))"
  have "digestReach ?any (cacheEnv exC3) (exC3\<lparr>clLPPs := []\<rparr>, ?gone, {item kindLPP ''p1''})"
    using digestReach.step [OF digestReach_any [OF exS3_reachable] digestStep.delLPP [of ?gone exS3 exampleLPP]]
    by (simp add: handler_items itemsOf_def exC3_def)
  from digestReach.step [OF this digestStep.putLPP [of ?any ?gone secondLPP "OnAdd ?gone (WLPP secondLPP)" "WLPP exampleLPP"]]
  have 1: "digestReach ?any (cacheEnv exC3) (exC4, OnAdd ?gone (WLPP secondLPP), {item kindLPP ''p1''})"
    by (simp add: handler_items itemsOf_def exC3_def exC4_def secondLPP_def)
  have "processDigestItem (cacheEnv exC4) (OnAdd ?gone (WLPP secondLPP)) (item kindLPP ''p1'') = (exS4, (None, False))"
    using cacheEnv_succeeds [of "item kindLPP ''p1''" exC4] by (simp add: exS4_def item_def prod_eq_iff)
  from digestReach.step [OF 1 digestStep.processed [OF _ cacheEnv_answers(1,2) this]]
  have "digestReach ?any (cacheEnv exC3) (exC4, exS4, {})"
    using process_no_items [of "item kindLPP ''p1''" _ "cacheEnv exC4"] by (simp add: exS4_def item_def)
  then show ?thesis unfolding exS5_def
  proof (rule reach_item)
    show "digestStep ?any (cacheEnv exC3) (exC4, exS4, {}) (exC5, OnDelete exS4 (PlainObject (WLC exampleLC)),
        {} \<union> newItems exS4 (OnDelete exS4 (PlainObject (WLC exampleLC))))"
      using digestStep.delLC [of "OnDelete exS4 (PlainObject (WLC exampleLC))" exS4 exampleLC ?any "cacheEnv exC3" exC4 "{}"]
      by (simp add: exC5_def exC4_def exC3_def exC2_def exC1_def)
    show "newItems (OnDelete exS4 (PlainObject (WLC exampleLC))) (fst (processDigestItem (cacheEnv exC5)
        (OnDelete exS4 (PlainObject (WLC exampleLC))) (item kindLC (Name exampleLC)))) = {}"
      using exampleLCD_usable
      by (auto simp: processDigestItem_def item_def updateDigestForLC_def cacheEnv_def exC5_def handler_items policy_exS4 firstDigest_def
          isNotFound_def lppNamesRefByLC_def secondLPP_def newItems_def Let_def)
  qed (simp_all add: handler_items itemsOf_def cacheEnv_answers cacheEnv_succeeds item_def)
qed

end
