(* ===== verification/Populator_Loop.thy ===== *)
theory Populator_Loop
  imports Populator Digest_Sync
begin

text \<open>
  Properties of the launcher populator's reconcile loop: which launchers a pass may delete, how many
  it deletes and creates, what it does on a cache that is behind, and that it converges.
\<close>

subsection \<open>One pass\<close>

lemma pass_calls:
  assumes dec: "decidesOn env dp st key = Some pods" and run: "processKey env dp st key = (st', out)"
  obtains pre nd st1 csS csE csP csC where
    "newCalls st st' = pre @ csS @ csE @ csP @ csC" and "set pre \<subseteq> {ListPods (launcherLabels key)}"
    and "passSpec env key (effDesired (snapshotForKey dp key)) (effTemplate (snapshotForKey dp key)) nd
           (categorize (snapTemplateHash (snapshotForKey dp key)) pods) st1 st' out csS csE csP csC"
    and "nodeLookup env (kNodeName key) = Inr nd"
    and "pendC (expectations st') key = \<Union> (set (map madeBy (newCalls st st')))"
    and "pendD (expectations st') key = \<Union> (set (map goneBy (newCalls st st')))"
    and "pendC (expectations st') key \<union> pendD (expectations st') key \<noteq> {} \<Longrightarrow>
           dueAt (expectations st') key = clockNow env + timeout (expectations st)"
proof -
  obtain st1 pre nd where s1: "processKey env dp st key =
      adjustLaunchers env st1 key (effDesired (snapshotForKey dp key)) (snapTemplateHash (snapshotForKey dp key))
         (effTemplate (snapshotForKey dp key)) nd (categorize (snapTemplateHash (snapshotForKey dp key)) pods)"
    "nodeLookup env (kNodeName key) = Inr nd" "calls st1 = calls st @ pre" "set pre \<subseteq> {ListPods (launcherLabels key)}"
    "pendC (expectations st1) key = {}" "pendD (expectations st1) key = {}"
    "timeout (expectations st1) = timeout (expectations st)"
    using processKey_decides [OF dec] by metis
  from adjust_calls [OF trans [OF s1(1) [symmetric] run]] obtain csS csE csP csC where
    spec: "passSpec env key (effDesired (snapshotForKey dp key)) (effTemplate (snapshotForKey dp key)) nd
      (categorize (snapTemplateHash (snapshotForKey dp key)) pods) st1 st' out csS csE csP csC" by blast
  let ?cs = "csS @ csE @ csP @ csC"
  have did: "didCalls env key st1 ?cs st'" using spec by (simp add: passSpec_def)
  have new: "newCalls st st' = pre @ ?cs"
    using did s1(3) by (simp add: newCalls_def didCalls_def)
  have none: "c \<in> set pre \<Longrightarrow> madeBy c = {} \<and> goneBy c = {}" for c using s1(4) by auto
  have made: "\<Union> (set (map madeBy (newCalls st st'))) = \<Union> (set (map madeBy ?cs))"
    and gone: "\<Union> (set (map goneBy (newCalls st st'))) = \<Union> (set (map goneBy ?cs))"
    using none by (auto simp: new)
  show thesis
  proof (rule that [OF new s1(4) spec s1(2)])
    show pend: "pendC (expectations st') key = \<Union> (set (map madeBy (newCalls st st')))"
      "pendD (expectations st') key = \<Union> (set (map goneBy (newCalls st st')))"
      unfolding made gone using did s1(5,6) by (simp_all add: didCalls_def)
    have "dueAt (expectations st') key =
        (if \<Union> (set (map madeBy ?cs)) \<union> \<Union> (set (map goneBy ?cs)) = {} then dueAt (expectations st1) key
         else clockNow env + timeout (expectations st))"
      using did by (simp only: didCalls_def s1(7))
    then show "dueAt (expectations st') key = clockNow env + timeout (expectations st)"
      if "pendC (expectations st') key \<union> pendD (expectations st') key \<noteq> {}"
      using that unfolding pend made gone by (simp only: if_False)
  qed
qed

lemma no_decision_calls:
  assumes "decidesOn env dp st key = None" and "c \<in> set (newCalls st (fst (processKey env dp st key)))"
  shows "c = ListPods (launcherLabels key)"
  using processKey_not_decides [OF assms(1)] assms(2) by auto

lemma categorize_sel:
  "set (staleUnboundPods (categorize h pods)) = {p \<in> set pods. isLive p \<and> \<not> isBound p \<and> \<not> isCurrent h p}"
  "set (liveUnboundCurrentPods (categorize h pods)) = {p \<in> set pods. isLive p \<and> \<not> isBound p \<and> isCurrent h p}"
  by (auto simp: categorize_eq)

lemma deleted_is_free:
  assumes "DeletePod p r \<in> set (newCalls st (fst (processKey env dp st key)))"
  shows "\<exists>pods. decidesOn env dp st key = Some pods \<and> p \<in> set pods \<and> DeletionTimestamp p = None \<and> \<not> isBound p"
proof (cases "decidesOn env dp st key")
  case None
  from no_decision_calls [OF this assms] show ?thesis by simp
next
  case (Some pods)
  obtain st' out where run: "processKey env dp st key = (st', out)" by (cases "processKey env dp st key")
  obtain pre nd st1 csS csE csP csC where new: "newCalls st st' = pre @ csS @ csE @ csP @ csC"
    "set pre \<subseteq> {ListPods (launcherLabels key)}"
    and spec: "passSpec env key (effDesired (snapshotForKey dp key)) (effTemplate (snapshotForKey dp key)) nd
      (categorize (snapTemplateHash (snapshotForKey dp key)) pods) st1 st' out csS csE csP csC"
    using pass_calls [OF Some run] by metis
  have "DeletePod p r \<in> set csS \<or> DeletePod p r \<in> set csE"
    using assms new spec by (fastforce simp: run passSpec_def)
  then have "p \<in> set (staleUnboundPods (categorize (snapTemplateHash (snapshotForKey dp key)) pods)) \<or>
      p \<in> set (liveUnboundCurrentPods (categorize (snapTemplateHash (snapshotForKey dp key)) pods))"
    using spec by (fastforce simp: passSpec_def)
  with Some show ?thesis by (auto simp: categorize_sel isLive_def)
qed

subsection \<open>Properties\<close>

text \<open>
  C3: a pass deletes only launchers of the listing it decided on that are neither being deleted
  already nor bound to a server-requesting Pod: a launcher in use is never deleted by the populator.
\<close>

theorem deletes_only_free_launchers:
  assumes "DeletePod p r \<in> set (newCalls st (fst (processKey env dp st key)))"
  shows "\<exists>pods. decidesOn env dp st key = Some pods \<and> p \<in> set pods \<and> DeletionTimestamp p = None \<and> \<not> isBound p"
  using assms by (rule deleted_is_free)

text \<open>
  How many launchers of the listing count towards the desired number once the stale ones are dealt
  with: the bound ones, the current unbound ones, and the stale ones whose deletion met a conflict.
\<close>

definition keptCount :: "string \<Rightarrow> pod list \<Rightarrow> apiCall list \<Rightarrow> int" where
  "keptCount h pods cs =
     int (length (filter (\<lambda>p. isLive p \<and> (isBound p \<or> isCurrent h p)) pods) +
          length (filter (\<lambda>(p, r). r = Some ErrConflict \<and> \<not> isCurrent h p) (deletes cs)))"

definition creations :: "apiCall list \<Rightarrow> nat" where
  "creations cs = length (filter (\<lambda>c. \<exists>t r. c = CreatePod t r) cs)"

lemma filter_parts:
  "length (filter (\<lambda>p. P p \<and> B p) xs) + length (filter (\<lambda>p. P p \<and> \<not> B p \<and> C p) xs) =
   length (filter (\<lambda>p. P p \<and> (B p \<or> C p)) xs)"
  by (induction xs) auto

lemma deletes_of:
  "\<forall>c \<in> set cs. \<exists>p \<in> A. \<exists>r. c = DeletePod p r \<Longrightarrow> (p, r) \<in> set (deletes cs) \<Longrightarrow> p \<in> A"
  by (induction cs) auto

lemma no_deletes: "\<forall>c \<in> set cs. \<nexists>p r. c = DeletePod p r \<Longrightarrow> deletes cs = []"
  by (induction cs) (auto simp: deletes_def List.map_filter_simps split: apiCall.splits)

lemma filter_cong_len: "(\<And>x. x \<in> set xs \<Longrightarrow> P x \<longleftrightarrow> Q x) \<Longrightarrow> length (filter P xs) = length (filter Q xs)"
  by (metis filter_cong)

text \<open>The counts of a pass in terms of all its calls.\<close>

lemma pass_counts:
  assumes spec: "passSpec env key desired template nd (categorize h pods) st1 st' out csS csE csP csC"
    and new: "cs = pre @ csS @ csE @ csP @ csC" and pre: "set pre \<subseteq> {ListPods m}"
  shows "keptCount h pods cs = remaining (categorize h pods) csS"
    and "length (filter (\<lambda>(p, r). acked r \<and> isCurrent h p) (deletes cs)) = ackedDeletes csE"
    and "creations cs = length csC"
    and "DeletePod p r \<in> set cs \<longleftrightarrow> DeletePod p r \<in> set (csS @ csE)"
proof -
  have S: "\<forall>c \<in> set csS. \<exists>p \<in> {p. \<not> isCurrent h p}. \<exists>r. c = DeletePod p r"
    and E: "\<forall>c \<in> set csE. \<exists>p \<in> {p. isCurrent h p}. \<exists>r. c = DeletePod p r"
    using spec by (fastforce simp: passSpec_def categorize_sel)+
  have P: "\<forall>c \<in> set csP. \<exists>p x r. c = PatchStuckLabel p x r" and C: "\<forall>c \<in> set csC. \<exists>t r. c = CreatePod t r"
    using spec by (fastforce simp: passSpec_def)+
  have "deletes pre = []" "deletes csP = []" "deletes csC = []"
    using pre P C by (fastforce intro!: no_deletes)+
  then have del: "deletes cs = deletes csS @ deletes csE" by (simp add: new)
  note cur = deletes_of [OF S] deletes_of [OF E]
  have "length (filter (\<lambda>(p, r). r = Some ErrConflict \<and> \<not> isCurrent h p) (deletes csS)) = conflicts csS"
    "length (filter (\<lambda>(p, r). r = Some ErrConflict \<and> \<not> isCurrent h p) (deletes csE)) = 0"
    "length (filter (\<lambda>(p, r). acked r \<and> isCurrent h p) (deletes csS)) = 0"
    "length (filter (\<lambda>(p, r). acked r \<and> isCurrent h p) (deletes csE)) = ackedDeletes csE"
    using cur by (auto simp: conflicts_def ackedDeletes_def filter_empty_conv intro!: filter_cong_len)
  then show "keptCount h pods cs = remaining (categorize h pods) csS"
    and "length (filter (\<lambda>(p, r). acked r \<and> isCurrent h p) (deletes cs)) = ackedDeletes csE"
    using filter_parts [of isLive isBound pods "isCurrent h"]
    by (simp_all add: keptCount_def remaining_def categorize_eq del)
  have "filter (\<lambda>c. \<exists>t r. c = CreatePod t r) cs = csC"
    using S E P C pre by (auto simp: new filter_empty_conv filter_id_conv)
  then show "creations cs = length csC" by (simp add: creations_def)
  show "DeletePod p r \<in> set cs \<longleftrightarrow> DeletePod p r \<in> set (csS @ csE)"
    using P C pre by (auto simp: new)
qed

text \<open>
  C4: a pass never deletes more launchers of the current template than there are beyond the desired
  count, never creates more than are missing, and creates none in a pass in which a deletion was
  confirmed or a launcher of the listing was still being deleted; and when it reports success without
  asking to be run again, it has created exactly as many as were missing.
\<close>

theorem pass_respects_desired_count:
  assumes dec: "decidesOn env dp st key = Some pods"
    and run: "processKey env dp st key = (st', out)"
  defines "h \<equiv> snapTemplateHash (snapshotForKey dp key)"
    and "desired \<equiv> effDesired (snapshotForKey dp key)" and "cs \<equiv> newCalls st st'"
  shows "length (filter (\<lambda>(p, r). acked r \<and> isCurrent h p) (deletes cs)) \<le> nat (keptCount h pods cs - desired) \<and>
    creations cs \<le> nat (desired - keptCount h pods cs) \<and>
    (creations cs = 0 \<or> (\<forall>p \<in> set pods. isLive p) \<and> (\<forall>p. DeletePod p None \<notin> set cs)) \<and>
    (out \<noteq> Returns (None, False) \<or> creations cs = nat (desired - keptCount h pods cs))"
proof -
  obtain pre nd st1 csS csE csP csC where new: "newCalls st st' = pre @ csS @ csE @ csP @ csC"
    "set pre \<subseteq> {ListPods (launcherLabels key)}"
    and spec: "passSpec env key desired (effTemplate (snapshotForKey dp key)) nd
      (categorize h pods) st1 st' out csS csE csP csC"
    unfolding h_def desired_def using pass_calls [OF dec run] by metis
  note counts = pass_counts [OF spec new(1) [folded cs_def] new(2)]
  show ?thesis
    unfolding counts(1-3) using spec counts(4) by (auto simp: passSpec_def categorize_eq)
qed

subsection \<open>A cluster that obeys\<close>

text \<open>
  The cluster of the convergence property: every call succeeds at once, new Pods get fresh UIDs, the
  cache shows the population, and nobody else changes it.
\<close>

definition obedient :: "(nat \<Rightarrow> string) \<Rightarrow> node \<Rightarrow> pod list \<Rightarrow> popEnv \<Rightarrow> bool" where
  "obedient fresh nd pods env \<longleftrightarrow>
     (\<forall>m. podListCache env m = Inr pods) \<and> (\<forall>n. nodeLookup env n = Inr nd) \<and>
     (\<forall>hist ns n u v. podDelete env hist ns n u v = None) \<and>
     (\<forall>hist t. podCreate env hist t = Inr (t\<lparr>UID := fresh (length hist)\<rparr>)) \<and>
     (\<forall>hist ns n x. podPatch env hist ns n x = None)"

fun applyCall :: "apiCall \<Rightarrow> pod list \<Rightarrow> pod list" where
  "applyCall (DeletePod p None) pods = filter (\<lambda>q. UID q \<noteq> UID p) pods"
| "applyCall (CreatePod t (Inr q)) pods = pods @ [q]"
| "applyCall _ pods = pods"

abbreviation delOK :: "pod \<Rightarrow> apiCall" where
  "delOK p \<equiv> DeletePod p None"

lemma deleteAndExpect_obedient:
  assumes "obedient fresh nd pods env"
  obtains st1 where "deleteAndExpect env key p st = (st1, None)" "didCalls env key st [delOK p] st1"
proof -
  obtain st1 err where del: "deleteAndExpect env key p st = (st1, err)" by (cases "deleteAndExpect env key p st")
  have "err = None" using del assms by (simp add: deleteAndExpect_def deletePod_def obedient_def Let_def)
  with del didCalls_deleteAndExpect [OF del] that show thesis by simp
qed

lemma deleteStale_obedient:
  assumes ob: "obedient fresh nd pods env"
  shows "\<exists>st'. deleteStale env key ps st dd k = (st', Inr (dd \<or> ps \<noteq> [], k)) \<and> didCalls env key st (map delOK ps) st'"
proof (induction ps arbitrary: st dd)
  case (Cons p ps)
  obtain st1 where st1: "deleteAndExpect env key p st = (st1, None)" "didCalls env key st [delOK p] st1"
    by (rule deleteAndExpect_obedient [OF ob])
  from Cons.IH [of st1 True] obtain st' where "deleteStale env key ps st1 True k = (st', Inr (True, k))"
    "didCalls env key st1 (map delOK ps) st'" by auto
  with st1 didCalls_trans [OF st1(2)] show ?case by (intro exI [of _ st']) (auto simp: deleteStale_Cons)
qed (simp add: didCalls_refl)

lemma deleteExcess_obedient:
  assumes ob: "obedient fresh nd pods env"
  shows "\<exists>st' T'. deleteExcess env key ps n st dd T = (st', Inr (dd \<or> take n ps \<noteq> [], T')) \<and>
    didCalls env key st (map delOK (take n ps)) st'"
proof (induction ps arbitrary: n st dd T)
  case (Cons p ps)
  show ?case
  proof (cases n)
    case 0
    then show ?thesis by (simp add: deleteExcess.simps(2) didCalls_refl)
  next
    case (Suc m)
    obtain st1 where st1: "deleteAndExpect env key p st = (st1, None)" "didCalls env key st [delOK p] st1"
      by (rule deleteAndExpect_obedient [OF ob])
    from Cons.IH [of m st1 True "insert (UID p) T"] obtain st' T' where
      "deleteExcess env key ps m st1 True (insert (UID p) T) = (st', Inr (True, T'))"
      "didCalls env key st1 (map delOK (take m ps)) st'" by auto
    with st1 didCalls_trans [OF st1(2)] Suc show ?thesis
      by (intro exI [of _ st'] exI [of _ T']) (auto simp: deleteExcess_Cons)
  qed
qed (simp add: didCalls_refl)

lemma reportStuck_obedient:
  assumes ob: "obedient fresh nd pods env"
  shows "snd (reportStuckLaunchers env st ps h) = None"
proof (induction ps arbitrary: st)
  case (Cons p ps)
  obtain st2 where "setStuckLabel env (reportEvent st p (phaseNow env h p)) p (isStuck (phaseNow env h p)) = (st2, None)"
    using ob by (simp add: setStuckLabel_def obedient_def Let_def)
  with Cons show ?case by (simp add: Let_def)
qed simp

lemma create_obedient:
  assumes ob: "obedient fresh nd pods env"
  shows "\<exists>st'. createLaunchers env st key n t = (st', None) \<and>
    didCalls env key st
      (map (\<lambda>i. CreatePod t (Inr (t\<lparr>UID := fresh i\<rparr>))) [length (calls st) ..< length (calls st) + n]) st'"
proof (induction n arbitrary: st)
  case (Suc n)
  let ?q = "t\<lparr>UID := fresh (length (calls st))\<rparr>"
  let ?st1 = "expectCre env key ?q (st\<lparr>calls := calls st @ [CreatePod t (Inr ?q)]\<rparr>)"
  have len: "length (calls ?st1) = Suc (length (calls st))" by (simp add: expectCre_def)
  from Suc.IH [of ?st1] obtain st' where "createLaunchers env ?st1 key n t = (st', None)"
    "didCalls env key ?st1 (map (\<lambda>i. CreatePod t (Inr (t\<lparr>UID := fresh i\<rparr>)))
       [Suc (length (calls st)) ..< Suc (length (calls st)) + n]) st'" by (auto simp: len)
  moreover have "podCreate env (calls st) t = Inr ?q" using ob by (simp add: obedient_def)
  moreover have "[length (calls st) ..< length (calls st) + Suc n] =
      length (calls st) # [Suc (length (calls st)) ..< Suc (length (calls st)) + n]"
    by (simp add: upt_conv_Cons del: upt_Suc)
  ultimately show ?case
    using didCalls_trans [OF didCalls_create(1) [of env key st t ?q]]
    by (intro exI [of _ st']) (simp del: upt_Suc)
qed (simp add: didCalls_refl)

lemma didCalls_length: "didCalls env key st cs st' \<Longrightarrow> length (calls st') = length (calls st) + length cs"
  by (simp add: didCalls_def)

text \<open>The calls of a pass that change the population, in closed form.\<close>

definition surplus :: "int \<Rightarrow> podSorts \<Rightarrow> pod list" where
  "surplus desired sorts =
     take (nat (int (liveBoundCount sorts + length (liveUnboundCurrentPods sorts)) - desired))
       (rev (liveUnboundCurrentPods sorts))"

definition missing :: "int \<Rightarrow> podSorts \<Rightarrow> nat" where
  "missing desired sorts =
     (if staleUnboundPods sorts = [] \<and> \<not> deletionInProgress sorts
      then nat (desired - int (liveBoundCount sorts + length (liveUnboundCurrentPods sorts))) else 0)"

lemma adjust_obedient:
  assumes ob: "obedient fresh nd0 pods env" and t: "template = Some t"
  shows "\<exists>st' csP k. adjustLaunchers env st key desired h template nd sorts =
      (st', Returns (None, staleUnboundPods sorts \<noteq> [] \<or> surplus desired sorts \<noteq> [] \<or> deletionInProgress sorts)) \<and>
    length (calls st) \<le> k \<and> k + missing desired sorts = length (calls st') \<and>
    didCalls env key st (map delOK (staleUnboundPods sorts @ surplus desired sorts) @ csP @
      map (\<lambda>i. CreatePod (SpecializeLauncherTemplateToNode (sha256b64P env) t (Name nd))
             (Inr ((SpecializeLauncherTemplateToNode (sha256b64P env) t (Name nd))\<lparr>UID := fresh i\<rparr>)))
        [k ..< k + missing desired sorts]) st' \<and>
    (\<forall>c \<in> set csP. \<exists>p x r. c = PatchStuckLabel p x r)"
proof -
  let ?S = "staleUnboundPods sorts" and ?C = "liveUnboundCurrentPods sorts" and ?X = "surplus desired sorts"
  let ?t = "SpecializeLauncherTemplateToNode (sha256b64P env) t (Name nd)"
  let ?diff = "desired - int (liveBoundCount sorts + length ?C + 0)"
  from deleteStale_obedient [OF ob, of key ?S st False 0] obtain st1 where
    st1: "deleteStale env key ?S st False 0 = (st1, Inr (?S \<noteq> [], 0))" "didCalls env key st (map delOK ?S) st1" by auto
  have X: "take (nat (- ?diff)) (rev ?C) = ?X" by (simp add: surplus_def)
  from deleteExcess_obedient [OF ob, of key "rev ?C" "nat (- ?diff)" st1 "?S \<noteq> []" "{}"] obtain st2 T where
    st2: "deleteExcess env key (rev ?C) (nat (- ?diff)) st1 (?S \<noteq> []) {} = (st2, Inr (?S \<noteq> [] \<or> ?X \<noteq> [], T))"
      "didCalls env key st1 (map delOK ?X) st2" unfolding X by blast
  let ?ret = "SliceFilter ?C (Not1 (\<lambda>p. UID p \<in> T))"
  obtain st3 where st3: "reportStuckLaunchers env st2 ?ret h = (st3, None)"
    using reportStuck_obedient [OF ob, of st2 ?ret h] by (cases "reportStuckLaunchers env st2 ?ret h") auto
  from reportStuck_calls [OF this, of key] obtain csP where csP: "didCalls env key st2 csP st3"
    "\<forall>c \<in> set csP. \<exists>p x r. c = PatchStuckLabel p x r" by blast
  note d3 = didCalls_trans [OF didCalls_trans [OF st1(2) st2(2)] csP(1)]
  have k: "length (calls st) \<le> length (calls st3)" using d3 by (auto simp: didCalls_def)
  have adj: "adjustLaunchers env st key desired h template nd sorts =
      (if (?S \<noteq> [] \<or> ?X \<noteq> []) \<or> deletionInProgress sorts then (st3, Returns (None, True))
       else if ?diff > 0 then (case createLaunchers env st3 key (nat ?diff) ?t of
           (st4, Some err) \<Rightarrow> (st4, Returns (Some err, True)) | (st4, None) \<Rightarrow> (st4, Returns (None, False)))
       else (st3, Returns (None, False)))"
    unfolding adjustLaunchers_def st1 st2 prod.case sum.case Let_def t option.case st3 ..
  show ?thesis
  proof (cases "?S = [] \<and> ?X = [] \<and> \<not> deletionInProgress sorts \<and> ?diff > 0")
    case True
    from create_obedient [OF ob, of st3 key "nat ?diff" ?t] obtain st4 where
      st4: "createLaunchers env st3 key (nat ?diff) ?t = (st4, None)"
        "didCalls env key st3 (map (\<lambda>i. CreatePod ?t (Inr (?t\<lparr>UID := fresh i\<rparr>)))
           [length (calls st3) ..< length (calls st3) + nat ?diff]) st4" by blast
    have m: "missing desired sorts = nat ?diff" using True by (simp add: missing_def)
    show ?thesis
      using True st4(1) didCalls_trans [OF d3 st4(2)] csP(2) k didCalls_length [OF st4(2)]
      by (intro exI [of _ st4] exI [of _ csP] exI [of _ "length (calls st3)"]) (simp add: adj m)
  next
    case False
    have m: "missing desired sorts = 0 \<or> ?X \<noteq> []"
      using False by (auto simp: missing_def)
    have "?X \<noteq> [] \<Longrightarrow> missing desired sorts = 0" by (auto simp: surplus_def missing_def)
    with m have "missing desired sorts = 0" by blast
    with False d3 csP(2) k show ?thesis
      by (intro exI [of _ st3] exI [of _ csP] exI [of _ "length (calls st3)"]) (auto simp: adj)
  qed
qed

subsection \<open>The population after a pass\<close>

definition passOn :: "popEnv \<Rightarrow> 'sel digestedPolicy \<Rightarrow> NodeLauncherKey \<Rightarrow> pod list \<Rightarrow> popState \<Rightarrow> pod list \<times> popState" where
  "passOn env dp key pods st =
     (let st' = fst (processKey env dp st key) in (fold applyCall (newCalls st st') pods, st'))"

lemma fold_delOK: "fold applyCall (map delOK ps) pods = filter (\<lambda>q. UID q \<notin> UID ` set ps) pods"
  by (induction ps arbitrary: pods) (auto intro: filter_cong)

lemma fold_patches: "\<forall>c \<in> set cs. \<exists>p x r. c = PatchStuckLabel p x r \<Longrightarrow> fold applyCall cs pods = pods"
  by (induction cs) auto

lemma fold_creates: "fold applyCall (map (\<lambda>i. CreatePod t (Inr (g i))) ix) pods = pods @ map g ix"
  by (induction ix arbitrary: pods) auto

text \<open>A usable snapshot: the key is wanted, and its template makes current, unbound launchers.\<close>

definition usable :: "keySnapshot \<Rightarrow> pod \<Rightarrow> bool" where
  "usable snap t \<longleftrightarrow> snapExists snap \<and> 0 \<le> snapDesiredCount snap \<and> snapTemplate snap = Some t \<and>
     isCurrent (snapTemplateHash snap) t \<and> Annotations t RequesterAnnotationKey = None \<and> isLive t"

definition goodPods :: "(nat \<Rightarrow> string) \<Rightarrow> nat \<Rightarrow> pod list \<Rightarrow> bool" where
  "goodPods fresh n pods \<longleftrightarrow> distinct (map UID pods) \<and> (\<forall>p \<in> set pods. isLive p) \<and> (\<forall>k \<ge> n. fresh k \<notin> UID ` set pods)"

lemma specialized_launcher:
  assumes "usable snap t"
  shows "isCurrent (snapTemplateHash snap) ((SpecializeLauncherTemplateToNode sha t n)\<lparr>UID := u\<rparr>)"
    and "\<not> isBound ((SpecializeLauncherTemplateToNode sha t n)\<lparr>UID := u\<rparr>)"
    and "isLive ((SpecializeLauncherTemplateToNode sha t n)\<lparr>UID := u\<rparr>)"
  using assms
  by (simp_all add: usable_def isCurrent_def isLive_def SpecializeLauncherTemplateToNode_def Let_def annot_def
      isLauncherBoundToServerRequestingPod_def)

definition boundOf :: "pod list \<Rightarrow> pod list" where
  "boundOf pods = filter isBound pods"

definition currentOf :: "string \<Rightarrow> pod list \<Rightarrow> pod list" where
  "currentOf h pods = filter (\<lambda>p. \<not> isBound p \<and> isCurrent h p) pods"

definition staleOf :: "string \<Rightarrow> pod list \<Rightarrow> pod list" where
  "staleOf h pods = filter (\<lambda>p. \<not> isBound p \<and> \<not> isCurrent h p) pods"

lemma categorize_live:
  assumes "\<forall>p \<in> set pods. isLive p"
  shows "categorize h pods = \<lparr>liveBoundCount = length (boundOf pods), liveUnboundCurrentPods = currentOf h pods,
    staleUnboundPods = staleOf h pods, deletionInProgress = False\<rparr>"
  using assms by (auto simp: categorize_eq boundOf_def currentOf_def staleOf_def cong: filter_cong)

lemma filter_not_in_take_rev:
  "distinct xs \<Longrightarrow> length (filter (\<lambda>p. p \<notin> set (take n (rev xs))) xs) = length xs - n"
proof -
  assume d: "distinct xs"
  have "length (filter (\<lambda>p. p \<notin> set (take n (rev xs))) xs) = card (set xs - set (take n (rev xs)))"
    using d by (subst distinct_length_filter) (auto intro!: arg_cong [where f = card])
  also have "\<dots> = length xs - min n (length xs)"
    using d by (subst card_Diff_subset) (auto simp: distinct_card dest: in_set_takeD)
  finally show ?thesis by simp
qed

lemma UID_in: "distinct (map UID pods) \<Longrightarrow> set ps \<subseteq> set pods \<Longrightarrow> q \<in> set pods \<Longrightarrow> UID q \<in> UID ` set ps \<longleftrightarrow> q \<in> set ps"
  by (auto simp: distinct_map dest: inj_onD)

lemma pass_population:
  fixes desired :: int
  assumes ob: "obedient fresh nd pods env" and us: "usable (snapshotForKey dp key) t"
    and good: "goodPods fresh (length (calls st)) pods"
    and sat: "snd (check (clockNow env) (expectations st) key (set (map UID pods))) = ExpectationsSatisfied"
  defines "h \<equiv> snapTemplateHash (snapshotForKey dp key)" and "desired \<equiv> snapDesiredCount (snapshotForKey dp key)"
  defines "X \<equiv> take (nat (int (length (boundOf pods) + length (currentOf h pods)) - desired)) (rev (currentOf h pods))"
  obtains st' ix csP where
    "processKey env dp st key = (st', Returns (None, staleOf h pods \<noteq> [] \<or> X \<noteq> []))"
    and "passOn env dp key pods st = (filter (\<lambda>p. p \<notin> set (staleOf h pods) \<union> set X) pods @
           map (\<lambda>i. (SpecializeLauncherTemplateToNode (sha256b64P env) t (Name nd))\<lparr>UID := fresh i\<rparr>) ix, st')"
    and "length (calls st) \<le> length (calls st')" and "distinct ix" and "\<forall>i \<in> set ix. length (calls st) \<le> i \<and> i < length (calls st')"
    and "length ix = (if staleOf h pods = [] then nat (desired - int (length (boundOf pods) + length (currentOf h pods))) else 0)"
    and "pendC (expectations st') key = (\<lambda>i. fresh i) ` set ix"
    and "pendD (expectations st') key = UID ` (set (staleOf h pods) \<union> set X)"
    and "\<forall>c \<in> set (newCalls st st'). (\<exists>p. c = delOK p \<and> p \<in> set (staleOf h pods) \<union> set X) \<or>
           (\<exists>m. c = ListPods m) \<or> (\<exists>p x r. c = PatchStuckLabel p x r) \<or> (\<exists>u r. c = CreatePod u r \<and> ix \<noteq> [])"
proof -
  let ?snap = "snapshotForKey dp key"
  let ?t = "SpecializeLauncherTemplateToNode (sha256b64P env) t (Name nd)"
  have dec: "decidesOn env dp st key = Some pods"
    using ob us sat by (auto simp: decidesOn_def obedient_def usable_def Let_def)
  have eff: "effDesired ?snap = desired" "effTemplate ?snap = Some t"
    using us by (simp_all add: effDesired_def effTemplate_def usable_def desired_def)
  obtain st1 pre nd1 where s1: "processKey env dp st key =
      adjustLaunchers env st1 key desired h (Some t) nd1 (categorize h pods)"
    "nodeLookup env (kNodeName key) = Inr nd1" "calls st1 = calls st @ pre" "set pre \<subseteq> {ListPods (launcherLabels key)}"
    "pendC (expectations st1) key = {}" "pendD (expectations st1) key = {}"
    using processKey_decides [OF dec] unfolding eff h_def [symmetric] by metis
  have nd: "nd1 = nd" using s1(2) ob by (simp add: obedient_def)
  have live: "\<forall>p \<in> set pods. isLive p" using good by (simp add: goodPods_def)
  note cat = categorize_live [OF live, of h]
  have X: "surplus desired (categorize h pods) = X" by (simp add: surplus_def cat X_def)
  have m: "missing desired (categorize h pods) =
      (if staleOf h pods = [] then nat (desired - int (length (boundOf pods) + length (currentOf h pods))) else 0)"
    by (simp add: missing_def cat)
  have sel: "staleUnboundPods (categorize h pods) = staleOf h pods" "\<not> deletionInProgress (categorize h pods)"
    by (simp_all add: cat)
  from adjust_obedient [OF ob refl, where t = t and st = st1 and key = key and desired = desired
      and h = h and nd = nd and sorts = "categorize h pods"]
  obtain st' csP k where adj: "processKey env dp st key = (st', Returns (None, staleOf h pods \<noteq> [] \<or> X \<noteq> []))"
    and k: "length (calls st1) \<le> k" "k + missing desired (categorize h pods) = length (calls st')"
    and did: "didCalls env key st1 (map delOK (staleOf h pods @ X) @ csP @
      map (\<lambda>i. CreatePod ?t (Inr (?t\<lparr>UID := fresh i\<rparr>))) [k ..< k + missing desired (categorize h pods)]) st'"
    and csP: "\<forall>c \<in> set csP. \<exists>p x r. c = PatchStuckLabel p x r"
    by (auto simp: s1(1) nd sel X)
  let ?ix = "[k ..< k + missing desired (categorize h pods)]"
  let ?cs = "map delOK (staleOf h pods @ X) @ csP @ map (\<lambda>i. CreatePod ?t (Inr (?t\<lparr>UID := fresh i\<rparr>))) ?ix"
  have new: "newCalls st st' = pre @ ?cs" using did s1(3) by (simp add: newCalls_def didCalls_def)
  have pre: "fold applyCall pre pods = pods" for pods
  proof -
    have "\<forall>c \<in> set pre. applyCall c = id" using s1(4) by (auto simp: fun_eq_iff)
    then show ?thesis by (induction pre) auto
  qed
  have sub: "set (staleOf h pods @ X) \<subseteq> set pods"
    by (auto simp: staleOf_def X_def currentOf_def dest: in_set_takeD)
  have "filter (\<lambda>q. UID q \<notin> UID ` set (staleOf h pods @ X)) pods = filter (\<lambda>p. p \<notin> set (staleOf h pods) \<union> set X) pods"
    using good UID_in [OF _ sub] by (intro filter_cong) (auto simp: goodPods_def)
  then have on: "passOn env dp key pods st = (filter (\<lambda>p. p \<notin> set (staleOf h pods) \<union> set X) pods @
      map (\<lambda>i. ?t\<lparr>UID := fresh i\<rparr>) ?ix, st')"
    using fold_delOK [of "staleOf h pods @ X"] fold_patches [OF csP]
    by (simp add: passOn_def adj new pre fold_creates del: map_append fold_map)
  have none: "\<Union> (set (map madeBy csP)) = {}" "\<Union> (set (map goneBy csP)) = {}" using csP by fastforce+
  show thesis
  proof (rule that [OF adj on])
    show "length (calls st) \<le> length (calls st')" using k s1(3) by auto
    show "\<forall>i \<in> set ?ix. length (calls st) \<le> i \<and> i < length (calls st')"
      using k s1(3) by auto
    show "pendC (expectations st') key = (\<lambda>i. fresh i) ` set ?ix"
      using did s1(5) none by (auto simp: didCalls_def)
    show "pendD (expectations st') key = UID ` (set (staleOf h pods) \<union> set X)"
      using did s1(6) none by (auto simp: didCalls_def)
    show "\<forall>c \<in> set (newCalls st st'). (\<exists>p. c = delOK p \<and> p \<in> set (staleOf h pods) \<union> set X) \<or>
           (\<exists>m. c = ListPods m) \<or> (\<exists>p x r. c = PatchStuckLabel p x r) \<or> (\<exists>u r. c = CreatePod u r \<and> ?ix \<noteq> [])"
      using csP s1(4) by (auto simp: new)
  qed (simp_all add: m)
qed

subsection \<open>Convergence\<close>

text \<open>Between passes: the population is in order and nothing recorded as pending is still to be seen.\<close>

definition inStep :: "(nat \<Rightarrow> string) \<Rightarrow> NodeLauncherKey \<Rightarrow> pod list \<times> popState \<Rightarrow> bool" where
  "inStep fresh key = (\<lambda>(pods, st). goodPods fresh (length (calls st)) pods \<and>
     pendC (expectations st) key \<subseteq> UID ` set pods \<and> pendD (expectations st) key \<inter> UID ` set pods = {})"

definition desiredUnbound :: "keySnapshot \<Rightarrow> pod list \<Rightarrow> nat" where
  "desiredUnbound snap pods = nat (snapDesiredCount snap - int (length (boundOf pods)))"

definition changes :: "apiCall list \<Rightarrow> bool" where
  "changes cs \<longleftrightarrow> (\<exists>c \<in> set cs. \<exists>p r. c = DeletePod p r) \<or> (\<exists>c \<in> set cs. \<exists>t r. c = CreatePod t r)"

lemma filter_filter_not: "filter P (filter (\<lambda>p. p \<notin> A) xs) = filter (\<lambda>p. p \<notin> A) (filter P xs)"
  by (simp add: conj_commute cong: filter_cong)

lemma disjoint_cover: "A \<inter> B = {} \<Longrightarrow> C \<inter> D = {} \<Longrightarrow> B \<subseteq> C \<Longrightarrow> D \<subseteq> A \<union> D \<and> B \<inter> (A \<union> D) = {}"
  by blast

lemma nat_balance: "(c::nat) - nat (int b + int c - d) + nat (d - (int b + int c)) = nat (d - int b)"
  by arith

lemma pass_step:
  fixes snap
  assumes ob: "obedient fresh nd pods env" and us: "usable (snapshotForKey dp key) t"
    and inv: "inStep fresh key (pods, st)" and inj: "inj fresh"
  defines "snap \<equiv> snapshotForKey dp key"
  defines "h \<equiv> snapTemplateHash snap"
  obtains pods' st' where "passOn env dp key pods st = (pods', st')" and "inStep fresh key (pods', st')"
    and "boundOf pods' = boundOf pods" and "staleOf h pods' = []"
    and "staleOf h pods = [] \<Longrightarrow> length (currentOf h pods') = desiredUnbound snap pods"
    and "staleOf h pods = [] \<Longrightarrow> length (currentOf h pods) = desiredUnbound snap pods \<Longrightarrow>
      pods' = pods \<and> snd (processKey env dp st key) = Returns (None, False) \<and> \<not> changes (newCalls st st')"
proof -
  have good: "goodPods fresh (length (calls st)) pods"
    and sat: "snd (check (clockNow env) (expectations st) key (set (map UID pods))) = ExpectationsSatisfied"
    using inv by (auto simp: inStep_def pe.chk_status)
  let ?d = "snapDesiredCount snap"
  define X where "X = take (nat (int (length (boundOf pods) + length (currentOf h pods)) - ?d)) (rev (currentOf h pods))"
  let ?T = "SpecializeLauncherTemplateToNode (sha256b64P env) t (Name nd)"
  obtain st' ix csP where 
    run: "processKey env dp st key = (st', Returns (None, staleOf h pods \<noteq> [] \<or> X \<noteq> []))"
    and on: "passOn env dp key pods st = (filter (\<lambda>p. p \<notin> set (staleOf h pods) \<union> set X) pods @
           map (\<lambda>i. ?T\<lparr>UID := fresh i\<rparr>) ix, st')"
    and len: "length (calls st) \<le> length (calls st')" and ix: "distinct ix" "\<forall>i \<in> set ix. length (calls st) \<le> i \<and> i < length (calls st')"
     "length ix = (if staleOf h pods = [] then nat (?d - int (length (boundOf pods) + length (currentOf h pods))) else 0)"
    and pend: "pendC (expectations st') key = (\<lambda>i. fresh i) ` set ix"
     "pendD (expectations st') key = UID ` (set (staleOf h pods) \<union> set X)"
    and cs: "\<forall>c \<in> set (newCalls st st'). (\<exists>p. c = delOK p \<and> p \<in> set (staleOf h pods) \<union> set X) \<or>
           (\<exists>m. c = ListPods m) \<or> (\<exists>p x r. c = PatchStuckLabel p x r) \<or> (\<exists>u r. c = CreatePod u r \<and> ix \<noteq> [])"
    by (rule pass_population [OF ob us good sat, folded snap_def, folded h_def, folded X_def]) (rule that; assumption)
  let ?K = "filter (\<lambda>p. p \<notin> set (staleOf h pods) \<union> set X) pods"
  let ?N = "map (\<lambda>i. ?T\<lparr>UID := fresh i\<rparr>) ix"
  have new: "isCurrent h p" "\<not> isBound p" "isLive p" if "p \<in> set ?N" for p
    using that specialized_launcher [OF us] by (auto simp: h_def snap_def)
  have dist: "distinct pods" using good by (simp add: goodPods_def distinct_map)
  have XC: "set X \<subseteq> set (currentOf h pods)" by (auto simp: X_def dest: in_set_takeD)
  have bound: "boundOf (?K @ ?N) = boundOf pods"
    using XC new(2) by (auto simp: boundOf_def staleOf_def currentOf_def filter_empty_conv intro!: filter_cong)
  have stale: "staleOf h (?K @ ?N) = []"
    using new(1) by (auto simp: staleOf_def filter_empty_conv)
  have curK: "currentOf h ?K = filter (\<lambda>p. p \<notin> set X) (currentOf h pods)"
    using XC by (auto simp: staleOf_def currentOf_def intro!: filter_cong)
  have curN: "currentOf h ?N = ?N" using new by (auto simp: currentOf_def filter_id_conv)
  have "distinct (currentOf h pods)" using dist by (simp add: currentOf_def)
  from filter_not_in_take_rev [OF this] 
  have lenK: "length (currentOf h ?K) = length (currentOf h pods) - nat (int (length (boundOf pods) + length (currentOf h pods)) - ?d)"
    by (subst curK) (simp add: X_def)
  have cur: "length (currentOf h (?K @ ?N)) = length (currentOf h ?K) + length ix"
    using curN by (simp add: currentOf_def)
  have fr: "fresh k \<notin> UID ` set pods" if "k \<ge> length (calls st)" for k using good that by (simp add: goodPods_def)
  have disj: "UID p \<noteq> fresh i" if "p \<in> set pods" "i \<in> set ix" for p i
    using fr [of i] ix(2) that by (metis image_eqI)
  have uids: "UID ` set ?N = fresh ` set ix" by (auto simp: image_iff)
  have good': "goodPods fresh (length (calls st')) (?K @ ?N)"
  proof -
    have "distinct (map UID ?K)" using good by (auto simp: goodPods_def distinct_map_filter)
    moreover have "distinct (map UID ?N)" using ix(1) inj by (auto simp: comp_def distinct_map inj_on_def inj_def)
    moreover have "UID ` set ?K \<inter> fresh ` set ix = {}" using disj by auto
    ultimately have "distinct (map UID (?K @ ?N))" using uids by auto
    moreover have "\<forall>p \<in> set (?K @ ?N). isLive p" using new(3) good by (auto simp: goodPods_def)
    moreover have "fresh k \<notin> UID ` set (?K @ ?N)" if "k \<ge> length (calls st')" for k
    proof -
      have "fresh k \<notin> fresh ` set ix" using ix(2) that by (auto dest!: injD [OF inj])
      moreover have "fresh k \<notin> UID ` set ?K" using fr [of k] len that by auto
      ultimately show ?thesis using uids by auto
    qed
    ultimately show ?thesis by (simp add: goodPods_def)
  qed
  show thesis
  proof (rule that [OF on _ bound stale])
    show "inStep fresh key (?K @ ?N, st')"
    proof -
      have sub: "set (staleOf h pods @ X) \<subseteq> set pods" using XC by (auto simp: staleOf_def currentOf_def)
      have "UID ` set ?K \<inter> UID ` (set (staleOf h pods) \<union> set X) = {}"
        using good UID_in [OF _ sub] by (auto simp: goodPods_def)
      moreover have "UID ` set pods \<inter> fresh ` set ix = {}" using disj by auto
      moreover have "UID ` set (?K @ ?N) = UID ` set ?K \<union> fresh ` set ix" unfolding uids [symmetric] by auto
      moreover have "UID ` (set (staleOf h pods) \<union> set X) \<subseteq> UID ` set pods" using sub by auto
      ultimately have "fresh ` set ix \<subseteq> UID ` set (?K @ ?N) \<and>
          UID ` (set (staleOf h pods) \<union> set X) \<inter> UID ` set (?K @ ?N) = {}"
        by (simp only: disjoint_cover)
      then show ?thesis using good' by (simp only: inStep_def prod.case pend)
    qed
    show "length (currentOf h (?K @ ?N)) = desiredUnbound snap pods" if "staleOf h pods = []"
      unfolding cur lenK ix(3) desiredUnbound_def using that nat_balance by simp
    show "?K @ ?N = pods \<and> snd (processKey env dp st key) = Returns (None, False) \<and> \<not> changes (newCalls st st')"
      if "staleOf h pods = []" "length (currentOf h pods) = desiredUnbound snap pods"
    proof -
      have "0 \<le> ?d" using us by (simp add: usable_def snap_def)
      then have n: "ix = []" "X = []" using that ix(3) by (auto simp: desiredUnbound_def X_def)
      then show ?thesis using that(1) run cs by (auto simp: changes_def)
    qed
  qed
qed
text \<open>Repeated passes, each on the population the one before left.\<close>

fun passes :: "(pod list \<Rightarrow> popEnv) \<Rightarrow> 'sel digestedPolicy \<Rightarrow> NodeLauncherKey \<Rightarrow> nat \<Rightarrow> pod list \<times> popState \<Rightarrow> pod list \<times> popState" where
  "passes E dp key 0 s = s"
| "passes E dp key (Suc n) s = (let (pods, st) = passes E dp key n s in passOn (E pods) dp key pods st)"

lemma passes_settled:
  assumes ob: "\<And>pods. obedient fresh nd pods (E pods)" and us: "usable (snapshotForKey dp key) t"
    and inv: "inStep fresh key (pods, st)" and inj: "inj fresh"
  shows "\<exists>pods' st'. passes E dp key (n + 2) (pods, st) = (pods', st') \<and> inStep fresh key (pods', st') \<and>
     boundOf pods' = boundOf pods \<and> staleOf (snapTemplateHash (snapshotForKey dp key)) pods' = [] \<and>
     length (currentOf (snapTemplateHash (snapshotForKey dp key)) pods') = desiredUnbound (snapshotForKey dp key) pods \<and>
     pods' = fst (passes E dp key 2 (pods, st))"
proof (induction n)
  case 0
  obtain pods1 st1 where p1: "passOn (E pods) dp key pods st = (pods1, st1)" "inStep fresh key (pods1, st1)"
    "boundOf pods1 = boundOf pods" "staleOf (snapTemplateHash (snapshotForKey dp key)) pods1 = []"
    by (rule pass_step [OF ob us inv inj])
  obtain pods2 st2 where p2: "passOn (E pods1) dp key pods1 st1 = (pods2, st2)" "inStep fresh key (pods2, st2)"
    "boundOf pods2 = boundOf pods1" "staleOf (snapTemplateHash (snapshotForKey dp key)) pods2 = []"
    "length (currentOf (snapTemplateHash (snapshotForKey dp key)) pods2) = desiredUnbound (snapshotForKey dp key) pods1"
    by (rule pass_step [OF ob us p1(2) inj]) (use p1(4) in blast)
  have "passes E dp key 2 (pods, st) = (pods2, st2)" using p1(1) p2(1) by (simp add: numeral_2_eq_2)
  with p1 p2 show ?case by (simp add: desiredUnbound_def)
next
  case (Suc n)
  then obtain pods' st' where IH: "passes E dp key (n + 2) (pods, st) = (pods', st')" "inStep fresh key (pods', st')"
     "boundOf pods' = boundOf pods" "staleOf (snapTemplateHash (snapshotForKey dp key)) pods' = []"
     "length (currentOf (snapTemplateHash (snapshotForKey dp key)) pods') = desiredUnbound (snapshotForKey dp key) pods'"
     "pods' = fst (passes E dp key 2 (pods, st))" by (auto simp: desiredUnbound_def)
  obtain st2 where "passOn (E pods') dp key pods' st' = (pods', st2)" "inStep fresh key (pods', st2)"
    by (rule pass_step [OF ob us IH(2) inj]) (use IH(4,5) in blast)
  with IH show ?case by (simp add: desiredUnbound_def)
qed

lemma partition_length: "length (boundOf pods) + length (currentOf h pods) + length (staleOf h pods) = length pods"
  by (induction pods) (auto simp: boundOf_def currentOf_def staleOf_def)

text \<open>
  C2: the reconcile loop converges.  In a cluster where every call succeeds, the cache follows and
  nobody else interferes, two passes over a key bring its launchers, whatever they were, to exactly the
  desired number or, if more than that are bound, to the bound ones; all of them are bound or made from
  the current template, and every launcher that was bound is still there, in its place.  Every
  later pass reports success without a retry and deletes and creates nothing.
\<close>

theorem passes_converge:
  assumes ob: "\<And>pods. obedient fresh nd pods (E pods)" and us: "usable (snapshotForKey dp key) t"
    and good: "goodPods fresh (length (calls st)) pods" and inj: "inj fresh"
    and none: "mget (entries (expectations st)) key = None" and n: "2 \<le> n"
  shows "\<exists>pods' st'. passes E dp key n (pods, st) = (pods', st') \<and>
     boundOf pods' = boundOf pods \<and>
     (\<forall>p \<in> set pods'. isBound p \<or> isCurrent (snapTemplateHash (snapshotForKey dp key)) p) \<and>
     int (length pods') = max (snapDesiredCount (snapshotForKey dp key)) (int (length (boundOf pods))) \<and>
     fst (passes E dp key (Suc n) (pods, st)) = pods' \<and>
     snd (processKey (E pods') dp st' key) = Returns (None, False) \<and>
     \<not> changes (newCalls st' (fst (processKey (E pods') dp st' key)))"
proof -
  have inv: "inStep fresh key (pods, st)" using good none by (simp add: inStep_def pendC_def pendD_def)
  let ?h = "snapTemplateHash (snapshotForKey dp key)"
  obtain m where "n = m + 2" using n by (metis add.commute le_Suc_ex)
  with passes_settled [OF ob us inv inj, of m] obtain pods' st' where
     P: "passes E dp key n (pods, st) = (pods', st')" "inStep fresh key (pods', st')"
     "boundOf pods' = boundOf pods" "staleOf ?h pods' = []"
     "length (currentOf ?h pods') = desiredUnbound (snapshotForKey dp key) pods'"
    by (metis desiredUnbound_def)
  obtain st2 where st2: "passOn (E pods') dp key pods' st' = (pods', st2)"
    "snd (processKey (E pods') dp st' key) = Returns (None, False)" "\<not> changes (newCalls st' st2)"
    by (rule pass_step [OF ob us P(2) inj]) (use P(4,5) in blast)
  have "\<forall>p \<in> set pods'. isBound p \<or> isCurrent ?h p" using P(4) by (auto simp: staleOf_def filter_empty_conv)
  moreover have "int (length pods') = max (snapDesiredCount (snapshotForKey dp key)) (int (length (boundOf pods)))"
    using partition_length [of pods' ?h] P(3,4,5) us by (auto simp: desiredUnbound_def usable_def)
  moreover have "st2 = fst (processKey (E pods') dp st' key)" using st2(1) by (simp add: passOn_def Let_def)
  ultimately show ?thesis using P(1,3) st2 by simp
qed

subsection \<open>Caches that are behind, and panics\<close>

text \<open>
  C13: after a pass that decided, as long as the deadline has not passed and the informer cache either
  does not show a Pod that pass created or still shows one it deleted, another pass over the key makes
  no call to the apiserver at all, whatever the policy is by then: launchers are neither created twice
  nor deleted in place of ones that are already gone.
\<close>

theorem behind_cache_makes_no_call:
  assumes dec: "decidesOn env dp st key = Some pods" and run: "processKey env dp st key = (st', out)"
    and cache: "podListCache env' (launcherLabels key) = Inr cachePods"
    and behind: "\<Union> (set (map madeBy (newCalls st st'))) - UID ` set cachePods \<noteq> {} \<or>
                 \<Union> (set (map goneBy (newCalls st st'))) \<inter> UID ` set cachePods \<noteq> {}"
    and early: "clockNow env' \<le> clockNow env + timeout (expectations st)"
  shows "calls (fst (processKey env' dp' st' key)) = calls st'"
proof -
  have pend: "pendC (expectations st') key = \<Union> (set (map madeBy (newCalls st st')))"
    "pendD (expectations st') key = \<Union> (set (map goneBy (newCalls st st')))"
    "pendC (expectations st') key \<union> pendD (expectations st') key \<noteq> {} \<Longrightarrow>
       dueAt (expectations st') key = clockNow env + timeout (expectations st)"
    using pass_calls [OF dec run] by metis+
  have "dueAt (expectations st') key = clockNow env + timeout (expectations st)"
    using behind by (intro pend(3)) (auto simp: pend)
  then have "snd (check (clockNow env') (expectations st') key (UID ` set cachePods)) = ExpectationsWaiting"
    using behind early by (auto simp: pe.chk_status pend)
  then show ?thesis
    by (auto simp: processKey_def listPodsFromCache_def cache reconcileKey_def getCurrentLaunchersOnNode_def
        Let_def split_beta split: sum.split)
qed

lemma adjust_no_panic:
  assumes "template \<noteq> None \<or> desired \<le> 0"
  shows "snd (adjustLaunchers env st key desired h template nd sorts) \<noteq> Panics"
  using assms by (auto simp: adjustLaunchers_def Let_def split: sum.split prod.split option.split)

lemma processKey_no_panic:
  assumes "effTemplate (snapshotForKey dp key) \<noteq> None \<or> effDesired (snapshotForKey dp key) \<le> 0"
  shows "snd (processKey env dp st key) \<noteq> Panics"
proof (cases "decidesOn env dp st key")
  case (Some pods)
  from processKey_decides [OF this] adjust_no_panic [OF assms] show ?thesis by metis
qed (use processKey_not_decides in blast)

text \<open>
  C14: after any history of the watched objects in which the versions of a policy of one name are told apart
  by their Generation (\<^const>\<open>generationsTell\<close>), once no digest item is pending, a pass over any key,
  in whatever state the apiserver and the cache are, returns: it never dereferences a template that is not there.
\<close>

theorem quiescent_pass_never_panics:
  assumes "digestReach generationsTell env0 (c, ds, {})"
  shows "snd (processKey env (policy ds) st key) \<noteq> Panics"
proof (rule processKey_no_panic)
  have "key = mkKey (kNodeName key) (kLauncherConfigName key)" by (simp add: mkKey_def)
  then obtain n l where "key = mkKey n l" by blast
  with quiescent_snapshot [OF assms] have snap: "snapshotForKey (policy ds) key = specSnapshot env0 c n l" by simp
  show "effTemplate (snapshotForKey (policy ds) key) \<noteq> None \<or> effDesired (snapshotForKey (policy ds) key) \<le> 0"
    unfolding snap
    by (auto simp: specSnapshot_def effTemplate_def effDesired_def HandsOff_def Let_def split: sum.splits option.splits)
qed

lemma templateless_panics:
  assumes snap: "snapshotForKey dp (mkKey n l) = \<lparr>snapExists = True, snapDesiredCount = d, snapTemplateHash = h, snapTemplate = None\<rparr>"
    and "0 < d" and idle: "podListCache env (launcherLabels (mkKey n l)) = Inr []" "nodeLookup env n = Inr nd"
      "mget (entries (expectations st)) (mkKey n l) = None"
  shows "snd (processKey env dp st (mkKey n l)) = Panics"
proof -
  have key: "kNodeName (mkKey n l) = n" by (simp add: mkKey_def)
  have chk: "check (clockNow env) (expectations st) (mkKey n l) {} = (expectations st, ExpectationsSatisfied)"
    using idle(3) by (simp add: check_def)
  show ?thesis
    using assms(2) idle(1,2) chk
    by (simp add: processKey_def snap listPodsFromCache_def reconcileKey_def getCurrentLaunchersOnNode_def key
        adjustLaunchers_def categorize_def Let_def split_beta)
qed

text \<open>
  C15: while items are pending this fails.  Deleting a LauncherConfig that a policy refers to makes the
  digest of the LauncherConfig item drop the template at once while the desired count stays, until the
  items of the policies are processed; a pass over the key in between, on a Node without launchers for it,
  dereferences a nil template.
\<close>

theorem lc_deletion_window_panics:
  assumes entry: "ent (policy ds) n l = Some e" "0 < deDesiredCount e"
    and lc: "mget (lcs (policy ds)) l = Some d" "lcdObject d \<noteq> None" and gone: "lcGet denv l = Inl ErrNotFound"
    and idle: "podListCache env (launcherLabels (mkKey n l)) = Inr []" "nodeLookup env n = Inr nd"
      "mget (entries (expectations st)) (mkKey n l) = None"
  shows "snd (processKey env (policy (fst (processDigestItem denv ds \<lparr>fiKind = kindLC, fiName = l\<rparr>))) st (mkKey n l)) = Panics"
proof -
  let ?ds = "fst (processDigestItem denv ds \<lparr>fiKind = kindLC, fiName = l\<rparr>)"
  have "policy ?ds = (policy ds)\<lparr>lcs := mdel l (lcs (policy ds))\<rparr>"
    using lc gone by (simp add: processDigestItem_def updateDigestForLC_def isNotFound_def Let_def)
  moreover have "ent (policy ds\<lparr>lcs := mdel l (lcs (policy ds))\<rparr>) n l = Some e"
    using entry(1) by (simp add: ent_def nodeMapOf_def)
  ultimately have snap: "snapshotForKey (policy ?ds) (mkKey n l) =
      \<lparr>snapExists = True, snapDesiredCount = deDesiredCount e, snapTemplateHash = [], snapTemplate = None\<rparr>"
    by (simp add: snapshot_ent desiredOf_def gomap_simps)
  from entry(2) show ?thesis using templateless_panics [OF snap _ idle] by simp
qed

subsection \<open>Examples\<close>

definition currentTemplate :: pod where
  "currentTemplate = blankPod\<lparr>Annotations := [LauncherTemplateHashAnnotationKey \<mapsto> ''h'']\<rparr>"

definition examplePolicy :: "unit digestedPolicy" where
  "examplePolicy = \<lparr>digest = [(''n1'', [(''lc1'', \<lparr>deDesiredCount = 2, deLpps = [(''p'', [(''lc1'', 2)])]\<rparr>)])],
     lcs = [(''lc1'', \<lparr>lcdObject = None, lcdTemplateErr = [], lcdNodeIndependent = Some currentTemplate,
        lcdTemplateHash = ''h''\<rparr>)], lpps = []\<rparr>"

definition exampleEnv :: "pod list \<Rightarrow> popEnv" where
  "exampleEnv pods = \<lparr>podListCache = (\<lambda>_. Inr pods), podListApi = (\<lambda>_ _. Inr pods),
     nodeLookup = (\<lambda>_. Inr exampleNode), podDelete = (\<lambda>_ _ _ _ _. None),
     podCreate = (\<lambda>hist t. Inr (t\<lparr>UID := replicate (length hist) CHR ''u''\<rparr>)), podPatch = (\<lambda>_ _ _ _. None),
     sha256b64P = (\<lambda>_. ''sha''), formatTime = (\<lambda>_. ''then''), stuckSchedulingThreshold = 60,
     stuckStartingThreshold = 60, clockNow = 100\<rparr>"

definition exampleState :: popState where
  "exampleState = \<lparr>expectations = newPendingExpectations 30, pmetrics = newMetricsState, calls = [], events = [],
     keyAddAfters = []\<rparr>"

definition staleLauncher :: pod where
  "staleLauncher = blankPod\<lparr>UID := ''s1'', Annotations := [LauncherTemplateHashAnnotationKey \<mapsto> ''old'']\<rparr>"

definition afterStale :: popState where
  "afterStale = fst (processKey (exampleEnv [staleLauncher]) examplePolicy exampleState exampleKey)"

lemma example_snapshot: "snapshotForKey examplePolicy exampleKey =
    \<lparr>snapExists = True, snapDesiredCount = 2, snapTemplateHash = ''h'', snapTemplate = Some currentTemplate\<rparr>"
  by (simp add: exampleKey_def snapshot_ent examplePolicy_def ent_def nodeMapOf_def desiredOf_def)

lemma example_usable: "usable (snapshotForKey examplePolicy exampleKey) currentTemplate"
  by (simp add: usable_def example_snapshot currentTemplate_def isCurrent_def isLive_def annot_def blank_defs
      LauncherTemplateHashAnnotationKey_def RequesterAnnotationKey_def)

lemma example_obedient: "obedient (\<lambda>n. replicate n CHR ''u'') exampleNode pods (exampleEnv pods)"
  by (simp add: obedient_def exampleEnv_def)

lemma example_inj: "inj (\<lambda>n. replicate n CHR ''u'')"
  by (rule injI) (metis length_replicate)

lemma stale_launcher: "isLive staleLauncher" "\<not> isBound staleLauncher" "\<not> isCurrent ''h'' staleLauncher"
  "UID staleLauncher = ''s1''"
  by (simp_all add: staleLauncher_def isLive_def isCurrent_def annot_def blank_defs
      isLauncherBoundToServerRequestingPod_def LauncherTemplateHashAnnotationKey_def RequesterAnnotationKey_def)

lemma example_good: "goodPods (\<lambda>n. replicate n CHR ''u'') 0 [staleLauncher]"
proof -
  have "replicate k CHR ''u'' \<noteq> ''s1''" for k by (cases k) auto
  then show ?thesis by (simp add: goodPods_def stale_launcher)
qed

lemma example_decides: "decidesOn (exampleEnv [staleLauncher]) examplePolicy exampleState exampleKey = Some [staleLauncher]"
  by (simp add: decidesOn_def example_snapshot exampleEnv_def exampleState_def newPendingExpectations_def check_def)

lemma example_pass: "calls afterStale = [DeletePod staleLauncher None]"
  "newCalls exampleState afterStale = [DeletePod staleLauncher None]"
proof -
  have "nodeLookup (exampleEnv [staleLauncher]) n = Inr exampleNode"
     "podListCache (exampleEnv [staleLauncher]) m = Inr [staleLauncher]" for n m by (simp_all add: exampleEnv_def)
  moreover have "podDelete (exampleEnv [staleLauncher]) hist ns n u v = None" for hist ns n u v by (simp add: exampleEnv_def)
  moreover have "check now (expectations exampleState) exampleKey x = (expectations exampleState, ExpectationsSatisfied)" for now x
    by (simp add: check_def exampleState_def newPendingExpectations_def)
  ultimately show "calls afterStale = [DeletePod staleLauncher None]"
    by (simp add: afterStale_def processKey_def example_snapshot listPodsFromCache_def reconcileKey_def
        getCurrentLaunchersOnNode_def adjustLaunchers_def categorize_eq stale_launcher Let_def split_beta
        deletePod_def expectDel_def deleteStale.simps deleteExcess.simps)
      (simp add: exampleState_def)
  then show "newCalls exampleState afterStale = [DeletePod staleLauncher None]"
    by (simp add: newCalls_def exampleState_def)
qed

theorem deletes_only_free_launchers_witness:
  "DeletePod staleLauncher None \<in> set (newCalls exampleState afterStale) \<and> \<not> isBound staleLauncher"
  using deletes_only_free_launchers [of staleLauncher None exampleState "exampleEnv [staleLauncher]" examplePolicy exampleKey]
    example_pass(2) by (auto simp: afterStale_def [symmetric])

theorem pass_respects_desired_count_witness:
  "creations (newCalls exampleState afterStale) = 0 \<and> keptCount ''h'' [staleLauncher] (newCalls exampleState afterStale) = 0"
proof -
  have "processKey (exampleEnv [staleLauncher]) examplePolicy exampleState exampleKey =
      (afterStale, snd (processKey (exampleEnv [staleLauncher]) examplePolicy exampleState exampleKey))"
    by (simp add: afterStale_def)
  from pass_respects_desired_count [OF example_decides this] show ?thesis
    by (auto simp: example_pass keptCount_def stale_launcher)
qed

theorem behind_cache_makes_no_call_witness:
  "calls (fst (processKey (exampleEnv [staleLauncher]) examplePolicy afterStale exampleKey)) = [DeletePod staleLauncher None]"
proof -
  have run: "processKey (exampleEnv [staleLauncher]) examplePolicy exampleState exampleKey =
      (afterStale, snd (processKey (exampleEnv [staleLauncher]) examplePolicy exampleState exampleKey))"
    by (simp add: afterStale_def)
  have "podListCache (exampleEnv [staleLauncher]) (launcherLabels exampleKey) = Inr [staleLauncher]"
    "clockNow (exampleEnv [staleLauncher]) \<le> clockNow (exampleEnv [staleLauncher]) + timeout (expectations exampleState)"
    by (simp_all add: exampleEnv_def exampleState_def newPendingExpectations_def)
  from behind_cache_makes_no_call [OF example_decides run this(1) _ this(2)] show ?thesis
    by (simp add: example_pass)
qed

theorem quiescent_pass_never_panics_witness:
  "snd (processKey (exampleEnv []) (policy exS3) exampleState exampleKey) \<noteq> Panics"
  using quiescent_pass_never_panics [OF exS3_reachable] .

theorem passes_converge_witness:
  "length (fst (passes exampleEnv examplePolicy exampleKey 2 ([staleLauncher], exampleState))) = 2"
proof -
  have "length (calls exampleState) = 0" "mget (entries (expectations exampleState)) exampleKey = None"
    by (simp_all add: exampleState_def newPendingExpectations_def)
  from passes_converge [where E = exampleEnv and n = 2 and st = exampleState and pods = "[staleLauncher]", OF example_obedient example_usable _ example_inj this(2)] this(1) example_good
  show ?thesis by (auto simp: example_snapshot boundOf_def stale_launcher)
qed

definition noCluster :: "unit cluster" where
  "noCluster = \<lparr>clNodes = [], clLCs = [], clLPPs = []\<rparr>"

definition windowState :: "unit digestState" where
  "windowState = \<lparr>policy = examplePolicy\<lparr>lcs := [(''lc1'', \<lparr>lcdObject = Some exampleLC, lcdTemplateErr = [],
      lcdNodeIndependent = Some currentTemplate, lcdTemplateHash = ''h''\<rparr>)]\<rparr>,
     metrics = newMetricsState, digestAdds = [], keyAdds = [], statusCalls = []\<rparr>"

theorem lc_deletion_window_panics_witness:
  "snd (processKey (exampleEnv []) (policy (fst (processDigestItem (cacheEnv noCluster) windowState \<lparr>fiKind = kindLC, fiName = ''lc1''\<rparr>)))
     exampleState (mkKey ''n1'' ''lc1'')) = Panics"
proof (rule lc_deletion_window_panics)
  show "ent (policy windowState) ''n1'' ''lc1'' = Some \<lparr>deDesiredCount = 2, deLpps = [(''p'', [(''lc1'', 2)])]\<rparr>"
    by (simp add: windowState_def examplePolicy_def ent_def nodeMapOf_def)
  show "mget (lcs (policy windowState)) ''lc1'' = Some \<lparr>lcdObject = Some exampleLC, lcdTemplateErr = [],
      lcdNodeIndependent = Some currentTemplate, lcdTemplateHash = ''h''\<rparr>"
    by (simp add: windowState_def)
  show "lcGet (cacheEnv noCluster) ''lc1'' = Inl ErrNotFound"
    by (simp add: cacheEnv_def noCluster_def)
qed (simp_all add: windowState_def exampleEnv_def exampleState_def newPendingExpectations_def)


end
