(* ===== verification/Startup.thy ===== *)
theory Startup
  imports Work_Queue Populator_Loop Node_Run
begin

text \<open>
  How the two controllers set up and start their work queues: the constructors and \<^verbatim>\<open>Start\<close> of
  \<^verbatim>\<open>pkg/controller/launcher-populator/populator.go\<close> and of
  \<^verbatim>\<open>pkg/controller/dual-pods/controller.go\<close>.  Both interpret the locale \<open>sentinels\<close> with the
  functions that they pass to \<^verbatim>\<open>NewKnowsProcessedSync\<close>.
\<close>

subsection \<open>Launcher populator\<close>

definition makeDigestSentinel :: "int \<Rightarrow> funcItem" where
  "makeDigestSentinel distinguisher =
     \<lparr>fiKind = kindSentinel, fiName = ''sentinel-'' @ strconv_Itoa distinguisher\<rparr>"

definition isDigestSentinel :: "funcItem \<Rightarrow> bool" where
  "isDigestSentinel f \<longleftrightarrow> fiKind f = kindSentinel"

definition digestQueue ::
    "'sel digestEnv \<Rightarrow> (funcItem, 'q) rateLimitingQueue \<Rightarrow>
      (funcItem, 'q, 'sel digestState, goError) queueAndWorkers" where
  "digestQueue env wq =
     NewKnowsProcessedSync wq 1 (\<lambda>f st. processDigestItem env st f) makeDigestSentinel isDigestSentinel"

text \<open>The state of a new populator: an empty digest, no expectations, empty metrics.\<close>

definition newDigestState :: "'sel digestState" where
  "newDigestState = \<lparr>policy = newDigestedPolicy, metrics = newMetricsState, digestAdds = [], keyAdds = [],
     statusCalls = []\<rparr>"

definition newPopState :: "duration \<Rightarrow> popState" where
  "newPopState expectationTimeout = \<lparr>expectations = newPendingExpectations expectationTimeout,
     pmetrics = newMetricsState, calls = [], events = [], keyAddAfters = []\<rparr>"

text \<open>
  The key queue, whose work function is \<^verbatim>\<open>processKeyItem\<close>, and the hook \<^verbatim>\<open>onDigestSyncProcessed\<close>
  that starts its workers.
\<close>

definition keyQueue ::
    "(NodeLauncherKey, 'q) rateLimitingQueue \<Rightarrow> (NodeLauncherKey \<Rightarrow> 's \<Rightarrow> 's \<times> workResult) \<Rightarrow>
      (NodeLauncherKey, 'q, 's, goError) queueAndWorkers" where
  "keyQueue wq processKeyItem = NewQueueAndWorkers wq 4 processKeyItem"

definition onDigestSyncProcessed ::
    "(NodeLauncherKey, 'q, 's, goError) queueAndWorkers \<Rightarrow> 'q \<Rightarrow> 's \<Rightarrow>
      (NodeLauncherKey, 'q, 's, goError) workers" where
  "onDigestSyncProcessed ctl q s = startPlainWorkers ctl q s"

subsection \<open>Dual-pods controller\<close>

definition sentinelNS :: string where
  "sentinelNS = ''Senti Nel''"

definition cmSentinel :: "int \<Rightarrow> queueItem" where
  "cmSentinel distinguisher = CmItem sentinelNS (strconv_Itoa distinguisher)"

fun isCMSentinel :: "queueItem \<Rightarrow> bool" where
  "isCMSentinel (CmItem ns nm) \<longleftrightarrow> ns = sentinelNS"
| "isCMSentinel (NodeItem nn) \<longleftrightarrow> False"

text \<open>\<^verbatim>\<open>controller.process\<close>: the \<^verbatim>\<open>process\<close> method of the item.\<close>

fun processQueueItem :: "dpEnv \<Rightarrow> queueItem \<Rightarrow> dpState \<Rightarrow> dpState \<times> workResult" where
  "processQueueItem env (CmItem ns nm) st = cmItem_process env st ns nm"
| "processQueueItem env (NodeItem nn) st = nodeItem_process env (process env) st nn"

definition dualQueue ::
    "dpEnv \<Rightarrow> (queueItem, 'q) rateLimitingQueue \<Rightarrow> int \<Rightarrow>
      (queueItem, 'q, dpState, goError) queueAndWorkers" where
  "dualQueue env wq numWorkers =
     NewKnowsProcessedSync wq numWorkers (processQueueItem env) cmSentinel isCMSentinel"

text \<open>
  \<^verbatim>\<open>ControllerConfig.NewController\<close>: the settings the controller works with, from its configuration, and
  its state before the first event.  The clients, listers and indexers are those of the environment;
  registering metrics is not modelled.
\<close>

record ControllerConfig =
  cfgSleeperLimit :: int
  cfgNumWorkers :: int
  cfgAcceleratorSleepingMemoryLimitMiB :: int

definition withConfig :: "ControllerConfig \<Rightarrow> dpEnv \<Rightarrow> dpEnv" where
  "withConfig config env =
     env\<lparr>sleeperLimit := cfgSleeperLimit config,
         debugAccelMemory := (cfgAcceleratorSleepingMemoryLimitMiB config < 2 ^ 31 - 1),
         accelMemoryLimitMiB := cfgAcceleratorSleepingMemoryLimitMiB config\<rparr>"

definition newDualPodsState :: dpState where
  "newDualPodsState = \<lparr>gpuMap = None, nodeNameToData = [], dqueue = [], dcalls = [], dualityGauge = Map.empty,
     requesterCount = (\<lambda>_. 0), iscCount = (\<lambda>_. 0), devents = []\<rparr>"

text \<open>
  \<^verbatim>\<open>Start\<close> of the controllers: the workers are started once the informers have synchronised, so that the
  queue holds the items of the objects that existed then.
\<close>

definition Start ::
    "('i, 'q, 's, goError) queueAndWorkers \<Rightarrow> bool \<Rightarrow> 'q \<Rightarrow> 's \<Rightarrow> goError + ('i, 'q, 's, goError) workers"
where
  "Start ctl synced q s =
     (if \<not> synced then Inl (ErrorText ''caches not synced before end of Start context'')
      else Inr (startWorkers ctl q s))"

subsection \<open>Sentinels\<close>

lemma Itoa_inj: "0 \<le> i \<Longrightarrow> 0 \<le> j \<Longrightarrow> strconv_Itoa i = strconv_Itoa j \<Longrightarrow> i = j"
  by (metis (no_types, lifting) nat_eq_iff2 not_less readNat_showNat strconv_Itoa_def)

interpretation dqs: sentinels makeDigestSentinel isDigestSentinel
  by unfold_locales (auto simp: makeDigestSentinel_def isDigestSentinel_def dest: Itoa_inj)

interpretation cms: sentinels cmSentinel isCMSentinel
  by unfold_locales (auto simp: cmSentinel_def dest: Itoa_inj)

lemma digestQueue_sel [simp]:
  "Queue (digestQueue env wq) = wq" "NumWorkers (digestQueue env wq) = 1"
  "makeSentinel (digestQueue env wq) = makeDigestSentinel" "isSentinel (digestQueue env wq) = isDigestSentinel"
  by (simp_all add: digestQueue_def NewKnowsProcessedSync_def)

lemma dualQueue_sel [simp]:
  "Queue (dualQueue env wq n) = wq" "NumWorkers (dualQueue env wq n) = n"
  "makeSentinel (dualQueue env wq n) = cmSentinel" "isSentinel (dualQueue env wq n) = isCMSentinel"
  by (simp_all add: dualQueue_def NewKnowsProcessedSync_def)

text \<open>
  The controllers start from states that satisfy their invariants: no inference server has data yet,
  and the digest is that of an empty cluster.
\<close>

lemma new_controllers_ok:
  "serverInv env rn nn uid newDualPodsState"
  "digestReach ok env0 (\<lparr>clNodes = [], clLCs = [], clLPPs = []\<rparr>, newDigestState, {})"
  using digestReach.init [of ok env0]
  by (simp_all add: serverInv_def serverOf_def nodeOf_def newDualPodsState_def newNodeData_def newServerData_def
      digestInit_def newDigestState_def)

subsection \<open>Properties\<close>

text \<open>
  C30: the populator starts its key workers, which create and delete launchers, at most once, and not
  before the digest worker has processed every Node, LauncherConfig and LauncherPopulationPolicy item
  that was queued when the controller started, however event handlers and retries interleave with it.
\<close>

theorem key_workers_start_after_initial_digest:
  assumes "fairQueue wq" "\<forall>x \<in> outstanding wq q. \<not> isDigestSentinel x" "qTaken wq q = {}"
    and "Start (digestQueue env wq) True q s = Inr st0" "reach (digestQueue env wq) st0 st"
  shows "onceCalls st \<le> 1 \<and>
    (onceCalls st = 1 \<longrightarrow> HasProcessedSync st \<and>
       (\<forall>f \<in> set (qReady wq q). \<exists>err retry. (f, err, retry) \<in> set (outcomes st)))"
proof -
  have "reach (digestQueue env wq) (startWorkers (digestQueue env wq) q s) st"
    using assms(4,5) by (simp add: Start_def)
  from dqs.batch_processed_before_sync [OF this] assms(1-3) show ?thesis
    by (force simp: subset_iff)
qed

text \<open>
  C29: the start-up of the dual-pods controller terminates.  From the moment its workers run until all
  of them have reached the barrier behind the initial items, some worker can always take a step, every
  step of a worker brings the barrier closer, and nothing else moves it away; so after finitely many
  steps of the workers the initial items are processed and the workers go on.
\<close>

theorem initial_sync_terminates:
  assumes "fairQueue wq" "\<forall>x \<in> outstanding wq q. \<not> isCMSentinel x" "qTaken wq q = {}" "1 \<le> n"
    and "Start (dualQueue env wq n) True q s = Inr st0" "reach (dualQueue env wq n) st0 st"
    and "launched (dualQueue env wq n) st"
  shows "(if wg st = 0 then set (qReady wq q) \<subseteq> fst ` set (outcomes st)
    else (\<exists>w st'. workerStep (dualQueue env wq n) w st = Some st') \<and>
      (\<forall>w st'. workerStep (dualQueue env wq n) w st = Some st' \<longrightarrow>
         toBarrier (dualQueue env wq n) st' < toBarrier (dualQueue env wq n) st) \<and>
      (\<forall>st'. otherStep (dualQueue env wq n) st st' \<longrightarrow>
         toBarrier (dualQueue env wq n) st' = toBarrier (dualQueue env wq n) st))"
proof -
  have run: "reach (dualQueue env wq n) (startWorkers (dualQueue env wq n) q s) st"
    using assms(5,6) by (simp add: Start_def)
  show ?thesis
    using cms.batch_processed_before_sync [OF run] cms.batch_terminates [OF run _ _ _ _ _ _ assms(7)] assms(1-4)
    by simp
qed


text \<open>One Node item in the queue of a new populator.\<close>

definition firstItems :: "funcItem listQueue" where
  "firstItems = ([item kindNode ''n1''], [], [])"

lemma first_node_digested:
  "processDigestItem (cacheEnv exC2) newDigestState (item kindNode ''n1'') = (newDigestState, None, False)"
  by (simp add: newDigestState_def processDigestItem_def item_def updateDigestForNode_def cacheEnv_def exC2_def
      exC1_def recomputeDigestForNode_def newDigestedPolicy_def Let_def)

theorem key_workers_start_after_initial_digest_witness:
  "\<exists>st. runSchedule (digestQueue (cacheEnv exC2) listQueue) [Starter, Worker 0, Worker 0, Worker 0, Announcer]
      (startWorkers (digestQueue (cacheEnv exC2) listQueue) firstItems newDigestState) = Some st \<and>
     onceCalls st = 1 \<and> (\<exists>err retry. (item kindNode ''n1'', err, retry) \<in> set (outcomes st))"
proof -
  let ?ctl = "digestQueue (cacheEnv exC2) listQueue"
  let ?st0 = "startWorkers ?ctl firstItems newDigestState"
  have "\<exists>st. runSchedule ?ctl [Starter, Worker 0, Worker 0, Worker 0, Announcer] ?st0 = Some st \<and> onceCalls st = 1"
    by (simp add: addSentinel_def workerStep_def announce_def takeItem_def earlySync_def finishItem_def
        launched_def startWorkers_def firstItems_def listQueue_def settle_def digestQueue_def
        NewKnowsProcessedSync_def makeDigestSentinel_def isDigestSentinel_def first_node_digested)
     (simp add: item_def)
  then obtain st where run: "runSchedule ?ctl [Starter, Worker 0, Worker 0, Worker 0, Announcer] ?st0 = Some st"
    and once: "onceCalls st = 1" by blast
  have "reach ?ctl ?st0 st"
    by (rule runSchedule_reach [OF run reach.start])
  then have "onceCalls st \<le> 1 \<and>
    (onceCalls st = 1 \<longrightarrow> HasProcessedSync st \<and>
       (\<forall>f \<in> set (qReady listQueue firstItems). \<exists>err retry. (f, err, retry) \<in> set (outcomes st)))"
    by (intro key_workers_start_after_initial_digest [OF listQueue_fair])
      (auto simp: Start_def firstItems_def listQueue_def outstanding_def isDigestSentinel_def item_def)
  with run once show ?thesis by (auto simp: firstItems_def listQueue_def)
qed

definition firstQueueItems :: "queueItem listQueue" where
  "firstQueueItems = ([CmItem ''ns'' ''gpu-map''], [], [])"

theorem initial_sync_terminates_witness:
  "\<exists>st. runSchedule (dualQueue (dpExampleEnv []) listQueue 2) [Starter, Starter]
      (startWorkers (dualQueue (dpExampleEnv []) listQueue 2) firstQueueItems dpExampleState) = Some st \<and>
     wg st = 2 \<and> (\<exists>w st'. workerStep (dualQueue (dpExampleEnv []) listQueue 2) w st = Some st')"
proof -
  let ?ctl = "dualQueue (dpExampleEnv []) listQueue 2"
  let ?st0 = "startWorkers ?ctl firstQueueItems dpExampleState"
  have "\<exists>st. runSchedule ?ctl [Starter, Starter] ?st0 = Some st \<and> wg st = 2 \<and> launched ?ctl st"
    by (simp add: addSentinel_def startWorkers_def launched_def)
  then obtain st where run: "runSchedule ?ctl [Starter, Starter] ?st0 = Some st"
    and st: "wg st = 2" "launched ?ctl st" by blast
  have "reach ?ctl ?st0 st"
    by (rule runSchedule_reach [OF run reach.start])
  then have "if wg st = 0 then set (qReady listQueue firstQueueItems) \<subseteq> fst ` set (outcomes st)
    else (\<exists>w st'. workerStep ?ctl w st = Some st') \<and>
      (\<forall>w st'. workerStep ?ctl w st = Some st' \<longrightarrow> toBarrier ?ctl st' < toBarrier ?ctl st) \<and>
      (\<forall>st'. otherStep ?ctl st st' \<longrightarrow> toBarrier ?ctl st' = toBarrier ?ctl st)"
    using st by (intro initial_sync_terminates [OF listQueue_fair])
      (auto simp: Start_def firstQueueItems_def listQueue_def outstanding_def sentinelNS_def)
  with run st show ?thesis by auto
qed

end
