(* ===== verification/Histories.thy ===== *)
theory Histories
  imports No_Panic Startup
begin

text \<open>
  Histories of the dual-pods controller: the states that it can reach from its start by any sequence of
  notifications, readings of the GPU map and processings of items, each in a world of its own, with the
  work of several workers interleaved between items.
\<close>

subsection \<open>Steps\<close>

text \<open>The beginning and the end of \<^verbatim>\<open>nodeItem.process\<close>, around the processing of its items.\<close>

definition beginPass :: "dpEnv \<Rightarrow> string \<Rightarrow> dpState \<Rightarrow> dpState" where
  "beginPass env nn st =
     modNode nn (\<lambda>_. fst (takeReadyItems (nowD env (getNodeData st nn)) (nodeOf (getNodeData st nn) nn))) (getNodeData st nn)"

definition endPass :: "dpEnv \<Rightarrow> string \<Rightarrow> dpState \<Rightarrow> dpState" where
  "endPass env nn st =
     (let earliest = earliestPending (nodeOf st nn)
      in if earliest \<noteq> zeroTime
         then st\<lparr>dqueue := dqueue st @ [QAddAfter (NodeItem nn) (max (earliest - nowD env st) 0)]\<rparr> else st)"

definition readyItems :: "dpEnv \<Rightarrow> string \<Rightarrow> dpState \<Rightarrow> itemOnNode list" where
  "readyItems env nn st = mkeys (snd (takeReadyItems (nowD env (getNodeData st nn)) (nodeOf (getNodeData st nn) nn)))"

lemma nodeItem_process_steps:
  "nodeItem_process env proc st nn =
     (case processItems env proc nn (readyItems env nn st) (beginPass env nn st) of
        (st2, None) \<Rightarrow> (endPass env nn st2, (None, False))
      | (st2, panic) \<Rightarrow> (st2, (panic, False)))"
  by (simp add: nodeItem_process_def beginPass_def endPass_def readyItems_def Let_def split_beta split: option.split)

text \<open>
  The states that can be reached when only items that \<open>ok\<close> allows in its world are processed.  Every
  step may see a different world: another cache, other answers, a later time.  A panic ends the process.
\<close>

inductive dpReachable :: "(dpEnv \<Rightarrow> itemOnNode \<Rightarrow> bool) \<Rightarrow> dpState \<Rightarrow> bool" for ok where
  started: "dpReachable ok newDualPodsState"
| added: "dpReachable ok st \<Longrightarrow> clockOk env \<Longrightarrow> dpReachable ok (Node_Queue.OnAdd env st obj)"
| updated: "dpReachable ok st \<Longrightarrow> clockOk env \<Longrightarrow> dpReachable ok (Node_Queue.OnUpdate env st prev obj)"
| deleted: "dpReachable ok st \<Longrightarrow> clockOk env \<Longrightarrow> dpReachable ok (Node_Queue.OnDelete env st del)"
| gpusRead: "dpReachable ok st \<Longrightarrow> clockOk env \<Longrightarrow> dpReachable ok (fst (cmItem_process env st ns nm))"
| taken: "dpReachable ok st \<Longrightarrow> clockOk env \<Longrightarrow> dpReachable ok (beginPass env nn st)"
| processed: "dpReachable ok st \<Longrightarrow> clockOk env \<Longrightarrow> ok env i \<Longrightarrow> process env st nn i = (st', out) \<Longrightarrow>
    \<not> panicked out \<Longrightarrow> dpReachable ok (afterItem env nn i out st')"
| passed: "dpReachable ok st \<Longrightarrow> clockOk env \<Longrightarrow> dpReachable ok (endPass env nn st)"

subsection \<open>Steps that leave the servers' data alone\<close>

definition tame :: "dpState \<Rightarrow> dpState \<Rightarrow> bool" where
  "tame st st' \<longleftrightarrow> (wfState st \<longrightarrow> wfState st') \<and> (\<forall>nn. queuePos st nn \<longrightarrow> queuePos st' nn) \<and>
     (\<forall>m v. core (serverOf st' m v) = core (serverOf st m v))"

lemma tame_refl: "tame st st"
  by (simp add: tame_def)

lemma tame_trans: "tame st st1 \<Longrightarrow> tame st1 st2 \<Longrightarrow> tame st st2"
  by (simp add: tame_def)

lemma serverOf_upd [simp]:
  "serverOf (st\<lparr>dcalls := cs\<rparr>) m v = serverOf st m v" "serverOf (st\<lparr>dqueue := q\<rparr>) m v = serverOf st m v"
  "serverOf (st\<lparr>gpuMap := g\<rparr>) m v = serverOf st m v" "serverOf (st\<lparr>requesterCount := rc\<rparr>) m v = serverOf st m v"
  "serverOf (st\<lparr>iscCount := ic\<rparr>) m v = serverOf st m v"
  by (simp_all add: serverOf_def)

lemma queuePos_other [simp]:
  "queuePos (st\<lparr>gpuMap := g\<rparr>) nn = queuePos st nn" "queuePos (st\<lparr>requesterCount := rc\<rparr>) nn = queuePos st nn"
  "queuePos (st\<lparr>iscCount := ic\<rparr>) nn = queuePos st nn"
  by (simp_all add: queuePos_def nodeOf_def)

lemma tame_upd [simp]:
  "tame st (s\<lparr>dcalls := cs\<rparr>) = tame st s" "tame st (s\<lparr>dqueue := q\<rparr>) = tame st s" "tame st (s\<lparr>gpuMap := g\<rparr>) = tame st s"
  "tame st (s\<lparr>requesterCount := rc\<rparr>) = tame st s" "tame st (s\<lparr>iscCount := ic\<rparr>) = tame st s"
  by (simp_all add: tame_def)

lemma serverOf_modNode: "InferenceServers (f (nodeOf st nn)) = InferenceServers (nodeOf st nn) \<Longrightarrow> serverOf (modNode nn f st) m v = serverOf st m v"
  by (simp add: serverOf_def nodeOf_modNode)

text \<open>A change of the local queue of a Node.\<close>

lemma tame_modNode:
  assumes "\<And>nd. ndNodeName (f nd) = ndNodeName nd \<and> InferenceServers (f nd) = InferenceServers nd \<and> Launchers (f nd) = Launchers nd"
    and "\<And>nd. mok (LocalQueue nd) \<Longrightarrow> mok (LocalQueue (f nd))"
    and "\<And>nd. (\<forall>x \<in> set (LocalQueue nd). 0 < processAfter (snd x)) \<Longrightarrow> (\<forall>x \<in> set (LocalQueue (f nd)). 0 < processAfter (snd x))"
  shows "tame st (modNode nn f st)"
  using assms by (auto simp: tame_def serverOf_modNode queuePos_def nodeOf_modNode wfNode_def intro!: wfState_modNode)

lemma tame_getNodeData: "tame st (getNodeData st nn)"
  by (simp add: tame_def wfState_maps queuePos_def serverOf_def)

lemma tame_add: "0 < t \<Longrightarrow> tame st (modNode nn (\<lambda>nd. addAfter now nd i t) st)"
  by (rule tame_modNode) (auto simp: addAfter_def intro: mok_mput dest!: in_set_mput split: option.split)

lemma tame_addItem: "clockOk env \<Longrightarrow> tame st (addItem env nn i st)"
  unfolding addItem_def add_def by (rule tame_trans [OF tame_getNodeData tame_add]) (simp add: nowD_pos)

lemma tame_fold: "(\<And>x s. x \<in> set xs \<Longrightarrow> tame s (f x s)) \<Longrightarrow> tame st (fold f xs st)"
proof (induction xs arbitrary: st)
  case (Cons x xs)
  then show ?case using tame_trans [of st "f x st"] by simp
qed (simp add: tame_refl)

lemma tame_getServerData: "tame st (getServerData st nn rn uid)"
  by (simp add: tame_def wfState_maps queuePos_def)

lemma tame_enqueue:
  assumes "clockOk env"
  shows "tame st (enqueueOnNode env nn i st)" "tame st (enqueueInstanceGCItemsForISC env n st)" "tame st (enqueueRequesters env st)"
proof -
  show one: "tame st (enqueueOnNode env nn i st)" for st nn i
    by (simp add: enqueueOnNode_def Let_def tame_addItem [OF assms])
  show "tame st (enqueueInstanceGCItemsForISC env n st)"
    unfolding enqueueInstanceGCItemsForISC_def by (rule tame_fold) (rule one)
  show "tame st (enqueueRequesters env st)"
    unfolding enqueueRequesters_def
    by (rule tame_fold) (auto simp: Let_def split_beta intro!: tame_refl tame_fold tame_addItem [OF assms])
qed

lemma tame_enqueueEach:
  assumes "clockOk env"
  shows "tame st (fst (enqueueEachOfISC env ps st ns))" "tame st (fst (enqueueUnboundEach env nn ps st k))"
proof (induction ps arbitrary: st ns k)
  case (Cons p ps)
  {
    case 1
    show ?case using Cons.IH(1) tame_trans [OF tame_addItem [OF assms] Cons.IH(1)] by (simp add: Let_def split_beta)
  next
    case 2
    let ?s = "getServerData st nn (Name p) (UID p)"
    have get: "tame ?s s \<Longrightarrow> tame st s" for s by (rule tame_trans [OF tame_getServerData])
    show ?case
      using Cons.IH(2) get [OF Cons.IH(2)] get [OF tame_trans [OF tame_addItem [OF assms] Cons.IH(2)]]
      by (auto simp: Let_def split_beta split: option.split)
  }
qed (simp_all add: tame_refl)

lemma tame_enqueueMany:
  assumes "clockOk env"
  shows "tame st (enqueueInfSvrItemsByISC env isc st)" "tame st (enqueueUnboundInfSvrItemsOnNode env nn st)"
  using tame_enqueueEach(1) [OF assms] tame_trans [OF tame_getNodeData tame_enqueueEach(2) [OF assms]]
  by (simp_all add: enqueueInfSvrItemsByISC_def enqueueUnboundInfSvrItemsOnNode_def Let_def split_beta)

lemma tame_notifyPod: "clockOk env \<Longrightarrow> tame st (notifyPod env p st)"
  by (auto simp: notifyPod_def Let_def split_beta tame_refl tame_enqueue split: infSvrItemType.split sum.split)

lemma tame_counts: "tame st (countRequester d p st)" "tame st (countISC d n st)" "tame st (notifyConfigMap ns nm st)"
  by (simp_all add: countRequester_def countISC_def notifyConfigMap_def Let_def tame_refl)

lemmas tame_then = tame_trans [OF tame_counts(1)] tame_trans [OF tame_counts(2)] tame_trans [OF tame_trans [OF tame_counts(2) tame_counts(2)]]

lemma tame_notifications:
  assumes "clockOk env"
  shows "tame st (Node_Queue.OnAdd env st obj)" "tame st (Node_Queue.OnDelete env st del)"
    "tame st (Node_Queue.OnUpdate env st prev obj)"
proof -
  note rules = tame_refl tame_counts tame_notifyPod [OF assms] tame_enqueueMany [OF assms] tame_enqueue [OF assms] tame_then
  show "tame st (Node_Queue.OnAdd env st obj)"
    by (auto simp: Node_Queue.OnAdd_def intro: rules split: dpObject.split)
  show "tame st (Node_Queue.OnDelete env st del)"
    by (auto simp: Node_Queue.OnDelete_def intro: rules split: dpObject.split dpDeleted.split)
  have isc: "tame st s \<Longrightarrow> tame st (enqueueInfSvrItemsByISC env i s)"
    "tame st s \<Longrightarrow> tame st (enqueueInfSvrItemsByISC env i (enqueueInstanceGCItemsForISC env n s))" for s i n
    using tame_trans tame_enqueueMany(1) [OF assms] tame_enqueue(2) [OF assms] by blast+
  show "tame st (Node_Queue.OnUpdate env st prev obj)"
    by (auto simp: Node_Queue.OnUpdate_def Let_def intro!: isc intro: rules split: dpObject.split)
qed

lemma tame_gpus: "clockOk env \<Longrightarrow> tame st (fst (cmItem_process env st ns nm))"
proof -
  assume clk: "clockOk env"
  have "tame st s \<Longrightarrow> tame st (enqueueRequesters env s)" for s using tame_trans tame_enqueue(3) [OF clk] by blast
  then show ?thesis by (auto simp: cmItem_process_def Let_def split_beta tame_refl split: sum.split)
qed

lemma tame_pass: "tame st (beginPass env nn st)" "tame st (endPass env nn st)"
proof -
  have "beginPass env nn st = modNode nn (\<lambda>nd. fst (takeReadyItems (nowD env (getNodeData st nn)) nd)) (getNodeData st nn)"
    by (simp add: beginPass_def modNode_def)
  then show "tame st (beginPass env nn st)"
    using tame_trans [OF tame_getNodeData [of st nn]
        tame_modNode [of "\<lambda>nd. fst (takeReadyItems (nowD env (getNodeData st nn)) nd)" "getNodeData st nn" nn]]
    by (auto simp: takeReadyItems_def mok_filter)
  show "tame st (endPass env nn st)" by (simp add: endPass_def Let_def tame_refl)
qed

lemma tame_afterItem:
  assumes "clockOk env"
  shows "tame st (afterItem env nn i out st)"
proof -
  have "0 < nowD env s" for s by (rule nowD_pos [OF assms])
  moreover have "0 \<le> rateWhen env h i" for h using assms by (simp add: clockOk_def)
  ultimately have "0 < nowD env s + rateWhen env h i" "0 < d \<Longrightarrow> 0 < nowD env s + d" for s h d by (simp_all add: add_pos_nonneg add_pos_pos)
  then show ?thesis
    using tame_trans [OF _ tame_add] by (auto simp: afterItem_def Let_def tame_refl)
qed

text \<open>The items that are not about a server.\<close>

lemma tame_kept:
  assumes "\<And>I u. keeper_policy I nn u env \<Longrightarrow> follows (\<lambda>_ _. True) I st st'"
  shows "tame st st'"
proof -
  have "core (serverOf st' m v) = core (serverOf st m v)" for m v
  proof -
    have "coreElsewhere nn (CHR ''x'' # v) (\<lambda>m v. core (serverOf st m v)) st'"
      by (rule follows_keeps [OF assms [OF ke.keeper_policy_axioms]]) (simp add: coreElsewhere_def)
    then show ?thesis by (simp add: coreElsewhere_def)
  qed
  moreover have "wfState st \<Longrightarrow> wfState st'" by (rule follows_keeps [OF assms [OF kw.keeper_policy_axioms]])
  moreover have "\<forall>m. LocalQueue (nodeOf st' m) = LocalQueue (nodeOf st m)"
    using follows_keeps [OF assms [OF kq.keeper_policy_axioms [where q = "\<lambda>m. LocalQueue (nodeOf st m)"]]] by simp
  ultimately show ?thesis by (simp add: tame_def queuePos_def)
qed

lemma tame_clearLauncherData: "tame st (clearLauncherData st nn n)"
  by (simp add: tame_def wfState_maps queuePos_def)

lemma tame_other_items:
  assumes "clockOk env"
  shows "tame st (fst (instanceGCItem_process env st nn iscName))" "tame st (fst (unboundLauncherPodItem_process env st nn n mm))"
proof -
  show "tame st (fst (instanceGCItem_process env st nn iscName))"
    by (rule tame_kept) (rule keeper_policy.keeps_gc)
  have "tame st (fst (syncLauncherInstances env st nn None p))" for p
    by (rule tame_kept [where nn = nn and env = env]) (rule lenient_policy.lenient_sync [OF keeper_policy.axioms(1) follows_refl])
  from tame_trans [OF this tame_enqueueMany(2) [OF assms]] tame_trans [OF tame_clearLauncherData tame_enqueueMany(2) [OF assms]]
  show "tame st (fst (unboundLauncherPodItem_process env st nn n mm))"
    by (auto simp: unboundLauncherPodItem_process_def tame_refl split_beta split: sum.split)
qed

subsection \<open>Runs of a server\<close>

lemma run_elsewhere:
  assumes "(m, v) \<noteq> (nn, uid)"
  shows "core (serverOf (fst (infSvrItem_process env st nn uid rn)) m v) = core (serverOf st m v)"
proof -
  have "coreElsewhere nn uid (\<lambda>m v. core (serverOf st m v)) (fst (infSvrItem_process env st nn uid rn))"
    by (rule follows_keeps [OF ke.keeps_run]) (simp add: coreElsewhere_def)
  with assms show ?thesis by (simp add: coreElsewhere_def)
qed

lemma run_wf: "wfState st \<Longrightarrow> wfState (fst (infSvrItem_process env st nn uid rn))"
  by (rule follows_keeps [OF kw.keeps_run])

lemma run_queue: "LocalQueue (nodeOf (fst (infSvrItem_process env st nn uid rn)) m) = LocalQueue (nodeOf st m)"
  using follows_keeps [OF kq.keeps_run [where q = "\<lambda>m. LocalQueue (nodeOf st m)"]] by simp

lemma run_configured:
  assumes "\<And>m v. configured m v st"
  shows "configured m v (fst (infSvrItem_process env st nn uid rn))"
proof (cases "(m, v) = (nn, uid)")
  case True
  with assms show ?thesis using follows_keeps [OF kc.keeps_run] by blast
next
  case False
  from configured_core [OF assms run_elsewhere [OF this]] show ?thesis .
qed

text \<open>What every state that is reached satisfies.\<close>

definition goodState :: "dpState \<Rightarrow> bool" where
  "goodState st \<longleftrightarrow> wfState st \<and> (\<forall>nn. queuePos st nn) \<and> (\<forall>nn uid. configured nn uid st)"

lemma good_tame: "goodState st \<Longrightarrow> tame st st' \<Longrightarrow> goodState st'"
  unfolding goodState_def tame_def using configured_core by blast

lemma good_process:
  assumes "goodState st" and "clockOk env"
  shows "goodState (fst (process env st nn i))"
proof (cases i)
  case (InfSvrItem uid rn)
  with assms show ?thesis by (auto simp: goodState_def run_wf queuePos_def run_queue intro: run_configured)
next
  case (UnboundLauncherPodItem n mm)
  with good_tame [OF assms(1) tame_other_items(2) [OF assms(2)]] show ?thesis by simp
next
  case (InstanceGCItem n)
  with good_tame [OF assms(1) tame_other_items(1) [OF assms(2)]] show ?thesis by simp
qed

lemma good_new: "goodState newDualPodsState"
  by (simp add: goodState_def wfState_def queuePos_def configured_def serverOf_def nodeOf_def newDualPodsState_def newNodeData_def newServerData_def)

lemma reachable_good: "dpReachable ok st \<Longrightarrow> goodState st"
proof (induction rule: dpReachable.induct)
  case (processed st env i nn st' out)
  from good_process [OF processed.IH processed.hyps(2), of nn i] processed.hyps(4) have "goodState st'" by simp
  then show ?case by (rule good_tame) (rule tame_afterItem [OF processed.hyps(2)])
qed (auto intro: good_new good_tame tame_notifications tame_gpus tame_pass)

text \<open>A whole pass over a Node is a sequence of steps.\<close>

lemma processItems_reachable:
  assumes "clockOk env" and "\<And>i. ok env i"
  shows "dpReachable ok st \<Longrightarrow> processItems env (process env) nn items st = (st', None) \<Longrightarrow> dpReachable ok st'"
proof (induction items arbitrary: st)
  case (Cons i items)
  obtain st1 out where run: "process env st nn i = (st1, out)" by (cases "process env st nn i")
  with Cons.prems(2) have ok: "\<not> panicked out" by (auto simp: panicked_def)
  from dpReachable.processed [OF Cons.prems(1) assms run ok] show ?case
    by (rule Cons.IH) (use Cons.prems(2) run ok in simp)
qed simp

lemma pass_reachable:
  assumes "dpReachable ok st" "clockOk env" "\<And>i. ok env i" "nodeItem_process env (process env) st nn = (st', None, again)"
  shows "dpReachable ok st'"
proof -
  let ?items = "processItems env (process env) nn (readyItems env nn st) (beginPass env nn st)"
  obtain st2 where st2: "?items = (st2, None)" and st': "st' = endPass env nn st2"
    using assms(4) by (auto simp: nodeItem_process_steps split: prod.splits option.splits)
  from processItems_reachable [OF assms(2,3) dpReachable.taken [OF assms(1,2)] st2]
  show ?thesis unfolding st' by (rule dpReachable.passed) (rule assms(2))
qed

lemma processItems_sound:
  assumes "promises env" "clockOk env"
  shows "goodState st \<Longrightarrow> snd (processItems env (process env) nn items st) = None"
proof (induction items arbitrary: st)
  case (Cons i items)
  obtain st1 out where run: "process env st nn i = (st1, out)" by (cases "process env st nn i")
  have "sound (process env st nn i)" using Cons.prems by (intro process_sound [OF assms(1)]) (simp add: goodState_def)
  then have "\<not> panicked out" by (simp add: sound_def run)
  moreover have "goodState (afterItem env nn i out st1)"
    using good_process [OF Cons.prems assms(2), of nn i] good_tame tame_afterItem [OF assms(2)] by (auto simp: run)
  ultimately show ?case using Cons.IH by (simp add: run)
qed simp

subsection \<open>The nominal provider\<close>

text \<open>The nominal provider that is remembered for a server names its requester and carries the provider's finalizer.\<close>

definition names :: "string \<Rightarrow> string \<Rightarrow> pod \<Rightarrow> bool" where
  "names uid rn p \<longleftrightarrow> Annotations p RequesterAnnotationKey = Some (uid @ '' '' @ rn) \<and> providerFinalizer \<in> set (Finalizers p)"

definition nominalNamed :: "(string \<Rightarrow> string) \<Rightarrow> string \<Rightarrow> string \<Rightarrow> dpState \<Rightarrow> bool" where
  "nominalNamed who nn uid st \<longleftrightarrow> (\<forall>p. NominalProvidingPod (serverOf st nn uid) = Some p \<longrightarrow> names uid (who uid) p)"

lemma named_core: "nominalNamed who nn uid s \<Longrightarrow> core (serverOf s' nn uid) = core (serverOf s nn uid) \<Longrightarrow> nominalNamed who nn uid s'"
  by (simp add: nominalNamed_def core_def)

interpretation nm: lenient_policy "\<lambda>_ _. True" "nominalNamed who nn uid" nn uid env "\<lambda>_. True" for who nn uid env
proof
  show "nominalNamed who nn uid (modServer nn uid (\<lambda>_. sd) s)"
    if "nominalNamed who nn uid s" "recoverInstanceStateFromLauncherPod env (serverOf s nn uid) p = Inr sd" for s p sd
    using that(1) recover_keeps(1) [OF that(2)] by (simp add: nominalNamed_def)
qed (auto intro: named_core)

text \<open>
  The Pod found under the name of a requester is the requester, and every UID belongs to one name: no name
  of a requester is used again while the controller still knows of its former holder.
\<close>

fun knownRequester :: "(string \<Rightarrow> string) \<Rightarrow> dpEnv \<Rightarrow> itemOnNode \<Rightarrow> bool" where
  "knownRequester who env (InfSvrItem uid rn) \<longleftrightarrow>
     (\<forall>r. podGet env rn = Inr r \<longrightarrow> r \<in> set (podCache env) \<and> UID r = uid \<and> Name r = who uid)"
| "knownRequester who env _ \<longleftrightarrow> True"

lemma named_clear: "follows (\<lambda>_ _. True) (nominalNamed who nn uid) st s \<Longrightarrow>
    follows (\<lambda>_ _. True) (nominalNamed who nn uid) st (clearServerData s nn uid)"
  by (erule follows_same) (simp_all add: nominalNamed_def clearServerData_cleared newServerData_def)

lemma run_alone_named:
  assumes "podGet env rn = Inl e"
  shows "follows (\<lambda>_ _. True) (nominalNamed who nn uid) st (fst (infSvrItem_process env st nn uid rn))"
  unfolding infSvrItem_process_def infSvrPods_def processPair_def providerGoing_def requesterGoing_def assms sum.case option.case
  by (rule follows_rules nm.follows_deletePodPre nm.follows_updatePod named_clear follows_refl core_update TrueI | assumption)+

lemma run_named:
  assumes "nominalNamed who nn uid st" "configured nn uid st" "knownRequester who env (InfSvrItem uid rn)"
  shows "nominalNamed who nn uid (fst (infSvrItem_process env st nn uid rn))"
proof (cases "podGet env rn")
  case (Inl e)
  from follows_keeps [OF run_alone_named [OF this] assms(1)] show ?thesis .
next
  case (Inr r)
  with assms have "serverInv env rn nn uid st"
    by (auto simp: serverInv_def isRequester_def nominalNamed_def names_def carries_def configured_def)
  from run_keeps(2) [OF this] Inr assms(3) show ?thesis
    by (auto simp: serverInv_def isRequester_def nominalNamed_def names_def carries_def)
qed

lemma named_elsewhere:
  assumes "tame st st'" "\<And>nn uid. nominalNamed who nn uid st"
  shows "nominalNamed who nn uid st'"
  using assms named_core unfolding tame_def by blast

lemma reachable_named: "dpReachable (knownRequester who) st \<Longrightarrow> nominalNamed who nn uid st"
proof (induction arbitrary: nn uid rule: dpReachable.induct)
  case started
  show ?case by (simp add: nominalNamed_def serverOf_def nodeOf_def newDualPodsState_def newNodeData_def newServerData_def)
next
  case (processed st env i mm st' out)
  have "nominalNamed who m v st'" for m v
  proof (cases i)
    case (InfSvrItem u rn)
    have st': "st' = fst (infSvrItem_process env st mm u rn)" using processed.hyps(4) InfSvrItem by simp
    show ?thesis
    proof (cases "(m, v) = (mm, u)")
      case True
      have "configured m v st" using reachable_good [OF processed.hyps(1)] by (simp add: goodState_def)
      with True processed.hyps(3) InfSvrItem show ?thesis unfolding st' by (auto intro: run_named processed.IH)
    next
      case False
      show ?thesis unfolding st' by (rule named_core [OF processed.IH run_elsewhere [OF False]])
    qed
  next
    case (UnboundLauncherPodItem n m')
    then show ?thesis using named_elsewhere [OF tame_other_items(2) [OF processed.hyps(2)] processed.IH] processed.hyps(4) by (metis fst_conv process.simps(2))
  next
    case (InstanceGCItem n)
    then show ?thesis using named_elsewhere [OF tame_other_items(1) [OF processed.hyps(2)] processed.IH] processed.hyps(4) by (metis fst_conv process.simps(3))
  qed
  then show ?case by (rule named_elsewhere [OF tame_afterItem [OF processed.hyps(2)]])
qed (auto intro: named_elsewhere tame_notifications tame_gpus tame_pass)

subsection \<open>Properties\<close>

text \<open>
  C8: in every history in which the Pod found under a requester's name is that requester, the data that the controller
  keeps of an inference server are in order whenever the server is processed: the nominal provider that it remembers
  carries the requester's annotation and the provider's finalizer, and an instance that it knows has a configuration.
\<close>

theorem server_data_always_in_order:
  assumes "dpReachable (knownRequester who) st" "knownRequester who env (InfSvrItem uid rn)"
  shows "serverInv env rn nn uid st"
  using reachable_named [OF assms(1), of nn uid] reachable_good [OF assms(1)] assms(2)
  by (auto simp: serverInv_def isRequester_def nominalNamed_def names_def carries_def goodState_def configured_def)

text \<open>
  C10: the dual-pods controller never panics.  In every state that it can reach, whatever the API server, the launchers,
  the inference servers and the requesters have answered before and answer now, no item of its queue ends in a
  dereferenced nil pointer or a slice cut beyond its bounds, given that LauncherConfigs allow at least one instance, that
  managed-fields entries carry a time, that a launcher lists each instance once and that the sleeper limit is not negative.
\<close>

theorem controller_never_panics:
  assumes "dpReachable ok st" "clockOk env" "distinctIDs env" "0 \<le> sleeperLimit env"
    and "\<forall>n lc. lcGetD env n = Inr lc \<longrightarrow> 1 \<le> MaxInstances lc"
    and "\<forall>p \<in> set (podCache env). \<forall>mf \<in> set (ManagedFields p). mfTime mf \<noteq> None"
  shows "fst (snd (processQueueItem env i st)) \<noteq> Some (GoPanic msg)"
proof (cases i)
  case (NodeItem nn)
  have "promises env" using assms(3-6) by (simp add: promises_def)
  moreover have "goodState (beginPass env nn st)" by (rule good_tame [OF reachable_good [OF assms(1)] tame_pass(1)])
  ultimately have "snd (processItems env (process env) nn (readyItems env nn st) (beginPass env nn st)) = None"
    by (rule processItems_sound [OF _ assms(2)])
  then show ?thesis by (simp add: NodeItem nodeItem_process_steps split_beta)
next
  case (CmItem ns nm)
  then show ?thesis by (auto simp: cmItem_process_def Let_def split_beta split: sum.split)
qed

subsection \<open>Examples\<close>

text \<open>A requester appears, and is processed in a world in which no HTTP call succeeds.\<close>

definition noticed :: dpState where
  "noticed = Node_Queue.OnAdd offlineEnv newDualPodsState (DPod directRequester)"

lemma offline_clock: "clockOk offlineEnv"
  by (simp add: clockOk_def)

lemma noticed_reachable: "dpReachable ok noticed"
  unfolding noticed_def by (rule dpReachable.added [OF dpReachable.started offline_clock])

lemma noticed_servers: "InferenceServers (nodeOf noticed ''n1'') = []"
proof -
  have "careAbout directRequester = (InfSvrItem ''u1'' ''r1'', infSvrItemRequester)"
    by (simp add: careAbout_def directRequester_def annot_def blank_defs shared_name_defs)
  then show ?thesis
    by (simp add: noticed_def Node_Queue.OnAdd_def notifyPod_def countRequester_def enqueueOnNode_def addItem_def add_def addAfter_def
        nodeOf_modNode getNodeData_def nodeOf_def newDualPodsState_def newNodeData_def Let_def gomap_simps modNode_def)
qed

theorem server_data_always_in_order_witness:
  "\<exists>st' e. process offlineEnv noticed ''n1'' (InfSvrItem ''u1'' ''r1'') = (st', prRetryErr (Joined e)) \<and>
     serverInv offlineEnv ''r1'' ''n1'' ''u1'' (afterItem offlineEnv ''n1'' (InfSvrItem ''u1'' ''r1'') (prRetryErr (Joined e)) st')"
proof -
  let ?i = "InfSvrItem ''u1'' ''r1''" and ?known = "knownRequester (\<lambda>_. ''r1'')"
  have known: "?known offlineEnv ?i" by (simp add: directRequester_def)
  obtain st' e where run: "process offlineEnv noticed ''n1'' ?i = (st', prRetryErr (Joined e))"
    using offline_run [of noticed] by (auto simp: noticed_servers)
  from dpReachable.processed [OF noticed_reachable [of ?known] offline_clock known run]
  have "dpReachable ?known (afterItem offlineEnv ''n1'' ?i (prRetryErr (Joined e)) st')" by simp
  from server_data_always_in_order [OF this known] run show ?thesis by blast
qed

theorem controller_never_panics_witness:
  "fst (snd (processQueueItem offlineEnv (NodeItem ''n1'') noticed)) \<noteq> Some (GoPanic ''nil pointer dereference'')"
  by (rule controller_never_panics [OF noticed_reachable [of "\<lambda>_ _. True"] offline_clock])
    (simp_all add: distinctIDs_def offlineEnv_def dpExampleEnv_def directRequester_def blank_defs)

end
