(* ===== verification/Requester_Stub.thy ===== *)
theory Requester_Stub
  imports Node_Run "HOL-Library.Sublist"
begin

text \<open>
  The stub that runs in a server-requesting Pod: the coordination server of
  \<^verbatim>\<open>pkg/server/requester/coordination\<close>, whose HTTP handlers the dual-pods controller calls, and the
  readiness probe of \<^verbatim>\<open>pkg/server/requester/probes\<close>.  A handler maps the state of the stub and a request
  to the new state and the response, a status code and a body.  Listening on the network and shutting
  down are not modelled.
\<close>

subsection \<open>State and surroundings\<close>

definition ReadyPath :: string where
  "ReadyPath = ''/ready''"

definition SetLogPath :: string where
  "SetLogPath = ''/v1/set-log''"

definition LogStartPosParam :: string where
  "LogStartPosParam = ''startPos''"

text \<open>
  The flag shared by the two servers, how much of the log was accepted, and what was given to the log
  writer.
\<close>

record stubState =
  stubReady :: bool
  nextLogPos :: int
  logged :: string

text \<open>
  What the stub calls: the two \<^verbatim>\<open>nvidia-smi\<close> queries (an error or the output), the JSON encoders, the text
  of a parse error, and the writer of the log, which says how much it wrote and may fail.
\<close>

record stubEnv =
  smiUUIDs :: "string + string"
  smiMemory :: "string + string"
  encodeUUIDs :: "string list \<Rightarrow> string + string"
  encodeUsage :: "(string, int) gomap \<Rightarrow> string + string"
  parseIntErr :: "string \<Rightarrow> string"
  logWrite :: "string \<Rightarrow> string \<Rightarrow> nat \<times> string option"

text \<open>A request: \<^verbatim>\<open>rqStartPos\<close> is the form value, empty when missing; reading the body may fail.\<close>

record stubRequest =
  rqMethod :: string
  rqPath :: string
  rqStartPos :: string
  rqBody :: "string + string"

type_synonym response = "nat \<times> string"

definition newline :: string where
  "newline = [CHR 0x0A]"

subsection \<open>Accelerators\<close>

definition nonEmptyLines :: "string \<Rightarrow> string list" where
  "nonEmptyLines output = filter (\<lambda>line. line \<noteq> []) (strings_Split (CHR 0x0A) (strings_TrimSpace output))"

definition getGpuUUIDs :: "stubEnv \<Rightarrow> string + string list" where
  "getGpuUUIDs env =
     (case smiUUIDs env of
        Inl err \<Rightarrow> Inl err
      | Inr output \<Rightarrow>
          (let uuids = nonEmptyLines output
           in if uuids = [] then Inl ''no GPUs found'' else Inr uuids))"

definition gpuHandler :: "stubEnv \<Rightarrow> string list \<Rightarrow> response" where
  "gpuHandler env gpuUUIDs =
     (if gpuUUIDs = [] then (500, ''no GPUs found'' @ newline)
      else (case encodeUUIDs env gpuUUIDs of
              Inl err \<Rightarrow> (500, ''error encoding response: '' @ err @ newline)
            | Inr json \<Rightarrow> (200, json @ newline)))"

text \<open>The lines of the memory query, one \<^verbatim>\<open>uuid, used\<close> each.\<close>

fun parseUsage :: "stubEnv \<Rightarrow> string list \<Rightarrow> (string, int) gomap \<Rightarrow> string list \<Rightarrow>
    (string, int) gomap \<times> string list" where
  "parseUsage env [] usageMap errs = (usageMap, errs)"
| "parseUsage env (line # lines) usageMap errs =
     (if line = [] then parseUsage env lines usageMap errs
      else (case strings_Split (CHR '','') line of
              [uuid, used] \<Rightarrow>
                (let usedStr = strings_TrimSpace used
                 in (case strconv_ParseInt 64 usedStr of
                       None \<Rightarrow> parseUsage env lines usageMap
                         (errs @ [''failed to parse int '' @ strconv_Quote usedStr @ '' on line '' @
                                  strconv_Quote line @ '': '' @ parseIntErr env usedStr])
                     | Some memUsed \<Rightarrow> parseUsage env lines (mput uuid memUsed usageMap) errs))
            | _ \<Rightarrow> parseUsage env lines usageMap
                    (errs @ [''got line '' @ strconv_Quote line @ '' with wrong number of data''])))"

text \<open>
  A map of integers can always be marshalled; the text of the error for that case leaves out the
  rendering of the map.
\<close>

definition gpuMemoryHandler :: "stubEnv \<Rightarrow> response" where
  "gpuMemoryHandler env =
     (let (usageMap, errs) =
            (case smiMemory env of
               Inl err \<Rightarrow> ([], [err])
             | Inr output \<Rightarrow>
                 parseUsage env (strings_Split (CHR 0x0A) (strings_TrimSpace output)) [] []);
          (usageJSON, errs2) =
            (case encodeUsage env usageMap of
               Inl err \<Rightarrow> ([], errs @ [''failed to marshal usage map: '' @ err])
             | Inr json \<Rightarrow> (json, errs))
      in if errs2 \<noteq> [] then (500, concat (map (\<lambda>err. err @ newline) errs2)) else (200, usageJSON))"

subsection \<open>Readiness\<close>

definition setReady :: "bool \<Rightarrow> stubState \<Rightarrow> stubState \<times> response" where
  "setReady newReady st = (st\<lparr>stubReady := newReady\<rparr>, (200, ''OK'' @ newline))"

definition readyProbe :: "stubState \<Rightarrow> response" where
  "readyProbe st =
     (if stubReady st then (200, ''OK'' @ newline) else (503, ''Service Unavailable'' @ newline))"

subsection \<open>The log of the inference server\<close>

definition writeNews :: "stubEnv \<Rightarrow> int \<Rightarrow> string \<Rightarrow> stubState \<Rightarrow> stubState \<times> response" where
  "writeNews env startPos chunk st =
     (let news = (if startPos < nextLogPos st then drop (nat (nextLogPos st - startPos)) chunk else chunk);
          (wrote, err) = logWrite env (logged st) news;
          st1 = st\<lparr>logged := logged st @ take wrote news\<rparr>
      in (case err of
            Some e \<Rightarrow> (st1, (500, ''Failed to write log chunk: '' @ e))
          | None \<Rightarrow>
              if wrote \<noteq> length news
              then (st1, (500, ''Failed to write '' @ showNat (length news) @ '' bytes of log, only wrote '' @ showNat wrote))
              else (let st2 = st1\<lparr>nextLogPos := wrap64 (nextLogPos st1 + int (length news))\<rparr>
                    in (st2, (200, ''Accepted startPos='' @ strconv_Itoa startPos @ '', chunkLength='' @
                          showNat (length chunk) @ ''; addedContentLength='' @ showNat (length news) @
                          '', new contentLength='' @ strconv_Itoa (nextLogPos st2))))))"

definition addChunk :: "stubEnv \<Rightarrow> int \<Rightarrow> string \<Rightarrow> stubState \<Rightarrow> stubState \<times> response" where
  "addChunk env startPos chunk st =
     (if startPos < 0
      then (st, (400, ''Starting position '' @ strconv_Itoa startPos @ '' is unacceptable because it is negative''))
      else if startPos > nextLogPos st
      then (st, (400, ''Starting position '' @ strconv_Itoa startPos @ '' is beyond the current contentLength='' @
                      strconv_Itoa (nextLogPos st)))
      else if wrap64 (startPos + int (length chunk)) \<le> nextLogPos st
      then (st, (200, ''Accepted startPos='' @ strconv_Itoa startPos @ '', chunkLength='' @ showNat (length chunk) @
                      '', but that has nothing new; still contentLength='' @ strconv_Itoa (nextLogPos st)))
      else writeNews env startPos chunk st)"

definition setLog :: "stubEnv \<Rightarrow> stubRequest \<Rightarrow> stubState \<Rightarrow> stubState \<times> response" where
  "setLog env r st =
     (if rqStartPos r = [] then (st, (400, ''Missing '' @ LogStartPosParam @ '' parameter'' @ newline))
      else (case strconv_ParseInt 64 (rqStartPos r) of
              None \<Rightarrow> (st, (400, ''Failed to parse '' @ strconv_Quote (rqStartPos r) @ '' as an int64: '' @
                              parseIntErr env (rqStartPos r) @ newline))
            | Some startPos \<Rightarrow>
                (case rqBody r of
                   Inl err \<Rightarrow> (st, (500, ''Failed to read log chunk from request body: '' @ err @ newline))
                 | Inr news \<Rightarrow>
                     (case addChunk env startPos news st of
                        (st1, status, message) \<Rightarrow> (st1, status, message @ [CHR 0x0D, CHR 0x0A])))))"

subsection \<open>The servers\<close>

text \<open>
  The routes of \<^verbatim>\<open>StartWithGPUUUIDs\<close>.  A pattern for \<^verbatim>\<open>GET\<close> also serves \<^verbatim>\<open>HEAD\<close>; a path with another
  method is answered 405, another path 404.
\<close>

definition route :: "string \<Rightarrow> string \<Rightarrow> stubRequest \<Rightarrow> bool" where
  "route verb path r \<longleftrightarrow>
     rqPath r = path \<and> (rqMethod r = verb \<or> verb = ''GET'' \<and> rqMethod r = ''HEAD'')"

definition spiPaths :: "string list" where
  "spiPaths = [AcceleratorQueryPath, AcceleratorMemoryQueryPath, BecomeReadyPath, BecomeUnreadyPath, SetLogPath]"

definition StartWithGPUUUIDs :: "string list \<Rightarrow> stubEnv \<Rightarrow> stubRequest \<Rightarrow> stubState \<Rightarrow> stubState \<times> response" where
  "StartWithGPUUUIDs gpuUUIDs env r st =
     (if route ''GET'' AcceleratorQueryPath r then (st, gpuHandler env gpuUUIDs)
      else if route ''GET'' AcceleratorMemoryQueryPath r then (st, gpuMemoryHandler env)
      else if route ''POST'' BecomeReadyPath r then setReady True st
      else if route ''POST'' BecomeUnreadyPath r then setReady False st
      else if route ''POST'' SetLogPath r then setLog env r st
      else if rqPath r \<in> set spiPaths then (st, (405, ''Method Not Allowed'' @ newline))
      else (st, (404, ''404 page not found'' @ newline)))"

text \<open>\<^verbatim>\<open>Start\<close> of the coordination server serves an empty list when the query for the GPUs fails.\<close>

definition coordinationStart :: "stubEnv \<Rightarrow> stubEnv \<Rightarrow> stubRequest \<Rightarrow> stubState \<Rightarrow> stubState \<times> response" where
  "coordinationStart env0 = StartWithGPUUUIDs (case getGpuUUIDs env0 of Inl _ \<Rightarrow> [] | Inr uuids \<Rightarrow> uuids)"

definition probesStart :: "stubRequest \<Rightarrow> stubState \<Rightarrow> response" where
  "probesStart r st =
     (if route ''GET'' ReadyPath r then readyProbe st
      else if rqPath r = ReadyPath then (405, ''Method Not Allowed'' @ newline)
      else (404, ''404 page not found'' @ newline))"

text \<open>A sequence of requests; the surroundings may differ from one to the next.\<close>

fun serveAll :: "string list \<Rightarrow> (stubEnv \<times> stubRequest) list \<Rightarrow> stubState \<Rightarrow> stubState" where
  "serveAll uuids [] st = st"
| "serveAll uuids ((env, r) # rs) st = serveAll uuids rs (fst (StartWithGPUUUIDs uuids env r st))"

subsection \<open>The log\<close>

text \<open>
  \<open>ofLog L r\<close>: a request to set the log carries a piece of the log \<open>L\<close> at the position that it states,
  if it states one.
\<close>

definition ofLog :: "string \<Rightarrow> stubRequest \<Rightarrow> bool" where
  "ofLog L r \<longleftrightarrow>
     (case (strconv_ParseInt 64 (rqStartPos r), rqBody r) of
        (Some p, Inr chunk) \<Rightarrow> 0 \<le> p \<longrightarrow> take (length chunk) (drop (nat p) L) = chunk
      | _ \<Rightarrow> True)"

text \<open>
  \<open>loggedAs L n out\<close>: the output \<open>out\<close> is the log \<open>L\<close> up to position \<open>n\<close>, except that a write that failed may have
  written, at the position where it failed, a piece of what follows there, and the next write starts at that position again.
\<close>

inductive loggedAs :: "string \<Rightarrow> nat \<Rightarrow> string \<Rightarrow> bool" for L where
  none: "loggedAs L 0 []"
| accepted: "loggedAs L n out \<Longrightarrow> n \<le> m \<Longrightarrow> m \<le> length L \<Longrightarrow> loggedAs L m (out @ drop n (take m L))"
| failed: "loggedAs L n out \<Longrightarrow> n \<le> m \<Longrightarrow> m \<le> length L \<Longrightarrow> loggedAs L n (out @ drop n (take m L))"

lemma loggedAs_subseq: "loggedAs L n out \<Longrightarrow> subseq (take n L) out"
proof (induction rule: loggedAs.induct)
  case (accepted n out m)
  have "take m L = take n L @ drop n (take m L)" using accepted.hyps(2) by (metis append_take_drop_id min_absorb1 take_take)
  with accepted.IH show ?case by (metis list_emb_append_mono subseq_order.order_refl)
qed (auto intro: subseq_order.order_trans)

text \<open>A writer that writes all of what it is given or, failing, nothing.\<close>

definition wholeWrites :: "stubEnv \<Rightarrow> bool" where
  "wholeWrites env \<longleftrightarrow> (\<forall>old s. logWrite env old s = (length s, None) \<or> fst (logWrite env old s) = 0)"

definition logInv :: "bool \<Rightarrow> string \<Rightarrow> stubState \<Rightarrow> bool" where
  "logInv whole L st \<longleftrightarrow>
     0 \<le> nextLogPos st \<and> nextLogPos st \<le> int (length L) \<and> loggedAs L (nat (nextLogPos st)) (logged st) \<and>
     (whole \<longrightarrow> logged st = take (nat (nextLogPos st)) L)"

text \<open>The part of a piece of the log that lies behind position \<open>n\<close>.\<close>

lemma piece_behind:
  assumes "take k (drop p L) = chunk" "length chunk = k" "p \<le> n" "n \<le> p + k"
  shows "take n L @ drop (n - p) chunk = take (p + k) L"
proof -
  have "drop (n - p) chunk = take (p + k - n) (drop n L)"
    using assms by (auto simp: drop_take add.commute)
  with assms(4) show ?thesis
    by (metis le_add_diff_inverse take_add)
qed

lemma addChunk_log:
  assumes inv: "logInv whole L st" and L: "int (length L) < 2 ^ 63" and whole: "whole \<longrightarrow> wholeWrites env"
    and piece: "0 \<le> p \<Longrightarrow> take (length chunk) (drop (nat p) L) = chunk"
    and res: "addChunk env p chunk st = (st', code, msg)"
  shows "logInv whole L st' \<and> nextLogPos st \<le> nextLogPos st' \<and> stubReady st' = stubReady st \<and>
    (code = 200 \<longrightarrow> 0 \<le> p \<and> p + int (length chunk) \<le> nextLogPos st')"
proof (cases "p < 0 \<or> nextLogPos st < p")
  case True
  with res inv show ?thesis by (auto simp: addChunk_def split: if_splits)
next
  case False
  define n where "n = nat (nextLogPos st)"
  define e where "e = nat p + length chunk"
  from False have p: "0 \<le> p" "p \<le> nextLogPos st" by simp_all
  have n: "nextLogPos st = int n" "n \<le> length L" "loggedAs L n (logged st)" "whole \<longrightarrow> logged st = take n L"
    using inv by (auto simp: logInv_def n_def)
  have e: "e \<le> length L"
    using piece [OF p(1)] p n by (auto simp: e_def min_def dest!: arg_cong [where f = length] split: if_splits)
  have wrap: "wrap64 (p + int (length chunk)) = int e"
    using p e L by (subst wrap64_id) (auto simp: e_def)
  show ?thesis
  proof (cases "e \<le> n")
    case True
    with res inv p n wrap show ?thesis by (auto simp: addChunk_def e_def split: if_splits)
  next
    case new: False
    define news where "news = (if p < nextLogPos st then drop (nat (nextLogPos st - p)) chunk else chunk)"
    have news: "news = drop (n - nat p) chunk" "length news = e - n"
      using p n new by (auto simp: news_def e_def nat_diff_distrib)
    have grown: "take n L @ news = take e L"
      unfolding news(1) e_def using p n new piece [OF p(1)] by (intro piece_behind) (auto simp: e_def)
    have wrap2: "wrap64 (int n + int (length news)) = int e"
      using new e L by (subst wrap64_id) (auto simp: news(2))
    have step: "addChunk env p chunk st = writeNews env p chunk st"
      using p n wrap new by (simp add: addChunk_def)
    have piece: "news = drop n (take e L)" using grown new n(2) by (metis append_eq_conv_conj length_take min.absorb2)
    show ?thesis
    proof (cases "logWrite env (logged st) news = (length news, None)")
      case True
      have "fst (writeNews env p chunk st) = st\<lparr>logged := logged st @ news, nextLogPos := int e\<rparr>"
        and "fst (snd (writeNews env p chunk st)) = 200"
        unfolding writeNews_def news_def [symmetric] Let_def using True n wrap2 by simp_all
      with res step have "st' = st\<lparr>logged := logged st @ news, nextLogPos := int e\<rparr>" "code = 200"
        by simp_all
      moreover have "loggedAs L e (logged st @ news)" unfolding piece using n(3) new e by (intro loggedAs.accepted) simp_all
      ultimately show ?thesis using grown e new p n by (auto simp: logInv_def e_def nat_add_distrib)
    next
      case False
      then obtain w err where w: "logWrite env (logged st) news = (w, err)" "err \<noteq> None \<or> w \<noteq> length news" by (cases "logWrite env (logged st) news") auto
      then have "fst (writeNews env p chunk st) = st\<lparr>logged := logged st @ take w news\<rparr>" "fst (snd (writeNews env p chunk st)) = 500"
        unfolding writeNews_def news_def [symmetric] Let_def by (auto split: option.splits)
      with res step have st': "st' = st\<lparr>logged := logged st @ take w news\<rparr>" "code = 500" by simp_all
      have "take w news = drop n (take (min (n + w) e) L)" by (simp add: piece take_drop min.commute add.commute)
      then have "loggedAs L n (logged st @ take w news)" using loggedAs.failed [OF n(3), of "min (n + w) e"] new e by simp
      moreover have "whole \<longrightarrow> take w news = []"
        using whole w False unfolding wholeWrites_def by (metis fst_conv take0)
      ultimately show ?thesis using st' n inv by (auto simp: logInv_def)
    qed
  qed
qed

lemma Parse_Nil: "strconv_ParseInt bits [] = None"
  by (simp add: strconv_ParseInt_def)

text \<open>No other request touches the log.\<close>

lemma serve_log:
  assumes "logInv whole L st" "int (length L) < 2 ^ 63" "whole \<longrightarrow> wholeWrites env" "ofLog L r"
    and res: "StartWithGPUUUIDs uuids env r st = (st', code, msg)"
  shows "logInv whole L st' \<and> nextLogPos st \<le> nextLogPos st' \<and>
    (route ''POST'' SetLogPath r \<and> code = 200 \<longrightarrow>
      (\<exists>p chunk. strconv_ParseInt 64 (rqStartPos r) = Some p \<and> rqBody r = Inr chunk \<and>
         0 \<le> p \<and> p + int (length chunk) \<le> nextLogPos st'))"
proof (cases "route ''POST'' SetLogPath r")
  case True
  then have res: "setLog env r st = (st', code, msg)"
    using res by (simp add: StartWithGPUUUIDs_def route_def SetLogPath_def AcceleratorQueryPath_def
        AcceleratorMemoryQueryPath_def BecomeReadyPath_def BecomeUnreadyPath_def)
  show ?thesis
  proof (cases "rqStartPos r \<noteq> [] \<and> strconv_ParseInt 64 (rqStartPos r) \<noteq> None \<and> (\<exists>chunk. rqBody r = Inr chunk)")
    case True
    then obtain p chunk where pc: "strconv_ParseInt 64 (rqStartPos r) = Some p" "rqBody r = Inr chunk"
      by blast
    with True res obtain m where "addChunk env p chunk st = (st', code, m)"
      by (auto simp: setLog_def split: prod.splits)
    from addChunk_log [OF assms(1-3) _ this] assms(4) pc show ?thesis
      by (auto simp: ofLog_def)
  next
    case False
    with res have "st' = st \<and> code \<noteq> 200"
      by (auto simp: setLog_def split: if_splits option.splits sum.splits)
    with assms(1) show ?thesis by simp
  qed
next
  case False
  with res have "logged st' = logged st \<and> nextLogPos st' = nextLogPos st"
    by (auto simp: StartWithGPUUUIDs_def setReady_def split: if_splits)
  with False assms(1) show ?thesis by (simp add: logInv_def)
qed

lemma serveAll_log:
  assumes "logInv whole L st" "int (length L) < 2 ^ 63"
    and "\<forall>(env, r) \<in> set rs. (whole \<longrightarrow> wholeWrites env) \<and> ofLog L r"
  shows "logInv whole L (serveAll uuids rs st) \<and> nextLogPos st \<le> nextLogPos (serveAll uuids rs st)"
  using assms(1,3)
proof (induction rs arbitrary: st)
  case (Cons er rs)
  obtain env r where er: "er = (env, r)" by (cases er)
  obtain st1 code msg where step: "StartWithGPUUUIDs uuids env r st = (st1, code, msg)"
    by (metis prod_cases3)
  have "logInv whole L st1 \<and> nextLogPos st \<le> nextLogPos st1"
    using serve_log [OF Cons.prems(1) assms(2) _ _ step] Cons.prems(2) er by auto
  with Cons.IH [of st1] Cons.prems(2) er step show ?case by auto
qed simp

subsection \<open>The controller and the stub\<close>

text \<open>
  The requests of the controller that are addressed to the HTTP server whose base URL is \<open>base\<close>, and the
  state of a server after a history of calls; \<open>serve\<close> is what the server does with a request.
\<close>

definition stubRequestOf :: "string \<Rightarrow> httpRequest \<Rightarrow> stubRequest option" where
  "stubRequestOf base req =
     (if hasPrefix (hrURL req) base
      then Some \<lparr>rqMethod = hrMethod req, rqPath = drop (length base) (hrURL req), rqStartPos = [],
                 rqBody = Inr (case hrBody req of None \<Rightarrow> [] | Some b \<Rightarrow> b)\<rparr>
      else None)"

fun peerCall :: "(stubRequest \<Rightarrow> 's \<Rightarrow> 's \<times> response) \<Rightarrow> string \<Rightarrow> 's \<Rightarrow> dpCall \<Rightarrow> 's" where
  "peerCall serve base s (Http req _) =
     (case stubRequestOf base req of
        Some r \<Rightarrow> fst (serve r s)
      | None \<Rightarrow> s)"
| "peerCall serve base s _ = s"

definition peerAfter :: "(stubRequest \<Rightarrow> 's \<Rightarrow> 's \<times> response) \<Rightarrow> string \<Rightarrow> dpCall list \<Rightarrow> 's \<Rightarrow> 's" where
  "peerAfter serve base h s = foldl (peerCall serve base) s h"

definition answers :: "dpEnv \<Rightarrow> (stubRequest \<Rightarrow> 's \<Rightarrow> 's \<times> response) \<Rightarrow> string \<Rightarrow> 's \<Rightarrow> bool" where
  "answers env serve base s \<longleftrightarrow>
     (\<forall>h req r. stubRequestOf base req = Some r \<longrightarrow> httpDo env h req = Inr (snd (serve r (peerAfter serve base h s))))"

abbreviation stubAfter :: "string list \<Rightarrow> stubEnv \<Rightarrow> string \<Rightarrow> dpCall list \<Rightarrow> stubState \<Rightarrow> stubState" where
  "stubAfter uuids senv \<equiv> peerAfter (StartWithGPUUUIDs uuids senv)"

abbreviation servedBy :: "dpEnv \<Rightarrow> string list \<Rightarrow> stubEnv \<Rightarrow> string \<Rightarrow> stubState \<Rightarrow> bool" where
  "servedBy env uuids senv \<equiv> answers env (StartWithGPUUUIDs uuids senv)"

definition stubBase :: "pod \<Rightarrow> string" where
  "stubBase p = ''http://'' @ PodIP (Status p) @ '':'' @ adminPortOf p"

text \<open>A request of the controller that such a server answers with success.\<close>

lemma peer_doHTTP:
  assumes served: "answers env serve base s" and parse: "urlParse env (base @ path) = None"
    and resp: "serve \<lparr>rqMethod = verb, rqPath = path, rqStartPos = [], rqBody = Inr []\<rparr>
        (peerAfter serve base (dcalls st) s) = (s', code, body)"
    and ok: "200 \<le> code" "code < 300" and dec: "decode body = Inr x"
  shows "\<exists>st1. doHTTP env st purpose verb (base @ path) None decode = (st1, code, Inr x) \<and>
    peerAfter serve base (dcalls st1) s = s' \<and> nodeNameToData st1 = nodeNameToData st"
proof -
  define req where "req = \<lparr>hrPurpose = purpose, hrMethod = verb, hrURL = base @ path, hrBody = None\<rparr>"
  have r: "stubRequestOf base req = Some \<lparr>rqMethod = verb, rqPath = path, rqStartPos = [], rqBody = Inr []\<rparr>"
    by (simp add: stubRequestOf_def req_def)
  have answer: "httpDo env (dcalls st) req = Inr (code, body)"
    using served r resp unfolding answers_def by fastforce
  have "peerAfter serve base (dcalls st @ [Http req (Inr (code, body))]) s = s'"
    using resp by (simp add: peerAfter_def r)
  with answer ok dec parse show ?thesis by (simp add: doHTTP_def Let_def req_def)
qed


lemma stub_reports_gpus:
  assumes "servedBy env uuids senv base stub" "urlParse env (base @ AcceleratorQueryPath) = None"
    and "uuids \<noteq> []" "encodeUUIDs senv uuids = Inr json" "decodeUUIDs env (json @ newline) = Inr uuids"
  shows "\<exists>st1. getGPUUUIDs env st (base @ AcceleratorQueryPath) = (st1, Inr uuids) \<and>
    stubAfter uuids senv base (dcalls st1) stub = stubAfter uuids senv base (dcalls st) stub"
proof -
  have "StartWithGPUUUIDs uuids senv \<lparr>rqMethod = ''GET'', rqPath = AcceleratorQueryPath, rqStartPos = [], rqBody = Inr []\<rparr>
      s = (s, 200, json @ newline)" for s
    using assms(3,4) by (simp add: StartWithGPUUUIDs_def route_def gpuHandler_def)
  from peer_doHTTP [where decode = "decodeUUIDs env", OF assms(1,2) this _ _ assms(5), where st = st
      and purpose = "''get_gpu_uuids''"]
  show ?thesis by (auto simp: getGPUUUIDs_def)
qed

lemma stub_takes_readiness:
  assumes "servedBy env uuids senv base stub"
    and "urlParse env (base @ (if ready then BecomeReadyPath else BecomeUnreadyPath)) = None"
  shows "\<exists>st1. doHTTP env st purpose ''POST'' (base @ (if ready then BecomeReadyPath else BecomeUnreadyPath)) None
      (\<lambda>_. Inr ()) = (st1, 200, Inr ()) \<and> stubReady (stubAfter uuids senv base (dcalls st1) stub) = ready \<and>
    nodeNameToData st1 = nodeNameToData st"
proof -
  have "StartWithGPUUUIDs uuids senv \<lparr>rqMethod = ''POST'',
      rqPath = (if ready then BecomeReadyPath else BecomeUnreadyPath), rqStartPos = [], rqBody = Inr []\<rparr> s =
      (s\<lparr>stubReady := ready\<rparr>, 200, ''OK'' @ newline)" for s
    by (simp add: StartWithGPUUUIDs_def route_def setReady_def AcceleratorQueryPath_def
        AcceleratorMemoryQueryPath_def BecomeReadyPath_def BecomeUnreadyPath_def)
  from peer_doHTTP [where decode = "\<lambda>_. Inr ()", OF assms this, where st = st and purpose = purpose]
  show ?thesis by fastforce
qed

subsection \<open>Properties\<close>

text \<open>
  C32: what a relay of the log of an inference server writes.  When every chunk sent is a piece of the log at its stated
  position, then after any requests, in any order, with overlaps, repetitions, gaps and malformed requests, and whatever
  the writer does, what was written is the log up to the recorded length, in order and without gaps, but a write that
  failed may have left a piece of the log that is then written again.  If no failing write has written anything, it is
  exactly the log up to the recorded length.  The recorded length never decreases, a chunk that would leave a gap is
  refused with status 400, and a chunk answered 200 ends within the recorded length.
\<close>

theorem relayed_log_is_exact:
  assumes "int (length L) < 2 ^ 63" "\<forall>(env, r) \<in> set rs. ofLog L r"
    and "st = serveAll uuids rs \<lparr>stubReady = False, nextLogPos = 0, logged = []\<rparr>"
    and "ofLog L r" "route ''POST'' SetLogPath r"
    and "strconv_ParseInt 64 (rqStartPos r) = Some p" "rqBody r = Inr chunk"
    and "StartWithGPUUUIDs uuids env r st = (st', code, msg)"
  shows "loggedAs L (nat (nextLogPos st')) (logged st') \<and> subseq (take (nat (nextLogPos st')) L) (logged st') \<and>
    ((\<forall>e \<in> insert env (fst ` set rs). wholeWrites e) \<longrightarrow> logged st' = take (nat (nextLogPos st')) L) \<and>
    nextLogPos st \<le> nextLogPos st' \<and> (p > nextLogPos st \<longrightarrow> code = 400 \<and> st' = st) \<and>
    (code = 200 \<longrightarrow> 0 \<le> p \<and> p + int (length chunk) \<le> nextLogPos st')"
proof -
  define whole where "whole \<longleftrightarrow> (\<forall>e \<in> insert env (fst ` set rs). wholeWrites e)"
  have "logInv whole L \<lparr>stubReady = False, nextLogPos = 0, logged = []\<rparr>" by (simp add: logInv_def loggedAs.none)
  then have st: "logInv whole L st"
    unfolding assms(3) by (rule conjunct1 [OF serveAll_log]) (use assms(1,2) in \<open>auto simp: whole_def\<close>)
  have after: "logInv whole L st'" "nextLogPos st \<le> nextLogPos st'"
    and ok: "code = 200 \<Longrightarrow> 0 \<le> p \<and> p + int (length chunk) \<le> nextLogPos st'"
    using serve_log [OF st assms(1) _ assms(4,8)] assms(5-7) by (auto simp: whole_def)
  have "code = 400 \<and> st' = st" if "p > nextLogPos st"
    using that st assms(5-8) Parse_Nil
    by (auto simp: StartWithGPUUUIDs_def route_def setLog_def addChunk_def logInv_def SetLogPath_def
        AcceleratorQueryPath_def AcceleratorMemoryQueryPath_def BecomeReadyPath_def BecomeUnreadyPath_def
        split: if_splits)
  with st after ok show ?thesis unfolding whole_def [symmetric] by (auto simp: logInv_def loggedAs_subseq)
qed

text \<open>
  C31: the controller and the stub agree.  When the requests of the controller to the requester are
  answered by the stub, the GPUs that the controller reads are those that the stub was started with,
  and a readiness that the controller has to relay is what the readiness probe of the requester then
  reports, and the controller remembers that it relayed it.
\<close>

theorem stub_serves_controller:
  assumes "servedBy env uuids senv (stubBase p) stub" "\<forall>url. urlParse env url = None"
    and "uuids \<noteq> []" "encodeUUIDs senv uuids = Inr json" "decodeUUIDs env (json @ newline) = Inr uuids"
    and "ReadinessRelayed (serverOf st nn uid) \<noteq> Some ready"
    and "ready \<noteq> (case getContainerStatus p InferenceServerContainerName of None \<Rightarrow> False | Some cs \<Rightarrow> csReady cs)"
    and "relayReadiness env st nn uid p ready = (st', out)"
  shows "(\<exists>st1. getGPUUUIDs env st (stubBase p @ AcceleratorQueryPath) = (st1, Inr uuids)) \<and>
    out = prDone \<and> ReadinessRelayed (serverOf st' nn uid) = Some ready \<and>
    fst (probesStart \<lparr>rqMethod = ''GET'', rqPath = ReadyPath, rqStartPos = [], rqBody = Inr []\<rparr>
      (stubAfter uuids senv (stubBase p) (dcalls st') stub)) = (if ready then 200 else 503)"
proof -
  obtain st1 where post: "doHTTP env st (''relay_'' @ (if ready then ''ready'' else ''unready'')) ''POST''
      (stubBase p @ (if ready then BecomeReadyPath else BecomeUnreadyPath)) None (\<lambda>_. Inr ()) = (st1, 200, Inr ())"
    and st1: "stubReady (stubAfter uuids senv (stubBase p) (dcalls st1) stub) = ready"
    using stub_takes_readiness [OF assms(1)] assms(2) by blast
  have "out = prDone" "ReadinessRelayed (serverOf st' nn uid) = Some ready" "dcalls st' = dcalls st1"
    using assms(6-8) post by (auto simp: relayReadiness_def Let_def stubBase_def)
  with st1 stub_reports_gpus [OF assms(1) _ assms(3-5)] assms(2) show ?thesis
    by (auto simp: probesStart_def route_def readyProbe_def)
qed

text \<open>A stub with one GPU, a controller that talks to it, and a log sent in two overlapping chunks.\<close>

definition stubExampleEnv :: stubEnv where
  "stubExampleEnv = \<lparr>smiUUIDs = Inr ''gpu-1'', smiMemory = Inr ''gpu-1, 512'',
     encodeUUIDs = (\<lambda>us. Inr (hd us)), encodeUsage = (\<lambda>_. Inr ''{}''), parseIntErr = (\<lambda>_. ''invalid syntax''),
     logWrite = (\<lambda>_ s. (length s, None))\<rparr>"

definition newStub :: stubState where
  "newStub = \<lparr>stubReady = False, nextLogPos = 0, logged = []\<rparr>"

definition logRequest :: "string \<Rightarrow> string \<Rightarrow> stubRequest" where
  "logRequest pos chunk = \<lparr>rqMethod = ''POST'', rqPath = SetLogPath, rqStartPos = pos, rqBody = Inr chunk\<rparr>"

definition talkingEnv :: dpEnv where
  "talkingEnv = (dpExampleEnv [directRequester])\<lparr>
     httpDo := (\<lambda>h req. case stubRequestOf (stubBase directRequester) req of
         Some r \<Rightarrow> Inr (snd (StartWithGPUUUIDs [''gpu-1''] stubExampleEnv r
                      (stubAfter [''gpu-1''] stubExampleEnv (stubBase directRequester) h newStub)))
       | None \<Rightarrow> Inl ''refused''),
     decodeUUIDs := (\<lambda>s. Inr [butlast s])\<rparr>"

lemma parse_examples: "strconv_ParseInt 64 ''0'' = Some 0" "strconv_ParseInt 64 ''2'' = Some 2" "strconv_ParseInt 64 ''3'' = Some 3"
  by (simp_all add: strconv_ParseInt_def readNat_def digitVal_def isDigit_def)

text \<open>A writer that fails after one character.\<close>

definition brokenPipeEnv :: stubEnv where
  "brokenPipeEnv = stubExampleEnv\<lparr>logWrite := (\<lambda>_ _. (1, Some ''broken pipe''))\<rparr>"

lemmas log_steps = logRequest_def StartWithGPUUUIDs_def route_def setLog_def addChunk_def writeNews_def parse_examples SetLogPath_def
  AcceleratorQueryPath_def AcceleratorMemoryQueryPath_def BecomeReadyPath_def BecomeUnreadyPath_def wrap64_def Let_def

lemma example_log:
  "serveAll [''gpu-1''] [(stubExampleEnv, logRequest ''0'' ''abc''), (brokenPipeEnv, logRequest ''2'' ''cde'')] newStub =
     \<lparr>stubReady = False, nextLogPos = 3, logged = ''abcd''\<rparr>"
  "fst (StartWithGPUUUIDs [''gpu-1''] stubExampleEnv (logRequest ''2'' ''cde'') \<lparr>stubReady = False, nextLogPos = 3, logged = ''abcd''\<rparr>) =
     \<lparr>stubReady = False, nextLogPos = 5, logged = ''abcdde''\<rparr>"
  "fst (snd (StartWithGPUUUIDs [''gpu-1''] stubExampleEnv (logRequest ''2'' ''cde'') \<lparr>stubReady = False, nextLogPos = 3, logged = ''abcd''\<rparr>)) = 200"
  by (simp_all add: log_steps stubExampleEnv_def brokenPipeEnv_def newStub_def)

theorem relayed_log_is_exact_witness:
  "let st = serveAll [''gpu-1''] [(stubExampleEnv, logRequest ''0'' ''abc''), (brokenPipeEnv, logRequest ''2'' ''cde'')] newStub;
       st' = fst (StartWithGPUUUIDs [''gpu-1''] stubExampleEnv (logRequest ''2'' ''cde'') st)
   in logged st' = ''abcdde'' \<and> nextLogPos st' = 5 \<and> loggedAs ''abcde'' 5 (logged st')"
proof -
  let ?rs = "[(stubExampleEnv, logRequest ''0'' ''abc''), (brokenPipeEnv, logRequest ''2'' ''cde'')]"
  define st where "st = serveAll [''gpu-1''] ?rs \<lparr>stubReady = False, nextLogPos = 0, logged = []\<rparr>"
  obtain st' code msg where step: "StartWithGPUUUIDs [''gpu-1''] stubExampleEnv (logRequest ''2'' ''cde'') st = (st', code, msg)"
    by (metis prod_cases3)
  have "loggedAs ''abcde'' (nat (nextLogPos st')) (logged st')"
    by (rule conjunct1 [OF relayed_log_is_exact [OF _ _ st_def _ _ _ _ step, of "''abcde''" 2 "''cde''"]])
      (simp_all add: ofLog_def logRequest_def parse_examples route_def)
  moreover have "st = \<lparr>stubReady = False, nextLogPos = 3, logged = ''abcd''\<rparr>"
    unfolding st_def newStub_def [symmetric] by (rule example_log(1))
  with step have "st' = \<lparr>stubReady = False, nextLogPos = 5, logged = ''abcdde''\<rparr>" using example_log(2) by simp
  ultimately show ?thesis unfolding Let_def example_log(1) example_log(2) by simp
qed


theorem stub_serves_controller_witness:
  "fst (probesStart \<lparr>rqMethod = ''GET'', rqPath = ReadyPath, rqStartPos = [], rqBody = Inr []\<rparr>
     (stubAfter [''gpu-1''] stubExampleEnv (stubBase directRequester)
       (dcalls (fst (relayReadiness talkingEnv dpExampleState ''n1'' ''u1'' directRequester True))) newStub)) = 200"
proof -
  obtain st' out where relay: "relayReadiness talkingEnv dpExampleState ''n1'' ''u1'' directRequester True = (st', out)"
    by (cases "relayReadiness talkingEnv dpExampleState ''n1'' ''u1'' directRequester True")
  have "(\<exists>st1. getGPUUUIDs talkingEnv dpExampleState (stubBase directRequester @ AcceleratorQueryPath) = (st1, Inr [''gpu-1''])) \<and>
    out = prDone \<and> ReadinessRelayed (serverOf st' ''n1'' ''u1'') = Some True \<and>
    fst (probesStart \<lparr>rqMethod = ''GET'', rqPath = ReadyPath, rqStartPos = [], rqBody = Inr []\<rparr>
      (stubAfter [''gpu-1''] stubExampleEnv (stubBase directRequester) (dcalls st') newStub)) = (if True then 200 else 503)"
  proof (rule stub_serves_controller [OF _ _ _ _ _ _ _ relay])
    show "servedBy talkingEnv [''gpu-1''] stubExampleEnv (stubBase directRequester) newStub"
      by (simp add: answers_def talkingEnv_def)
    show "encodeUUIDs stubExampleEnv [''gpu-1''] = Inr ''gpu-1''" by (simp add: stubExampleEnv_def)
  qed (simp_all add: talkingEnv_def dpExampleEnv_def newline_def serverOf_def nodeOf_def dpExampleState_def
      newNodeData_def newServerData_def getContainerStatus_def SliceGetByFeature_find directRequester_def blank_defs)
  with relay show ?thesis by simp
qed

end
