(* ===== verification/GPU_Alloc.thy ===== *)
theory GPU_Alloc
  imports Kube
begin

text \<open>
  The allocation of GPUs by the test requester, \<^verbatim>\<open>cmd/test-requester/gpu-allocation.go\<close>, which stands in
  for the scheduler and the device plugin: requesters record in the ConfigMap \<^verbatim>\<open>gpu-allocs\<close> which Pod
  holds which GPU.  One attempt is a function of what the API server answers; an update is accepted only
  if the ConfigMap has not changed since it was read, so successful attempts are one after the other.
\<close>

subsection \<open>Data\<close>

record GPUHolder =
  holderNode :: string
  holderPodUID :: string

text \<open>The ConfigMap of allocations; its data may be nil.\<close>

record allocConfigMap =
  cmVersion :: string
  cmData :: "(string, string) gomap option"

text \<open>
  What one attempt is answered: the environment variable \<^verbatim>\<open>NVIDIA_VISIBLE_DEVICES\<close>, the GPU map and its
  decoder, the Pods of the namespace, the ConfigMap of allocations, its creation and its update, the
  JSON form of a holder, and the shuffle.
\<close>

record allocEnv =
  visibleDevices :: "string option"
  gpuMapGet :: "apiError + (string, string) gomap"
  decodeNodeGPUMap :: "string \<Rightarrow> string + (string, int) gomap"
  listPods :: "apiError + pod list"
  allocGet :: "apiError + allocConfigMap"
  allocCreate :: "apiError + allocConfigMap"
  allocUpdate :: "allocConfigMap \<Rightarrow> apiError + allocConfigMap"
  encodeHolder :: "GPUHolder \<Rightarrow> string + string"
  decodeHolder :: "string \<Rightarrow> string + GPUHolder"
  shuffle :: "string list \<Rightarrow> string list"

subsection \<open>Reading the cluster\<close>

text \<open>\<^verbatim>\<open>visibleGPUFilter\<close>: \<open>None\<close> when the GPUs are not restricted.\<close>

definition visibleGPUFilter :: "string option \<Rightarrow> string list option" where
  "visibleGPUFilter var =
     (case var of
        None \<Rightarrow> None
      | Some raw \<Rightarrow>
          (let t = strings_TrimSpace raw
           in if t = [] \<or> t = ''all'' then None
              else if t = ''void'' \<or> t = ''none'' then Some []
              else Some (filter (\<lambda>u. u \<noteq> []) (map strings_TrimSpace (strings_Split (CHR '','') raw)))))"

fun decodeNodeMaps :: "(string \<Rightarrow> string + (string, int) gomap) \<Rightarrow> (string, string) gomap \<Rightarrow>
    (string, (string, int) gomap) gomap \<Rightarrow> goError + (string, (string, int) gomap) gomap" where
  "decodeNodeMaps dec [] ans = Inr ans"
| "decodeNodeMaps dec ((nodeName, mapStr) # rest) ans =
     (case dec mapStr of
        Inl e \<Rightarrow> Inl (Wrapped (''failed to parse GPU map for node '' @ nodeName) (ErrorText e))
      | Inr nm \<Rightarrow> decodeNodeMaps dec rest (mput nodeName nm ans))"

definition getGPUMap :: "allocEnv \<Rightarrow> goError + (string, (string, int) gomap) gomap" where
  "getGPUMap env =
     (case gpuMapGet env of
        Inl err \<Rightarrow> Inl (Wrapped ''failed to retrieve gpu-map ConfigMap'' (ApiErr err))
      | Inr dat \<Rightarrow> decodeNodeMaps (decodeNodeGPUMap env) dat [])"

definition onNode :: "(string, (string, int) gomap) gomap \<Rightarrow> string \<Rightarrow> string list" where
  "onNode gm nodeName = (case mget gm nodeName of None \<Rightarrow> [] | Some ngm \<Rightarrow> remdups (mkeys ngm))"

fun decodeHolders :: "(string \<Rightarrow> string + GPUHolder) \<Rightarrow> (string, string) gomap \<Rightarrow>
    (string, GPUHolder) gomap \<Rightarrow> goError + (string, GPUHolder) gomap" where
  "decodeHolders dec [] ans = Inr ans"
| "decodeHolders dec ((gpuUID, holderStr) # rest) ans =
     (case dec holderStr of
        Inl e \<Rightarrow> Inl (Wrapped (''failed to decode GPU allocation for GPU UID '' @ gpuUID) (ErrorText e))
      | Inr holder \<Rightarrow> decodeHolders dec rest (mput gpuUID holder ans))"

text \<open>\<^verbatim>\<open>getGPUAlloc\<close>: the ConfigMap is created when it does not exist.\<close>

definition fetchAllocs :: "allocEnv \<Rightarrow> goError + allocConfigMap" where
  "fetchAllocs env =
     (case allocGet env of
        Inr cm \<Rightarrow> Inr cm
      | Inl err \<Rightarrow>
          if isNotFound err
          then (case allocCreate env of
                  Inl err2 \<Rightarrow> Inl (Wrapped ''failed to create GPU allocation ConfigMap'' (ApiErr err2))
                | Inr cm \<Rightarrow> Inr cm)
          else Inl (Wrapped ''failed to fetch GPU allocation ConfigMap'' (ApiErr err)))"

definition dataOf :: "allocConfigMap \<Rightarrow> (string, string) gomap" where
  "dataOf cm = (case cmData cm of None \<Rightarrow> [] | Some d \<Rightarrow> d)"

definition getGPUAlloc :: "allocEnv \<Rightarrow> goError + (string, GPUHolder) gomap \<times> allocConfigMap" where
  "getGPUAlloc env =
     (case fetchAllocs env of
        Inl err \<Rightarrow> Inl err
      | Inr cm \<Rightarrow>
          (case decodeHolders (decodeHolder env) (dataOf cm) [] of
             Inl err \<Rightarrow> Inl err
           | Inr ans \<Rightarrow> Inr (ans, cm\<lparr>cmData := Some (dataOf cm)\<rparr>)))"

definition getPodMap :: "allocEnv \<Rightarrow> goError + (string, string) gomap" where
  "getPodMap env =
     (case listPods env of
        Inl err \<Rightarrow> Inl (ApiErr err)
      | Inr pods \<Rightarrow> Inr (foldl (\<lambda>ans p. mput (UID p) (Name p) ans) [] pods))"

subsection \<open>One attempt\<close>

text \<open>The entries of this Node: those of Pods that do not exist are removed, those of other Pods are in use.\<close>

fun sweep :: "string \<Rightarrow> string \<Rightarrow> (string, string) gomap \<Rightarrow> (string, GPUHolder) gomap \<Rightarrow>
    (string, string) gomap \<Rightarrow> string list \<Rightarrow> (string, string) gomap \<times> string list" where
  "sweep nodeName podUID podMap [] dat used = (dat, used)"
| "sweep nodeName podUID podMap ((gpuUID, holder) # rest) dat used =
     (if holderNode holder \<noteq> nodeName then sweep nodeName podUID podMap rest dat used
      else if mget podMap (holderPodUID holder) = None
      then sweep nodeName podUID podMap rest (mdel gpuUID dat) used
      else if holderPodUID holder \<noteq> podUID
      then sweep nodeName podUID podMap rest dat (gpuUID # used)
      else sweep nodeName podUID podMap rest dat used)"

fun recordHolders :: "(GPUHolder \<Rightarrow> string + string) \<Rightarrow> GPUHolder \<Rightarrow> string list \<Rightarrow> (string, string) gomap \<Rightarrow>
    goError + (string, string) gomap" where
  "recordHolders enc holder [] dat = Inr dat"
| "recordHolders enc holder (gpuUID # gpus) dat =
     (case enc holder of
        Inl e \<Rightarrow> Inl (Wrapped (''failed to marshal holder for GPU '' @ gpuUID) (ErrorText e))
      | Inr holderBytes \<Rightarrow> recordHolders enc holder gpus (mput gpuUID holderBytes dat))"

text \<open>The GPUs of the Node that this Pod may use and no other Pod does.\<close>

definition availableGPUs :: "allocEnv \<Rightarrow> (string, (string, int) gomap) gomap \<Rightarrow> string \<Rightarrow> string list" where
  "availableGPUs env gm nodeName =
     (case visibleGPUFilter (visibleDevices env) of
        None \<Rightarrow> onNode gm nodeName
      | Some vis \<Rightarrow> filter (\<lambda>u. u \<in> set vis) (onNode gm nodeName))"

text \<open>The attempt up to the update: the GPUs chosen and the ConfigMap to write.\<close>

definition planAlloc :: "allocEnv \<Rightarrow> string \<Rightarrow> string \<Rightarrow> nat \<Rightarrow> goError + string list \<times> allocConfigMap" where
  "planAlloc env nodeName podUID numGPUs =
     (case getGPUMap env of
        Inl err \<Rightarrow> Inl err
      | Inr gm \<Rightarrow>
     (let avail = availableGPUs env gm nodeName
      in (case getPodMap env of
        Inl err \<Rightarrow> Inl err
      | Inr podMap \<Rightarrow>
          if mget podMap podUID = None
          then Inl (ErrorText (''pod UID '' @ strconv_Quote podUID @ '' not found among current Pods''))
          else
     (case getGPUAlloc env of
        Inl err \<Rightarrow> Inl err
      | Inr (gpuAllocMap, gpuAllocCM) \<Rightarrow>
          (let (dat, used) = sweep nodeName podUID podMap gpuAllocMap (dataOf gpuAllocCM) [];
               remaining = slices_SortFunc strings_Compare (filter (\<lambda>u. u \<notin> set used) avail)
           in if length remaining < numGPUs
              then Inl (ErrorText (''fewer than '' @ showNat numGPUs @ '' GPUs available ('' @
                     strings_Join remaining '' '' @ '') for node '' @ strconv_Quote nodeName))
              else (let gpuUIDs = take numGPUs (shuffle env remaining)
                    in (case recordHolders (encodeHolder env) \<lparr>holderNode = nodeName, holderPodUID = podUID\<rparr> gpuUIDs dat of
                          Inl err \<Rightarrow> Inl err
                        | Inr dat2 \<Rightarrow> Inr (gpuUIDs, gpuAllocCM\<lparr>cmData := Some dat2\<rparr>))))))))"

definition tryAllocate :: "allocEnv \<Rightarrow> string \<Rightarrow> string \<Rightarrow> nat \<Rightarrow> goError + string list" where
  "tryAllocate env nodeName podUID numGPUs =
     (case planAlloc env nodeName podUID numGPUs of
        Inl err \<Rightarrow> Inl err
      | Inr (gpuUIDs, gpuAllocCM) \<Rightarrow>
          (case allocUpdate env gpuAllocCM of
             Inl err \<Rightarrow> Inl (Wrapped ''failed to update GPU allocation ConfigMap'' (ApiErr err))
           | Inr echo \<Rightarrow> Inr gpuUIDs))"

text \<open>
  \<^verbatim>\<open>allocateGPUs\<close> polls until an attempt succeeds.  The list holds the surroundings of the attempts until
  the context is cancelled, when the process exits with status 100.
\<close>

fun allocateGPUs :: "allocEnv list \<Rightarrow> string \<Rightarrow> string \<Rightarrow> nat \<Rightarrow> nat + string list" where
  "allocateGPUs [] nodeName podUID numGPUs = Inl 100"
| "allocateGPUs (env # envs) nodeName podUID numGPUs =
     (case tryAllocate env nodeName podUID numGPUs of
        Inr gpuUIDs \<Rightarrow> Inr gpuUIDs
      | Inl _ \<Rightarrow> allocateGPUs envs nodeName podUID numGPUs)"

subsection \<open>What an attempt writes\<close>

text \<open>The holder that the ConfigMap records for a GPU.\<close>

definition holderIn :: "(string \<Rightarrow> string + GPUHolder) \<Rightarrow> allocConfigMap \<Rightarrow> string \<Rightarrow> GPUHolder option" where
  "holderIn dec cm g =
     (case mget (dataOf cm) g of None \<Rightarrow> None | Some s \<Rightarrow> (case dec s of Inl _ \<Rightarrow> None | Inr h \<Rightarrow> Some h))"

lemma decodeHolders_get:
  assumes "decodeHolders dec d ans = Inr m" "mok d" "mok ans" "\<forall>g \<in> fst ` set d. mget ans g = None"
  shows "mok m \<and> (\<forall>g. mget m g =
    (case mget d g of None \<Rightarrow> mget ans g | Some s \<Rightarrow> (case dec s of Inl _ \<Rightarrow> None | Inr h \<Rightarrow> Some h)))"
  using assms
proof (induction dec d ans rule: decodeHolders.induct)
  case (2 dec gpuUID holderStr rest ans)
  then obtain h where h: "dec holderStr = Inr h" by (auto split: sum.splits)
  have "mok m \<and> (\<forall>g. mget m g = (case mget rest g of None \<Rightarrow> mget (mput gpuUID h ans) g
      | Some s \<Rightarrow> (case dec s of Inl _ \<Rightarrow> None | Inr h \<Rightarrow> Some h)))"
  proof (rule "2.IH" [OF h])
    show "decodeHolders dec rest (mput gpuUID h ans) = Inr m" using "2.prems"(1) h by simp
    show "mok rest" using "2.prems"(2) by (simp add: mok_Cons)
    show "mok (mput gpuUID h ans)" by (rule mok_mput [OF "2.prems"(3)])
    show "\<forall>g \<in> fst ` set rest. mget (mput gpuUID h ans) g = None"
      using "2.prems"(2,4) by (auto simp: gomap_simps mok_Cons)
  qed
  moreover have "mget rest gpuUID = None"
    using "2.prems"(2) by (simp add: mok_Cons mget_None_iff)
  ultimately show ?case using h by (auto simp: gomap_simps split: option.split)
qed simp

definition obsoleteEntry :: "string \<Rightarrow> (string, string) gomap \<Rightarrow> GPUHolder \<Rightarrow> bool" where
  "obsoleteEntry n podMap h \<longleftrightarrow> holderNode h = n \<and> mget podMap (holderPodUID h) = None"

definition usedEntry :: "string \<Rightarrow> string \<Rightarrow> (string, string) gomap \<Rightarrow> GPUHolder \<Rightarrow> bool" where
  "usedEntry n u podMap h \<longleftrightarrow>
     holderNode h = n \<and> mget podMap (holderPodUID h) \<noteq> None \<and> holderPodUID h \<noteq> u"

lemma sweep_used:
  "set (snd (sweep n u podMap m dat used)) = set used \<union> fst ` {e \<in> set m. usedEntry n u podMap (snd e)}"
proof (induction n u podMap m dat used rule: sweep.induct)
  case (2 n u podMap g h rest dat used)
  have "{e \<in> set ((g, h) # rest). usedEntry n u podMap (snd e)} =
      (if usedEntry n u podMap h then {(g, h)} else {}) \<union> {e \<in> set rest. usedEntry n u podMap (snd e)}"
    by auto
  with 2 show ?case by (simp add: usedEntry_def)
qed simp

lemma sweep_get:
  "mget (fst (sweep n u podMap m dat used)) g =
     (if g \<in> fst ` {e \<in> set m. obsoleteEntry n podMap (snd e)} then None else mget dat g)"
proof (induction n u podMap m dat used rule: sweep.induct)
  case (2 n u podMap k h rest dat used)
  have "{e \<in> set ((k, h) # rest). obsoleteEntry n podMap (snd e)} =
      (if obsoleteEntry n podMap h then {(k, h)} else {}) \<union> {e \<in> set rest. obsoleteEntry n podMap (snd e)}"
    by auto
  with 2 show ?case by (simp add: obsoleteEntry_def gomap_simps)
qed simp

lemma sweep_mok: "mok dat \<Longrightarrow> mok (fst (sweep n u podMap m dat used))"
  by (induction n u podMap m dat used rule: sweep.induct) (simp_all add: wf_intros)

lemma recordHolders_get:
  assumes "recordHolders enc h gpus dat = Inr dat'"
  shows "mget dat' g = (if g \<in> set gpus then Some (projr (enc h)) else mget dat g)"
    and "g \<in> set gpus \<Longrightarrow> \<exists>b. enc h = Inr b"
    and "mok dat \<Longrightarrow> mok dat'"
  using assms
  by (induction enc h gpus dat rule: recordHolders.induct)
    (auto simp: gomap_simps wf_intros split: sum.splits if_splits)

text \<open>What the attempt relies on: shuffling permutes, and a holder that was encoded is decoded again.\<close>

definition faithful :: "(string \<Rightarrow> string + GPUHolder) \<Rightarrow> allocEnv \<Rightarrow> bool" where
  "faithful dec env \<longleftrightarrow>
     decodeHolder env = dec \<and> (\<forall>h b. encodeHolder env h = Inr b \<longrightarrow> dec b = Inr h) \<and>
     (\<forall>xs. length (shuffle env xs) = length xs \<and> set (shuffle env xs) = set xs)"

definition listed :: "allocEnv \<Rightarrow> string \<Rightarrow> bool" where
  "listed env uid \<longleftrightarrow> (\<exists>pods. listPods env = Inr pods \<and> uid \<in> UID ` set pods)"

lemma getPodMap_listed:
  assumes "getPodMap env = Inr podMap"
  shows "mget podMap uid \<noteq> None \<longleftrightarrow> listed env uid"
proof -
  obtain pods where pods: "listPods env = Inr pods"
    and m: "podMap = foldl (\<lambda>ans p. mput (UID p) (Name p) ans) [] pods"
    using assms by (auto simp: getPodMap_def split: sum.splits)
  have "mget (foldl (\<lambda>ans p. mput (UID p) (Name p) ans) acc pods) uid \<noteq> None \<longleftrightarrow>
      mget acc uid \<noteq> None \<or> uid \<in> UID ` set pods" for acc :: "(string, string) gomap"
    by (induction pods arbitrary: acc) (auto simp: gomap_simps)
  with pods m show ?thesis by (simp add: listed_def)
qed

lemma take_shuffled:
  assumes "faithful dec env" "distinct xs" "k \<le> length xs"
  shows "length (take k (shuffle env xs)) = k" "distinct (take k (shuffle env xs))"
    "set (take k (shuffle env xs)) \<subseteq> set xs"
proof -
  have sh: "length (shuffle env xs) = length xs" "set (shuffle env xs) = set xs"
    using assms(1) by (auto simp: faithful_def)
  have "distinct (shuffle env xs)"
    using assms(2) sh by (metis card_distinct distinct_card)
  then show "length (take k (shuffle env xs)) = k" "distinct (take k (shuffle env xs))"
    "set (take k (shuffle env xs)) \<subseteq> set xs"
    using assms(3) sh set_take_subset by fastforce+
qed

text \<open>The parts of a successful plan.\<close>

lemma planAllocE:
  assumes plan: "planAlloc env n u k = Inr (gpus, cm')" and faith: "faithful dec env"
    and cm: "fetchAllocs env = Inr cm" "mok (dataOf cm)" and gm: "getGPUMap env = Inr gm"
  obtains podMap m dat used remaining dat2 where
    "getPodMap env = Inr podMap" "mget podMap u \<noteq> None" "\<forall>g. mget m g = holderIn dec cm g" "mok m"
    "sweep n u podMap m (dataOf cm) [] = (dat, used)"
    "remaining = slices_SortFunc strings_Compare (filter (\<lambda>x. x \<notin> set used) (availableGPUs env gm n))"
    "k \<le> length remaining" "gpus = take k (shuffle env remaining)"
    "recordHolders (encodeHolder env) \<lparr>holderNode = n, holderPodUID = u\<rparr> gpus dat = Inr dat2"
    "cm' = cm\<lparr>cmData := Some dat2\<rparr>"
proof -
  obtain podMap m cm1 where pm: "getPodMap env = Inr podMap" and known: "mget podMap u \<noteq> None"
    and alloc: "getGPUAlloc env = Inr (m, cm1)"
    using plan gm by (auto simp: planAlloc_def Let_def split: sum.splits if_splits)
  have m: "decodeHolders dec (dataOf cm) [] = Inr m" and cm1: "cm1 = cm\<lparr>cmData := Some (dataOf cm)\<rparr>"
    using alloc cm faith by (auto simp: getGPUAlloc_def faithful_def split: sum.splits)
  have mm: "mok m" "\<forall>x. mget m x = holderIn dec cm x"
    using decodeHolders_get [OF m cm(2)] by (auto simp: holderIn_def split: option.split)
  have dat1: "dataOf cm1 = dataOf cm" by (simp add: cm1 dataOf_def)
  obtain dat used where sw: "sweep n u podMap m (dataOf cm) [] = (dat, used)" by (metis surj_pair)
  define remaining where
    "remaining = slices_SortFunc strings_Compare (filter (\<lambda>x. x \<notin> set used) (availableGPUs env gm n))"
  have "k \<le> length remaining \<and> gpus = take k (shuffle env remaining) \<and>
    (\<exists>dat2. recordHolders (encodeHolder env) \<lparr>holderNode = n, holderPodUID = u\<rparr> gpus dat = Inr dat2 \<and>
      cm' = cm1\<lparr>cmData := Some dat2\<rparr>)"
    using plan gm pm known alloc sw
    by (auto simp: planAlloc_def Let_def dat1 remaining_def split: sum.splits if_splits)
  with that [OF pm known mm(2,1) sw remaining_def] show thesis by (auto simp: cm1)
qed

lemma distinct_available: "distinct (availableGPUs env gm n)"
  by (simp add: availableGPUs_def onNode_def split: option.split)

lemma planAlloc_spec:
  assumes plan: "planAlloc env n u k = Inr (gpus, cm')" and faith: "faithful dec env"
    and cm: "fetchAllocs env = Inr cm" "mok (dataOf cm)" and gm: "getGPUMap env = Inr gm"
  shows "length gpus = k" "distinct gpus" "set gpus \<subseteq> set (availableGPUs env gm n)" "mok (dataOf cm')"
    and "listed env u" "cmVersion cm' = cmVersion cm"
    and "\<And>g. g \<in> set gpus \<Longrightarrow> holderIn dec cm' g = Some \<lparr>holderNode = n, holderPodUID = u\<rparr>"
    and "\<And>g h. holderIn dec cm g = Some h \<Longrightarrow> holderNode h = n \<Longrightarrow> listed env (holderPodUID h) \<Longrightarrow>
      holderPodUID h \<noteq> u \<Longrightarrow> g \<notin> set gpus \<and> holderIn dec cm' g = Some h"
proof -
  obtain podMap m dat used remaining dat2 where
    pm: "getPodMap env = Inr podMap" "mget podMap u \<noteq> None" and m: "\<forall>g. mget m g = holderIn dec cm g" "mok m"
    and sw: "sweep n u podMap m (dataOf cm) [] = (dat, used)"
    and rem: "remaining = slices_SortFunc strings_Compare (filter (\<lambda>x. x \<notin> set used) (availableGPUs env gm n))"
    and k: "k \<le> length remaining" and gpus: "gpus = take k (shuffle env remaining)"
    and wr: "recordHolders (encodeHolder env) \<lparr>holderNode = n, holderPodUID = u\<rparr> gpus dat = Inr dat2"
    and cm': "cm' = cm\<lparr>cmData := Some dat2\<rparr>"
    by (rule planAllocE [OF plan faith cm gm])
  have rem': "distinct remaining" "set remaining = set (availableGPUs env gm n) - set used"
    by (auto simp: rem distinct_available)
  note chosen = take_shuffled [OF faith rem'(1) k, folded gpus]
  show "length gpus = k" "distinct gpus" by (rule chosen)+
  show "set gpus \<subseteq> set (availableGPUs env gm n)" using chosen(3) rem'(2) by blast
  show "mok (dataOf cm')"
    using recordHolders_get(3) [OF wr] sweep_mok [OF cm(2), of n u podMap m "[]"] sw by (simp add: cm' dataOf_def)
  show "listed env u" using pm getPodMap_listed by blast
  show "cmVersion cm' = cmVersion cm" by (simp add: cm')
  have data': "dataOf cm' = dat2" by (simp add: cm' dataOf_def)
  show "holderIn dec cm' g = Some \<lparr>holderNode = n, holderPodUID = u\<rparr>" if "g \<in> set gpus" for g
    using recordHolders_get(1,2) [OF wr, of g] that faith by (auto simp: holderIn_def data' faithful_def)
  show "g \<notin> set gpus \<and> holderIn dec cm' g = Some h"
    if h: "holderIn dec cm g = Some h" "holderNode h = n" "listed env (holderPodUID h)" "holderPodUID h \<noteq> u" for g h
  proof -
    have gh: "(g, h') \<in> set m \<longleftrightarrow> h' = h" for h'
      using m(1) h(1) mget_Some_iff [OF m(2), of g h'] by auto
    have live: "mget podMap (holderPodUID h) \<noteq> None" using getPodMap_listed [OF pm(1)] h(3) by simp
    then have "g \<in> set used"
      using sweep_used [of n u podMap m "dataOf cm" "[]"] sw gh h(2,4) by (force simp: usedEntry_def)
    then have fresh: "g \<notin> set gpus" using chosen(3) rem'(2) by blast
    have "mget dat g = mget (dataOf cm) g"
      using sweep_get [of n u podMap m "dataOf cm" "[]" g] sw gh live by (auto simp: obsoleteEntry_def)
    with fresh h(1) recordHolders_get(1) [OF wr, of g] show ?thesis by (simp add: holderIn_def data')
  qed
qed

subsection \<open>Many requesters\<close>

text \<open>
  \<open>allocRun dec n cm held\<close>: the ConfigMap is \<open>cm\<close> after successful attempts of requesters on Node \<open>n\<close>,
  and \<open>held\<close> gives the GPUs that the running ones were told they have.  The API server accepts an update
  only when its resource version is the current one, so the ConfigMap that an accepted attempt read is
  the current one.  Requesters on other Nodes leave the entries of this Node alone; a Pod may end.
\<close>

inductive allocRun :: "(string \<Rightarrow> string + GPUHolder) \<Rightarrow> string \<Rightarrow> allocConfigMap \<Rightarrow> (string \<Rightarrow> string list) \<Rightarrow> bool"
  for dec n where
  initial: "mok (dataOf cm) \<Longrightarrow> allocRun dec n cm (\<lambda>_. [])"
| attempt: "allocRun dec n cm held \<Longrightarrow> faithful dec env \<Longrightarrow> fetchAllocs env = Inr cm \<Longrightarrow>
     planAlloc env n u k = Inr (gpus, cm') \<Longrightarrow> tryAllocate env n u k = Inr gpus \<Longrightarrow>
     \<forall>p. held p \<noteq> [] \<longrightarrow> listed env p \<Longrightarrow> dataOf cm2 = dataOf cm' \<Longrightarrow>
     allocRun dec n cm2 (held(u := gpus))"
| elsewhere: "allocRun dec n cm held \<Longrightarrow> mok (dataOf cm2) \<Longrightarrow>
     \<forall>g h. holderIn dec cm g = Some h \<and> holderNode h = n \<longrightarrow> holderIn dec cm2 g = Some h \<Longrightarrow>
     allocRun dec n cm2 held"
| ended: "allocRun dec n cm held \<Longrightarrow> allocRun dec n cm (held(p := []))"

lemma allocRun_recorded:
  assumes "allocRun dec n cm held"
  shows "mok (dataOf cm) \<and>
    (\<forall>p. distinct (held p) \<and>
       (\<forall>g \<in> set (held p). holderIn dec cm g = Some \<lparr>holderNode = n, holderPodUID = p\<rparr>))"
  using assms
proof (induction rule: allocRun.induct)
  case (attempt cm held env u k gpus cm' cm2)
  obtain gm where gm: "getGPUMap env = Inr gm"
    using attempt.hyps(4) by (auto simp: planAlloc_def split: sum.splits)
  note spec = planAlloc_spec [OF attempt.hyps(4,2,3) conjunct1 [OF attempt.IH] gm]
  have same: "holderIn dec cm2 g = holderIn dec cm' g" for g
    using attempt.hyps(7) by (simp add: holderIn_def)
  have "holderIn dec cm2 g = Some \<lparr>holderNode = n, holderPodUID = p\<rparr>"
    if "p \<noteq> u" "g \<in> set (held p)" for p g
  proof -
    have "held p \<noteq> []" using that(2) by auto
    with attempt that show ?thesis using spec(8) [of g] by (auto simp: same)
  qed
  with attempt spec same show ?case by (auto simp: fun_upd_apply)
qed (auto simp: holderIn_def)

subsection \<open>Properties\<close>

text \<open>
  C34: requesters that share a Node never hold the same GPU.  As long as the Pods that an attempt lists
  include every running Pod that holds GPUs, each requester is told different GPUs, the ConfigMap records it as their holder until it ends, and no two Pods hold a GPU in common.
\<close>

theorem no_gpu_is_shared:
  assumes "allocRun dec n cm held" "p \<noteq> q"
  shows "set (held p) \<inter> set (held q) = {} \<and> distinct (held p) \<and>
    (\<forall>g \<in> set (held p). holderIn dec cm g = Some \<lparr>holderNode = n, holderPodUID = p\<rparr>)"
proof -
  have "holderIn dec cm g = Some \<lparr>holderNode = n, holderPodUID = r\<rparr>" if "g \<in> set (held r)" for g r
    using allocRun_recorded [OF assms(1)] that by blast
  with assms(2) allocRun_recorded [OF assms(1)] show ?thesis by fastforce
qed


text \<open>Two GPUs on a Node, and two requesters that take one each.\<close>

definition encodeUID :: "GPUHolder \<Rightarrow> string + string" where
  "encodeUID h = Inr (holderNode h @ '' '' @ holderPodUID h)"

definition decodeUID :: "string \<Rightarrow> string + GPUHolder" where
  "decodeUID s = (case strings_Split (CHR '' '') s of
     [n, u] \<Rightarrow> Inr \<lparr>holderNode = n, holderPodUID = u\<rparr> | _ \<Rightarrow> Inl ''bad'')"

definition allocExample :: "string list \<Rightarrow> (string, string) gomap \<Rightarrow> allocEnv" where
  "allocExample uids dat =
     \<lparr>visibleDevices = None, gpuMapGet = Inr [(''n1'', ''map'')],
      decodeNodeGPUMap = (\<lambda>_. Inr [(''g1'', 0), (''g2'', 1)]),
      listPods = Inr (map (\<lambda>u. blankPod\<lparr>Name := ''pod-'' @ u, UID := u\<rparr>) uids),
      allocGet = Inr \<lparr>cmVersion = ''1'', cmData = Some dat\<rparr>, allocCreate = Inl ErrConflict,
      allocUpdate = (\<lambda>cm. Inr cm),
      encodeHolder = (\<lambda>h. if CHR '' '' \<in> set (holderNode h) \<union> set (holderPodUID h) then Inl ''space'' else encodeUID h),
      decodeHolder = decodeUID, shuffle = (\<lambda>xs. xs)\<rparr>"

lemma example_faithful: "faithful decodeUID (allocExample uids dat)"
  by (auto simp: faithful_def allocExample_def encodeUID_def decodeUID_def strings_Split_append strings_Split_none)

lemmas alloc_run_defs = tryAllocate_def planAlloc_def getGPUMap_def availableGPUs_def onNode_def visibleGPUFilter_def
  getPodMap_def getGPUAlloc_def fetchAllocs_def dataOf_def allocExample_def encodeUID_def decodeUID_def Let_def

lemma first_plan: "planAlloc (allocExample [''u1'', ''u2''] []) ''n1'' ''u1'' 1 =
    Inr ([''g1''], \<lparr>cmVersion = ''1'', cmData = Some [(''g1'', ''n1 u1'')]\<rparr>)"
  by (simp add: alloc_run_defs strings_Compare_def blank_defs)

lemma second_plan: "planAlloc (allocExample [''u1'', ''u2''] [(''g1'', ''n1 u1'')]) ''n1'' ''u2'' 1 =
    Inr ([''g2''], \<lparr>cmVersion = ''1'', cmData = Some [(''g1'', ''n1 u1''), (''g2'', ''n1 u2'')]\<rparr>)"
  by (simp add: alloc_run_defs strings_Compare_def blank_defs)

lemma first_try: "tryAllocate (allocExample [''u1'', ''u2''] []) ''n1'' ''u1'' 1 = Inr [''g1'']"
  unfolding tryAllocate_def first_plan by (simp add: allocExample_def)

lemma second_try: "tryAllocate (allocExample [''u1'', ''u2''] [(''g1'', ''n1 u1'')]) ''n1'' ''u2'' 1 = Inr [''g2'']"
  unfolding tryAllocate_def second_plan by (simp add: allocExample_def)

text \<open>
  The listing of the Pods is read before the ConfigMap.  A Pod that is created and allocates in between
  is taken for one that does not exist: its entry is removed and its GPU is given away.
\<close>

lemma late_pod_loses_its_gpu:
  "planAlloc (allocExample [''u2''] [(''g1'', ''n1 u1'')]) ''n1'' ''u2'' 1 =
    Inr ([''g1''], \<lparr>cmVersion = ''1'', cmData = Some [(''g1'', ''n1 u2'')]\<rparr>)"
  by (simp add: alloc_run_defs strings_Compare_def blank_defs)

theorem no_gpu_is_shared_witness:
  "\<exists>cm held. allocRun decodeUID ''n1'' cm held \<and> held ''u1'' = [''g1''] \<and> held ''u2'' = [''g2''] \<and>
     set (held ''u1'') \<inter> set (held ''u2'') = {}"
proof -
  let ?cm0 = "\<lparr>cmVersion = ''1'', cmData = Some []\<rparr>"
  let ?cm1 = "\<lparr>cmVersion = ''1'', cmData = Some [(''g1'', ''n1 u1'')]\<rparr>"
  let ?cm2 = "\<lparr>cmVersion = ''1'', cmData = Some [(''g1'', ''n1 u1''), (''g2'', ''n1 u2'')]\<rparr>"
  have "allocRun decodeUID ''n1'' ?cm0 (\<lambda>_. [])"
    by (rule allocRun.initial) (simp add: dataOf_def)
  then have one: "allocRun decodeUID ''n1'' ?cm1 ((\<lambda>_. [])(''u1'' := [''g1'']))"
    by (rule allocRun.attempt [OF _ example_faithful _ first_plan])
      (simp_all add: first_try [unfolded One_nat_def], simp_all add: fetchAllocs_def allocExample_def)
  then have two: "allocRun decodeUID ''n1'' ?cm2 ((\<lambda>_. [])(''u1'' := [''g1''], ''u2'' := [''g2'']))"
    by (rule allocRun.attempt [OF _ example_faithful _ second_plan])
      (simp_all add: second_try [unfolded One_nat_def], simp_all add: fetchAllocs_def allocExample_def listed_def)
  show ?thesis
    by (rule exI [of _ ?cm2], rule exI [of _ "(\<lambda>_. [])(''u1'' := [''g1''], ''u2'' := [''g2''])"])
      (use two no_gpu_is_shared [OF two, of "''u1''" "''u2''"] in simp)
qed

end
