(* ===== verification/Entry_Points.thy ===== *)
theory Entry_Points
  imports Histories Requester_Stub GPU_Alloc
begin

text \<open>
  The entry points of the programs, \<^verbatim>\<open>cmd/*/main.go\<close>: what they check, how they turn their flags into the
  settings of the controllers and servers, in which order they start things, and how they end.  A \<open>main\<close>
  maps its parsed flags and what the libraries answer to the actions it takes, in order, and its end.
  Parsing of the command line, logging and signals are not modelled.
\<close>

subsection \<open>Flags and actions\<close>

text \<open>The flags of \<^verbatim>\<open>AddKubernetesClientFlags\<close>, \<^verbatim>\<open>AddFlags\<close> and \<^verbatim>\<open>AddKubectlFlags\<close>.\<close>

record kubeFlags =
  ExplicitPath :: string
  CurrentContext :: string
  AuthInfo :: string
  Cluster :: string
  Namespace :: string

definition AddKubernetesClientFlags :: "string \<Rightarrow> string \<Rightarrow> kubeFlags \<Rightarrow> kubeFlags option" where
  "AddKubernetesClientFlags flag v fl =
     (if flag = ''kubeconfig'' then Some (fl\<lparr>ExplicitPath := v\<rparr>)
      else if flag = ''context'' then Some (fl\<lparr>CurrentContext := v\<rparr>)
      else if flag = ''user'' then Some (fl\<lparr>AuthInfo := v\<rparr>)
      else if flag = ''cluster'' then Some (fl\<lparr>Cluster := v\<rparr>)
      else if flag = ''namespace'' \<or> flag = ''n'' then Some (fl\<lparr>Namespace := v\<rparr>)
      else None)"

record obsOptions =
  MetricsPort :: nat
  DebugPort :: nat

definition DefaultOptions :: obsOptions where
  "DefaultOptions = \<lparr>MetricsPort = 8002, DebugPort = 8003\<rparr>"

text \<open>
  \<^verbatim>\<open>Options.Start\<close>: the ports that are served, each by its own goroutine; that one of them cannot be served is
  logged and has no other effect.
\<close>

definition obsStart :: "obsOptions \<Rightarrow> (nat \<times> string) list" where
  "obsStart opts = [(MetricsPort opts, ''GET /metrics''), (DebugPort opts, ''/debug/pprof'')]"

record popSettings =
  psNamespace :: string
  psExpectationTimeout :: duration
  psStuckScheduling :: duration
  psStuckStarting :: duration

datatype mainAction =
  Stderr string
| Clients string
| ConstructDualPods ControllerConfig string
| ConstructPopulator popSettings
| StartInformers string
| Observe "(nat \<times> string) list"
| StartController
| ServeSPI string "string list"
| ServeProbes string

datatype mainEnd = Exit nat | Fatal goError | Ended

text \<open>
  What the libraries answer: loading the client configuration gives an error or the user agent in it, and
  constructing and starting a controller and listening on a port may fail.
\<close>

record mainWorld =
  loadConfig :: "kubeFlags \<Rightarrow> goError + string"
  constructs :: "goError option"
  starts :: "goError option"
  listenErr :: "string \<Rightarrow> goError option"

definition userAgent :: "string \<Rightarrow> string \<Rightarrow> string" where
  "userAgent fromConfig agentName = (if fromConfig = [] then agentName else fromConfig @ ''/'' @ agentName)"

definition namespaceMissing :: "mainAction list \<times> mainEnd" where
  "namespaceMissing = ([Stderr ''Namespace must not be the empty string''], Exit 1)"

subsection \<open>The controllers\<close>

definition MaxInt64 :: int where
  "MaxInt64 = 2 ^ 63 - 1"

definition dpControllerName :: string where
  "dpControllerName = ''dual-pods-controller''"

definition popControllerName :: string where
  "popControllerName = ''launcher-populator''"

record dpcFlags =
  dfSleeperLimit :: int
  dfNumWorkers :: int
  dfDebugAccelMemory :: bool
  dfObs :: obsOptions
  dfKube :: kubeFlags

definition dpcDefaults :: "kubeFlags \<Rightarrow> dpcFlags" where
  "dpcDefaults kube =
     \<lparr>dfSleeperLimit = 1, dfNumWorkers = 2, dfDebugAccelMemory = True, dfObs = DefaultOptions, dfKube = kube\<rparr>"

definition dpcConfig :: "dpcFlags \<Rightarrow> ControllerConfig" where
  "dpcConfig fl =
     \<lparr>cfgSleeperLimit = dfSleeperLimit fl, cfgNumWorkers = dfNumWorkers fl,
      cfgAcceleratorSleepingMemoryLimitMiB =
        (if dfDebugAccelMemory fl then wrap64 (dfSleeperLimit fl * 4096) else MaxInt64)\<rparr>"

definition dpcMain :: "mainWorld \<Rightarrow> dpcFlags \<Rightarrow> mainAction list \<times> mainEnd" where
  "dpcMain w fl =
     (let ns = Namespace (dfKube fl)
      in if ns = [] then namespaceMissing
         else (case loadConfig w (dfKube fl) of
                 Inl err \<Rightarrow> ([], Fatal err)
               | Inr agent \<Rightarrow>
                   (let constructed = [Clients (userAgent agent dpControllerName), ConstructDualPods (dpcConfig fl) ns];
                        started = constructed @ [StartInformers ns, Observe (obsStart (dfObs fl)), StartController]
                    in (case constructs w of
                          Some err \<Rightarrow> (constructed, Fatal err)
                        | None \<Rightarrow> (case starts w of Some err \<Rightarrow> (started, Fatal err) | None \<Rightarrow> (started, Ended))))))"

definition DefaultStuckSchedulingThreshold :: duration where
  "DefaultStuckSchedulingThreshold = 120000000000"

definition DefaultStuckStartingThreshold :: duration where
  "DefaultStuckStartingThreshold = 450000000000"

record lpFlags =
  lfExpectationTimeout :: duration
  lfStuckScheduling :: duration
  lfStuckStarting :: duration
  lfObs :: obsOptions
  lfKube :: kubeFlags

definition lpDefaults :: "kubeFlags \<Rightarrow> lpFlags" where
  "lpDefaults kube =
     \<lparr>lfExpectationTimeout = DefaultExpectationTimeout, lfStuckScheduling = DefaultStuckSchedulingThreshold,
      lfStuckStarting = DefaultStuckStartingThreshold, lfObs = DefaultOptions, lfKube = kube\<rparr>"

text \<open>The populator runs in a goroutine; when it cannot be started the process ends as if it had been told to.\<close>

definition lpMain :: "mainWorld \<Rightarrow> lpFlags \<Rightarrow> mainAction list \<times> mainEnd" where
  "lpMain w fl =
     (let ns = Namespace (lfKube fl)
      in if ns = [] then namespaceMissing
         else (case loadConfig w (lfKube fl) of
                 Inl err \<Rightarrow> ([], Fatal err)
               | Inr agent \<Rightarrow>
                   (let constructed = [Clients (userAgent agent popControllerName),
                          ConstructPopulator \<lparr>psNamespace = ns, psExpectationTimeout = lfExpectationTimeout fl,
                            psStuckScheduling = lfStuckScheduling fl, psStuckStarting = lfStuckStarting fl\<rparr>]
                    in (case constructs w of
                          Some err \<Rightarrow> (constructed, Fatal err)
                        | None \<Rightarrow>
                            (constructed @ [StartInformers ns, Observe (obsStart (lfObs fl)), StartController], Ended)))))"

text \<open>\<^verbatim>\<open>NewController\<close> of the populator hands the settings on.\<close>

definition withSettings :: "popSettings \<Rightarrow> popEnv \<Rightarrow> popEnv" where
  "withSettings ps env = env\<lparr>stuckSchedulingThreshold := psStuckScheduling ps, stuckStartingThreshold := psStuckStarting ps\<rparr>"

definition populatorOf :: "popSettings \<Rightarrow> popState" where
  "populatorOf ps = newPopState (psExpectationTimeout ps)"

subsection \<open>The requesters\<close>

text \<open>Both requesters listen for the controller first and for the kubelet's probes second, and then serve both.\<close>

definition serveRequester :: "mainWorld \<Rightarrow> string list \<Rightarrow> string \<Rightarrow> string \<Rightarrow> mainAction list \<times> mainEnd" where
  "serveRequester w uuids spiPort probesPort =
     (case listenErr w spiPort of
        Some _ \<Rightarrow> ([], Exit 10)
      | None \<Rightarrow>
          (case listenErr w probesPort of
             Some _ \<Rightarrow> ([ServeSPI spiPort uuids], Exit 11)
           | None \<Rightarrow> ([ServeSPI spiPort uuids, ServeProbes probesPort], Ended)))"

definition portOr :: "string \<Rightarrow> string \<Rightarrow> string" where
  "portOr v fallback = (if v = [] then fallback else v)"

definition requesterMain :: "mainWorld \<Rightarrow> stubEnv \<Rightarrow> string \<Rightarrow> string \<Rightarrow> mainAction list \<times> mainEnd" where
  "requesterMain w senv probesPortVar spiPortVar =
     serveRequester w (case getGpuUUIDs senv of Inl _ \<Rightarrow> [] | Inr uuids \<Rightarrow> uuids)
       (portOr spiPortVar ''8081'') (portOr probesPortVar ''8080'')"

record trFlags =
  trNodeName :: string
  trPodUID :: string
  trNumGPUs :: nat
  trProbesPort :: int
  trSpiPort :: int
  trKube :: kubeFlags

definition trDefaults :: "kubeFlags \<Rightarrow> trFlags" where
  "trDefaults kube =
     \<lparr>trNodeName = [], trPodUID = [], trNumGPUs = 1, trProbesPort = 8080, trSpiPort = 8081, trKube = kube\<rparr>"

text \<open>
  \<open>envs\<close> are the surroundings that the attempts of \<^verbatim>\<open>allocateGPUs\<close> meet; \<open>unixTime\<close> goes into the name of the agent.
\<close>

definition testRequesterMain :: "mainWorld \<Rightarrow> int \<Rightarrow> allocEnv list \<Rightarrow> trFlags \<Rightarrow> mainAction list \<times> mainEnd" where
  "testRequesterMain w unixTime envs fl =
     (if Namespace (trKube fl) = [] then namespaceMissing
      else if trNodeName fl = [] then ([Stderr ''--node must not be the empty string''], Exit 1)
      else if trPodUID fl = [] then ([Stderr ''--pod-uid must not be the empty string''], Exit 1)
      else (case loadConfig w (trKube fl) of
              Inl err \<Rightarrow> ([], Fatal err)
            | Inr agent \<Rightarrow>
                (let clients = Clients (userAgent agent (''test-requester/'' @ trNodeName fl @ ''/'' @ strconv_Itoa unixTime))
                 in (case allocateGPUs envs (trNodeName fl) (trPodUID fl) (trNumGPUs fl) of
                       Inl code \<Rightarrow> ([clients], Exit code)
                     | Inr gpuUUIDs \<Rightarrow>
                         (let (acts, e) = serveRequester w gpuUUIDs (strconv_Itoa (trSpiPort fl)) (strconv_Itoa (trProbesPort fl))
                          in (clients # acts, e))))))"

subsection \<open>Settings\<close>

lemma constructed_settings:
  "ConstructDualPods config ns \<in> set (fst (dpcMain w fl)) \<Longrightarrow> config = dpcConfig fl \<and> ns = Namespace (dfKube fl) \<and> ns \<noteq> []"
  by (auto simp: dpcMain_def namespaceMissing_def Let_def split: if_splits sum.splits option.splits)

text \<open>
  C39: the limit on sleeping servers decides how much accelerator memory they may hold.  When the entry point constructs
  the controller, it works in the Namespace that was given and with the limit that was given; for every limit from
  \<open>-2^51\<close> up to but not including \<open>2^51\<close> the memory is checked before a wake-up exactly when the check is asked for and the
  limit is less than 524288, and then 4096 MiB are allowed per sleeping server.
\<close>

theorem sleeper_limit_sets_memory_limit:
  assumes "ConstructDualPods config ns \<in> set (fst (dpcMain w fl))"
    and "- (2 ^ 51) \<le> dfSleeperLimit fl" "dfSleeperLimit fl < 2 ^ 51"
  shows "ns = Namespace (dfKube fl) \<and> ns \<noteq> [] \<and> sleeperLimit (withConfig config env) = dfSleeperLimit fl \<and>
    (debugAccelMemory (withConfig config env) \<longleftrightarrow> dfDebugAccelMemory fl \<and> dfSleeperLimit fl < 524288) \<and>
    (debugAccelMemory (withConfig config env) \<longrightarrow> accelMemoryLimitMiB (withConfig config env) = 4096 * dfSleeperLimit fl)"
proof -
  have "wrap64 (dfSleeperLimit fl * 4096) = dfSleeperLimit fl * 4096" using assms(2,3) by (intro wrap64_id) simp_all
  then show ?thesis using constructed_settings [OF assms(1)] by (auto simp: withConfig_def dpcConfig_def MaxInt64_def)
qed

text \<open>
  C40: a negative limit on sleeping servers is accepted by the entry point and by the constructor, and then, unless it
  is \<open>-2^63\<close>, whose negation wraps in 64 bits, the controller panics when it has to make room on a GPU that has no
  sleeping server.
\<close>

theorem negative_sleeper_limit_panics:
  assumes "ConstructDualPods config ns \<in> set (fst (dpcMain w fl))" "dfSleeperLimit fl < 0" "- (2 ^ 63) < dfSleeperLimit fl"
    and "GPUIndices (serverOf st nn uid) = gpu # gpus" "byIndex env GPUIndexFunc (NodeName (Spec r) @ '' '' @ gpu) = []"
  defines "env' \<equiv> withConfig config env"
  shows "enforceSleeperBudget env' st nn uid r (sleeperLimit env') = (st, Some (GoPanic ''slice bounds out of range''), True)"
proof -
  have "sleeperLimit env' = dfSleeperLimit fl"
    using constructed_settings [OF assms(1)] by (simp add: env'_def withConfig_def dpcConfig_def)
  moreover have "byIndex env' GPUIndexFunc k = byIndex env GPUIndexFunc k" for k
    by (simp add: env'_def withConfig_def byIndex_def)
  moreover have "lenMinus 0 (dfSleeperLimit fl) = - dfSleeperLimit fl" using assms(2,3) by (simp add: lenMinus_def wrap64_id)
  ultimately show ?thesis using assms(2-5) by (simp add: enforceSleeperBudget_def budgetLoop.simps sliceCap_def)
qed

text \<open>
  A program that is started without a Namespace does nothing but say so.  A controller that is started has made its
  clients, its state with the settings of the flags, the informers of its Namespace, and only then is started itself.
\<close>

lemma no_namespace:
  "Namespace (dfKube fl) = [] \<Longrightarrow> dpcMain w fl = ([Stderr ''Namespace must not be the empty string''], Exit 1)"
  "Namespace (lfKube lf) = [] \<Longrightarrow> lpMain w lf = ([Stderr ''Namespace must not be the empty string''], Exit 1)"
  by (simp_all add: dpcMain_def lpMain_def namespaceMissing_def)

lemma dpc_starts_last:
  "StartController \<in> set (fst (dpcMain w fl)) \<Longrightarrow> \<exists>agent. fst (dpcMain w fl) =
     [Clients (userAgent agent dpControllerName), ConstructDualPods (dpcConfig fl) (Namespace (dfKube fl)),
      StartInformers (Namespace (dfKube fl)), Observe (obsStart (dfObs fl)), StartController]"
  by (auto simp: dpcMain_def namespaceMissing_def Let_def split: if_splits sum.splits option.splits)

lemma populator_gets_settings:
  assumes "ConstructPopulator ps \<in> set (fst (lpMain w lf))"
  shows "psNamespace ps = Namespace (lfKube lf)" "timeout (expectations (populatorOf ps)) = lfExpectationTimeout lf"
    "stuckSchedulingThreshold (withSettings ps env) = lfStuckScheduling lf" "stuckStartingThreshold (withSettings ps env) = lfStuckStarting lf"
  using assms
  by (auto simp: lpMain_def namespaceMissing_def Let_def populatorOf_def newPopState_def newPendingExpectations_def withSettings_def
      split: if_splits sum.splits option.splits)

subsection \<open>Examples\<close>

definition plainWorld :: mainWorld where
  "plainWorld = \<lparr>loadConfig = (\<lambda>_. Inr []), constructs = None, starts = None, listenErr = (\<lambda>_. None)\<rparr>"

definition plainKube :: kubeFlags where
  "plainKube = \<lparr>ExplicitPath = [], CurrentContext = [], AuthInfo = [], Cluster = [], Namespace = ''ns''\<rparr>"

lemma plain_constructs:
  "Namespace (dfKube fl) = ''ns'' \<Longrightarrow> ConstructDualPods (dpcConfig fl) ''ns'' \<in> set (fst (dpcMain plainWorld fl))"
  by (simp add: dpcMain_def plainWorld_def Let_def)

theorem sleeper_limit_sets_memory_limit_witness:
  "accelMemoryLimitMiB (withConfig (dpcConfig (dpcDefaults plainKube)) (dpExampleEnv [])) = 4096"
proof -
  have "Namespace (dfKube (dpcDefaults plainKube)) = ''ns''" "dfSleeperLimit (dpcDefaults plainKube) = 1"
    "dfDebugAccelMemory (dpcDefaults plainKube)"
    by (simp_all add: dpcDefaults_def plainKube_def)
  with sleeper_limit_sets_memory_limit [OF plain_constructs [of "dpcDefaults plainKube"], of "dpExampleEnv []"]
  show ?thesis by simp
qed

definition gpuState :: dpState where
  "gpuState = modServer ''n1'' ''u1'' (\<lambda>sd. sd\<lparr>GPUIndices := [''0'']\<rparr>) newDualPodsState"

theorem negative_sleeper_limit_panics_witness:
  "enforceSleeperBudget (withConfig (dpcConfig ((dpcDefaults plainKube)\<lparr>dfSleeperLimit := -1\<rparr>)) (dpExampleEnv [])) gpuState ''n1'' ''u1''
     directRequester (-1) = (gpuState, Some (GoPanic ''slice bounds out of range''), True)"
proof -
  let ?fl = "(dpcDefaults plainKube)\<lparr>dfSleeperLimit := -1\<rparr>"
  have "Namespace (dfKube ?fl) = ''ns''" "dfSleeperLimit ?fl < 0" "- (2 ^ 63) < dfSleeperLimit ?fl" "GPUIndices (serverOf gpuState ''n1'' ''u1'') = [''0'']"
    "byIndex (dpExampleEnv []) GPUIndexFunc k = []" "sleeperLimit (withConfig (dpcConfig ?fl) (dpExampleEnv [])) = -1" for k
    by (simp_all add: dpcDefaults_def plainKube_def gpuState_def byIndex_def dpExampleEnv_def withConfig_def dpcConfig_def)
  with negative_sleeper_limit_panics [OF plain_constructs [of ?fl], of gpuState "''n1''" "''u1''" "''0''" "[]" "dpExampleEnv []" directRequester]
  show ?thesis by simp
qed

end
