(* ===== verification/Test_Server.thy ===== *)
theory Test_Server
  imports Requester_Stub
begin

text \<open>
  The server that stands in for an inference server in tests, \<^verbatim>\<open>cmd/test-server/main.go\<close>: it reports health
  after a delay, and can be put to sleep and woken up through the HTTP interface that the dual-pods
  controller uses.  The state of the server is whether it sleeps.
\<close>

subsection \<open>Handlers\<close>

text \<open>
  What the server is started with and calls: when it started, the delay in seconds, the clock, the format
  of times and the JSON encoder.
\<close>

record testEnv =
  startTime :: time
  startupDelaySecs :: int
  testNow :: time
  formatRFC3339 :: "time \<Rightarrow> string"
  encodeSleepState :: "bool \<Rightarrow> string + string"

definition healthyTime :: "testEnv \<Rightarrow> time" where
  "healthyTime env = startTime env + wrap64 (startupDelaySecs env * 1000000000)"

definition healthHandler :: "testEnv \<Rightarrow> response" where
  "healthHandler env =
     (if testNow env > healthyTime env then (200, ''OK'' @ newline)
      else (503, ''Service Unavailable until '' @ formatRFC3339 env (healthyTime env) @ newline))"

text \<open>A Boolean can always be marshalled; the text of the error for that case leaves out the rendering of the state.\<close>

definition isSleepingHandler :: "testEnv \<Rightarrow> bool \<Rightarrow> response" where
  "isSleepingHandler env sleeping =
     (case encodeSleepState env sleeping of
        Inl err \<Rightarrow> (500, ''Failed to marshal state: '' @ err)
      | Inr ssBytes \<Rightarrow> (200, ssBytes))"

definition setSleeping :: "bool \<Rightarrow> bool \<Rightarrow> bool \<times> response" where
  "setSleeping value sleeping = (value, (200, []))"

definition testServe :: "testEnv \<Rightarrow> stubRequest \<Rightarrow> bool \<Rightarrow> bool \<times> response" where
  "testServe env r sleeping =
     (if route ''GET'' ''/health'' r then (sleeping, healthHandler env)
      else if route ''GET'' ''/is_sleeping'' r then (sleeping, isSleepingHandler env sleeping)
      else if route ''POST'' ''/sleep'' r then setSleeping True sleeping
      else if route ''POST'' ''/wake_up'' r then setSleeping False sleeping
      else if rqPath r \<in> {''/health'', ''/is_sleeping'', ''/sleep'', ''/wake_up''} then (sleeping, (405, ''Method Not Allowed'' @ newline))
      else (sleeping, (404, ''404 page not found'' @ newline)))"

subsection \<open>The controller and the server\<close>

abbreviation sleepsAfter :: "testEnv \<Rightarrow> string \<Rightarrow> bool \<Rightarrow> dpState \<Rightarrow> bool" where
  "sleepsAfter tenv base s0 st \<equiv> peerAfter (testServe tenv) base (dcalls st) s0"

lemma testServe_controls [simp]:
  "testServe tenv \<lparr>rqMethod = ''POST'', rqPath = ''/wake_up'', rqStartPos = [], rqBody = Inr []\<rparr> s = (False, 200, [])"
  "testServe tenv \<lparr>rqMethod = ''POST'', rqPath = ''/sleep'', rqStartPos = [], rqBody = Inr []\<rparr> s = (True, 200, [])"
  "testServe tenv \<lparr>rqMethod = ''GET'', rqPath = ''/is_sleeping'', rqStartPos = [], rqBody = Inr []\<rparr> s = (s, isSleepingHandler tenv s)"
  by (simp_all add: testServe_def route_def setSleeping_def)

lemma test_reports:
  assumes "answers env (testServe tenv) (serverURL p port) s0" "urlParse env (serverURL p port @ ''/is_sleeping'') = None"
    and "encodeSleepState tenv (sleepsAfter tenv (serverURL p port) s0 st) = Inr json"
    and "decodeSleepState env json = Inr (sleepsAfter tenv (serverURL p port) s0 st)"
  shows "\<exists>st1. querySleeping env st p port = (st1, Inr (sleepsAfter tenv (serverURL p port) s0 st)) \<and>
    sleepsAfter tenv (serverURL p port) s0 st1 = sleepsAfter tenv (serverURL p port) s0 st"
  using peer_doHTTP [OF assms(1,2), where verb = "''GET''" and code = 200 and body = json and st = st
      and purpose = "''query_sleeping''" and decode = "decodeSleepState env"] assms(3,4)
  by (fastforce simp: querySleeping_def isSleepingHandler_def)

lemma test_posts:
  assumes "answers env (testServe tenv) base s0" "urlParse env (base @ path) = None"
    and "(path, s') \<in> {(''/sleep'', True), (''/wake_up'', False)}"
  shows "\<exists>st1. doHTTP env st purpose ''POST'' (base @ path) None (\<lambda>_. Inr ()) = (st1, 200, Inr ()) \<and>
    sleepsAfter tenv base s0 st1 = s' \<and> nodeNameToData st1 = nodeNameToData st"
  using peer_doHTTP [OF assms(1,2), where verb = "''POST''" and code = 200 and body = "[]" and st = st and s' = s'
      and purpose = purpose and decode = "\<lambda>_. Inr ()"] assms(3) by auto

lemma test_wakes:
  assumes "answers env (testServe tenv) (serverURL p port) s0" "urlParse env (serverURL p port @ ''/wake_up'') = None"
    and "wakeUp env st nn uid r p port = (st2, None)"
  shows "\<not> sleepsAfter tenv (serverURL p port) s0 st2 \<and> Sleeping (serverOf st2 nn uid) = Some False"
proof -
  obtain st1 st' n where post: "doHTTP env st1 ''wake'' ''POST'' (serverURL p port @ ''/wake_up'') None (\<lambda>_. Inr ()) = (st', n, Inr ())"
    and st2: "st2 = modServer nn uid (\<lambda>sd. sd\<lparr>Sleeping := Some False\<rparr>) st'"
    using assms(3) by (force simp: wakeUp_def split: prod.splits option.splits if_splits sum.splits)
  from test_posts [OF assms(1,2), of False st1 "''wake''"] post have "\<not> sleepsAfter tenv (serverURL p port) s0 st'" by auto
  then show ?thesis by (simp add: st2 peerAfter_def)
qed

subsection \<open>Properties\<close>

text \<open>
  The controller and the server agree on who sleeps.  When the requests of the controller to a direct
  provider are answered by the server, then asking whether it sleeps gives the state of the server and leaves it as it is;
  putting it to sleep succeeds and leaves it sleeping; a successful wake-up leaves it awake; and after both the
  controller's record says the same as the server.
\<close>

theorem test_server_obeys:
  assumes "answers env (testServe tenv) (serverURL p port) s0" "\<forall>url. urlParse env url = None"
    and "\<forall>b. \<exists>json. encodeSleepState tenv b = Inr json \<and> decodeSleepState env json = Inr b"
  shows "(\<exists>st1. querySleeping env st p port = (st1, Inr (sleepsAfter tenv (serverURL p port) s0 st)) \<and>
      sleepsAfter tenv (serverURL p port) s0 st1 = sleepsAfter tenv (serverURL p port) s0 st) \<and>
    (NominalProvidingPod (serverOf st nn uid) \<noteq> None \<and> ServerPort (serverOf st nn uid) = port \<longrightarrow>
      (\<exists>st1. putToSleep env st nn uid p False = (st1, None) \<and>
        sleepsAfter tenv (serverURL p port) s0 st1 \<and> Sleeping (serverOf st1 nn uid) = Some True)) \<and>
    (wakeUp env st nn uid r p port = (st2, None) \<longrightarrow>
      \<not> sleepsAfter tenv (serverURL p port) s0 st2 \<and> Sleeping (serverOf st2 nn uid) = Some False)"
proof (intro conjI impI)
  obtain json where "encodeSleepState tenv (sleepsAfter tenv (serverURL p port) s0 st) = Inr json"
    "decodeSleepState env json = Inr (sleepsAfter tenv (serverURL p port) s0 st)"
    using assms(3) by blast
  with test_reports [OF assms(1)] assms(2)
  show "\<exists>st1. querySleeping env st p port = (st1, Inr (sleepsAfter tenv (serverURL p port) s0 st)) \<and>
      sleepsAfter tenv (serverURL p port) s0 st1 = sleepsAfter tenv (serverURL p port) s0 st" by blast
next
  assume port: "NominalProvidingPod (serverOf st nn uid) \<noteq> None \<and> ServerPort (serverOf st nn uid) = port"
  obtain st1 where "doHTTP env st ''sleep'' ''POST'' (serverURL p port @ ''/sleep'') None (\<lambda>_. Inr ()) = (st1, 200, Inr ())"
    "sleepsAfter tenv (serverURL p port) s0 st1"
    using test_posts [OF assms(1), of "''/sleep''" True st "''sleep''"] assms(2) by auto
  with port show "\<exists>st1. putToSleep env st nn uid p False = (st1, None) \<and>
      sleepsAfter tenv (serverURL p port) s0 st1 \<and> Sleeping (serverOf st1 nn uid) = Some True"
    by (auto simp: putToSleep_def peerAfter_def)
next
  assume "wakeUp env st nn uid r p port = (st2, None)"
  with test_wakes [OF assms(1)] assms(2)
  show "\<not> sleepsAfter tenv (serverURL p port) s0 st2" "Sleeping (serverOf st2 nn uid) = Some False" by blast+
qed

text \<open>A server that has just been started, and a controller that talks to it.\<close>

definition testExampleEnv :: testEnv where
  "testExampleEnv = \<lparr>startTime = 0, startupDelaySecs = 47, testNow = 1, formatRFC3339 = (\<lambda>_. ''later''),
     encodeSleepState = (\<lambda>b. Inr (if b then ''true'' else ''false''))\<rparr>"

definition testingEnv :: dpEnv where
  "testingEnv = (dpExampleEnv [directProvider])\<lparr>
     httpDo := (\<lambda>h req. case stubRequestOf (serverURL directProvider 8000) req of
         Some r \<Rightarrow> Inr (snd (testServe testExampleEnv r (peerAfter (testServe testExampleEnv) (serverURL directProvider 8000) h False)))
       | None \<Rightarrow> Inl ''refused''),
     decodeSleepState := (\<lambda>s. Inr (s = ''true''))\<rparr>"

theorem test_server_obeys_witness:
  "\<exists>st1. querySleeping testingEnv dpExampleState directProvider 8000 = (st1, Inr False)"
proof -
  have "peerAfter (testServe testExampleEnv) (serverURL directProvider 8000) (dcalls dpExampleState) False = False"
    by (simp add: peerAfter_def dpExampleState_def)
  moreover have "answers testingEnv (testServe testExampleEnv) (serverURL directProvider 8000) False"
    "\<forall>url. urlParse testingEnv url = None"
    "\<forall>b. \<exists>json. encodeSleepState testExampleEnv b = Inr json \<and> decodeSleepState testingEnv json = Inr b"
    by (simp_all add: answers_def testingEnv_def testExampleEnv_def dpExampleEnv_def)
  ultimately show ?thesis using test_server_obeys [of testingEnv testExampleEnv directProvider 8000 False dpExampleState] by (simp, blast)
qed

end
