(* ===== verification/Serving.thy ===== *)
theory Serving
  imports Histories "HOL-Library.Sublist"
begin

text \<open>
  Progress of the dual-pods controller: in a world that obliges, a requester with a server patch gets its
  server-providing Pod, and once that Pod is ready its server is awake and the requester is told so.
\<close>

subsection \<open>A world that obliges\<close>

text \<open>
  HTTP calls succeed, an inference server says whether it sleeps, updates and creations are accepted, and
  an update of a Pod leaves its status alone.
\<close>

definition obliging :: "dpEnv \<Rightarrow> bool" where
  "obliging env \<longleftrightarrow> (\<forall>url. urlParse env url = None) \<and>
     (\<forall>h req. \<exists>code body. httpDo env h req = Inr (code, body) \<and> 200 \<le> code \<and> code < 300 \<and>
        (hrPurpose req = ''query_sleeping'' \<longrightarrow> (\<exists>b. decodeSleepState env body = Inr b))) \<and>
     (\<forall>h p. \<exists>q. podUpdateD env h p = Inr q \<and> Status q = Status p) \<and> (\<forall>h p. \<exists>q. podCreateD env h p = Inr q)"

text \<open>
  What the calls of a run show.  An HTTP request was answered with success; the server at a port of a Pod is awake,
  because the controller knew it, or the server said so, or it accepted to wake up; a readiness is relayed, because the
  controller had done so, or the requester has it, or its stub accepted it; the Pod has a sleeping label that says
  \<^verbatim>\<open>false\<close>, and, of a launcher, the labels and annotations that route to its instance.
\<close>

definition acceptedHTTP :: "string \<Rightarrow> string \<Rightarrow> dpCall list \<Rightarrow> bool" where
  "acceptedHTTP verb url cs \<longleftrightarrow> (\<exists>req code body. Http req (Inr (code, body)) \<in> set cs \<and> hrMethod req = verb \<and> hrURL req = url \<and>
     200 \<le> code \<and> code < 300)"

definition awakeAfter :: "dpEnv \<Rightarrow> pod \<Rightarrow> int \<Rightarrow> bool option \<Rightarrow> dpCall list \<Rightarrow> bool" where
  "awakeAfter env p port known cs \<longleftrightarrow> known = Some False \<or>
     (\<exists>req code body. Http req (Inr (code, body)) \<in> set cs \<and> hrMethod req = ''GET'' \<and> hrURL req = serverURL p port @ ''/is_sleeping'' \<and>
        decodeSleepState env body = Inr False) \<or>
     acceptedHTTP ''POST'' (serverURL p port @ ''/wake_up'') cs"

definition relayedBy :: "pod \<Rightarrow> bool \<Rightarrow> bool option \<Rightarrow> dpCall list \<Rightarrow> bool" where
  "relayedBy r ready known cs \<longleftrightarrow> known = Some ready \<or>
     ready = (case getContainerStatus r InferenceServerContainerName of None \<Rightarrow> False | Some cst \<Rightarrow> csReady cst) \<or>
     acceptedHTTP ''POST'' (''http://'' @ PodIP (Status r) @ '':'' @ adminPortOf r @ (if ready then BecomeReadyPath else BecomeUnreadyPath)) cs"

definition labelledAwake :: "pod \<Rightarrow> dpCall list \<Rightarrow> bool" where
  "labelledAwake p cs \<longleftrightarrow> lbl p SleepingLabelName = ''false'' \<or>
     (\<exists>echo. UpdatePod (p\<lparr>Labels := MapSet (Labels p) SleepingLabelName ''false''\<rparr>) (Inr echo) \<in> set cs)"

definition routedAwake :: "pod \<Rightarrow> (string, string) gomap \<Rightarrow> (string, string) gomap \<Rightarrow> dpCall list \<Rightarrow> bool" where
  "routedAwake p ls as cs \<longleftrightarrow> (\<exists>q echo. UpdatePod q (Inr echo) \<in> set cs \<and> Name q = Name p \<and> Labels q SleepingLabelName = Some ''false'' \<and>
     (\<forall>k \<in> fst ` set ls. \<exists>v. (k, v) \<in> set ls \<and> Labels q k = Some v) \<and>
     (\<forall>k \<in> fst ` set as. \<exists>v. (k, v) \<in> set as \<and> Annotations q k = Some v))"

lemma shown_more:
  "acceptedHTTP verb url cs \<Longrightarrow> set cs \<subseteq> set ds \<Longrightarrow> acceptedHTTP verb url ds"
  "awakeAfter env p port known cs \<Longrightarrow> set cs \<subseteq> set ds \<Longrightarrow> awakeAfter env p port known ds"
  "relayedBy r ready known' cs \<Longrightarrow> set cs \<subseteq> set ds \<Longrightarrow> relayedBy r ready known' ds"
  "labelledAwake p cs \<Longrightarrow> set cs \<subseteq> set ds \<Longrightarrow> labelledAwake p ds"
  "routedAwake p ls as cs \<Longrightarrow> set cs \<subseteq> set ds \<Longrightarrow> routedAwake p ls as ds"
  unfolding awakeAfter_def relayedBy_def acceptedHTTP_def labelledAwake_def routedAwake_def by blast+

lemma obliged_post:
  assumes "obliging env"
  shows "\<exists>st1 n cs. doHTTP env st pu verb url None (\<lambda>_. Inr ()) = (st1, n, Inr ()) \<and> nodeNameToData st1 = nodeNameToData st \<and>
    dcalls st1 = dcalls st @ cs \<and> acceptedHTTP verb url cs"
proof -
  let ?req = "\<lparr>hrPurpose = pu, hrMethod = verb, hrURL = url, hrBody = None\<rparr>"
  obtain code body where call: "httpDo env (dcalls st) ?req = Inr (code, body)"
    "200 \<le> code" "code < 300" using assms unfolding obliging_def by metis
  then have "acceptedHTTP verb url [Http ?req (Inr (code, body))]" unfolding acceptedHTTP_def by (intro exI [of _ ?req]) auto
  with call assms show ?thesis by (simp add: doHTTP_def obliging_def Let_def)
qed

lemma obliged_query:
  assumes "obliging env"
  shows "\<exists>st1 b cs. querySleeping env st p port = (st1, Inr b) \<and> nodeNameToData st1 = nodeNameToData st \<and> dcalls st1 = dcalls st @ cs \<and>
    (\<not> b \<longrightarrow> awakeAfter env p port None cs)"
proof -
  let ?req = "\<lparr>hrPurpose = ''query_sleeping'', hrMethod = ''GET'', hrURL = serverURL p port @ ''/is_sleeping'', hrBody = None\<rparr>"
  obtain code body b where call: "httpDo env (dcalls st) ?req = Inr (code, body)" "200 \<le> code" "code < 300" "decodeSleepState env body = Inr b"
    using assms unfolding obliging_def by (metis httpRequest.select_convs(1))
  then have "\<not> b \<longrightarrow> awakeAfter env p port None [Http ?req (Inr (code, body))]" unfolding awakeAfter_def by auto
  with call assms show ?thesis by (simp add: querySleeping_def doHTTP_def obliging_def Let_def)
qed

lemma obliged_update:
  assumes "obliging env"
  shows "\<exists>st1 q. updatePod env st p = (st1, Inr q) \<and> Status q = Status p \<and> nodeNameToData st1 = nodeNameToData st \<and>
    prefix (dcalls st) (dcalls st1)"
proof -
  obtain q where "podUpdateD env (dcalls st) p = Inr q" "Status q = Status p" using assms unfolding obliging_def by blast
  then show ?thesis by (simp add: updatePod_def Let_def)
qed

lemma serverOf_same: "nodeNameToData st1 = nodeNameToData st \<Longrightarrow> serverOf st1 nn uid = serverOf st nn uid"
  by (simp add: serverOf_def nodeOf_def)

lemma obliged_report:
  assumes "obliging env"
  shows "\<exists>st1. ensureReqState env st nn uid r addF removeF errors = (st1, prDone) \<and> nodeNameToData st1 = nodeNameToData st \<and>
    prefix (dcalls st) (dcalls st1)"
proof -
  have "\<exists>st1. (case updatePod env st p of (st1, Inl err) \<Rightarrow> (st1, prRetryErr (ApiErr err)) | (st1, Inr _) \<Rightarrow> (st1, prDone)) = (st1, prDone) \<and>
      nodeNameToData st1 = nodeNameToData st \<and> prefix (dcalls st) (dcalls st1)" for p
    using obliged_update [OF assms, of st p] by auto
  then show ?thesis unfolding ensureReqState_def Let_def by auto
qed

lemma obliged_label:
  assumes "obliging env"
  shows "\<exists>st1 q cs. ensureSleepingLabel env st p False = (st1, Inr q) \<and> Status q = Status p \<and> nodeNameToData st1 = nodeNameToData st \<and>
    dcalls st1 = dcalls st @ cs \<and> labelledAwake p cs"
proof (cases "lbl p SleepingLabelName = ''false''")
  case True
  then show ?thesis by (simp add: ensureSleepingLabel_def labelledAwake_def strconv_FormatBool_def)
next
  case False
  let ?p = "p\<lparr>Labels := MapSet (Labels p) SleepingLabelName ''false''\<rparr>"
  obtain q where "podUpdateD env (dcalls st) ?p = Inr q" "Status q = Status p" using assms unfolding obliging_def by fastforce
  with False show ?thesis by (simp add: ensureSleepingLabel_def labelledAwake_def strconv_FormatBool_def updatePod_def Let_def)
qed

text \<open>What the server data say of the instance and its labels, and of the readiness that was relayed.\<close>

definition instanceBits :: "serverData \<Rightarrow> bool \<times> (string, string) gomap \<times> (string, string) gomap \<times> bool \<times> bool option" where
  "instanceBits sd = (LabelsApplied sd, InstanceISCLabels sd, InstanceISCAnnotations sd, InstanceKnownToExist sd, ReadinessRelayed sd)"

text \<open>The labels that a bound launcher asks for can be applied to its Pod, or have been.\<close>

definition labelsFit :: "dpEnv \<Rightarrow> serverData \<Rightarrow> pod \<Rightarrow> bool" where
  "labelsFit env sd p \<longleftrightarrow> LabelsApplied sd \<or>
     validateISCRoutingMetadata env (p\<lparr>Labels := MapSet (Labels p) SleepingLabelName ''false''\<rparr>) (InstanceISCLabels sd) (InstanceISCAnnotations sd) = []"

lemma labelsFit_bits: "instanceBits sd = instanceBits sd' \<Longrightarrow> labelsFit env sd p = labelsFit env sd' p"
  by (simp add: instanceBits_def labelsFit_def)

lemma setAll_some: "k \<in> fst ` set kvs \<Longrightarrow> \<exists>v. (k, v) \<in> set kvs \<and> setAll kvs m k = Some v"
proof (induction kvs arbitrary: m)
  case (Cons kv kvs)
  obtain j v where kv: "kv = (j, v)" by (cases kv)
  have step: "setAll (kv # kvs) m = setAll kvs (m(j \<mapsto> v))" by (simp add: setAll_def MapSet_def kv)
  show ?case
  proof (cases "k \<in> fst ` set kvs")
    case True
    from Cons.IH [OF this, of "m(j \<mapsto> v)"] show ?thesis unfolding step by (meson list.set_intros(2))
  next
    case False
    with Cons.prems kv show ?thesis unfolding step using setAll_none [OF False, of "m(j \<mapsto> v)"] by auto
  qed
qed simp

lemma obliged_launcher_labels:
  assumes "obliging env" "Sleeping (serverOf st nn uid) = Some False" "labelsFit env (serverOf st nn uid) p"
  shows "\<exists>st1 q cs. applyBoundLauncherLabels env st nn uid r p = (st1, GoOn q) \<and> Sleeping (serverOf st1 nn uid) = Some False \<and>
    LabelsApplied (serverOf st1 nn uid) \<and> InstanceKnownToExist (serverOf st1 nn uid) = InstanceKnownToExist (serverOf st nn uid) \<and>
    ReadinessRelayed (serverOf st1 nn uid) = ReadinessRelayed (serverOf st nn uid) \<and> dcalls st1 = dcalls st @ cs \<and>
    (LabelsApplied (serverOf st nn uid) \<or> routedAwake p (InstanceISCLabels (serverOf st nn uid)) (InstanceISCAnnotations (serverOf st nn uid)) cs)"
proof -
  let ?p = "p\<lparr>Labels := MapSet (Labels p) SleepingLabelName ''false''\<rparr>" and ?sd = "serverOf st nn uid"
  let ?ls = "InstanceISCLabels ?sd" and ?as = "InstanceISCAnnotations ?sd"
  obtain p' where p': "(if \<not> LabelsApplied ?sd then applyISCRoutingMetadataToLauncherPod env ?p ?ls ?as else Inr ?p) = Inr p'"
    using assms(3) by (cases "LabelsApplied ?sd") (auto simp: labelsFit_def applyISCRoutingMetadataToLauncherPod_def)
  obtain q where q: "podUpdateD env (dcalls st) p' = Inr q" using assms(1) unfolding obliging_def by blast
  then have upd: "updatePod env st p' = (st\<lparr>dcalls := dcalls st @ [UpdatePod p' (Inr q)]\<rparr>, Inr q)" by (simp add: updatePod_def Let_def)
  have routed: "routedAwake p ?ls ?as [UpdatePod p' (Inr q)]" if "\<not> LabelsApplied ?sd"
  proof -
    from that p' have applied: "applyISCRoutingMetadataToLauncherPod env ?p ?ls ?as = Inr p'" by simp
    then have "p' = ?p\<lparr>Labels := setAll ?ls (Labels ?p), Annotations := setAll ?as (Annotations ?p)\<rparr>" by (rule routed_pod(1))
    moreover have "Labels p' SleepingLabelName = Some ''false''"
      using routing_keeps_reserved(2) [OF applied, of SleepingLabelName] reserved_keys by (simp add: MapSet_def)
    ultimately show ?thesis unfolding routedAwake_def
      by (intro exI [of _ p'] exI [of _ q]) (auto intro!: setAll_some)
  qed
  from p' routed show ?thesis
    by (cases "LabelsApplied ?sd \<and> lbl p SleepingLabelName = ''false''")
      (auto simp add: applyBoundLauncherLabels_def assms(2) strconv_FormatBool_def Let_def upd simp del: if_split)
qed

lemma obliged_relay:
  assumes "obliging env"
  shows "\<exists>st1 cs. relayReadiness env st nn uid r ready = (st1, prDone) \<and> ReadinessRelayed (serverOf st1 nn uid) = Some ready \<and>
    Sleeping (serverOf st1 nn uid) = Sleeping (serverOf st nn uid) \<and> LabelsApplied (serverOf st1 nn uid) = LabelsApplied (serverOf st nn uid) \<and>
    InstanceKnownToExist (serverOf st1 nn uid) = InstanceKnownToExist (serverOf st nn uid) \<and> dcalls st1 = dcalls st @ cs \<and>
    relayedBy r ready (ReadinessRelayed (serverOf st nn uid)) cs"
proof -
  obtain st1 n cs where post: "doHTTP env st (''relay_'' @ (if ready then ''ready'' else ''unready'')) ''POST''
      (''http://'' @ PodIP (Status r) @ '':'' @ adminPortOf r @ (if ready then BecomeReadyPath else BecomeUnreadyPath)) None (\<lambda>_. Inr ()) = (st1, n, Inr ())"
    "nodeNameToData st1 = nodeNameToData st" "dcalls st1 = dcalls st @ cs"
    "acceptedHTTP ''POST'' (''http://'' @ PodIP (Status r) @ '':'' @ adminPortOf r @ (if ready then BecomeReadyPath else BecomeUnreadyPath)) cs"
    using obliged_post [OF assms] by blast
  from serverOf_same [OF post(2)] have "serverOf st1 nn uid = serverOf st nn uid" .
  then show ?thesis unfolding relayReadiness_def Let_def post(1) relayedBy_def using post(3,4) by auto
qed

lemma accelMemory_same: "serverOf (fst (accelMemoryIsLowEnough env st nn uid r)) m v = serverOf st m v"
  by (auto simp: accelMemoryIsLowEnough_def doHTTP_def Let_def split: option.splits sum.splits prod.splits if_splits)

lemma accelMemory_grows: "\<exists>cs. dcalls (fst (accelMemoryIsLowEnough env st nn uid r)) = dcalls st @ cs"
  by (auto simp: accelMemoryIsLowEnough_def doHTTP_def Let_def split: option.splits sum.splits prod.splits if_splits)

lemma obliged_wake:
  assumes "obliging env" "debugAccelMemory env \<longrightarrow> (\<forall>s. snd (accelMemoryIsLowEnough env s nn uid r) = None)"
  shows "\<exists>st1 cs. wakeUp env st nn uid r p port = (st1, None) \<and> Sleeping (serverOf st1 nn uid) = Some False \<and>
    instanceBits (serverOf st1 nn uid) = instanceBits (serverOf st nn uid) \<and> dcalls st1 = dcalls st @ cs \<and>
    acceptedHTTP ''POST'' (serverURL p port @ ''/wake_up'') cs"
proof -
  obtain st0 where st0: "(if debugAccelMemory env then accelMemoryIsLowEnough env st nn uid r else (st, None)) = (st0, None)"
    using assms(2) by (metis prod.collapse)
  then have same: "serverOf st0 nn uid = serverOf st nn uid" using accelMemory_same [of env st nn uid r nn uid] by (auto split: if_splits)
  obtain cs0 where cs0: "dcalls st0 = dcalls st @ cs0"
    using st0 accelMemory_grows [of env st nn uid r] by (auto split: if_splits)
  obtain st1 n cs where post: "doHTTP env st0 ''wake'' ''POST'' (serverURL p port @ ''/wake_up'') None (\<lambda>_. Inr ()) = (st1, n, Inr ())"
    "nodeNameToData st1 = nodeNameToData st0" "dcalls st1 = dcalls st0 @ cs" "acceptedHTTP ''POST'' (serverURL p port @ ''/wake_up'') cs"
    using obliged_post [OF assms(1)] by blast
  have "acceptedHTTP ''POST'' (serverURL p port @ ''/wake_up'') (cs0 @ cs)" using post(4) by (rule shown_more) simp
  then show ?thesis unfolding wakeUp_def st0 using post(3) cs0 by (simp add: post(1) serverOf_same [OF post(2)] same instanceBits_def)
qed

text \<open>Serving a bound provider.\<close>

lemma obliged_awake:
  assumes "obliging env" "debugAccelMemory env \<longrightarrow> (\<forall>s. snd (accelMemoryIsLowEnough env s nn uid r) = None)"
  obtains st1 sleeping st2 cs where "(case Sleeping (serverOf st nn uid) of Some sleeping \<Rightarrow> (st, Inr sleeping)
      | None \<Rightarrow> (case querySleeping env st p port of (st1, Inl err) \<Rightarrow> (st1, Inl err)
         | (st1, Inr sleeping) \<Rightarrow> (modServer nn uid (\<lambda>sd. sd\<lparr>Sleeping := Some sleeping\<rparr>) st1, Inr sleeping))) = (st1, Inr sleeping)"
    "(if sleeping then wakeUp env st1 nn uid r p port else (st1, None)) = (st2, None)"
    "Sleeping (serverOf st2 nn uid) = Some False" "instanceBits (serverOf st2 nn uid) = instanceBits (serverOf st nn uid)"
    "dcalls st2 = dcalls st @ cs" "awakeAfter env p port (Sleeping (serverOf st nn uid)) cs"
proof -
  let ?bits = "instanceBits (serverOf st nn uid)" and ?known = "Sleeping (serverOf st nn uid)"
  obtain st1 sleeping cs1 where query: "(case ?known of Some sleeping \<Rightarrow> (st, Inr sleeping)
      | None \<Rightarrow> (case querySleeping env st p port of (st1, Inl err) \<Rightarrow> (st1, Inl err)
         | (st1, Inr sleeping) \<Rightarrow> (modServer nn uid (\<lambda>sd. sd\<lparr>Sleeping := Some sleeping\<rparr>) st1, Inr sleeping))) = (st1, Inr sleeping)"
    "Sleeping (serverOf st1 nn uid) = Some sleeping" "instanceBits (serverOf st1 nn uid) = ?bits" "dcalls st1 = dcalls st @ cs1"
    "\<not> sleeping \<longrightarrow> awakeAfter env p port ?known cs1"
  proof (cases ?known)
    case None
    obtain st1 b cs1 where "querySleeping env st p port = (st1, Inr b)" "serverOf st1 nn uid = serverOf st nn uid" "dcalls st1 = dcalls st @ cs1"
      "\<not> b \<longrightarrow> awakeAfter env p port None cs1" using obliged_query [OF assms(1)] serverOf_same by blast
    with None that [of "modServer nn uid (\<lambda>sd. sd\<lparr>Sleeping := Some b\<rparr>) st1" b cs1] show thesis by (simp add: instanceBits_def)
  next
    case (Some b)
    with that [of st b "[]"] show thesis by (simp add: awakeAfter_def)
  qed
  show thesis
  proof (cases sleeping)
    case True
    obtain st2 cs2 where wake: "wakeUp env st1 nn uid r p port = (st2, None)" "Sleeping (serverOf st2 nn uid) = Some False"
      "instanceBits (serverOf st2 nn uid) = ?bits" "dcalls st2 = dcalls st1 @ cs2" "acceptedHTTP ''POST'' (serverURL p port @ ''/wake_up'') cs2"
      using obliged_wake [OF assms, of st1 p port] query(3) by auto
    have "awakeAfter env p port ?known (cs1 @ cs2)" using shown_more(1) [OF wake(5), of "cs1 @ cs2"] by (simp add: awakeAfter_def)
    with that [OF query(1), of st2 "cs1 @ cs2"] True wake query(4) show thesis by simp
  next
    case False
    with that [OF query(1), of st1 cs1] query show thesis by simp
  qed
qed

lemma obliged_serve:
  assumes "obliging env" "debugAccelMemory env \<longrightarrow> (\<forall>s. snd (accelMemoryIsLowEnough env s nn uid r) = None)"
    and "lb \<longrightarrow> labelsFit env (serverOf st nn uid) p"
  shows "\<exists>st1 cs. serveBound env st nn uid r p lb port addF = (st1, prDone) \<and> dcalls st1 = dcalls st @ cs \<and>
    awakeAfter env p port (Sleeping (serverOf st nn uid)) cs \<and> relayedBy r (lb \<or> IsPodReady p) (ReadinessRelayed (serverOf st nn uid)) cs \<and>
    (if lb then LabelsApplied (serverOf st nn uid) \<or> routedAwake p (InstanceISCLabels (serverOf st nn uid)) (InstanceISCAnnotations (serverOf st nn uid)) cs
     else labelledAwake p cs) \<and>
    Sleeping (serverOf st1 nn uid) = Some False \<and> ReadinessRelayed (serverOf st1 nn uid) = Some (lb \<or> IsPodReady p) \<and>
    (lb \<longrightarrow> LabelsApplied (serverOf st1 nn uid)) \<and> InstanceKnownToExist (serverOf st1 nn uid) = InstanceKnownToExist (serverOf st nn uid)"
proof -
  let ?sd = "serverOf st nn uid"
  obtain st1 sleeping st2 cs2 where query: "(case Sleeping ?sd of Some sleeping \<Rightarrow> (st, Inr sleeping)
      | None \<Rightarrow> (case querySleeping env st p port of (st1, Inl err) \<Rightarrow> (st1, Inl err)
         | (st1, Inr sleeping) \<Rightarrow> (modServer nn uid (\<lambda>sd. sd\<lparr>Sleeping := Some sleeping\<rparr>) st1, Inr sleeping))) = (st1, Inr sleeping)"
    and wake: "(if sleeping then wakeUp env st1 nn uid r p port else (st1, None)) = (st2, None)"
      "Sleeping (serverOf st2 nn uid) = Some False" "instanceBits (serverOf st2 nn uid) = instanceBits ?sd"
    and cs2: "dcalls st2 = dcalls st @ cs2" "awakeAfter env p port (Sleeping ?sd) cs2"
    using obliged_awake [OF assms(1,2)] by blast
  obtain st3 q cs3 where label: "(if lb then applyBoundLauncherLabels env st2 nn uid r p
      else (case ensureSleepingLabel env st2 p (Sleeping (serverOf st2 nn uid) = Some True) of
              (st3, Inl err) \<Rightarrow> (st3, StopErr err) | (st3, Inr q) \<Rightarrow> (st3, GoOn q))) = (st3, GoOn q)"
    "Sleeping (serverOf st3 nn uid) = Some False" "lb \<or> Status q = Status p" "lb \<longrightarrow> LabelsApplied (serverOf st3 nn uid)"
    "InstanceKnownToExist (serverOf st3 nn uid) = InstanceKnownToExist ?sd" "ReadinessRelayed (serverOf st3 nn uid) = ReadinessRelayed ?sd"
    "dcalls st3 = dcalls st2 @ cs3"
    "if lb then LabelsApplied ?sd \<or> routedAwake p (InstanceISCLabels ?sd) (InstanceISCAnnotations ?sd) cs3 else labelledAwake p cs3"
  proof (cases lb)
    case True
    have "labelsFit env (serverOf st2 nn uid) p" using assms(3) True labelsFit_bits [OF wake(3)] by simp
    from obliged_launcher_labels [OF assms(1) wake(2) this, of r] that True wake(3) show thesis by (auto simp: instanceBits_def)
  next
    case False
    obtain st3 q cs3 where "ensureSleepingLabel env st2 p False = (st3, Inr q)" "Status q = Status p"
      "serverOf st3 nn uid = serverOf st2 nn uid" "dcalls st3 = dcalls st2 @ cs3" "labelledAwake p cs3"
      using obliged_label [OF assms(1)] serverOf_same by blast
    with that [of st3 q cs3] False wake(2,3) show thesis by (simp add: instanceBits_def)
  qed
  obtain st4 cs4 where report: "ensureReqState env st3 nn uid r addF False [] = (st4, prDone)" "serverOf st4 nn uid = serverOf st3 nn uid"
    "dcalls st4 = dcalls st3 @ cs4"
    using obliged_report [OF assms(1)] serverOf_same by (metis prefixE)
  obtain st5 cs5 where relay: "relayReadiness env st4 nn uid r (lb \<or> IsPodReady q) = (st5, prDone)"
    "ReadinessRelayed (serverOf st5 nn uid) = Some (lb \<or> IsPodReady q)" "Sleeping (serverOf st5 nn uid) = Sleeping (serverOf st4 nn uid)"
    "LabelsApplied (serverOf st5 nn uid) = LabelsApplied (serverOf st4 nn uid)"
    "InstanceKnownToExist (serverOf st5 nn uid) = InstanceKnownToExist (serverOf st4 nn uid)" "dcalls st5 = dcalls st4 @ cs5"
    "relayedBy r (lb \<or> IsPodReady q) (ReadinessRelayed (serverOf st4 nn uid)) cs5"
    using obliged_relay [OF assms(1)] by blast
  have ready: "(lb \<or> IsPodReady q) = (lb \<or> IsPodReady p)" using label(3) by (auto simp: IsPodReady_def GetPodCondition_def)
  have "(if lb then Sleeping (serverOf st4 nn uid) \<noteq> Some True else IsPodReady q) = (lb \<or> IsPodReady q)"
    using label(2) report(2) by simp
  then have "serveBound env st nn uid r p lb port addF = (st5, prDone)"
    using relay(1) unfolding serveBound_def query by (simp add: wake(1) label(1) report(1) prDone_def del: if_split)
  moreover have "dcalls st5 = dcalls st @ (cs2 @ cs3 @ cs4 @ cs5)" using cs2(1) label(7) report(3) relay(6) by simp
  moreover have "awakeAfter env p port (Sleeping ?sd) (cs2 @ cs3 @ cs4 @ cs5)" using cs2(2) by (rule shown_more) auto
  moreover have "relayedBy r (lb \<or> IsPodReady p) (ReadinessRelayed ?sd) (cs2 @ cs3 @ cs4 @ cs5)"
    by (rule shown_more(3) [OF relay(7) [unfolded report(2) label(6) ready]]) auto
  moreover have "if lb then LabelsApplied ?sd \<or> routedAwake p (InstanceISCLabels ?sd) (InstanceISCAnnotations ?sd) (cs2 @ cs3 @ cs4 @ cs5)
      else labelledAwake p (cs2 @ cs3 @ cs4 @ cs5)"
    using label(8) shown_more(4) [of p cs3 "cs2 @ cs3 @ cs4 @ cs5"]
      shown_more(5) [of p "InstanceISCLabels ?sd" "InstanceISCAnnotations ?sd" cs3 "cs2 @ cs3 @ cs4 @ cs5"] by (cases lb) auto
  moreover have "Sleeping (serverOf st5 nn uid) = Some False" "ReadinessRelayed (serverOf st5 nn uid) = Some (lb \<or> IsPodReady p)"
    "lb \<longrightarrow> LabelsApplied (serverOf st5 nn uid)" "InstanceKnownToExist (serverOf st5 nn uid) = InstanceKnownToExist ?sd"
    using relay(2-5) label(2,4,5) report(2) ready by simp_all
  ultimately show ?thesis by blast
qed

subsection \<open>A bound provider\<close>

text \<open>
  The requester exists, is scheduled on a Node that is there, has an IP address, and is not being deleted.
\<close>

definition livingRequester :: "dpEnv \<Rightarrow> string \<Rightarrow> pod \<Rightarrow> node \<Rightarrow> bool" where
  "livingRequester env rn r node \<longleftrightarrow> podGet env rn = Inr r \<and> DeletionTimestamp r = None \<and> NodeName (Spec r) \<noteq> [] \<and>
     PodIP (Status r) \<noteq> [] \<and> nodeGetD env (NodeName (Spec r)) = Inr node \<and> DeletionTimestamp node = None"

lemma serverOf_begun:
  "Sleeping (serverOf (getServerData st nn rn uid) nn uid) = Sleeping (serverOf st nn uid)"
  "RequesterDeleteRequested (serverOf (getServerData st nn rn uid) nn uid) = RequesterDeleteRequested (serverOf st nn uid)"
  "GPUIDsStr (serverOf (getServerData st nn rn uid) nn uid) = GPUIDsStr (serverOf st nn uid)"
  "GPUIndicesStr (serverOf (getServerData st nn rn uid) nn uid) = GPUIndicesStr (serverOf st nn uid)"
  "ReadinessRelayed (serverOf (getServerData st nn rn uid) nn uid) = ReadinessRelayed (serverOf st nn uid)"
  unfolding serverOf_getServerData by (simp_all add: serverOf_def newServerData_def)

definition running :: "pod \<Rightarrow> bool" where
  "running p \<longleftrightarrow> (case getContainerStatus p InferenceServerContainerName of None \<Rightarrow> False | Some cs \<Rightarrow> csRunning cs \<noteq> None)"

lemma no_finalizer_removed:
  "requesterFinalizer \<in> set (Finalizers r) \<longrightarrow> running p \<Longrightarrow>
   \<exists>addF. maybeRemoveRequesterFinalizer env st r (Some p) = (st, Inr (False, addF))"
proof -
  have "slices_Index (Finalizers r) requesterFinalizer \<ge> 0 \<longleftrightarrow> requesterFinalizer \<in> set (Finalizers r)"
    using slices_Index_neg_iff [of "Finalizers r" requesterFinalizer] by linarith
  then show "requesterFinalizer \<in> set (Finalizers r) \<longrightarrow> running p \<Longrightarrow>
      \<exists>addF. maybeRemoveRequesterFinalizer env st r (Some p) = (st, Inr (False, addF))"
    by (auto simp: maybeRemoveRequesterFinalizer_def running_def Let_def split: option.split)
qed

text \<open>The GPUs of the requester are known, and the requester is not on its way out.\<close>

definition knowsGPUs :: "serverData \<Rightarrow> bool" where
  "knowsGPUs sd \<longleftrightarrow> GPUIDsStr sd \<noteq> None \<and> GPUIndicesStr sd \<noteq> None \<and> \<not> RequesterDeleteRequested sd"

lemma bound_served:
  assumes "obliging env" "debugAccelMemory env \<longrightarrow> (\<forall>s. snd (accelMemoryIsLowEnough env s nn uid r) = None)"
    and live: "livingRequester env rn r node" "Annotations r InferenceServerConfigAnnotationName = None" and p: "byIndex env requesterIndexFunc uid = [p]" "DeletionTimestamp p = None"
      "GetInferenceServerContainerIndexAndPort p = Inr (i, port)" "requesterFinalizer \<in> set (Finalizers r) \<longrightarrow> running p"
    and sd: "knowsGPUs (serverOf st nn uid)"
  shows "\<exists>st1 cs. infSvrItem_process env st nn uid rn = (st1, prDone) \<and> dcalls st1 = dcalls st @ cs \<and>
    awakeAfter env p port (Sleeping (serverOf st nn uid)) cs \<and> labelledAwake p cs \<and>
    relayedBy r (IsPodReady p) (ReadinessRelayed (serverOf st nn uid)) cs \<and>
    Sleeping (serverOf st1 nn uid) = Some False \<and> ReadinessRelayed (serverOf st1 nn uid) = Some (IsPodReady p)"
proof -
  define s where "s = modServer nn uid (\<lambda>sd. sd\<lparr>ProvidingPodName := Name p\<rparr>) (getServerData st nn rn uid)"
  have sd': "GPUIDsStr (serverOf s nn uid) \<noteq> None" "GPUIndicesStr (serverOf s nn uid) \<noteq> None" "\<not> RequesterDeleteRequested (serverOf s nn uid)"
    "Sleeping (serverOf s nn uid) = Sleeping (serverOf st nn uid)" "ReadinessRelayed (serverOf s nn uid) = ReadinessRelayed (serverOf st nn uid)"
    "dcalls s = dcalls st"
    using sd by (simp_all add: s_def serverOf_begun knowsGPUs_def)
  obtain addF where fin: "maybeRemoveRequesterFinalizer env s r (Some p) = (s, Inr (False, addF))" using no_finalizer_removed [OF p(4)] by blast
  obtain st1 cs where serve: "serveBound env s nn uid r p False port addF = (st1, prDone)" "dcalls st1 = dcalls s @ cs"
    "awakeAfter env p port (Sleeping (serverOf s nn uid)) cs" "labelledAwake p cs" "relayedBy r (IsPodReady p) (ReadinessRelayed (serverOf s nn uid)) cs"
    "Sleeping (serverOf st1 nn uid) = Some False" "ReadinessRelayed (serverOf st1 nn uid) = Some (IsPodReady p)"
    using obliged_serve [OF assms(1,2), of False s p port addF] by auto
  have "processLive env s nn uid r (Some p) addF = (st1, prDone)"
    using live sd' p(3) serve(1) by (simp add: processLive_def livingRequester_def fetchGPUs_def processBound_def)
  then have "processPair env s nn uid (Some r) (Some p) = (st1, prDone)"
    using live p(2) sd' by (simp add: processPair_def fin livingRequester_def)
  then have "infSvrItem_process env st nn uid rn = (st1, prDone)"
    using live p(1) by (simp add: infSvrItem_process_def infSvrPods_def livingRequester_def flip: s_def)
  with serve sd'(4-6) show ?thesis by auto
qed

subsection \<open>A new provider\<close>

lemma getGPUUUIDs_same: "getGPUUUIDs env s url = (s', x) \<Longrightarrow> serverOf s' nn uid = serverOf s nn uid"
  by (auto simp: getGPUUUIDs_def doHTTP_def Let_def split: option.splits sum.splits prod.splits if_splits)

lemma fetched_data:
  assumes "fetchGPUs env s nn uid r False = (s', Inr x)"
  shows "GPUIDsStr (serverOf s' nn uid) \<noteq> None" "GPUIndicesStr (serverOf s' nn uid) \<noteq> None"
    "NominalProvidingPod (serverOf s' nn uid) = NominalProvidingPod (serverOf s nn uid)"
    "RequesterDeleteRequested (serverOf s' nn uid) = RequesterDeleteRequested (serverOf s nn uid)"
  using assms
  by (auto simp: fetchGPUs_def Let_def dest!: getGPUUUIDs_same [where nn = nn and uid = uid] split: if_splits option.splits sum.splits prod.splits)

lemma budget_idle:
  "\<forall>g \<in> set gpus. int (length (byIndex env GPUIndexFunc (node @ '' '' @ g))) \<le> limit \<Longrightarrow>
   budgetLoop env node now limit gpus st {} = (st, {}, None)"
  by (induction gpus) (auto simp: budgetLoop.simps lenMinus_def)

lemma idle_budget:
  "\<forall>g \<in> set (GPUIndices (serverOf st nn uid)). int (length (byIndex env GPUIndexFunc (NodeName (Spec r) @ '' '' @ g))) \<le> limit \<Longrightarrow>
   enforceSleeperBudget env st nn uid r limit = (st, None, False)"
  by (simp add: enforceSleeperBudget_def budget_idle)

text \<open>
  There is room for a new provider: the accelerators of the requester can be learnt, the server patch gives a Pod, no Pod
  of that make exists, and no GPU has more sleeping servers than are allowed.
\<close>

definition roomForProvider :: "dpEnv \<Rightarrow> dpState \<Rightarrow> string \<Rightarrow> string \<Rightarrow> pod \<Rightarrow> pod \<Rightarrow> bool" where
  "roomForProvider env st nn uid r q \<longleftrightarrow>
     (case fetchGPUs env st nn uid r False of
        (s, Inl _) \<Rightarrow> False
      | (s, Inr _) \<Rightarrow>
          (case computeNominal env (serverOf s nn uid) r (annot r ServerPatchAnnotationName) of
             Inl _ \<Rightarrow> False
           | Inr (p, nominalHash, _) \<Rightarrow> p = q \<and> byIndex env nominalHashIndexFunc nominalHash = []) \<and>
          (\<forall>g \<in> set (GPUIndices (serverOf s nn uid)).
             int (length (byIndex env GPUIndexFunc (NodeName (Spec r) @ '' '' @ g))) \<le> sleeperLimit env))"

lemma provider_created:
  assumes "obliging env" and live: "livingRequester env rn r node" "Annotations r InferenceServerConfigAnnotationName = None" "\<not> Unschedulable node"
    and none: "byIndex env requesterIndexFunc uid = []" "requesterFinalizer \<notin> set (Finalizers r)"
    and sd: "\<not> RequesterDeleteRequested (serverOf st nn uid)" "NominalProvidingPod (serverOf st nn uid) = None"
    and patch: "annot r ServerPatchAnnotationName \<noteq> []"
    and room: "roomForProvider env (getServerData st nn rn uid) nn uid r q"
  shows "\<exists>st1 echo. infSvrItem_process env st nn uid rn = (st1, prDone) \<and> CreatePodD q (Inr echo) \<in> set (dcalls st1) \<and> carries r q \<and>
    GPUIDsStr (serverOf st1 nn uid) \<noteq> None \<and> GPUIndicesStr (serverOf st1 nn uid) \<noteq> None \<and> \<not> RequesterDeleteRequested (serverOf st1 nn uid)"
proof -
  define s where "s = getServerData st nn rn uid"
  have s: "\<not> RequesterDeleteRequested (serverOf s nn uid)" "NominalProvidingPod (serverOf s nn uid) = None"
    using sd core_getServerData [of st nn rn uid nn uid] by (simp_all add: s_def serverOf_begun core_def)
  obtain s1 x h port where fetch: "fetchGPUs env s nn uid r False = (s1, Inr x)"
    and nominal: "computeNominal env (serverOf s1 nn uid) r (annot r ServerPatchAnnotationName) = Inr (q, h, port)"
    and unique: "byIndex env nominalHashIndexFunc h = []"
    and budget: "\<forall>g \<in> set (GPUIndices (serverOf s1 nn uid)). int (length (byIndex env GPUIndexFunc (NodeName (Spec r) @ '' '' @ g))) \<le> sleeperLimit env"
    using room unfolding roomForProvider_def s_def by (auto split: prod.splits sum.splits)
  note s1 = fetched_data [OF fetch]
  define s2 where "s2 = modServer nn uid (\<lambda>sd. sd\<lparr>ServerPort := port, NominalProvidingPod := Some q, NominalProvidingPodHash := h\<rparr>) s1"
  have get: "getNominalServerProvidingPod env s1 nn uid r (annot r ServerPatchAnnotationName) = (s2, Inr (q, h))"
    using nominal s(2) by (simp add: getNominalServerProvidingPod_def s1 s2_def)
  have idle: "enforceSleeperBudget env s2 nn uid r (sleeperLimit env) = (s2, None, False)"
    by (rule idle_budget) (use budget in \<open>simp add: s2_def\<close>)
  obtain echo where echo: "podCreateD env (dcalls s2) q = Inr echo" using assms(1) unfolding obliging_def by blast
  define s3 where "s3 = s2\<lparr>dcalls := dcalls s2 @ [CreatePodD q (Inr echo)]\<rparr>"
  define s4 where "s4 = modServer nn uid (\<lambda>sd. sd\<lparr>Sleeping := Some False\<rparr>) s3"
  have "provideDirect env s1 nn uid r = ensureReqStatus env s4 nn uid r []"
    using patch by (simp add: provideDirect_def get unique idle createPod_def echo s3_def s4_def Let_def)
  moreover obtain st1 where report: "ensureReqStatus env s4 nn uid r [] = (st1, prDone)" "nodeNameToData st1 = nodeNameToData s4"
    "prefix (dcalls s4) (dcalls st1)" using obliged_report [OF assms(1)] unfolding ensureReqStatus_def by blast
  moreover have "maybeRemoveRequesterFinalizer env s r None = (s, Inr (False, False))"
    using none(2) slices_Index_neg_iff [of "Finalizers r" requesterFinalizer] by (simp add: maybeRemoveRequesterFinalizer_def Let_def not_le)
  ultimately have "infSvrItem_process env st nn uid rn = (st1, prDone)"
    using live none(1) s(1) fetch
    by (simp add: infSvrItem_process_def infSvrPods_def processPair_def processLive_def livingRequester_def flip: s_def)
  moreover have "serverOf st1 nn uid = (serverOf s2 nn uid)\<lparr>Sleeping := Some False\<rparr>"
    using serverOf_same [OF report(2)] by (simp add: s4_def s3_def)
  moreover have "CreatePodD q (Inr echo) \<in> set (dcalls st1)" using set_mono_prefix [OF report(3)] by (auto simp: s4_def s3_def)
  moreover have "carries r q" by (rule carries_nominal [OF nominal])
  ultimately show ?thesis using s(1) s1 by (auto simp: s2_def)
qed

subsection \<open>Properties\<close>

text \<open>
  C12: a requester with a server patch gets its server.  In a world that obliges and has room, the first run for a new
  requester creates its provider, which names the requester, and leaves the requester's GPUs known.  Once the cache shows a
  provider bound to the requester, a run from any state that knows the GPUs, such as that one, ends with nothing left to
  do, and its calls show what it did: the server was known to be awake, said that it is, or accepted the request to wake
  up at its port; the Pod's sleeping label is \<^verbatim>\<open>false\<close> or was updated to it; and the readiness of the provider, whichever
  it is, had been relayed, is what the requester's container shows, or was accepted by the requester at the path for it.
\<close>

theorem direct_requester_is_served:
  assumes "obliging env1" "livingRequester env1 rn r node" "\<not> Unschedulable node" "annot r ServerPatchAnnotationName \<noteq> []"
    and "byIndex env1 requesterIndexFunc uid = []" "requesterFinalizer \<notin> set (Finalizers r)"
    and "mget (InferenceServers (nodeOf st nn)) uid = None" "roomForProvider env1 (getServerData st nn rn uid) nn uid r q"
    and "Annotations r InferenceServerConfigAnnotationName = None" "Annotations r' InferenceServerConfigAnnotationName = None"
    and "obliging env2" "livingRequester env2 rn r' node'" "requesterFinalizer \<in> set (Finalizers r') \<longrightarrow> running p"
    and "debugAccelMemory env2 \<longrightarrow> (\<forall>s. snd (accelMemoryIsLowEnough env2 s nn uid r') = None)"
    and "byIndex env2 requesterIndexFunc uid = [p]" "DeletionTimestamp p = None" "GetInferenceServerContainerIndexAndPort p = Inr (i, port)"
  shows "(\<exists>st1 echo. infSvrItem_process env1 st nn uid rn = (st1, prDone) \<and> CreatePodD q (Inr echo) \<in> set (dcalls st1) \<and> carries r q \<and>
      knowsGPUs (serverOf st1 nn uid)) \<and>
    (\<forall>st1. knowsGPUs (serverOf st1 nn uid) \<longrightarrow> (\<exists>st2 cs. infSvrItem_process env2 st1 nn uid rn = (st2, prDone) \<and> dcalls st2 = dcalls st1 @ cs \<and>
      awakeAfter env2 p port (Sleeping (serverOf st1 nn uid)) cs \<and> labelledAwake p cs \<and>
      relayedBy r' (IsPodReady p) (ReadinessRelayed (serverOf st1 nn uid)) cs \<and>
      Sleeping (serverOf st2 nn uid) = Some False \<and> ReadinessRelayed (serverOf st2 nn uid) = Some (IsPodReady p)))"
proof (rule conjI)
  have new: "serverOf st nn uid = newServerData []" using assms(7) by (simp add: serverOf_def)
  show "\<exists>st1 echo. infSvrItem_process env1 st nn uid rn = (st1, prDone) \<and> CreatePodD q (Inr echo) \<in> set (dcalls st1) \<and> carries r q \<and>
      knowsGPUs (serverOf st1 nn uid)"
    using provider_created [OF assms(1,2,9,3,5,6) _ _ assms(4,8)] by (auto simp: new newServerData_def knowsGPUs_def)
qed (use bound_served [OF assms(11,14,12,10,15,16,17,13)] in blast)

text \<open>
  The requester's Node has one GPU; first only the requester is in the cache, then its provider is, too.
\<close>

definition servingEnv :: dpEnv where
  "servingEnv = (dpExampleEnv [directRequester])\<lparr>decodePod := (\<lambda>_. Inr (blankPod\<lparr>Spec := blankPodSpec\<lparr>Containers := [serverContainer]\<rparr>\<rparr>))\<rparr>"

definition servingState :: dpState where
  "servingState = dpExampleState\<lparr>gpuMap := Some [(''ok'', \<lparr>glNode = ''n1'', glIndex = 0\<rparr>)]\<rparr>"

lemma serving_fields:
  "podCache servingEnv = [directRequester]" "podGet servingEnv ''r1'' = Inr directRequester" "nodeGetD servingEnv n = Inr (blankNode\<lparr>Name := n\<rparr>)"
  "obliging servingEnv" "obliging (dpExampleEnv ps)"
  by (simp_all add: servingEnv_def obliging_def) (auto simp: dpExampleEnv_def)

lemma serving_patch:
  "templateParse servingEnv t = None" "templateExecute servingEnv t nn = Inr t" "yamlToJSON servingEnv t = Inr t" "marshalPod servingEnv p = Inr ''json''"
  "strategicMerge servingEnv a b = Inr a" "decodePod servingEnv t = Inr (blankPod\<lparr>Spec := blankPodSpec\<lparr>Containers := [serverContainer]\<rparr>\<rparr>)"
  "sleeperLimit servingEnv = 1"
  by (simp_all add: servingEnv_def) (simp_all add: dpExampleEnv_def)

lemma serving_learns:
  "\<exists>s. fetchGPUs servingEnv (getServerData servingState ''n1'' ''r1'' ''u1'') ''n1'' ''u1'' directRequester False = (s, Inr ()) \<and>
     GPUIndicesStr (serverOf s ''n1'' ''u1'') \<noteq> None"
proof -
  have new: "serverOf (getServerData servingState ''n1'' ''r1'' ''u1'') ''n1'' ''u1'' = newServerData ''r1''"
    by (simp add: serverOf_getServerData servingState_def dpExampleState_def nodeOf_def newNodeData_def)
  have map: "gpuMap (getServerData servingState ''n1'' ''r1'' ''u1'') = Some [(''ok'', \<lparr>glNode = ''n1'', glIndex = 0\<rparr>)]"
    by (simp add: getServerData_def servingState_def Let_def modNode_def split: option.split)
  have kept: "gpuMap (modServer nn uid f s) = gpuMap s" for nn uid f s by (simp add: modServer_def modNode_def Let_def)
  show ?thesis
    by (simp add: fetchGPUs_def kept new newServerData_def getGPUUUIDs_def doHTTP_def servingEnv_def dpExampleEnv_def mapToGPUIndices_def map
        SliceMap.simps Let_def)
qed

lemma serving_room: "\<exists>q. roomForProvider servingEnv (getServerData servingState ''n1'' ''r1'' ''u1'') ''n1'' ''u1'' directRequester q"
proof -
  obtain s idx where s: "fetchGPUs servingEnv (getServerData servingState ''n1'' ''r1'' ''u1'') ''n1'' ''u1'' directRequester False = (s, Inr ())"
    "GPUIndicesStr (serverOf s ''n1'' ''u1'') = Some idx" using serving_learns by auto
  have "byIndex servingEnv f k = []" if "f directRequester = []" for f k using that by (simp add: byIndex_def serving_fields)
  moreover have "GPUIndexFunc directRequester = []"
    by (simp add: GPUIndexFunc_def directRequester_def annot_def blank_defs shared_name_defs nominalHashAnnotationKey_def)
  ultimately show ?thesis
    by (simp add: roomForProvider_def s computeNominal_def serving_patch
        GetInferenceServerContainerIndexAndPort_def GetInferenceServerContainerIndex_def SliceIndexFeature_eq serverContainer_def blank_defs Let_def)
qed

text \<open>A provider that is ready and whose server sleeps, as the controller knows.\<close>

definition readyProvider :: pod where
  "readyProvider = directProvider\<lparr>Status := (Status directProvider)\<lparr>Conditions :=
     [\<lparr>condType = PodReady, condStatus = ConditionTrue, LastTransitionTime = 1\<rparr>]\<rparr>\<rparr>"

lemma status_apart:
  "GetInferenceServerContainerIndexAndPort (p\<lparr>Status := s\<rparr>) = GetInferenceServerContainerIndexAndPort p"
  "requesterIndexFunc (p\<lparr>Status := s\<rparr>) = requesterIndexFunc p"
proof -
  have eq: "Spec (p\<lparr>Status := s\<rparr>) = Spec p" "Annotations (p\<lparr>Status := s\<rparr>) = Annotations p" "Labels (p\<lparr>Status := s\<rparr>) = Labels p"
    "UID (p\<lparr>Status := s\<rparr>) = UID p" "Name (p\<lparr>Status := s\<rparr>) = Name p" by simp_all
  show "GetInferenceServerContainerIndexAndPort (p\<lparr>Status := s\<rparr>) = GetInferenceServerContainerIndexAndPort p"
    unfolding GetInferenceServerContainerIndexAndPort_def GetInferenceServerContainerIndex_def eq ..
  show "requesterIndexFunc (p\<lparr>Status := s\<rparr>) = requesterIndexFunc p"
    unfolding requesterIndexFunc_def careAbout_def annot_def eq ..
qed

lemma readyProvider_fields:
  "IsPodReady readyProvider" "DeletionTimestamp readyProvider = None" "GetInferenceServerContainerIndexAndPort readyProvider = Inr (0, 8000)"
  "requesterIndexFunc readyProvider = [''u1'']" "PodIP (Status readyProvider) = ''10.0.0.2''"
  by (simp_all add: readyProvider_def IsPodReady_def GetPodCondition_def SliceGetByFeature_find status_apart)

theorem direct_requester_is_served_witness:
  "(\<exists>st1 q echo. infSvrItem_process servingEnv servingState ''n1'' ''u1'' ''r1'' = (st1, prDone) \<and> CreatePodD q (Inr echo) \<in> set (dcalls st1)) \<and>
   (\<exists>st2 cs. infSvrItem_process (dpExampleEnv [directRequester, readyProvider]) directState ''n1'' ''u1'' ''r1'' = (st2, prDone) \<and>
     dcalls st2 = dcalls directState @ cs \<and> acceptedHTTP ''POST'' (''http://10.0.0.2:'' @ strconv_Itoa 8000 @ ''/wake_up'') cs \<and>
     acceptedHTTP ''POST'' (''http://10.0.0.1:'' @ adminPortOf directRequester @ BecomeReadyPath) cs)"
proof -
  let ?env2 = "dpExampleEnv [directRequester, readyProvider]" and ?node = "blankNode\<lparr>Name := ''n1''\<rparr>"
  obtain q where q: "roomForProvider servingEnv (getServerData servingState ''n1'' ''r1'' ''u1'') ''n1'' ''u1'' directRequester q"
    using serving_room by blast
  have live1: "livingRequester servingEnv ''r1'' directRequester ?node" "byIndex servingEnv requesterIndexFunc ''u1'' = []" "\<not> Unschedulable ?node"
    by (simp_all add: livingRequester_def serving_fields byIndex_def blank_defs)
  have live2: "livingRequester ?env2 ''r1'' directRequester ?node" "byIndex ?env2 requesterIndexFunc ''u1'' = [readyProvider]"
    "\<not> debugAccelMemory ?env2" "decodeSleepState ?env2 b = Inr True" for b
    by (simp_all add: livingRequester_def byIndex_def dpExampleEnv_def readyProvider_fields blank_defs)
  have new: "mget (InferenceServers (nodeOf servingState ''n1'')) ''u1'' = None"
    by (simp add: servingState_def dpExampleState_def nodeOf_def newNodeData_def)
  have sd: "knowsGPUs (serverOf directState ''n1'' ''u1'')" "Sleeping (serverOf directState ''n1'' ''u1'') = Some True"
    "ReadinessRelayed (serverOf directState ''n1'' ''u1'') = None"
    by (simp_all add: knowsGPUs_def directState_def directServer_def newServerData_def)
  note served = direct_requester_is_served [OF serving_fields(4) live1(1,3) _ live1(2) _ new q _ _ serving_fields(5) live2(1) _ _ live2(2)
      readyProvider_fields(2,3)]
  have "\<exists>st1 echo. infSvrItem_process servingEnv servingState ''n1'' ''u1'' ''r1'' = (st1, prDone) \<and> CreatePodD q (Inr echo) \<in> set (dcalls st1) \<and>
      carries directRequester q \<and> knowsGPUs (serverOf st1 ''n1'' ''u1'')"
    by (rule served [THEN conjunct1]) (simp_all add: live2(3))
  moreover have "\<forall>st1. knowsGPUs (serverOf st1 ''n1'' ''u1'') \<longrightarrow> (\<exists>st2 cs. infSvrItem_process ?env2 st1 ''n1'' ''u1'' ''r1'' = (st2, prDone) \<and>
      dcalls st2 = dcalls st1 @ cs \<and> awakeAfter ?env2 readyProvider 8000 (Sleeping (serverOf st1 ''n1'' ''u1'')) cs \<and> labelledAwake readyProvider cs \<and>
      relayedBy directRequester (IsPodReady readyProvider) (ReadinessRelayed (serverOf st1 ''n1'' ''u1'')) cs \<and>
      Sleeping (serverOf st2 ''n1'' ''u1'') = Some False \<and> ReadinessRelayed (serverOf st2 ''n1'' ''u1'') = Some (IsPodReady readyProvider))"
    by (rule served [THEN conjunct2]) (simp_all add: live2(3))
  from this [rule_format, OF sd(1), unfolded sd(2,3)] obtain st2 cs where "infSvrItem_process ?env2 directState ''n1'' ''u1'' ''r1'' = (st2, prDone)"
    "dcalls st2 = dcalls directState @ cs" "awakeAfter ?env2 readyProvider 8000 (Some True) cs" "relayedBy directRequester True None cs"
    using readyProvider_fields(1) by auto
  moreover from this(3,4) have "acceptedHTTP ''POST'' (''http://10.0.0.2:'' @ strconv_Itoa 8000 @ ''/wake_up'') cs"
    "acceptedHTTP ''POST'' (''http://10.0.0.1:'' @ adminPortOf directRequester @ BecomeReadyPath) cs"
    by (simp_all add: awakeAfter_def relayedBy_def live2(4) serverURL_def readyProvider_fields(5) getContainerStatus_def SliceGetByFeature_find)
  ultimately show ?thesis by blast
qed

end
