(* ===== verification/Launcher_Serving.thy ===== *)
theory Launcher_Serving
  imports Serving
begin

text \<open>
  Progress for requesters that name an InferenceServerConfig: in a world that obliges, the requester gets a launcher, and once
  that launcher is ready the wanted instance is in it, awake and routed to, and the requester is told that it is ready.
\<close>

subsection \<open>Launchers that oblige\<close>

text \<open>
  A launcher answers what is asked of it in a form that can be read, and does not list the wanted instance as stopped.
\<close>

definition launcherObliging :: "dpEnv \<Rightarrow> string \<Rightarrow> bool" where
  "launcherObliging env wanted \<longleftrightarrow> obliging env \<and> (\<forall>cfg. \<exists>s. encodeVllmConfig env cfg = Inr s) \<and>
     (\<forall>h req code body. httpDo env h req = Inr (code, body) \<longrightarrow>
        (hrPurpose req = ''list_instances'' \<longrightarrow> (\<exists>all. decodeAllInstances env body = Inr all \<and>
           (\<forall>i \<in> set (Instances all). instID i = wanted \<longrightarrow> \<not> isStopped i))) \<and>
        (hrPurpose req = ''create_instance'' \<longrightarrow> (\<exists>res. decodeActionResult env body = Inr res)))"

text \<open>The data of a server but for the record of the instances that were deleted for it.\<close>

definition sameServer :: "string \<Rightarrow> string \<Rightarrow> dpState \<Rightarrow> dpState \<Rightarrow> bool" where
  "sameServer nn uid st st' \<longleftrightarrow> (\<exists>del. serverOf st' nn uid = (serverOf st nn uid)\<lparr>InstancesDeleted := del\<rparr>)"

lemma sameServer_refl: "sameServer nn uid st st"
  unfolding sameServer_def by (rule exI [of _ "InstancesDeleted (serverOf st nn uid)"]) simp

lemma sameServer_trans: "sameServer nn uid st st1 \<Longrightarrow> sameServer nn uid st1 st2 \<Longrightarrow> sameServer nn uid st st2"
  by (auto simp: sameServer_def)

lemma sameServer_same: "serverOf st' nn uid = serverOf st nn uid \<Longrightarrow> sameServer nn uid st st'"
  using sameServer_refl by (simp add: sameServer_def)

lemma serverOf_doHTTP [simp]: "serverOf (fst (doHTTP env st pu verb url body decode)) nn uid = serverOf st nn uid"
proof (cases "(\<forall>e. body \<noteq> Some (Inl e)) \<and> urlParse env url = None")
  case True
  let ?req = "\<lparr>hrPurpose = pu, hrMethod = verb, hrURL = url, hrBody = (case body of Some (Inr b) \<Rightarrow> Some b | _ \<Rightarrow> None)\<rparr>"
  have "fst (doHTTP env st pu verb url body decode) = st\<lparr>dcalls := dcalls st @ [Http ?req (httpDo env (dcalls st) ?req)]\<rparr>"
    using True by (auto simp: doHTTP_def Let_def split: option.split sum.split)
  then show ?thesis by simp
next
  case False
  then have "fst (doHTTP env st pu verb url body decode) = st" by (auto simp: doHTTP_def split: option.split sum.split)
  then show ?thesis by simp
qed

lemma serverOf_fullDo [simp]: "serverOf (fst (fullDo env st base pu verb path body decode)) nn uid = serverOf st nn uid"
  by (simp add: fullDo_def split_beta split: option.split sum.split)

lemma serverOf_launcher_calls [simp]:
  "serverOf (fst (ListInstances env st base)) nn uid = serverOf st nn uid"
  "serverOf (fst (DeleteInstance env st base i)) nn uid = serverOf st nn uid"
  "serverOf (fst (CreateNamedInstance env st base i cfg)) nn uid = serverOf st nn uid"
  by (simp_all add: ListInstances_def DeleteInstance_def CreateNamedInstance_def createInst_def)

lemma sameServer_noteDeleted: "sameServer nn uid st (noteDeleted nn (Some uid) i st)"
  by (auto simp: sameServer_def)

lemma sameServer_step: "sameServer nn uid st st1 \<Longrightarrow> serverOf st2 nn uid = serverOf st1 nn uid \<Longrightarrow> sameServer nn uid st st2"
  by (simp add: sameServer_def)

lemma sameServer_upd [simp]:
  "sameServer nn uid st (modLauncher mm n f s) = sameServer nn uid st s" "sameServer nn uid st (deleteKnown mm n i s) = sameServer nn uid st s"
  "sameServer nn uid st (getLauncherData s mm n) = sameServer nn uid st s"
  by (simp_all add: sameServer_def)

lemma sync_same: "sameServer nn uid st (fst (syncInstances env nn (Some uid) base bnd known insts st acc))"
proof (induction insts arbitrary: st acc)
  case (Cons i insts)
  have "sameServer nn uid st (fst (DeleteInstance env (noteDeleted nn (Some uid) (instID i) st) base (instID i)))"
    by (rule sameServer_step [OF sameServer_noteDeleted]) simp
  from sameServer_trans [OF this Cons.IH] Cons.IH show ?case
    by (cases "isStopped i"; cases "instID i \<in> bnd") (simp_all add: syncInstances_step)
qed (simp add: sameServer_refl)

lemma syncLauncher_same: "sameServer nn uid st (fst (syncLauncherInstances env st nn (Some uid) p))"
proof -
  have "sameServer nn uid st (fst (syncInstances env nn (Some uid) base bnd known insts (getLauncherData (fst (ListInstances env st base)) nn n) acc))"
    for base bnd known insts n acc
    by (rule sameServer_trans [OF sameServer_same sync_same]) simp
  then show ?thesis
    by (auto simp: syncLauncherInstances_def Let_def split_beta sameServer_refl intro: sameServer_same split: sum.split)
qed

lemma sort_same: "sameServer nn uid st (fst (sortInstances env nn uid p target port insts st acc))"
proof (induction insts arbitrary: st acc)
  case (Cons i insts)
  have "sameServer nn uid st (fst (DeleteInstance env st base k))" for base k by (rule sameServer_same) simp
  moreover from sameServer_trans [OF this sameServer_noteDeleted]
  have "sameServer nn uid st (noteDeleted nn (Some uid) j (fst (DeleteInstance env st base k)))" for base j k .
  ultimately show ?case using Cons.IH by (simp add: sameServer_refl split_beta split: sum.split)
qed (simp add: sameServer_refl)

lemma consider_same: "sameServer nn uid st (fst (considerLauncher env nn uid target port n p st acc))"
proof -
  let ?s = "fst (syncLauncherInstances env st nn (Some uid) p)"
  have "sameServer nn uid st (fst (sortInstances env nn uid p target port insts (getLauncherData ?s nn (Name p)) acc'))" for insts acc'
    by (rule sameServer_trans [OF _ sort_same]) (simp add: syncLauncher_same)
  with syncLauncher_same show ?thesis
    by (simp add: considerLauncher_def sameServer_refl Let_def split_beta split: syncAnswer.split sum.split option.split)
qed

lemma considers_same: "sameServer nn uid st (fst (considerLaunchers env nn uid target port n ps st acc))"
proof (induction ps arbitrary: st acc)
  case (Cons p ps)
  from sameServer_trans [OF consider_same Cons.IH] consider_same show ?case by (simp add: split_beta split: sum.split)
qed (simp add: sameServer_refl)

lemma victims_same: "sameServer nn uid st (fst (deleteVictims env nn uid base n vs st))"
proof (induction vs arbitrary: st)
  case (Cons v vs)
  let ?s = "fst (DeleteInstance env (noteDeleted nn (Some uid) v st) base v)"
  have same: "sameServer nn uid st ?s" by (rule sameServer_step [OF sameServer_noteDeleted]) simp
  have "sameServer nn uid st (deleteKnown nn n v ?s)" using same by simp
  from sameServer_trans [OF this Cons.IH] same show ?case by (simp add: split_beta split: sum.split)
qed (simp add: sameServer_refl)

lemma select_same: "sameServer nn uid st (fst (selectOrReclaimLauncherPod env st nn uid ps target port n))"
proof -
  have "sameServer nn uid st (fst (deleteVictims env nn uid base m vs (fst (considerLaunchers env nn uid target port n ps st acc))))" for base m vs acc
    by (rule sameServer_trans [OF considers_same victims_same])
  with considers_same show ?thesis
    by (simp add: selectOrReclaimLauncherPod_def split_beta split: sum.split option.split)
qed

subsection \<open>The instance of a bound launcher\<close>

lemma obliged_full:
  assumes "obliging env" "\<And>b. body = Some b \<Longrightarrow> \<exists>x. b = Inr x"
    and "\<And>h req code b. hrPurpose req = pu \<Longrightarrow> httpDo env h req = Inr (code, b) \<Longrightarrow> \<exists>x. decode b = Inr x \<and> P x"
  obtains x code b where "fullDo env st base pu verb path body decode = (st\<lparr>dcalls := dcalls st @
      [Http \<lparr>hrPurpose = pu, hrMethod = verb, hrURL = base @ path, hrBody = (case body of Some (Inr b) \<Rightarrow> Some b | _ \<Rightarrow> None)\<rparr> (Inr (code, b))]\<rparr>, Inr x)"
    "decode b = Inr x" "P x" "200 \<le> code" "code < 300"
proof -
  let ?req = "\<lparr>hrPurpose = pu, hrMethod = verb, hrURL = base @ path, hrBody = (case body of Some (Inr b) \<Rightarrow> Some b | _ \<Rightarrow> None)\<rparr>"
  obtain code b where call: "httpDo env (dcalls st) ?req = Inr (code, b)" "200 \<le> code" "code < 300"
    using assms(1) unfolding obliging_def by metis
  obtain x where x: "decode b = Inr x" "P x" using assms(3) [OF _ call(1)] by auto
  have url: "urlParse env u = None" for u using assms(1) by (simp add: obliging_def)
  from assms(2) call x url
  have "doHTTP env st pu verb (base @ path) body decode = (st\<lparr>dcalls := dcalls st @ [Http ?req (Inr (code, b))]\<rparr>, code, Inr x)"
    by (cases body) (auto simp: doHTTP_def Let_def)
  then have "fullDo env st base pu verb path body decode = (st\<lparr>dcalls := dcalls st @ [Http ?req (Inr (code, b))]\<rparr>, Inr x)"
    using url call(3) by (simp add: fullDo_def)
  with that x call(2,3) show thesis by blast
qed

text \<open>
  The calls show that an instance is in a launcher: the launcher lists it and not as stopped, or it has accepted to create it with
  its configuration.
\<close>

definition instanceIn :: "dpEnv \<Rightarrow> pod \<Rightarrow> string \<Rightarrow> vllmConfig \<Rightarrow> dpCall list \<Rightarrow> bool" where
  "instanceIn env p i cfg cs \<longleftrightarrow>
     (\<exists>req code body all inst. Http req (Inr (code, body)) \<in> set cs \<and> hrMethod req = ''GET'' \<and> hrURL req = launcherBaseURL p @ instancesPath \<and>
        decodeAllInstances env body = Inr all \<and> inst \<in> set (Instances all) \<and> instID inst = i \<and> \<not> isStopped inst) \<or>
     (\<exists>req code body json. Http req (Inr (code, body)) \<in> set cs \<and> hrMethod req = ''PUT'' \<and> hrURL req = launcherBaseURL p @ instancesPath @ ''/'' @ i \<and>
        encodeVllmConfig env cfg = Inr json \<and> hrBody req = Some json \<and> 200 \<le> code \<and> code < 300)"

lemma instanceIn_more: "instanceIn env p i cfg cs \<Longrightarrow> set cs \<subseteq> set ds \<Longrightarrow> instanceIn env p i cfg ds"
  unfolding instanceIn_def by blast

lemma find_listed: "findInstanceState insts i \<noteq> None \<Longrightarrow> \<exists>inst \<in> set insts. instID inst = i"
  by (induction insts) (auto split: if_splits)

lemma obliged_sync:
  assumes "launcherObliging env wanted" "PodIP (Status p) \<noteq> []" "IsPodReady p"
  shows "\<exists>st1 res cs. syncLauncherInstances env st nn (Some uid) p = (st1, Synced res) \<and> sameServer nn uid st st1 \<and> wanted \<notin> lsStopped res \<and>
    dcalls st1 = dcalls st @ cs \<and> (findInstanceState (Instances (lsInstances res)) wanted \<noteq> None \<longrightarrow> instanceIn env p wanted cfg cs)"
proof -
  have ob: "obliging env" using assms(1) by (simp add: launcherObliging_def)
  then have client: "NewLauncherClient env u = Inr u" for u by (simp add: NewLauncherClient_def obliging_def)
  let ?req = "\<lparr>hrPurpose = ''list_instances'', hrMethod = ''GET'', hrURL = launcherBaseURL p @ instancesPath, hrBody = None\<rparr>"
  obtain all code b where list: "ListInstances env st (launcherBaseURL p) = (st\<lparr>dcalls := dcalls st @ [Http ?req (Inr (code, b))]\<rparr>, Inr all)"
    "decodeAllInstances env b = Inr all" "\<forall>i \<in> set (Instances all). instID i = wanted \<longrightarrow> \<not> isStopped i"
    unfolding ListInstances_def
    by (rule obliged_full [OF ob, where pu = "''list_instances''" and body = None and decode = "decodeAllInstances env"
          and P = "\<lambda>all. \<forall>i \<in> set (Instances all). instID i = wanted \<longrightarrow> \<not> isStopped i"])
      (use assms(1) in \<open>auto simp: launcherObliging_def\<close>)
  define st2 where "st2 = getLauncherData (st\<lparr>dcalls := dcalls st @ [Http ?req (Inr (code, b))]\<rparr>) nn (Name p)"
  define acc where "acc = \<lparr>saInstances = [], saRemaining = [], saStopped = {}, saRunning = 0\<rparr>"
  define sync where "sync = syncInstances env nn (Some uid) (launcherBaseURL p) (boundInstanceIDs st2 nn (Name p)) (lastUsedOf st2 nn (Name p)) (Instances all) st2 acc"
  have "\<exists>cs. dcalls (fst sync) = dcalls st2 @ cs"
    unfolding sync_def by (rule follows_grows [OF lw.lenient_syncInstances [OF follows_refl]])
  then obtain cs where "dcalls (fst sync) = dcalls st2 @ cs" by blast
  then have cs: "dcalls (fst sync) = dcalls st @ Http ?req (Inr (code, b)) # cs" by (simp add: st2_def)
  let ?res = "\<lparr>lsInstances = \<lparr>TotalInstances = int (length (saRemaining (snd sync))), RunningInstances = saRunning (snd sync),
      Instances = saRemaining (snd sync)\<rparr>, lsStopped = saStopped (snd sync)\<rparr>"
  have eq: "syncLauncherInstances env st nn (Some uid) p =
      (modLauncher nn (Name p) (\<lambda>ld. ld\<lparr>LastUsed := saInstances (snd sync), Accurate := True\<rparr>) (fst sync), Synced ?res)"
    using assms(2,3) by (simp add: syncLauncherInstances_def client list(1) Let_def split_beta st2_def acc_def sync_def)
  have rem: "saRemaining (snd sync) = filter (\<lambda>i. \<not> isStopped i) (Instances all)" "wanted \<notin> saStopped (snd sync)"
    using list(3) by (auto simp: sync_def acc_def syncInstances_sorts)
  have "instanceIn env p wanted cfg (Http ?req (Inr (code, b)) # cs)" if "findInstanceState (saRemaining (snd sync)) wanted \<noteq> None"
    using find_listed [OF that] list(2) unfolding rem instanceIn_def by (intro disjI1 exI [of _ ?req]) auto
  with eq cs rem(2) syncLauncher_same [of nn uid st env p] show ?thesis by auto
qed

text \<open>The instance is there afterwards: the launcher lists it, or has just accepted to create it.\<close>

lemma obliged_instance:
  assumes "launcherObliging env (InstanceID (serverOf st nn uid))" "PodIP (Status p) \<noteq> []" "IsPodReady p"
    and "InstanceConfig (serverOf st nn uid) = Some cfg" "\<not> InstanceKnownToExist (serverOf st nn uid)"
  shows "\<exists>st1 cs. ensureInstance env st nn uid r p = (st1, Inr ()) \<and> InstanceKnownToExist (serverOf st1 nn uid) \<and>
    LabelsApplied (serverOf st1 nn uid) = LabelsApplied (serverOf st nn uid) \<and> InstanceISCLabels (serverOf st1 nn uid) = InstanceISCLabels (serverOf st nn uid) \<and>
    InstanceISCAnnotations (serverOf st1 nn uid) = InstanceISCAnnotations (serverOf st nn uid) \<and>
    Sleeping (serverOf st1 nn uid) = Sleeping (serverOf st nn uid) \<and> ReadinessRelayed (serverOf st1 nn uid) = ReadinessRelayed (serverOf st nn uid) \<and>
    dcalls st1 = dcalls st @ cs \<and> instanceIn env p (InstanceID (serverOf st nn uid)) cfg cs"
proof -
  let ?sd = "serverOf st nn uid" and ?i = "InstanceID (serverOf st nn uid)"
  obtain st1 res cs where sync: "syncLauncherInstances env st nn (Some uid) p = (st1, Synced res)" "sameServer nn uid st st1"
    "?i \<notin> lsStopped res" "dcalls st1 = dcalls st @ cs" "findInstanceState (Instances (lsInstances res)) ?i \<noteq> None \<longrightarrow> instanceIn env p ?i cfg cs"
    using obliged_sync [OF assms(1-3)] by blast
  from sync(2) obtain del where st1: "serverOf st1 nn uid = ?sd\<lparr>InstancesDeleted := del\<rparr>" by (auto simp: sameServer_def)
  have ob: "obliging env" using assms(1) by (simp add: launcherObliging_def)
  then have client: "NewLauncherClient env u = Inr u" for u by (simp add: NewLauncherClient_def obliging_def)
  let ?st2 = "modServer nn uid (\<lambda>sd. sd\<lparr>NeededNewInstance := True\<rparr>) st1"
  obtain json where json: "encodeVllmConfig env cfg = Inr json" using assms(1) unfolding launcherObliging_def by blast
  let ?req = "\<lparr>hrPurpose = ''create_instance'', hrMethod = ''PUT'', hrURL = launcherBaseURL p @ instancesPath @ ''/'' @ ?i, hrBody = Some json\<rparr>"
  obtain x code b where create: "CreateNamedInstance env ?st2 (launcherBaseURL p) ?i cfg = (?st2\<lparr>dcalls := dcalls ?st2 @ [Http ?req (Inr (code, b))]\<rparr>, Inr x)"
    "200 \<le> code" "code < 300"
    unfolding CreateNamedInstance_def createInst_def json
    by (rule obliged_full [OF ob, where st = ?st2 and base = "launcherBaseURL p" and verb = "''PUT''" and path = "instancesPath @ ''/'' @ ?i"
          and pu = "''create_instance''" and body = "Some (Inr json)" and decode = "decodeActionResult env" and P = "\<lambda>_. True"])
      (use assms(1) in \<open>auto simp: launcherObliging_def\<close>)
  show ?thesis
  proof (cases "findInstanceState (Instances (lsInstances res)) ?i")
    case None
    have "instanceIn env p ?i cfg (cs @ [Http ?req (Inr (code, b))])"
      unfolding instanceIn_def using json create(2,3) by (intro disjI2 exI [of _ ?req]) auto
    with None sync(1,3,4) assms(2-5) show ?thesis by (simp add: ensureInstance_def st1 client create Let_def)
  next
    case (Some i)
    with sync(1,3-5) assms(2,3) show ?thesis by (simp add: ensureInstance_def st1 Let_def)
  qed
qed

text \<open>What the controller knows of a server that has just been bound to a launcher for the instance \<open>d\<close>.\<close>

definition committed :: "vllmInstanceState \<Rightarrow> serverData \<Rightarrow> bool" where
  "committed d sd \<longleftrightarrow> GPUIDsStr sd \<noteq> None \<and> InstanceID sd = visInstanceID d \<and> InstanceConfig sd = Some (visCfg d) \<and>
     InstanceISCLabels sd = visIscLabels d \<and> InstanceISCAnnotations sd = visIscAnnotations d \<and> \<not> InstanceKnownToExist sd \<and>
     \<not> LabelsApplied sd \<and> \<not> RequesterDeleteRequested sd \<and> Sleeping sd = None \<and> ReadinessRelayed sd = None \<and> ServerPort sd = visServerPort d"

lemma committed_begun:
  assumes "committed d (serverOf st nn uid)"
  shows "committed d (serverOf (getServerData st nn rn uid) nn uid)"
proof -
  have "mget (InferenceServers (nodeOf st nn)) uid \<noteq> None"
    using assms by (auto simp: committed_def serverOf_def newServerData_def split: option.splits)
  with assms show ?thesis by (auto simp: serverOf_getServerData)
qed

lemma launcher_served:
  assumes "launcherObliging env (visInstanceID d)" "debugAccelMemory env \<longrightarrow> (\<forall>s. snd (accelMemoryIsLowEnough env s nn uid r) = None)"
    and live: "livingRequester env rn r node" "Annotations r InferenceServerConfigAnnotationName \<noteq> None"
    and p: "byIndex env requesterIndexFunc uid = [p]" "DeletionTimestamp p = None" "requesterFinalizer \<in> set (Finalizers r) \<longrightarrow> running p"
      "PodIP (Status p) \<noteq> []" "IsPodReady p"
    and fit: "validateISCRoutingMetadata env (p\<lparr>Labels := MapSet (Labels p) SleepingLabelName ''false''\<rparr>) (visIscLabels d) (visIscAnnotations d) = []"
    and sd: "committed d (serverOf st nn uid)" "visInstanceID d \<noteq> []"
  shows "\<exists>st1 cs. infSvrItem_process env st nn uid rn = (st1, prDone) \<and> dcalls st1 = dcalls st @ cs \<and>
    instanceIn env p (visInstanceID d) (visCfg d) cs \<and> awakeAfter env p (visServerPort d) None cs \<and>
    routedAwake p (visIscLabels d) (visIscAnnotations d) cs \<and> relayedBy r True None cs \<and> InstanceKnownToExist (serverOf st1 nn uid) \<and>
    Sleeping (serverOf st1 nn uid) = Some False \<and> LabelsApplied (serverOf st1 nn uid) \<and> ReadinessRelayed (serverOf st1 nn uid) = Some True"
proof -
  define s where "s = modServer nn uid (\<lambda>sd. sd\<lparr>ProvidingPodName := Name p\<rparr>) (getServerData st nn rn uid)"
  have s: "committed d (serverOf s nn uid)" using committed_begun [OF sd(1)] by (simp add: s_def committed_def)
  obtain addF where fin: "maybeRemoveRequesterFinalizer env s r (Some p) = (s, Inr (False, addF))" using no_finalizer_removed [OF p(3)] by blast
  define s1 where "s1 = assertDuality env nn uid (ndNodeName (nodeOf s nn)) (modServer nn uid (\<lambda>_. serverOf s nn uid) s)"
  have s1: "committed d (serverOf s1 nn uid)" "dcalls s1 = dcalls st" using s by (simp_all add: s1_def committed_def) (simp add: s_def)
  obtain s2 cs2 where s2: "ensureInstance env s1 nn uid r p = (s2, Inr ())" "InstanceKnownToExist (serverOf s2 nn uid)"
    "\<not> LabelsApplied (serverOf s2 nn uid)" "InstanceISCLabels (serverOf s2 nn uid) = visIscLabels d"
    "InstanceISCAnnotations (serverOf s2 nn uid) = visIscAnnotations d" "Sleeping (serverOf s2 nn uid) = None"
    "ReadinessRelayed (serverOf s2 nn uid) = None" "dcalls s2 = dcalls s1 @ cs2" "instanceIn env p (visInstanceID d) (visCfg d) cs2"
    using obliged_instance [of env s1 nn uid p "visCfg d" r] assms(1) p(4,5) s1(1) by (auto simp: committed_def)
  have port: "ServerPort (serverOf s nn uid) = visServerPort d" using s by (simp add: committed_def)
  have "True \<longrightarrow> labelsFit env (serverOf s2 nn uid) p" using fit s2(3-5) by (simp add: labelsFit_def)
  then obtain st1 cs3 where serve: "serveBound env s2 nn uid r p True (ServerPort (serverOf s nn uid)) addF = (st1, prDone)" "dcalls st1 = dcalls s2 @ cs3"
    "awakeAfter env p (visServerPort d) None cs3" "relayedBy r True None cs3" "routedAwake p (visIscLabels d) (visIscAnnotations d) cs3"
    "Sleeping (serverOf st1 nn uid) = Some False" "ReadinessRelayed (serverOf st1 nn uid) = Some True" "LabelsApplied (serverOf st1 nn uid)"
    "InstanceKnownToExist (serverOf st1 nn uid) = InstanceKnownToExist (serverOf s2 nn uid)"
    using obliged_serve [OF _ assms(2), of True s2 p "ServerPort (serverOf s nn uid)" addF] assms(1) s2(3-7) port by (auto simp: launcherObliging_def)
  have "processLive env s nn uid r (Some p) addF = (st1, prDone)"
    using live s sd(2) serve(1) s2(1)
    by (simp add: processLive_def livingRequester_def fetchGPUs_def committed_def processBound_def recoverInstanceStateFromLauncherPod_def flip: s1_def)
  then have "processPair env s nn uid (Some r) (Some p) = (st1, prDone)"
    using live p(2) s by (simp add: processPair_def fin livingRequester_def committed_def)
  then have "infSvrItem_process env st nn uid rn = (st1, prDone)"
    using live p(1) by (simp add: infSvrItem_process_def infSvrPods_def livingRequester_def flip: s_def)
  moreover have "dcalls st1 = dcalls st @ (cs2 @ cs3)" using serve(2) s2(8) s1(2) by simp
  moreover have "instanceIn env p (visInstanceID d) (visCfg d) (cs2 @ cs3)" by (rule instanceIn_more [OF s2(9)]) simp
  moreover have "awakeAfter env p (visServerPort d) None (cs2 @ cs3)" by (rule shown_more(2) [OF serve(3)]) simp
  moreover have "routedAwake p (visIscLabels d) (visIscAnnotations d) (cs2 @ cs3)" by (rule shown_more(5) [OF serve(5)]) simp
  moreover have "relayedBy r True None (cs2 @ cs3)" by (rule shown_more(3) [OF serve(4)]) simp
  ultimately show ?thesis using serve(6-9) s2(2) by blast
qed

subsection \<open>A launcher for a new requester\<close>

text \<open>
  There is a launcher, or room for one: the GPUs of the requester can be learnt, the InferenceServerConfig and LauncherConfig that it
  refers to exist and ask for the instance \<open>d\<close>, and, of the launchers of that make, one is selected or none is there; the
  Pod that is selected or to be created takes the metadata of the instance.
\<close>

definition roomForInstance :: "dpEnv \<Rightarrow> dpState \<Rightarrow> string \<Rightarrow> string \<Rightarrow> pod \<Rightarrow> vllmInstanceState \<Rightarrow> bool" where
  "roomForInstance env st nn uid r d \<longleftrightarrow>
     (case fetchGPUs env st nn uid r True of
        (s, Inl _) \<Rightarrow> False
      | (s, Inr _) \<Rightarrow>
     (case iscGet env (annot r InferenceServerConfigAnnotationName) of
        Inl _ \<Rightarrow> False
      | Inr isc \<Rightarrow> computeDesiredInstanceState env isc (GPUIDs (serverOf s nn uid)) = Inr d \<and>
     (case lcGetD env (LauncherConfigName isc) of
        Inl _ \<Rightarrow> False
      | Inr lc \<Rightarrow>
     (case BuildNodeIndependentLauncherTemplate (marshalPod env) (sha256std env) lc of
        Inl _ \<Rightarrow> False
      | Inr (nodeIndependent, _) \<Rightarrow>
          (let desired = SpecializeLauncherTemplateToNode (sha256std env) nodeIndependent (NodeName (Spec r));
               launchers = byIndex env launcherConfigHashIndexFunc (annot desired LauncherConfigHashAnnotationKey)
           in if launchers = [] then \<exists>q. newLauncherPod env r desired d = Inr q
              else (case snd (selectOrReclaimLauncherPod env s nn uid launchers (visInstanceID d) (visServerPort d) (MaxInstances lc - 1)) of
                      Selected p _ \<Rightarrow> \<exists>q. applyControllerMetadataToLauncherPod env (boundPod r p) d = Inr q
                    | _ \<Rightarrow> False))))))"

lemma instance_noted:
  "applyControllerMetadataToLauncherPod env p d = Inr q \<Longrightarrow> Annotations q launcherInstanceIDAnnotationKey = Some (visInstanceID d)"
  "newLauncherPod env r p d = Inr q \<Longrightarrow> Annotations q launcherInstanceIDAnnotationKey = Some (visInstanceID d)"
  by (auto simp: newLauncherPod_def applyControllerMetadataToLauncherPod_def MapSet_def Let_def binding_name_defs split: if_splits sum.splits)

text \<open>A launcher that is bound, or created bound, to a requester whose server is fresh.\<close>

definition bindsLauncher :: "pod \<Rightarrow> vllmInstanceState \<Rightarrow> dpState \<Rightarrow> bool" where
  "bindsLauncher r d st \<longleftrightarrow> (\<exists>q echo. (UpdatePod q (Inr echo) \<in> set (dcalls st) \<or> CreatePodD q (Inr echo) \<in> set (dcalls st)) \<and> carries r q \<and>
     Annotations q launcherInstanceIDAnnotationKey = Some (visInstanceID d))"

lemma binds_prefix: "bindsLauncher r d st \<Longrightarrow> prefix (dcalls st) (dcalls st') \<Longrightarrow> bindsLauncher r d st'"
  unfolding bindsLauncher_def using set_mono_prefix by blast

definition fresh :: "serverData \<Rightarrow> bool" where
  "fresh sd \<longleftrightarrow> GPUIDsStr sd \<noteq> None \<and> \<not> InstanceKnownToExist sd \<and> \<not> LabelsApplied sd \<and> \<not> RequesterDeleteRequested sd \<and> ReadinessRelayed sd = None"

lemma obliged_bind:
  assumes "obliging env" "applyControllerMetadataToLauncherPod env (boundPod r p) d = Inr q" "fresh (serverOf st nn uid)"
  shows "\<exists>st1. bind env st nn uid r p (Some d) True = (st1, prDone) \<and> bindsLauncher r d st1 \<and> committed d (serverOf st1 nn uid)"
proof -
  let ?st0 = "modServer nn uid (\<lambda>sd. sd\<lparr>Sleeping := None\<rparr>) st"
  obtain echo where echo: "podUpdateD env (dcalls ?st0) q = Inr echo" using assms(1) unfolding obliging_def by blast
  define st1 where "st1 = ?st0\<lparr>dcalls := dcalls ?st0 @ [UpdatePod q (Inr echo)]\<rparr>"
  define st3 where "st3 = assertDuality env nn uid (NodeName (Spec r)) (modServer nn uid (\<lambda>sd. commitInstanceState sd d)
      (modServer nn uid (\<lambda>sd. sd\<lparr>ProvidingPodName := Name q\<rparr>) st1))"
  obtain st' where report: "ensureReqState env st3 nn uid r (requesterFinalizer \<notin> set (Finalizers r)) False [] = (st', prDone)"
    "nodeNameToData st' = nodeNameToData st3" "prefix (dcalls st3) (dcalls st')" using obliged_report [OF assms(1)] by blast
  have upd: "updatePod env ?st0 q = (st1, Inr echo)" using echo by (simp add: updatePod_def st1_def Let_def)
  have "bind env st nn uid r p (Some d) True = (st', prDone)"
    using report(1) by (simp add: bind_def assms(2) upd Let_def flip: st3_def)
  moreover have "bindsLauncher r d st3"
    using carries_applied [OF assms(2) carries_bound] instance_noted(1) [OF assms(2)] by (auto simp: bindsLauncher_def st3_def st1_def)
  then have "bindsLauncher r d st'" by (rule binds_prefix [OF _ report(3)])
  moreover have "committed d (serverOf st' nn uid)"
    using assms(3) serverOf_same [OF report(2)] by (simp add: st3_def st1_def committed_def fresh_def commitInstanceState_def)
  ultimately show ?thesis by blast
qed

lemma obliged_create:
  assumes "obliging env" "newLauncherPod env r p d = Inr q" "fresh (serverOf st nn uid)"
  shows "\<exists>st1. createLauncher env st nn uid r p d = (st1, prDone) \<and> bindsLauncher r d st1 \<and> committed d (serverOf st1 nn uid)"
proof -
  let ?st0 = "modServer nn uid (\<lambda>sd. sd\<lparr>NeededNewLauncher := True\<rparr>) st"
  obtain echo where echo: "podCreateD env (dcalls ?st0) q = Inr echo" using assms(1) unfolding obliging_def by blast
  define st1 where "st1 = ?st0\<lparr>dcalls := dcalls ?st0 @ [CreatePodD q (Inr echo)]\<rparr>"
  define st3 where "st3 = assertDuality env nn uid (ndNodeName (nodeOf st1 nn))
      (modServer nn uid (\<lambda>sd. (commitInstanceState (sd\<lparr>Sleeping := None\<rparr>) d)\<lparr>ProvidingPodName := Name echo\<rparr>) st1)"
  obtain st' where report: "ensureReqStatus env st3 nn uid r [] = (st', prDone)"
    "nodeNameToData st' = nodeNameToData st3" "prefix (dcalls st3) (dcalls st')"
    using obliged_report [OF assms(1)] unfolding ensureReqStatus_def by blast
  have new: "createPod env ?st0 q = (st1, Inr echo)" using echo by (simp add: createPod_def st1_def Let_def)
  have "createLauncher env st nn uid r p d = (st', prDone)"
    using report(1) by (simp add: createLauncher_def assms(2) new Let_def flip: st3_def)
  moreover have "bindsLauncher r d st3"
    using carries_newLauncher [OF assms(2)] instance_noted(2) [OF assms(2)] by (auto simp: bindsLauncher_def st3_def st1_def)
  then have "bindsLauncher r d st'" by (rule binds_prefix [OF _ report(3)])
  moreover have "committed d (serverOf st' nn uid)"
    using assms(3) serverOf_same [OF report(2)] by (simp add: st3_def st1_def committed_def fresh_def commitInstanceState_def)
  ultimately show ?thesis by blast
qed

lemma fetched_fresh:
  assumes "fetchGPUs env s nn uid r True = (s', Inr x)" "serverOf s nn uid = newServerData rn"
  shows "fresh (serverOf s' nn uid)"
  using assms
  by (auto simp: fetchGPUs_def fresh_def newServerData_def Let_def dest!: getGPUUUIDs_same [where nn = nn and uid = uid] split: if_splits sum.splits prod.splits)

lemma fresh_same: "sameServer nn uid st st' \<Longrightarrow> fresh (serverOf st nn uid) \<Longrightarrow> fresh (serverOf st' nn uid)"
  by (auto simp: sameServer_def fresh_def)

lemma launcher_provided:
  assumes "obliging env" "fetchGPUs env st nn uid r True = (s, Inr x)" "fresh (serverOf s nn uid)" "roomForInstance env st nn uid r d"
  shows "\<exists>isc st1. iscGet env (annot r InferenceServerConfigAnnotationName) = Inr isc \<and>
    computeDesiredInstanceState env isc (GPUIDs (serverOf s nn uid)) = Inr d \<and>
    provideLauncherBased env s nn uid r isc d = (st1, prDone) \<and> bindsLauncher r d st1 \<and> committed d (serverOf st1 nn uid)"
proof -
  obtain isc lc tmpl h where get: "iscGet env (annot r InferenceServerConfigAnnotationName) = Inr isc"
    "computeDesiredInstanceState env isc (GPUIDs (serverOf s nn uid)) = Inr d" "lcGetD env (LauncherConfigName isc) = Inr lc"
    "BuildNodeIndependentLauncherTemplate (marshalPod env) (sha256std env) lc = Inr (tmpl, h)"
    using assms(4) by (auto simp: roomForInstance_def assms(2) split: sum.splits prod.splits)
  define desired where "desired = SpecializeLauncherTemplateToNode (sha256std env) tmpl (NodeName (Spec r))"
  define ls where "ls = byIndex env launcherConfigHashIndexFunc (annot desired LauncherConfigHashAnnotationKey)"
  obtain s1 res where sel: "selectOrReclaimLauncherPod env s nn uid ls (visInstanceID d) (visServerPort d) (MaxInstances lc - 1) = (s1, res)"
    by (rule prod.exhaust)
  have room: "if ls = [] then \<exists>q. newLauncherPod env r desired d = Inr q
      else (case res of Selected p _ \<Rightarrow> \<exists>q. applyControllerMetadataToLauncherPod env (boundPod r p) d = Inr q | _ \<Rightarrow> False)"
    using assms(4) unfolding roomForInstance_def assms(2) get Let_def prod.case sum.case
    unfolding desired_def [symmetric] ls_def [symmetric] sel snd_conv by blast
  have provide: "provideLauncherBased env s nn uid r isc d =
      (case (if ls = [] then (s, SelectNone) else (s1, res)) of
         (st1, SelectFailed err) \<Rightarrow> (st1, prRetryErr err) | (st1, SelectPanics) \<Rightarrow> (st1, prError (GoPanic ''index out of range''))
       | (st1, SelectRetry) \<Rightarrow> (st1, prRetryOnly) | (st1, Selected p _) \<Rightarrow> bind env st1 nn uid r p (Some d) True
       | (st1, SelectNone) \<Rightarrow> createLauncher env st1 nn uid r desired d)"
    by (simp add: provideLauncherBased_def get Let_def sel flip: desired_def ls_def)
  have "\<exists>st1. provideLauncherBased env s nn uid r isc d = (st1, prDone) \<and> bindsLauncher r d st1 \<and> committed d (serverOf st1 nn uid)"
  proof (cases "ls = []")
    case True
    then show ?thesis using room obliged_create [OF assms(1) _ assms(3)] by (auto simp: provide)
  next
    case False
    with room obtain p b q where "res = Selected p b" "applyControllerMetadataToLauncherPod env (boundPod r p) d = Inr q"
      by (auto split: selectResult.splits)
    moreover have "fresh (serverOf s1 nn uid)"
      using fresh_same [OF select_same assms(3), of env ls "visInstanceID d" "visServerPort d" "MaxInstances lc - 1"] by (simp add: sel)
    ultimately show ?thesis using False obliged_bind [OF assms(1)] by (simp add: provide)
  qed
  with get show ?thesis by blast
qed

lemma launcher_given:
  assumes "obliging env" and live: "livingRequester env rn r node" "annot r InferenceServerConfigAnnotationName \<noteq> []" "\<not> Unschedulable node"
    and none: "byIndex env requesterIndexFunc uid = []" "requesterFinalizer \<notin> set (Finalizers r)"
    and new: "mget (InferenceServers (nodeOf st nn)) uid = None"
    and room: "roomForInstance env (getServerData st nn rn uid) nn uid r d"
  shows "\<exists>st1. infSvrItem_process env st nn uid rn = (st1, prDone) \<and> bindsLauncher r d st1 \<and> committed d (serverOf st1 nn uid) \<and> visInstanceID d \<noteq> []"
proof -
  define s where "s = getServerData st nn rn uid"
  have s: "serverOf s nn uid = newServerData rn" using new by (simp add: s_def serverOf_getServerData)
  obtain s1 x where fetch: "fetchGPUs env s nn uid r True = (s1, Inr x)"
    using room unfolding roomForInstance_def s_def by (auto split: prod.splits sum.splits)
  obtain isc st1 where given: "iscGet env (annot r InferenceServerConfigAnnotationName) = Inr isc"
    "computeDesiredInstanceState env isc (GPUIDs (serverOf s1 nn uid)) = Inr d"
    "provideLauncherBased env s1 nn uid r isc d = (st1, prDone)" "bindsLauncher r d st1" "committed d (serverOf st1 nn uid)"
    using launcher_provided [OF assms(1) fetch fetched_fresh [OF fetch s] room [folded s_def]] by blast
  have "maybeRemoveRequesterFinalizer env s r None = (s, Inr (False, False))"
    using none(2) slices_Index_neg_iff [of "Finalizers r" requesterFinalizer] by (simp add: maybeRemoveRequesterFinalizer_def Let_def not_le)
  moreover have "\<not> RequesterDeleteRequested (serverOf s nn uid)" by (simp add: s newServerData_def)
  moreover have "Annotations r InferenceServerConfigAnnotationName \<noteq> None" using live(2) by (auto simp: annot_def split: option.splits)
  ultimately have "infSvrItem_process env st nn uid rn = (st1, prDone)"
    using live none(1) fetch given(1-3)
    by (simp add: infSvrItem_process_def infSvrPods_def processPair_def processLive_def livingRequester_def flip: s_def)
  moreover have "visInstanceID d \<noteq> []"
    using given(2) by (auto simp: computeDesiredInstanceState_def configInferenceServer_def Let_def split: sum.splits)
  ultimately show ?thesis using given(4,5) by blast
qed

subsection \<open>Properties\<close>

text \<open>
  C11: a requester that names an InferenceServerConfig gets its server.  In a world that obliges, where a launcher can be selected or
  created, the first run for a new requester binds a launcher to it, for the instance that the InferenceServerConfig asks for.
  Once the cache shows that launcher, ready and bound, and the instance's routing labels and annotations are valid for it
  and new to it, the next run ends with nothing left to do, and its calls show that the instance is in the launcher (it
  lists it as not stopped, or it accepted to create it with the configuration asked for), that it is awake (it said so at its
  port, or accepted to wake up), that the Pod was updated to carry the routing labels and annotations and a sleeping
  label that says \<^verbatim>\<open>false\<close>, and that the requester was told that it is ready, or shows that it is.
\<close>

theorem launcher_requester_is_served:
  assumes "obliging env1" "livingRequester env1 rn r node" "annot r InferenceServerConfigAnnotationName \<noteq> []" "\<not> Unschedulable node"
    and "byIndex env1 requesterIndexFunc uid = []" "requesterFinalizer \<notin> set (Finalizers r)"
    and "mget (InferenceServers (nodeOf st nn)) uid = None" "roomForInstance env1 (getServerData st nn rn uid) nn uid r d"
    and "launcherObliging env2 (visInstanceID d)" "debugAccelMemory env2 \<longrightarrow> (\<forall>s. snd (accelMemoryIsLowEnough env2 s nn uid r') = None)"
    and "livingRequester env2 rn r' node'" "Annotations r' InferenceServerConfigAnnotationName \<noteq> None"
    and "byIndex env2 requesterIndexFunc uid = [p]" "DeletionTimestamp p = None" "requesterFinalizer \<in> set (Finalizers r') \<longrightarrow> running p"
    and "PodIP (Status p) \<noteq> []" "IsPodReady p"
    and "validateISCRoutingMetadata env2 (p\<lparr>Labels := MapSet (Labels p) SleepingLabelName ''false''\<rparr>) (visIscLabels d) (visIscAnnotations d) = []"
  shows "\<exists>st1 st2 cs. infSvrItem_process env1 st nn uid rn = (st1, prDone) \<and> bindsLauncher r d st1 \<and>
    infSvrItem_process env2 st1 nn uid rn = (st2, prDone) \<and> dcalls st2 = dcalls st1 @ cs \<and>
    instanceIn env2 p (visInstanceID d) (visCfg d) cs \<and> awakeAfter env2 p (visServerPort d) None cs \<and>
    routedAwake p (visIscLabels d) (visIscAnnotations d) cs \<and> relayedBy r' True None cs \<and> InstanceKnownToExist (serverOf st2 nn uid) \<and>
    Sleeping (serverOf st2 nn uid) = Some False \<and> LabelsApplied (serverOf st2 nn uid) \<and> ReadinessRelayed (serverOf st2 nn uid) = Some True"
proof -
  obtain st1 where st1: "infSvrItem_process env1 st nn uid rn = (st1, prDone)" "bindsLauncher r d st1" "committed d (serverOf st1 nn uid)"
    "visInstanceID d \<noteq> []" using launcher_given [OF assms(1-8)] by blast
  from launcher_served [OF assms(9-18) st1(3,4)] st1(1,2) show ?thesis by blast
qed

text \<open>A requester, first without launcher, then with one that is ready and has no instance yet.\<close>

definition launcherRequester :: pod where
  "launcherRequester = exampleRequester\<lparr>Status := blankPodStatus\<lparr>PodIP := ''10.0.0.2''\<rparr>\<rparr>"

definition boundLauncher :: pod where
  "boundLauncher = boundPod launcherRequester exampleLauncher"

definition launcherlessEnv :: dpEnv where
  "launcherlessEnv = (dpExampleEnv [launcherRequester])\<lparr>iscGet := (\<lambda>_. Inr exampleISC), lcGetD := (\<lambda>_. Inr exampleLC)\<rparr>"

lemma launcherRequester_fields [simp]:
  "Name launcherRequester = ''r1''" "DeletionTimestamp launcherRequester = None" "Finalizers launcherRequester = []"
  "NodeName (Spec launcherRequester) = ''n1''" "PodIP (Status launcherRequester) = ''10.0.0.2''"
  "annot launcherRequester InferenceServerConfigAnnotationName = ''isc1''" "Annotations launcherRequester InferenceServerConfigAnnotationName = Some ''isc1''"
  "requesterIndexFunc launcherRequester = []" "launcherConfigHashIndexFunc launcherRequester = []"
  by (simp_all add: launcherRequester_def exampleRequester_def blank_defs annot_def shared_name_defs requesterIndexFunc_def careAbout_def
      launcherConfigHashIndexFunc_def)

lemma boundLauncher_fields [simp]:
  "Name boundLauncher = ''l1''" "DeletionTimestamp boundLauncher = None" "Status boundLauncher = Status exampleLauncher" "requesterIndexFunc boundLauncher = [''u1'']"
  by (simp_all add: boundLauncher_def boundPod_def launcherRequester_def exampleRequester_def exampleLauncher_def blank_defs requesterIndexFunc_def
      careAbout_def annot_def MapSet_def shared_name_defs Let_def strings_Split_append)

lemma launcherless_fields:
  "podCache launcherlessEnv = [launcherRequester]" "podGet launcherlessEnv ''r1'' = Inr launcherRequester" "nodeGetD launcherlessEnv n = Inr (blankNode\<lparr>Name := n\<rparr>)"
  "iscGet launcherlessEnv n = Inr exampleISC" "lcGetD launcherlessEnv n = Inr exampleLC" "obliging launcherlessEnv"
  "launcherObliging (dpExampleEnv ps) wanted"
  by (simp_all add: launcherlessEnv_def launcherObliging_def obliging_def) (auto simp: dpExampleEnv_def)

lemma launcherless_room:
  "\<exists>d. roomForInstance launcherlessEnv (getServerData dpExampleState ''n1'' ''r1'' ''u1'') ''n1'' ''u1'' launcherRequester d \<and>
     visIscLabels d = [] \<and> visIscAnnotations d = []"
proof -
  let ?env = launcherlessEnv
  have new: "serverOf (getServerData dpExampleState ''n1'' ''r1'' ''u1'') ''n1'' ''u1'' = newServerData ''r1''"
    by (simp add: serverOf_getServerData dpExampleState_def nodeOf_def newNodeData_def)
  have codecs: "yamlModelServerConfig ?env m = Inr ''yaml''" "encodeVllmConfig ?env c = Inr ''cfg''" "encodeRouting ?env i = Inr ''routing''" for m c i
    by (simp_all add: launcherlessEnv_def dpExampleEnv_def)
  obtain s where s: "fetchGPUs ?env (getServerData dpExampleState ''n1'' ''r1'' ''u1'') ''n1'' ''u1'' launcherRequester True = (s, Inr ())"
    by (simp add: fetchGPUs_def new newServerData_def getGPUUUIDs_def doHTTP_def launcherlessEnv_def dpExampleEnv_def Let_def)
  obtain d where d: "computeDesiredInstanceState ?env exampleISC (GPUIDs (serverOf s ''n1'' ''u1'')) = Inr d" "visIscLabels d = []" "visIscAnnotations d = []"
    by (simp add: computeDesiredInstanceState_def configInferenceServer_def codecs exampleISC_def Let_def)
  have "\<exists>res. BuildNodeIndependentLauncherTemplate (marshalPod ?env) (sha256std ?env) exampleLC = Inr res"
    unfolding Build_ok_iff by (simp add: exampleLC_def blank_defs launcherlessEnv_def dpExampleEnv_def)
  then obtain tmpl h where tmpl: "BuildNodeIndependentLauncherTemplate (marshalPod ?env) (sha256std ?env) exampleLC = Inr (tmpl, h)" by auto
  have "byIndex ?env launcherConfigHashIndexFunc k = []" for k by (simp add: byIndex_def launcherless_fields)
  moreover have "\<exists>q. newLauncherPod ?env launcherRequester p d = Inr q" for p
    by (simp add: newLauncherPod_def applyControllerMetadataToLauncherPod_def validateISCRoutingMetadata_def d codecs)
  ultimately have "roomForInstance ?env (getServerData dpExampleState ''n1'' ''r1'' ''u1'') ''n1'' ''u1'' launcherRequester d"
    by (simp add: roomForInstance_def s launcherless_fields d tmpl)
  with d show ?thesis by blast
qed

theorem launcher_requester_is_served_witness:
  "\<exists>d st1 st2 cs. infSvrItem_process launcherlessEnv dpExampleState ''n1'' ''u1'' ''r1'' = (st1, prDone) \<and> bindsLauncher launcherRequester d st1 \<and>
     infSvrItem_process (dpExampleEnv [launcherRequester, boundLauncher]) st1 ''n1'' ''u1'' ''r1'' = (st2, prDone) \<and> dcalls st2 = dcalls st1 @ cs \<and>
     acceptedHTTP ''PUT'' (launcherBaseURL boundLauncher @ instancesPath @ ''/'' @ visInstanceID d) cs \<and>
     acceptedHTTP ''POST'' (serverURL boundLauncher (visServerPort d) @ ''/wake_up'') cs \<and>
     acceptedHTTP ''POST'' (''http://10.0.0.2:'' @ adminPortOf launcherRequester @ BecomeReadyPath) cs"
proof -
  let ?env2 = "dpExampleEnv [launcherRequester, boundLauncher]" and ?node = "blankNode\<lparr>Name := ''n1''\<rparr>"
  obtain d where d: "roomForInstance launcherlessEnv (getServerData dpExampleState ''n1'' ''r1'' ''u1'') ''n1'' ''u1'' launcherRequester d"
    "visIscLabels d = []" "visIscAnnotations d = []" using launcherless_room by blast
  have "livingRequester launcherlessEnv ''r1'' launcherRequester ?node" "byIndex launcherlessEnv requesterIndexFunc ''u1'' = []"
    by (simp_all add: livingRequester_def launcherless_fields byIndex_def blank_defs)
  moreover have "livingRequester ?env2 ''r1'' launcherRequester ?node" "byIndex ?env2 requesterIndexFunc ''u1'' = [boundLauncher]"
    by (simp_all add: livingRequester_def byIndex_def blank_defs)
  moreover have "mget (InferenceServers (nodeOf dpExampleState ''n1'')) ''u1'' = None"
    by (simp add: dpExampleState_def nodeOf_def newNodeData_def)
  moreover have "validateISCRoutingMetadata ?env2 p (visIscLabels d) (visIscAnnotations d) = []" for p
    by (simp add: validateISCRoutingMetadata_def d)
  moreover have "IsPodReady boundLauncher" "PodIP (Status boundLauncher) \<noteq> []"
    using exampleLauncher_fields(1,2) by (simp_all add: IsPodReady_def GetPodCondition_def)
  ultimately obtain st1 st2 cs where run: "infSvrItem_process launcherlessEnv dpExampleState ''n1'' ''u1'' ''r1'' = (st1, prDone)" "bindsLauncher launcherRequester d st1"
    "infSvrItem_process ?env2 st1 ''n1'' ''u1'' ''r1'' = (st2, prDone)" "dcalls st2 = dcalls st1 @ cs"
    and shown: "instanceIn ?env2 boundLauncher (visInstanceID d) (visCfg d) cs" "awakeAfter ?env2 boundLauncher (visServerPort d) None cs"
      "relayedBy launcherRequester True None cs"
    using launcher_requester_is_served [OF launcherless_fields(6), of "''r1''" launcherRequester ?node "''u1''" dpExampleState "''n1''" d
        ?env2 launcherRequester ?node boundLauncher] d(1) launcherless_fields(7)
    by (simp add: blank_defs) blast
  have env2: "decodeAllInstances ?env2 b = Inr \<lparr>TotalInstances = 0, RunningInstances = 0, Instances = []\<rparr>" "decodeSleepState ?env2 b = Inr True" for b
    by (simp_all add: dpExampleEnv_def)
  have "acceptedHTTP ''PUT'' (launcherBaseURL boundLauncher @ instancesPath @ ''/'' @ visInstanceID d) cs"
    using shown(1) unfolding instanceIn_def acceptedHTTP_def env2 by fastforce
  moreover have "acceptedHTTP ''POST'' (serverURL boundLauncher (visServerPort d) @ ''/wake_up'') cs"
    using shown(2) unfolding awakeAfter_def env2 by simp
  moreover have "acceptedHTTP ''POST'' (''http://10.0.0.2:'' @ adminPortOf launcherRequester @ BecomeReadyPath) cs"
    using shown(3) by (simp add: relayedBy_def getContainerStatus_def SliceGetByFeature_find) (simp add: launcherRequester_def blank_defs)
  ultimately show ?thesis using run by blast
qed

end
