(* ===== verification/Spec2Isabelle.thy ===== *)
theory Spec2Isabelle
  imports Entry_Points Test_Server Launcher_Serving
begin

text \<open>
  Verification of llm-d fast model actuation: the controllers that start inference servers quickly by
  waking a sleeping server, or by starting a model in a launcher that is already running, instead of
  creating a server from nothing.

  \<^bold>\<open>The program.\<close>  A client creates a \<^emph>\<open>server-requesting\<close> Pod.  A stub in it
  (\<^verbatim>\<open>pkg/server/requester\<close>) tells which GPUs the Pod was given and reports readiness.  The
  \<^emph>\<open>dual-pods controller\<close> (\<^verbatim>\<open>pkg/controller/dual-pods\<close>) gives the requester a \<^emph>\<open>server-providing\<close> Pod on
  the same Node and GPUs: for a requester with a server patch a Pod of its own, asleep or new; for one
  that names an InferenceServerConfig a vLLM instance in a launcher Pod.  It binds the two, wakes the
  server, relays readiness, and unbinds and puts the server to sleep when the requester goes.  The
  \<^emph>\<open>launcher populator\<close> (\<^verbatim>\<open>pkg/controller/launcher-populator\<close>) keeps the number of launcher Pods per
  Node and LauncherConfig that the LauncherPopulationPolicies ask for.  Both run their work through the
  queues and workers of \<^verbatim>\<open>pkg/controller/generic\<close>.  They interact only through Pods, by the labels and
  annotations that theory \<open>Kube\<close> names.

  \<^bold>\<open>Conventions.\<close>  A function of the code is a definition of the same name, composed as in the code.  What
  the program does not contain is an argument, the record \<open>env\<close>: the API server, the informer caches, HTTP
  peers, clocks, hashes and codecs.  Its answers may depend on all calls made so far, so a theorem about
  every \<open>env\<close> covers every behaviour of the cluster, with failures and changes between calls.  State is
  passed explicitly, and the calls made are part of it, in order.  Errors are values; a run-time panic
  is a value too (\<open>Panics\<close>, \<open>GoPanic\<close>, \<open>SelectPanics\<close>).  Go maps that the code ranges over are
  association lists, so that every order of iteration is covered (theory \<open>Prelude\<close>).

  \<^bold>\<open>Theories.\<close>
  \<^item> \<open>Prelude\<close>: Go maps, strings, decimal numbers, sorting; the lemma collections.
  \<^item> \<open>Generics\<close> (\<^verbatim>\<open>utils/generics.go\<close>) and \<open>Kube\<close> (the API types and names, \<^verbatim>\<open>pkg/api\<close>, \<^verbatim>\<open>common\<close>,
    \<^verbatim>\<open>api/fma/v1alpha1\<close>).
  \<^item> \<open>Pod_Helper\<close> (\<^verbatim>\<open>utils/pod-helper.go\<close>): readiness, ports, the template of a launcher Pod and its hash.  A
    template fulfils its contract and does not depend on the order of the lists that the code sorts, as far as
    different elements differ in what it compares; entries of \<^verbatim>\<open>envFrom\<close> with one prefix do not
    (\<open>envFrom_order_is_hashed\<close>).
  \<^item> \<open>Expectations\<close> (\<^verbatim>\<open>pending_expectations.go\<close>): creations and deletions the cache does not show yet.
  \<^item> \<open>Phases\<close> (\<^verbatim>\<open>metrics.go\<close>): phases of launchers and the gauge; the gauge is the sum of the latest tallies.
  \<^item> \<open>Digest\<close>, \<open>Digest_Sync\<close> (\<^verbatim>\<open>digested-policy.go\<close>, \<^verbatim>\<open>digest-updater.go\<close>, \<^verbatim>\<open>node-matcher.go\<close>,
    \<^verbatim>\<open>populator_status_handler.go\<close>): the digest of the policies is maintained incrementally by items in any
    order, with retries; \<open>Digest_Sync\<close> makes a step relation of it and shows that with no item pending it
    is the function of the current objects that \<open>specSnapshot\<close> defines, in every history in which equal
    Generations of policies of one name mean equal counts and selectors (\<open>generationsTell\<close>).
  \<^item> \<open>Populator\<close>, \<open>Populator_Loop\<close> (\<^verbatim>\<open>populator.go\<close>, \<^verbatim>\<open>helpers.go\<close>): one pass over a key, and passes over a
    cluster that obeys; bound launchers are never deleted, the desired number is respected and reached.  Two histories in which
    a pass panics are shown: a LauncherConfig deleted while the policies still refer to it in the digest, and a
    policy that is created again with the Generation of its predecessor.
  \<^item> \<open>Dual_State\<close>, \<open>Node_Queue\<close> (\<^verbatim>\<open>dual-pods/controller.go\<close>): the data of the dual-pods controller, its event
    handlers, indices, GPU map and the queue of each Node.  The locale \<open>timed_queue\<close> is the contract of a
    queue whose items become due, interpreted on the queue of a Node.
  \<^item> \<open>Launcher_Pool\<close> (\<^verbatim>\<open>launcherclient.go\<close> and the selection of a launcher), \<open>Binding\<close> (instance state in
    annotations, routing labels, finalizers, the sleeper budget, binding and unbinding),
    \<open>Inference_Server\<close> (the \<^verbatim>\<open>process\<close> methods): \<^verbatim>\<open>inference-server.go\<close>.
  \<^item> \<open>Call_Policy\<close>: what a run may ask of the cluster, as a predicate on calls after a history, with rules
    that follow the control flow; the locales \<open>core_policy\<close> and \<open>lenient_policy\<close> prove once that the
    operations which only query, report or tidy follow every policy of that shape.
  \<^item> \<open>Server_Run\<close>: whole runs of an inference server item: servers are woken only when bound, at most one
    provider is bound, only what may be deleted is deleted (of other Pods only such as the GPU index lists for
    the GPUs of the requester), the data stay in order.
  \<^item> \<open>Node_Run\<close>: a pass over the items of a Node loses none that asked for a retry, and the collection of
    instances deletes only sleeping obsolete ones.
  \<^item> \<open>No_Panic\<close>: an item does not end in a run-time panic when the data of its server are in order.
  \<^item> \<open>Work_Queue\<close> (\<^verbatim>\<open>pkg/controller/generic\<close>): the goroutines of the workers as a step relation over all
    interleavings; the locale \<open>sentinels\<close> is what the generic code needs of its users.
  \<^item> \<open>Startup\<close>: construction and \<^verbatim>\<open>Start\<close> of both controllers, which interpret \<open>sentinels\<close>; start-up
    terminates, and the populator acts only after the initial objects are digested.
  \<^item> \<open>Histories\<close>: the states that the dual-pods controller reaches from its start, by notifications, readings of
    the GPU map and processings of items, as an inductive predicate.  Every step sees a world of its own, and
    items of several workers interleave between items.  The data of the servers
    stay in order (given that the Pod under the name of a requester is that requester, \<open>knownRequester\<close>, which the
    code takes for granted), and so no queue item ever ends in a panic.
  \<^item> \<open>Serving\<close>, \<open>Launcher_Serving\<close>: progress.  In a world that obliges, a requester with a server patch gets its provider,
    one that names an InferenceServerConfig gets a launcher and the instance in it, and then an awake server
    whose readiness is relayed; the accepted calls of the run, and not only the data it keeps, show it.
  \<^item> \<open>Requester_Stub\<close> (\<^verbatim>\<open>pkg/server/requester\<close>, \<^verbatim>\<open>pkg/spi\<close>): the HTTP handlers of the requester, the relay of
    the log, and the stub put in the place of the controller's HTTP peer.  Writes of the log may fail after
    a part (\<open>loggedAs\<close>): that part is written again.
  \<^item> \<open>Test_Server\<close> (\<^verbatim>\<open>cmd/test-server\<close>): the stand-in for an inference server, put in the place of the controller's
    HTTP peer; controller and server agree on who sleeps.
  \<^item> \<open>GPU_Alloc\<close> (\<^verbatim>\<open>cmd/test-requester/gpu-allocation.go\<close>): GPUs shared out by a ConfigMap.
  \<^item> \<open>Entry_Points\<close> (\<^verbatim>\<open>cmd/*/main.go\<close>, \<^verbatim>\<open>pkg/common\<close>, \<^verbatim>\<open>pkg/observability\<close>): what each \<^verbatim>\<open>main\<close> checks, the settings it derives
    from its flags, the order in which it starts things and how it ends; the sleeper limit decides the memory
    limit, and a negative one leads to a panic.
  \<^item> this theory: what the dual-pods controller binds, the populator spares.

  \<^bold>\<open>Bounds and termination.\<close>  All definitions are total: loops of the code are recursion over the finite
  list they range over, no fuel is used.  Loops that wait (workers, polling) are step relations or
  recursion over the list of attempts; that they come to an end is the measure \<open>toBarrier\<close> for the
  workers.  Numbers that the code keeps in \<^verbatim>\<open>int64\<close> and that a peer or a flag can drive up wrap (\<open>wrap64\<close>,
  \<open>lenMinus\<close> for the sleeper limit); others
  are counts of objects in memory and are unbounded here.  The capacity that Go gives a slice beyond its
  length is open (\<open>spareCap\<close>), so both ways in which a slice that is too short fails are covered.

  \<^bold>\<open>Not modelled.\<close>  Log messages, latency histograms and the registration of metrics; contexts and their
  cancellation; the mutexes of the digest and of the Node data, whose critical sections are the atomic
  steps of the model; network listeners, signals and graceful shutdown; the parsing of the command line;
  generated clients, listers, informers and deep copies.  Steps of two workers of the dual-pods controller
  interleave between items and not within one, in which a worker holds the data of its own Node.
  The aliasing of the informer cache matters where finalizers are removed; it is modelled for the provider (theory
  \<open>Binding\<close>) and not for the requester, where \<open>ensureReqState\<close> takes the cached Pod as it was listed.
\<close>

subsection \<open>The dual-pods controller and the populator\<close>

lemma carries_isBound:
  assumes "carries r q" "CHR '' '' \<notin> set (UID r)" "CHR '' '' \<notin> set (Name r)"
  shows "isLauncherBoundToServerRequestingPod q = (True, Name r)"
  using assms by (simp add: carries_def isLauncherBoundToServerRequestingPod_def strings_Split_append strings_Split_none)

lemma isBound_same: "Annotations p RequesterAnnotationKey = Annotations q RequesterAnnotationKey \<Longrightarrow> isBound p = isBound q"
  by (simp add: isLauncherBoundToServerRequestingPod_def)

text \<open>
  C9: a Pod that the dual-pods controller binds is safe from the populator.  Whenever a run of an
  inference server item binds a provider, by an update or by creating it, the Pod that it writes is one
  that the populator takes for bound to that requester, and no pass of the populator, over any key and
  whatever the API server answers, deletes a Pod that carries this binding.
\<close>

theorem bound_providers_are_spared:
  assumes "serverInv env rn nn uid st" and "\<forall>r. podGet env rn = Inr r \<longrightarrow> r \<in> set (podCache env)"
    and "\<forall>r. podGet env rn = Inr r \<longrightarrow> CHR '' '' \<notin> set (UID r) \<and> CHR '' '' \<notin> set (Name r)"
    and "infSvrItem_process env st nn uid rn = (st', out)" and "dcalls st' = dcalls st @ pre @ c # post" and "binds env c"
  shows "\<exists>r q res. podGet env rn = Inr r \<and> (c = UpdatePod q res \<or> c = CreatePodD q res) \<and>
    isLauncherBoundToServerRequestingPod q = (True, Name r) \<and>
    (\<forall>penv dp pst key p dres. DeletePod p dres \<in> set (newCalls pst (fst (processKey penv dp pst key))) \<longrightarrow>
       Annotations p RequesterAnnotationKey \<noteq> Annotations q RequesterAnnotationKey)"
proof -
  obtain r q res where r: "podGet env rn = Inr r" and q: "carries r q" and c: "c = UpdatePod q res \<or> c = CreatePodD q res"
    using run_call [OF assms(1) _ assms(4,5)] assms(2,6)
    by (cases c) (auto simp: mayBind_def sameBound_def isRequester_def boundProviders_def)
  have bound: "isLauncherBoundToServerRequestingPod q = (True, Name r)"
    using carries_isBound [OF q] assms(3) r by blast
  have "Annotations p RequesterAnnotationKey \<noteq> Annotations q RequesterAnnotationKey"
    if "DeletePod p dres \<in> set (newCalls pst (fst (processKey penv dp pst key)))" for penv dp pst key p dres
    using deleted_is_free [OF that] isBound_same [of p q] bound by auto
  with r c bound show ?thesis by blast
qed

theorem bound_providers_are_spared_witness:
  "isBound directProvider \<and>
   \<not> (\<exists>penv (dp :: unit digestedPolicy) pst key p dres.
      DeletePod p dres \<in> set (newCalls pst (fst (processKey penv dp pst key))) \<and>
      Annotations p RequesterAnnotationKey = Annotations directProvider RequesterAnnotationKey)"
proof -
  let ?env = "dpExampleEnv [directRequester]"
  obtain post where run: "dcalls (fst (infSvrItem_process ?env directState ''n1'' ''u1'' ''r1'')) =
      dcalls directState @ [] @ CreatePodD directProvider (Inr directProvider) # post"
    using direct_creates by blast
  have inv: "serverInv ?env ''r1'' ''n1'' ''u1'' directState" by (rule direct_inv) simp
  have cache: "\<forall>r. podGet ?env ''r1'' = Inr r \<longrightarrow> r \<in> set (podCache ?env)" by simp
  have names: "\<forall>r. podGet ?env ''r1'' = Inr r \<longrightarrow> CHR '' '' \<notin> set (UID r) \<and> CHR '' '' \<notin> set (Name r)"
    by (simp add: directRequester_def)
  have "\<exists>r q res. podGet ?env ''r1'' = Inr r \<and>
    (CreatePodD directProvider (Inr directProvider) = UpdatePod q res \<or> CreatePodD directProvider (Inr directProvider) = CreatePodD q res) \<and>
    isLauncherBoundToServerRequestingPod q = (True, Name r) \<and>
    (\<forall>penv (dp :: unit digestedPolicy) pst key p dres.
       DeletePod p dres \<in> set (newCalls pst (fst (processKey penv dp pst key))) \<longrightarrow>
       Annotations p RequesterAnnotationKey \<noteq> Annotations q RequesterAnnotationKey)"
    by (rule bound_providers_are_spared [OF inv cache names prod.collapse [symmetric] run]) simp
  then show ?thesis by clarsimp metis
qed

end
